(* ===== verification/Zark_Prelude.thy ===== *)
theory Zark_Prelude
  imports Main "HOL-Library.AList" "HOL-Library.Sublist" "HOL-Library.Char_ord"
    "HOL-Library.List_Lexorder" "HOL-Library.Product_Lexorder"
begin

text \<open>
  What every component of the model shares: the lemma collections, Python's dictionaries
  (insertion-ordered, so an association list with distinct keys), the first-maximum rule of
  Python's \<open>max(xs, key=f)\<close>, and the order of dataset names by subtree.

  Strings are character lists ordered lexicographically, as Python orders \<open>str\<close>, and tuples are
  ordered lexicographically too; \<open>sort\<close> and \<open>sort_key\<close> are stable, as \<open>sorted\<close> is.
\<close>

named_theorems dict_simps "get, set and keys of Python dictionaries"
named_theorems under_rules "the subtree order on dataset names"


section \<open>Dictionaries\<close>

type_synonym ('k, 'v) dict = "('k \<times> 'v) list"

text \<open>\<open>d.get(k)\<close> is \<open>map_of d k\<close>; \<open>d[k] = v\<close> overwrites in place or appends at the end.\<close>

definition dict_set :: "'k \<Rightarrow> 'v \<Rightarrow> ('k, 'v) dict \<Rightarrow> ('k, 'v) dict" where
  "dict_set k v m = AList.update k v m"

definition dict_keys :: "('k, 'v) dict \<Rightarrow> 'k list" where
  "dict_keys m = map fst m"

definition dict_values :: "('k, 'v) dict \<Rightarrow> 'v list" where
  "dict_values m = map snd m"

definition wf_dict :: "('k, 'v) dict \<Rightarrow> bool" where
  "wf_dict m = distinct (dict_keys m)"

text \<open>\<open>d.get(k, default)\<close>.\<close>

definition dict_get_or :: "('k, 'v) dict \<Rightarrow> 'k \<Rightarrow> 'v \<Rightarrow> 'v" where
  "dict_get_or m k dflt = (case map_of m k of None \<Rightarrow> dflt | Some v \<Rightarrow> v)"

text \<open>\<open>d.setdefault(k, v)\<close> as a statement.\<close>

definition dict_setdefault :: "'k \<Rightarrow> 'v \<Rightarrow> ('k, 'v) dict \<Rightarrow> ('k, 'v) dict" where
  "dict_setdefault k v m = (case map_of m k of None \<Rightarrow> dict_set k v m | Some _ \<Rightarrow> m)"

text \<open>\<open>d.setdefault(k, []).append(x)\<close>, and the loop that groups a list with it.\<close>

definition dict_push :: "'k \<Rightarrow> 'a \<Rightarrow> ('k, 'a list) dict \<Rightarrow> ('k, 'a list) dict" where
  "dict_push k x m = dict_set k (dict_get_or m k [] @ [x]) m"

definition group_by :: "('a \<Rightarrow> 'k) \<Rightarrow> 'a list \<Rightarrow> ('k, 'a list) dict" where
  "group_by key xs = foldl (\<lambda>m x. dict_push (key x) x m) [] xs"

text \<open>\<open>d.pop(k)\<close> and \<open>del d[k]\<close>.\<close>

definition dict_del :: "'k \<Rightarrow> ('k, 'v) dict \<Rightarrow> ('k, 'v) dict" where
  "dict_del k m = filter (\<lambda>(k', _). k' \<noteq> k) m"


section \<open>The first maximum\<close>

text \<open>
  \<open>max(xs, key=f)\<close> returns the first element with the greatest key; \<open>None\<close> stands for the
  \<open>ValueError\<close> of an empty argument (or the \<open>default=None\<close>).
\<close>

definition max_by :: "('a \<Rightarrow> 'b::linorder) \<Rightarrow> 'a list \<Rightarrow> 'a option" where
  "max_by f xs =
     (case xs of [] \<Rightarrow> None
      | x # ys \<Rightarrow> Some (foldl (\<lambda>m y. if f m < f y then y else m) x ys))"


section \<open>Subtrees\<close>

text \<open>\<open>rel == top or rel.startswith(f"{top}/")\<close>: written out in seven modules of the source.\<close>

definition under :: "string \<Rightarrow> string \<Rightarrow> bool" where
  "under rel t = (rel = t \<or> prefix (t @ ''/'') rel)"

definition under_any :: "string \<Rightarrow> string list \<Rightarrow> bool" where
  "under_any rel tops = list_ex (under rel) tops"


section \<open>Lemmas on dictionaries\<close>

lemma find_SomeD: "find P xs = Some x \<Longrightarrow> x \<in> set xs \<and> P x"
  by (induction xs) (auto split: if_splits)

lemma map_of_dict_set [simp, dict_simps]: "map_of (dict_set k v m) = (map_of m)(k \<mapsto> v)"
  by (simp add: dict_set_def AList.update_conv')

lemma set_dict_keys [simp, dict_simps]: "set (dict_keys m) = dom (map_of m)"
  by (simp add: dict_keys_def dom_map_of_conv_image_fst)

lemma dict_keys_set:
  "dict_keys (dict_set k v m) = (if k \<in> set (dict_keys m) then dict_keys m else dict_keys m @ [k])"
  by (simp add: dict_set_def dict_keys_def AList.update_keys)

lemma wf_dict_set [simp, dict_simps]: "wf_dict m \<Longrightarrow> wf_dict (dict_set k v m)"
  by (auto simp: wf_dict_def dict_keys_set simp del: set_dict_keys)

lemma wf_dict_empty [simp]: "wf_dict []"
  by (simp add: wf_dict_def dict_keys_def)

lemma wf_dict_Cons: "wf_dict ((k, v) # m) \<longleftrightarrow> k \<notin> fst ` set m \<and> wf_dict m"
  by (simp add: wf_dict_def dict_keys_def)

lemma wf_dict_map_of: "wf_dict m \<Longrightarrow> (k, v) \<in> set m \<longleftrightarrow> map_of m k = Some v"
  by (auto simp: wf_dict_def dict_keys_def map_of_eq_Some_iff)

lemma map_of_in_keys: "map_of m k = Some v \<Longrightarrow> k \<in> fst ` set m"
  by (metis domI dom_map_of_conv_image_fst)

lemma wf_dict_setdefault [simp]: "wf_dict m \<Longrightarrow> wf_dict (dict_setdefault k v m)"
  by (auto simp: dict_setdefault_def split: option.split)

lemma map_of_setdefault [dict_simps]:
  "map_of (dict_setdefault k v m) =
     (case map_of m k of None \<Rightarrow> (map_of m)(k \<mapsto> v) | Some _ \<Rightarrow> map_of m)"
  by (simp add: dict_setdefault_def split: option.split)

lemma wf_dict_push [simp]: "wf_dict m \<Longrightarrow> wf_dict (dict_push k x m)"
  by (simp add: dict_push_def)

lemma map_of_dict_push [dict_simps]:
  "map_of (dict_push k x m) = (map_of m)(k \<mapsto> dict_get_or m k [] @ [x])"
  by (simp add: dict_push_def)

lemma wf_dict_del [simp]: "wf_dict m \<Longrightarrow> wf_dict (dict_del k m)"
  by (auto simp: wf_dict_def dict_keys_def dict_del_def distinct_map
      intro: inj_on_subset)

lemma map_of_dict_del [simp, dict_simps]: "map_of (dict_del k m) = (map_of m)(k := None)"
  by (induction m) (auto simp: dict_del_def fun_eq_iff)

lemma wf_dict_filter [simp]: "wf_dict m \<Longrightarrow> wf_dict (filter P m)"
  by (auto simp: wf_dict_def dict_keys_def distinct_map intro: inj_on_subset)

lemma map_of_filter_keys:
  "map_of (filter (\<lambda>(k, v). P k) m) k = (if P k then map_of m k else None)"
  by (induction m) auto

lemma map_of_filter_wf:
  "wf_dict m \<Longrightarrow> map_of (filter (\<lambda>(k, v). P k v) m) k =
     (case map_of m k of None \<Rightarrow> None | Some v \<Rightarrow> if P k v then Some v else None)"
  by (induction m)
     (auto simp: wf_dict_Cons split: option.splits dest: map_of_in_keys)

lemma keys_filter_sublist: "set (dict_keys (filter P m)) \<subseteq> set (dict_keys m)"
  by (auto simp: dict_keys_def)

text \<open>Grouping: each key holds exactly the elements with that key, in their order.\<close>

lemma group_by_snoc: "group_by key (xs @ [x]) = dict_push (key x) x (group_by key xs)"
  by (simp add: group_by_def)

lemma group_by_Nil [simp]: "group_by key [] = []"
  by (simp add: group_by_def)

lemma wf_group_by [simp]: "wf_dict (group_by key xs)"
  by (induction xs rule: rev_induct) (auto simp: group_by_snoc)

lemma map_of_group_by:
  "map_of (group_by key xs) k =
     (let ys = filter (\<lambda>x. key x = k) xs in if ys = [] then None else Some ys)"
  by (induction xs rule: rev_induct)
     (auto simp: group_by_snoc map_of_dict_push dict_get_or_def Let_def split: if_splits)

lemma group_by_member:
  "(k, ys) \<in> set (group_by key xs) \<longleftrightarrow> ys = filter (\<lambda>x. key x = k) xs \<and> ys \<noteq> []"
  by (auto simp: wf_dict_map_of map_of_group_by Let_def)

lemma set_keys_group_by: "fst ` set (group_by key xs) = key ` set xs"
  by (auto simp flip: dom_map_of_conv_image_fst
      simp: map_of_group_by Let_def filter_empty_conv split: if_splits)

text \<open>
  The contract a client of a dictionary relies on. The components state their lemmas over
  \<open>map_of\<close> and \<open>dict_set\<close>; what follows from the contract alone is proved once here.
\<close>

locale py_dict =
  fixes get :: "'m \<Rightarrow> 'k \<Rightarrow> 'v option"
    and put :: "'k \<Rightarrow> 'v \<Rightarrow> 'm \<Rightarrow> 'm"
    and keys :: "'m \<Rightarrow> 'k list"
    and wf :: "'m \<Rightarrow> bool"
  assumes get_put: "get (put k v m) k' = (if k' = k then Some v else get m k')"
    and keys_put: "keys (put k v m) = (if k \<in> set (keys m) then keys m else keys m @ [k])"
    and get_keys: "get m k \<noteq> None \<longleftrightarrow> k \<in> set (keys m)"
    and wf_put: "wf m \<Longrightarrow> wf (put k v m)"
begin

text \<open>A loop that stores one entry per element.\<close>

definition put_all :: "('a \<Rightarrow> 'k) \<Rightarrow> ('a \<Rightarrow> 'v) \<Rightarrow> 'a list \<Rightarrow> 'm \<Rightarrow> 'm" where
  "put_all kf vf xs m = foldl (\<lambda>d x. put (kf x) (vf x) d) m xs"

lemma put_all_Nil [simp]: "put_all kf vf [] m = m"
  by (simp add: put_all_def)

lemma put_all_Cons [simp]: "put_all kf vf (x # xs) m = put_all kf vf xs (put (kf x) (vf x) m)"
  by (simp add: put_all_def)

lemma wf_put_all: "wf m \<Longrightarrow> wf (put_all kf vf xs m)"
  by (induction xs arbitrary: m) (auto intro: wf_put)

lemma get_put_all:
  "get (put_all kf vf xs m) k =
     (case find (\<lambda>x. kf x = k) (rev xs) of None \<Rightarrow> get m k | Some x \<Rightarrow> Some (vf x))"
proof (induction xs rule: rev_induct)
  case Nil
  then show ?case by simp
next
  case (snoc x xs)
  have "put_all kf vf (xs @ [x]) m = put (kf x) (vf x) (put_all kf vf xs m)"
    by (simp add: put_all_def)
  with snoc.IH show ?case by (simp add: get_put)
qed

lemma get_put_all_distinct:
  assumes "distinct (map kf xs)" and "x \<in> set xs"
  shows "get (put_all kf vf xs m) (kf x) = Some (vf x)"
proof -
  have "find (\<lambda>y. kf y = kf x) (rev xs) = Some x"
  proof (cases "find (\<lambda>y. kf y = kf x) (rev xs)")
    case None
    with assms(2) show ?thesis by (auto simp: find_None_iff)
  next
    case (Some y)
    then have "y \<in> set xs" "kf y = kf x"
      using find_SomeD [OF Some] by simp_all
    with assms have "y = x" by (auto simp: distinct_map inj_on_def)
    with Some show ?thesis by simp
  qed
  then show ?thesis by (simp add: get_put_all)
qed

lemma keys_put_all_subset: "set (keys (put_all kf vf xs m)) = set (keys m) \<union> kf ` set xs"
  by (induction xs arbitrary: m) (auto simp: keys_put)

end

interpretation pd: py_dict map_of dict_set dict_keys wf_dict
  by unfold_locales (auto simp: dict_keys_set)


section \<open>Lemmas on the first maximum\<close>

lemma max_by_fold_props:
  fixes f :: "'a \<Rightarrow> 'b::linorder"
  defines "step \<equiv> \<lambda>m y. if f m < f y then y else m"
  shows "foldl step x ys \<in> set (x # ys) \<and> (\<forall>z \<in> set (x # ys). f z \<le> f (foldl step x ys))"
proof (induction ys rule: rev_induct)
  case Nil
  then show ?case by simp
next
  case (snoc y ys)
  then show ?case by (auto simp: step_def)
qed

lemma max_by_None [simp]: "max_by f xs = None \<longleftrightarrow> xs = []"
  by (simp add: max_by_def split: list.split)

lemma max_by_Some:
  assumes "max_by f xs = Some m"
  shows "m \<in> set xs" and "z \<in> set xs \<Longrightarrow> f z \<le> f m"
  using assms max_by_fold_props [of f]
  by (auto simp: max_by_def split: list.splits)

lemma max_by_exists: "xs \<noteq> [] \<Longrightarrow> \<exists>m. max_by f xs = Some m"
  by (simp add: max_by_def split: list.split)


section \<open>The subtree order\<close>

lemma under_refl [simp, under_rules]: "under x x"
  by (simp add: under_def)

lemma under_iff: "under rel t \<longleftrightarrow> (\<exists>s. rel = t @ s \<and> (s = [] \<or> hd s = CHR ''/''))"
proof
  assume "under rel t"
  then show "\<exists>s. rel = t @ s \<and> (s = [] \<or> hd s = CHR ''/'')"
    by (auto simp: under_def prefix_def)
next
  assume "\<exists>s. rel = t @ s \<and> (s = [] \<or> hd s = CHR ''/'')"
  then obtain s where s: "rel = t @ s" "s = [] \<or> hd s = CHR ''/''" by blast
  then show "under rel t" by (cases s) (auto simp: under_def)
qed

lemma under_prefix: "under rel t \<Longrightarrow> prefix t rel"
  by (auto simp: under_iff)

lemma under_trans [under_rules]: "under a b \<Longrightarrow> under b c \<Longrightarrow> under a c"
  by (force simp: under_iff hd_append)

lemma under_antisym: "under a b \<Longrightarrow> under b a \<Longrightarrow> a = b"
  by (auto simp: under_iff)

lemma under_linear: "under a t \<Longrightarrow> under a u \<Longrightarrow> under t u \<or> under u t"
  by (auto simp: under_iff append_eq_append_conv2)

lemma under_any_iff: "under_any rel tops \<longleftrightarrow> (\<exists>t \<in> set tops. under rel t)"
  by (simp add: under_any_def list_ex_iff)

text \<open>
  What the code relies on when it names a subtree by its top: the relation is a forest order.
  Every member of a finite set of names then lies under exactly one top of the set.
\<close>

locale forest =
  fixes below :: "'n \<Rightarrow> 'n \<Rightarrow> bool"
  assumes refl: "below x x"
    and trans: "below a b \<Longrightarrow> below b c \<Longrightarrow> below a c"
    and antisym: "below a b \<Longrightarrow> below b a \<Longrightarrow> a = b"
    and linear: "below a t \<Longrightarrow> below a u \<Longrightarrow> below t u \<or> below u t"
begin

definition is_top :: "'n set \<Rightarrow> 'n \<Rightarrow> bool" where
  "is_top S t \<longleftrightarrow> t \<in> S \<and> (\<forall>u \<in> S. below t u \<longrightarrow> u = t)"

lemma tops_unique: "is_top S t \<Longrightarrow> is_top S u \<Longrightarrow> below x t \<Longrightarrow> below x u \<Longrightarrow> t = u"
  using linear unfolding is_top_def by blast

lemma exists_top:
  assumes "finite S" and "x \<in> S"
  shows "\<exists>t. is_top S t \<and> below x t"
proof -
  let ?up = "\<lambda>a. {u \<in> S. below a u}"
  have "\<exists>t. t \<in> ?up x \<and> (\<forall>u. u \<in> ?up x \<longrightarrow> card (?up t) \<le> card (?up u))"
    using ex_has_least_nat [of "\<lambda>u. u \<in> ?up x" x "\<lambda>u. card (?up u)"] assms(2) refl by auto
  then obtain t where t: "t \<in> S" "below x t"
    and least: "\<And>u. u \<in> S \<Longrightarrow> below x u \<Longrightarrow> card (?up t) \<le> card (?up u)" by auto
  have "u = t" if "u \<in> S" "below t u" for u
  proof (rule ccontr)
    assume "u \<noteq> t"
    with that have "t \<notin> ?up u" using antisym by blast
    moreover have "t \<in> ?up t" using t refl by blast
    moreover have "?up u \<subseteq> ?up t" using that trans by blast
    ultimately have "?up u \<subset> ?up t" by blast
    then have "card (?up u) < card (?up t)"
      using assms(1) by (intro psubset_card_mono) auto
    with least [of u] that t trans show False by (meson leD)
  qed
  with t show ?thesis unfolding is_top_def by blast
qed

end

interpretation ds: forest under
  by unfold_locales (auto intro: under_trans under_antisym dest: under_linear)

end
