(* ===== verification/Py_Text.thy ===== *)
theory Py_Text
  imports Zark_Prelude
begin

text \<open>
  The parts of Python's \<open>str\<close>, \<open>int\<close> and \<open>re\<close> the modelled modules use, over ASCII strings:
  \<open>startswith\<close>, \<open>split\<close>, \<open>partition\<close>, \<open>strip\<close>, \<open>isdigit\<close>, \<open>int()\<close>, \<open>str()\<close> of a number and
  zero-padded numbers. Dataset, snapshot and property names are ASCII in ZFS.
\<close>

datatype py_error = ValueError | KeyError | IndexError | AssertionError


section \<open>Digits and numbers\<close>

definition is_digit :: "char \<Rightarrow> bool" where
  "is_digit c = (c \<in> set ''0123456789'')"

definition digit :: "nat \<Rightarrow> char" where
  "digit n = ''0123456789'' ! n"

definition digit_val :: "char \<Rightarrow> nat" where
  "digit_val c = of_char c - 48"

text \<open>\<open>s.isdigit()\<close>.\<close>

definition isdigit :: "string \<Rightarrow> bool" where
  "isdigit s = (s \<noteq> [] \<and> list_all is_digit s)"

definition dec_val :: "string \<Rightarrow> nat" where
  "dec_val s = foldl (\<lambda>n c. 10 * n + digit_val c) 0 s"

fun dec_of_nat :: "nat \<Rightarrow> string" where
  "dec_of_nat n = (if n < 10 then [digit n] else dec_of_nat (n div 10) @ [digit (n mod 10)])"

declare dec_of_nat.simps [simp del]

text \<open>\<open>str\<close> of an integer.\<close>

definition py_str :: "int \<Rightarrow> string" where
  "py_str i = (if i < 0 then ''-'' @ dec_of_nat (nat (- i)) else dec_of_nat (nat i))"

text \<open>\<open>f"{n:02d}"\<close> for \<open>n < 100\<close> and \<open>%Y\<close> for a year of four digits.\<close>

definition pad2 :: "nat \<Rightarrow> string" where
  "pad2 n = [digit (n div 10 mod 10), digit (n mod 10)]"

definition pad4 :: "nat \<Rightarrow> string" where
  "pad4 n = [digit (n div 1000 mod 10), digit (n div 100 mod 10), digit (n div 10 mod 10),
             digit (n mod 10)]"


section \<open>Searching and cutting\<close>

definition startswith :: "string \<Rightarrow> string \<Rightarrow> bool" where
  "startswith s p = prefix p s"

definition endswith :: "string \<Rightarrow> string \<Rightarrow> bool" where
  "endswith s p = suffix p s"

text \<open>\<open>p in s\<close> for strings.\<close>

definition contains :: "string \<Rightarrow> string \<Rightarrow> bool" where
  "contains s p = sublist p s"

text \<open>\<open>s.split(c)\<close> for one character.\<close>

fun split_on :: "char \<Rightarrow> string \<Rightarrow> string list" where
  "split_on c [] = [[]]"
| "split_on c (x # xs) =
     (if x = c then [] # split_on c xs
      else (case split_on c xs of [] \<Rightarrow> [[x]] | w # ws \<Rightarrow> (x # w) # ws))"

fun join_on :: "string \<Rightarrow> string list \<Rightarrow> string" where
  "join_on sep [] = []"
| "join_on sep [w] = w"
| "join_on sep (w # ws) = w @ sep @ join_on sep ws"

text \<open>\<open>s.partition(c)\<close>: the text before the first \<open>c\<close>, whether there is one, the text after it.\<close>

definition partition_on :: "char \<Rightarrow> string \<Rightarrow> string \<times> bool \<times> string" where
  "partition_on c s =
     (let a = takeWhile (\<lambda>x. x \<noteq> c) s; r = dropWhile (\<lambda>x. x \<noteq> c) s
      in (a, r \<noteq> [], tl r))"

text \<open>\<open>s.rsplit(c, 1)\<close>: the text before the last \<open>c\<close> and after it (the whole text when there is
  none: the first part is then unused by the callers, which test \<open>c in s\<close> first).\<close>

definition rsplit_last :: "char \<Rightarrow> string \<Rightarrow> string \<times> string" where
  "rsplit_last c s =
     (rev (tl (dropWhile (\<lambda>x. x \<noteq> c) (rev s))), rev (takeWhile (\<lambda>x. x \<noteq> c) (rev s)))"

text \<open>\<open>s.strip()\<close>: Python's white space among the ASCII characters.\<close>

definition is_space :: "char \<Rightarrow> bool" where
  "is_space c = (let n = of_char c :: nat in n = 32 \<or> (9 \<le> n \<and> n \<le> 13) \<or> (28 \<le> n \<and> n \<le> 31))"

definition rstrip_where :: "(char \<Rightarrow> bool) \<Rightarrow> string \<Rightarrow> string" where
  "rstrip_where P s = rev (dropWhile P (rev s))"

definition strip :: "string \<Rightarrow> string" where
  "strip s = rstrip_where is_space (dropWhile is_space s)"

text \<open>
  \<open>int(s)\<close>: white space around, an optional sign, digits with single underscores between them;
  \<open>None\<close> is \<open>ValueError\<close>.
\<close>

fun int_digits :: "string \<Rightarrow> string option" where
  "int_digits [] = None"
| "int_digits [c] = (if is_digit c then Some [c] else None)"
| "int_digits (c # d # s) =
     (if \<not> is_digit c then None
      else if d = CHR ''_'' then map_option ((#) c) (int_digits s)
      else map_option ((#) c) (int_digits (d # s)))"

definition py_int :: "string \<Rightarrow> int option" where
  "py_int s =
     (let t = strip s in
      case t of [] \<Rightarrow> None
      | c # u \<Rightarrow>
          if c = CHR ''-'' then map_option (\<lambda>d. - int (dec_val d)) (int_digits u)
          else if c = CHR ''+'' then map_option (\<lambda>d. int (dec_val d)) (int_digits u)
          else map_option (\<lambda>d. int (dec_val d)) (int_digits t))"


section \<open>Lemmas\<close>

lemma less_10_cases: "(n::nat) < 10 \<Longrightarrow> n \<in> {0, 1, 2, 3, 4, 5, 6, 7, 8, 9}"
  by auto

lemma digit_val_digit [simp]: "n < 10 \<Longrightarrow> digit_val (digit n) = n"
  by (drule less_10_cases) (auto simp: digit_val_def digit_def)

lemma is_digit_digit [simp]: "n < 10 \<Longrightarrow> is_digit (digit n)"
  by (drule less_10_cases) (auto simp: is_digit_def digit_def)

lemma digit_less_iff: "m < 10 \<Longrightarrow> n < 10 \<Longrightarrow> digit m < digit n \<longleftrightarrow> m < n"
  by (drule less_10_cases, drule less_10_cases) (auto simp: digit_def)

lemma digit_eq_iff: "m < 10 \<Longrightarrow> n < 10 \<Longrightarrow> digit m = digit n \<longleftrightarrow> m = n"
  by (metis digit_val_digit)

lemma digit_digit_val [simp]: "is_digit c \<Longrightarrow> digit (digit_val c) = c"
  by (auto simp: is_digit_def digit_def digit_val_def)

lemma digit_val_less [simp]: "is_digit c \<Longrightarrow> digit_val c < 10"
  by (auto simp: is_digit_def digit_val_def)

lemma dec_val_snoc: "dec_val (s @ [c]) = 10 * dec_val s + digit_val c"
  by (simp add: dec_val_def)

lemma dec_val_dec_of_nat [simp]: "dec_val (dec_of_nat n) = n"
proof (induction n rule: dec_of_nat.induct)
  case (1 n)
  then show ?case
    by (cases "n < 10")
       (simp_all add: dec_of_nat.simps [of n] dec_val_snoc, simp add: dec_val_def)
qed

lemma dec_of_nat_digits: "list_all is_digit (dec_of_nat n)"
proof (induction n rule: dec_of_nat.induct)
  case (1 n)
  then show ?case by (cases "n < 10") (simp_all add: dec_of_nat.simps [of n])
qed

lemma dec_of_nat_nonempty [simp]: "dec_of_nat n \<noteq> []"
  by (simp add: dec_of_nat.simps [of n])

lemma isdigit_dec_of_nat [simp]: "isdigit (dec_of_nat n)"
  by (simp add: isdigit_def dec_of_nat_digits)

lemma dec_of_nat_inj [simp]: "dec_of_nat m = dec_of_nat n \<longleftrightarrow> m = n"
  by (metis dec_val_dec_of_nat)

lemma dec_val_pad2 [simp]: "n < 100 \<Longrightarrow> dec_val (pad2 n) = n"
  by (simp add: dec_val_def pad2_def)

lemma dec_val_pad4 [simp]: "n < 10000 \<Longrightarrow> dec_val (pad4 n) = n"
proof -
  assume "n < 10000"
  then have "n div 1000 < 10" by simp
  moreover have "10 * (n div 1000) + n div 100 mod 10 = n div 100"
    "10 * (n div 100) + n div 10 mod 10 = n div 10"
    using div_mult2_eq [of n 100 10] div_mult2_eq [of n 10 10] by simp_all
  ultimately show ?thesis by (simp add: dec_val_def pad4_def)
qed

lemma length_pad [simp]: "length (pad2 n) = 2" "length (pad4 n) = 4"
  by (simp_all add: pad2_def pad4_def)

lemma digits_pad [simp]: "list_all is_digit (pad2 n)" "list_all is_digit (pad4 n)"
  by (simp_all add: pad2_def pad4_def)

text \<open>Equal-length prefixes decide a lexicographic comparison first.\<close>

lemma append_less_iff:
  fixes a b :: "'a::linorder list"
  assumes "length a = length b"
  shows "a @ x < b @ y \<longleftrightarrow> a < b \<or> (a = b \<and> x < y)"
  using assms by (induction a b rule: list_induct2) auto

lemma div_mod_less_iff:
  fixes m n k :: nat
  shows "m div k < n div k \<or> (m div k = n div k \<and> m mod k < n mod k) \<longleftrightarrow> m < n"
proof (cases "m div k" "n div k" rule: linorder_cases)
  case less
  then have "\<not> n \<le> m" using div_le_mono [of n m k] by linarith
  with less show ?thesis by simp
next
  case equal
  then show ?thesis
    by (metis add_less_cancel_left less_irrefl mult_div_mod_eq)
next
  case greater
  then have "\<not> m \<le> n" using div_le_mono [of m n k] by linarith
  with greater show ?thesis by simp
qed

lemma pad2_less_iff:
  assumes "m < 100" and "n < 100"
  shows "pad2 m < pad2 n \<longleftrightarrow> m < n"
proof -
  have "m div 10 mod 10 = m div 10" "n div 10 mod 10 = n div 10" using assms by simp_all
  then show ?thesis using assms div_mod_less_iff [of m 10 n]
    by (simp add: pad2_def digit_less_iff digit_eq_iff)
qed

lemma pad2_eq_iff: "m < 100 \<Longrightarrow> n < 100 \<Longrightarrow> pad2 m = pad2 n \<longleftrightarrow> m = n"
  by (metis dec_val_pad2)

lemma pad4_split: "pad4 n = pad2 (n div 100) @ pad2 (n mod 100)"
proof -
  have "n mod 100 div 10 mod 10 = n div 10 mod 10"
    using mod_mult2_eq [of n 10 10] by simp
  moreover have "n mod 100 mod 10 = n mod 10"
    by (simp add: mod_mod_cancel)
  moreover have "n div 100 div 10 = n div 1000"
    using div_mult2_eq [of n 100 10] by simp
  ultimately show ?thesis by (simp add: pad2_def pad4_def)
qed

lemma pad4_less_iff:
  assumes "m < 10000" and "n < 10000"
  shows "pad4 m < pad4 n \<longleftrightarrow> m < n"
proof -
  have "m div 100 < 100" "n div 100 < 100" using assms by simp_all
  then show ?thesis using div_mod_less_iff [of m 100 n]
    by (simp add: pad4_split append_less_iff pad2_less_iff pad2_eq_iff)
qed

lemma pad4_eq_iff: "m < 10000 \<Longrightarrow> n < 10000 \<Longrightarrow> pad4 m = pad4 n \<longleftrightarrow> m = n"
  by (metis dec_val_pad4)

lemma pad2_dec_val:
  assumes "is_digit a" and "is_digit b"
  shows "pad2 (dec_val [a, b]) = [a, b]" and "dec_val [a, b] < 100"
proof -
  have "digit_val a < 10" "digit_val b < 10" using assms by simp_all
  then show "pad2 (dec_val [a, b]) = [a, b]" "dec_val [a, b] < 100"
    using assms by (simp_all add: dec_val_def pad2_def del: digit_val_less)
qed

text \<open>Splitting and joining are inverse; no part holds the separator.\<close>

lemma split_on_nonempty [simp]: "split_on c s \<noteq> []"
  by (induction s) (auto split: list.split)

lemma join_split_on [simp]: "join_on [c] (split_on c s) = s"
proof (induction s)
  case Nil
  then show ?case by simp
next
  case (Cons x s)
  obtain w ws where "split_on c s = w # ws"
    by (meson list.exhaust split_on_nonempty)
  with Cons show ?case by (cases ws) auto
qed

lemma split_on_no_sep: "w \<in> set (split_on c s) \<Longrightarrow> c \<notin> set w"
  by (induction s arbitrary: w) (auto split: if_splits list.splits)

lemma split_on_id: "c \<notin> set s \<Longrightarrow> split_on c s = [s]"
  by (induction s) auto

lemma split_on_append:
  "c \<notin> set a \<Longrightarrow> split_on c (a @ c # s) = a # split_on c s"
  by (induction a) auto

lemma takeWhile_upto_sep: "c \<notin> set a \<Longrightarrow> takeWhile (\<lambda>x. x \<noteq> c) (a @ c # s) = a"
  by (induction a) auto

lemma dropWhile_upto_sep: "c \<notin> set a \<Longrightarrow> dropWhile (\<lambda>x. x \<noteq> c) (a @ c # s) = c # s"
  by (induction a) auto

lemma partition_on_sep:
  "c \<notin> set a \<Longrightarrow> partition_on c (a @ c # s) = (a, True, s)"
  by (auto simp: partition_on_def takeWhile_upto_sep dropWhile_upto_sep Let_def)

lemma rsplit_last_append:
  "c \<notin> set b \<Longrightarrow> rsplit_last c (a @ c # b) = (a, b)"
  by (auto simp: rsplit_last_def takeWhile_upto_sep dropWhile_upto_sep)

lemma rsplit_last_join:
  assumes "c \<in> set s"
  shows "fst (rsplit_last c s) @ c # snd (rsplit_last c s) = s"
proof -
  obtain a b where "s = a @ c # b" "c \<notin> set b"
    using assms by (meson split_list_last)
  then show ?thesis by (simp add: rsplit_last_append)
qed

lemma int_digits_plain: "isdigit s \<Longrightarrow> int_digits s = Some s"
  by (induction s rule: int_digits.induct) (auto simp: isdigit_def is_digit_def)

lemma digit_not_space: "is_digit c \<Longrightarrow> \<not> is_space c"
  by (auto simp: is_digit_def is_space_def)

lemma strip_digits: "isdigit s \<Longrightarrow> strip s = s"
proof -
  assume d: "isdigit s"
  have drop: "dropWhile is_space t = t" if "t \<noteq> []" "list_all is_digit t" for t
    using that by (cases t) (auto simp: digit_not_space)
  from d show ?thesis
    by (simp add: strip_def rstrip_where_def isdigit_def drop list_all_rev)
qed

lemma py_int_isdigit: "isdigit s \<Longrightarrow> py_int s = Some (int (dec_val s))"
proof -
  assume d: "isdigit s"
  then obtain c u where s: "s = c # u" "is_digit c" by (cases s) (auto simp: isdigit_def)
  then have "c \<noteq> CHR ''-''" "c \<noteq> CHR ''+''" by (auto simp: is_digit_def)
  with d s(1) show ?thesis
    by (simp add: py_int_def strip_digits int_digits_plain del: int_digits.simps)
qed

lemma py_int_dec_of_nat [simp]: "py_int (dec_of_nat n) = Some (int n)"
  by (simp add: py_int_isdigit)

end
