(* ===== verification/Civil_Time.thy ===== *)
theory Civil_Time
  imports Py_Text
begin

text \<open>
  The UTC calendar of Python's \<open>datetime\<close>: \<open>fromtimestamp(ts, UTC)\<close>, \<open>strftime\<close> and \<open>strptime\<close>
  for the formats the code uses. Times are seconds since the epoch, as \<open>creation\<close> is in ZFS.
  The Gregorian calendar repeats every 146097 days (400 years), so the year walk starts at 1970
  and runs over less than one cycle, for times before the epoch too. \<open>%Y\<close> is printed with four
  digits, which is what Python prints for the years 1000 to 9999.
\<close>

section \<open>Dates\<close>

definition leap :: "nat \<Rightarrow> bool" where
  "leap y = (y mod 4 = 0 \<and> (y mod 100 \<noteq> 0 \<or> y mod 400 = 0))"

definition year_days :: "nat \<Rightarrow> nat" where
  "year_days y = (if leap y then 366 else 365)"

definition month_lengths :: "nat \<Rightarrow> nat list" where
  "month_lengths y = [31, if leap y then 29 else 28, 31, 30, 31, 30, 31, 31, 30, 31, 30, 31]"

text \<open>The year a day number falls in, counted from the first of January of \<open>y\<close>, and the day in it.\<close>

function year_walk :: "nat \<Rightarrow> nat \<Rightarrow> nat \<times> nat" where
  "year_walk y n = (if n < year_days y then (y, n) else year_walk (Suc y) (n - year_days y))"
  by pat_completeness auto
termination
  by (relation "measure snd") (auto simp: year_days_def)

declare year_walk.simps [simp del]

fun month_walk :: "nat \<Rightarrow> nat list \<Rightarrow> nat \<Rightarrow> nat \<times> nat" where
  "month_walk m [] n = (m, Suc n)"
| "month_walk m (l # ls) n = (if n < l then (m, Suc n) else month_walk (Suc m) ls (n - l))"

definition cycle :: int where
  "cycle = 146097"

record datetime =
  dt_year :: int
  dt_month :: nat
  dt_day :: nat
  dt_hour :: nat
  dt_minute :: nat
  dt_second :: nat

text \<open>\<open>datetime.fromtimestamp(ts, UTC)\<close>.\<close>

definition from_timestamp :: "int \<Rightarrow> datetime" where
  "from_timestamp ts =
     (let days = ts div 86400; secs = nat (ts mod 86400);
          (y, doy) = year_walk 1970 (nat (days mod cycle));
          (m, d) = month_walk 1 (month_lengths y) doy
      in \<lparr>dt_year = int y + 400 * (days div cycle), dt_month = m, dt_day = d,
          dt_hour = secs div 3600, dt_minute = secs mod 3600 div 60, dt_second = secs mod 60\<rparr>)"

text \<open>Days from the epoch to the first of January of \<open>y\<close>, and the constructor's checks.\<close>

definition days_to_year :: "nat \<Rightarrow> nat \<Rightarrow> nat" where
  "days_to_year a y = sum_list (map year_days [a..<y])"

definition year_in_cycle :: "int \<Rightarrow> nat" where
  "year_in_cycle y = 1970 + nat ((y - 1970) mod 400)"

definition days_of_date :: "int \<Rightarrow> nat \<Rightarrow> nat \<Rightarrow> int" where
  "days_of_date y m d =
     (let yy = year_in_cycle y in
      cycle * ((y - 1970) div 400)
        + int (days_to_year 1970 yy + sum_list (take (m - 1) (month_lengths yy)) + (d - 1)))"

definition valid_datetime :: "datetime \<Rightarrow> bool" where
  "valid_datetime t =
     (1 \<le> dt_year t \<and> dt_year t \<le> 9999 \<and> 1 \<le> dt_month t \<and> dt_month t \<le> 12 \<and> 1 \<le> dt_day t
      \<and> dt_day t \<le> month_lengths (year_in_cycle (dt_year t)) ! (dt_month t - 1)
      \<and> dt_hour t < 24 \<and> dt_minute t < 60 \<and> dt_second t < 60)"

text \<open>\<open>t.timestamp()\<close> of a UTC time.\<close>

definition timestamp :: "datetime \<Rightarrow> int" where
  "timestamp t =
     days_of_date (dt_year t) (dt_month t) (dt_day t) * 86400
       + int (dt_hour t * 3600 + dt_minute t * 60 + dt_second t)"


section \<open>Formats\<close>

text \<open>\<open>%Y-%m-%d_%H:%M:%S\<close>.\<close>

definition stamp_text :: "datetime \<Rightarrow> string" where
  "stamp_text t =
     pad4 (nat (dt_year t)) @ ''-'' @ pad2 (dt_month t) @ ''-'' @ pad2 (dt_day t) @ ''_''
       @ pad2 (dt_hour t) @ '':'' @ pad2 (dt_minute t) @ '':'' @ pad2 (dt_second t)"

text \<open>\<open>%Y-%m\<close> and \<open>%Y%m%d\<close>.\<close>

definition month_text :: "datetime \<Rightarrow> string" where
  "month_text t = pad4 (nat (dt_year t)) @ ''-'' @ pad2 (dt_month t)"

definition date_text :: "datetime \<Rightarrow> string" where
  "date_text t = pad4 (nat (dt_year t)) @ pad2 (dt_month t) @ pad2 (dt_day t)"

text \<open>
  \<open>strptime(s, "%Y-%m-%d_%H:%M:%S")\<close> on a text already known to have that shape; \<open>None\<close> is
  the \<open>ValueError\<close> of a field out of range.
\<close>

definition parse_stamp :: "string \<Rightarrow> datetime option" where
  "parse_stamp s =
     (let t = \<lparr>dt_year = int (dec_val (take 4 s)), dt_month = dec_val (take 2 (drop 5 s)),
               dt_day = dec_val (take 2 (drop 8 s)), dt_hour = dec_val (take 2 (drop 11 s)),
               dt_minute = dec_val (take 2 (drop 14 s)), dt_second = dec_val (take 2 (drop 17 s))\<rparr>
      in if valid_datetime t then Some t else None)"


section \<open>Lemmas on the calendar\<close>

lemma year_days_pos [simp]: "0 < year_days y"
  by (simp add: year_days_def)

lemma sum_month_lengths [simp]: "sum_list (month_lengths y) = year_days y"
  by (simp add: month_lengths_def year_days_def)

lemma length_month_lengths [simp]: "length (month_lengths y) = 12"
  by (simp add: month_lengths_def)

lemma days_to_year_Suc: "a \<le> y \<Longrightarrow> days_to_year a (Suc y) = days_to_year a y + year_days y"
  by (simp add: days_to_year_def)

lemma days_to_year_step: "a < y \<Longrightarrow> days_to_year a y = year_days a + days_to_year (Suc a) y"
  by (simp add: days_to_year_def upt_conv_Cons)

lemma days_to_year_same [simp]: "days_to_year a a = 0"
  by (simp add: days_to_year_def)

text \<open>The walk stops in the year the day number belongs to.\<close>

lemma year_walk_spec:
  assumes "year_walk a n = (y, r)"
  shows "a \<le> y \<and> r < year_days y \<and> n = days_to_year a y + r"
  using assms
proof (induction a n arbitrary: y r rule: year_walk.induct)
  case (1 a n)
  show ?case
  proof (cases "n < year_days a")
    case True
    with "1.prems" show ?thesis by (auto simp: year_walk.simps [of a n])
  next
    case False
    with "1.prems" have "year_walk (Suc a) (n - year_days a) = (y, r)"
      by (simp add: year_walk.simps [of a n])
    with False "1.IH" have "Suc a \<le> y" "r < year_days y"
      "n - year_days a = days_to_year (Suc a) y + r" by blast+
    with False show ?thesis by (simp add: days_to_year_step)
  qed
qed

lemma year_walk_exact:
  "r < year_days (a + k) \<Longrightarrow> year_walk a (days_to_year a (a + k) + r) = (a + k, r)"
proof (induction k arbitrary: a)
  case 0
  then show ?case by (simp add: year_walk.simps)
next
  case (Suc k)
  have "days_to_year a (a + Suc k) = year_days a + days_to_year (Suc a) (Suc a + k)"
    using days_to_year_step [of a "a + Suc k"] by simp
  with Suc.IH [of "Suc a"] Suc.prems show ?case
    by (subst year_walk.simps) (simp add: add.assoc)
qed

lemma month_walk_spec:
  assumes "month_walk m ls n = (m', d)" and "n < sum_list ls"
  shows "m \<le> m' \<and> m' < m + length ls \<and> 1 \<le> d \<and> d \<le> ls ! (m' - m)
         \<and> n = sum_list (take (m' - m) ls) + (d - 1)"
  using assms
proof (induction m ls n rule: month_walk.induct)
  case (2 m l ls n)
  show ?case
  proof (cases "n < l")
    case True
    with "2.prems" show ?thesis by auto
  next
    case False
    with "2.prems" have "month_walk (Suc m) ls (n - l) = (m', d)" "n - l < sum_list ls"
      by auto
    with "2.IH" False have *: "Suc m \<le> m'" "m' < Suc m + length ls" "1 \<le> d" "d \<le> ls ! (m' - Suc m)"
      "n - l = sum_list (take (m' - Suc m) ls) + (d - 1)" by blast+
    then have "m' - m = Suc (m' - Suc m)" by simp
    with * False show ?thesis by (auto simp: nth_Cons')
  qed
qed simp

lemma month_walk_exact:
  "k < length ls \<Longrightarrow> 1 \<le> d \<Longrightarrow> d \<le> ls ! k \<Longrightarrow>
   month_walk m ls (sum_list (take k ls) + (d - 1)) = (m + k, d)"
proof (induction ls arbitrary: m k)
  case Nil
  then show ?case by simp
next
  case (Cons l ls)
  then show ?case by (cases k) auto
qed

lemma days_to_year_add: "a \<le> b \<Longrightarrow> b \<le> c \<Longrightarrow> days_to_year a c = days_to_year a b + days_to_year b c"
  unfolding days_to_year_def
  by (metis le_add_diff_inverse map_append sum_list_append upt_add_eq_append)

lemma century_days:
  "days_to_year 1970 2070 = 36525" "days_to_year 2070 2170 = 36524"
  "days_to_year 2170 2270 = 36524" "days_to_year 2270 2370 = 36524"
  by (simp_all add: days_to_year_def year_days_def leap_def upt_rec_numeral)

lemma cycle_days: "days_to_year 1970 2370 = 146097"
  using century_days days_to_year_add [of 1970 2070 2370] days_to_year_add [of 2070 2170 2370]
    days_to_year_add [of 2170 2270 2370] by simp

lemma days_to_year_mono: "y \<le> z \<Longrightarrow> days_to_year a y \<le> days_to_year a z"
proof (induction z)
  case 0
  then show ?case by simp
next
  case (Suc z)
  show ?case
  proof (cases "y = Suc z")
    case False
    with Suc have "days_to_year a y \<le> days_to_year a z" by simp
    also have "\<dots> \<le> days_to_year a (Suc z)" by (simp add: days_to_year_def)
    finally show ?thesis .
  qed simp
qed


section \<open>Round trips and order\<close>

definition year_start :: "int \<Rightarrow> int" where
  "year_start y = cycle * ((y - 1970) div 400) + int (days_to_year 1970 (year_in_cycle y))"

lemma year_in_cycle_bounds: "1970 \<le> year_in_cycle y" "year_in_cycle y < 2370"
proof -
  have "(y - 1970) mod 400 < 400" "0 \<le> (y - 1970) mod 400" by simp_all
  then show "1970 \<le> year_in_cycle y" "year_in_cycle y < 2370"
    unfolding year_in_cycle_def by linarith+
qed

lemma year_in_cycle_add: "1970 \<le> yy \<Longrightarrow> yy < 2370 \<Longrightarrow> year_in_cycle (int yy + 400 * q) = yy"
proof -
  assume b: "1970 \<le> yy" "yy < 2370"
  have "(int yy + 400 * q - 1970) mod 400 = (int yy - 1970 + 400 * q) mod 400"
    by (simp add: algebra_simps)
  also have "\<dots> = (int yy - 1970) mod 400" by (rule mod_mult_self2)
  also have "\<dots> = int yy - 1970" using b by simp
  finally show ?thesis using b by (simp add: year_in_cycle_def nat_diff_distrib)
qed

lemma cycle_div_add: "1970 \<le> yy \<Longrightarrow> yy < 2370 \<Longrightarrow> (int yy + 400 * q - 1970) div 400 = q"
proof -
  assume b: "1970 \<le> yy" "yy < 2370"
  have "(int yy + 400 * q - 1970) div 400 = (int yy - 1970 + 400 * q) div 400"
    by (simp add: algebra_simps)
  also have "\<dots> = q + (int yy - 1970) div 400" by simp
  also have "\<dots> = q" using b by simp
  finally show ?thesis .
qed

lemma year_cases:
  obtains yy q where "1970 \<le> yy" "yy < 2370" "y = int yy + 400 * q" "year_in_cycle y = yy"
proof
  show "y = int (year_in_cycle y) + 400 * ((y - 1970) div 400)"
    by (simp add: year_in_cycle_def minus_mod_eq_mult_div [symmetric])
qed (use year_in_cycle_bounds in auto)

lemma year_start_eq:
  "1970 \<le> yy \<Longrightarrow> yy < 2370 \<Longrightarrow>
   year_start (int yy + 400 * q) = cycle * q + int (days_to_year 1970 yy)"
  by (simp add: year_start_def cycle_div_add year_in_cycle_add)

lemma year_start_Suc: "year_start (y + 1) = year_start y + int (year_days (year_in_cycle y))"
proof -
  obtain yy q where yy: "1970 \<le> yy" "yy < 2370" "y = int yy + 400 * q" "year_in_cycle y = yy"
    by (rule year_cases)
  show ?thesis
  proof (cases "yy = 2369")
    case False
    with yy have "year_start (int (Suc yy) + 400 * q) = cycle * q + int (days_to_year 1970 (Suc yy))"
      by (intro year_start_eq) auto
    moreover have "int (Suc yy) + 400 * q = y + 1" using yy by simp
    moreover have "year_start y = cycle * q + int (days_to_year 1970 yy)"
      using yy by (simp add: year_start_eq)
    ultimately show ?thesis using yy(1,4) days_to_year_Suc [of 1970 yy] by (metis add.assoc of_nat_add)
  next
    case True
    have "y + 1 = int 1970 + 400 * (q + 1)" using yy True by simp
    then have "year_start (y + 1) = cycle * (q + 1)"
      by (simp only: year_start_eq) simp
    moreover have "days_to_year 1970 2369 + year_days 2369 = 146097"
      using cycle_days days_to_year_Suc [of 1970 2369] by simp
    moreover have "year_start y = cycle * q + int (days_to_year 1970 2369)"
      using yy True year_start_eq [of 2369 q] by simp
    ultimately show ?thesis
      using yy(4) True by (simp add: cycle_def flip: of_nat_add)
  qed
qed

lemma year_start_less:
  assumes "y < z"
  shows "year_start y + int (year_days (year_in_cycle y)) \<le> year_start z"
  using assms
proof (induction z rule: int_gr_induct)
  case base
  then show ?case by (simp add: year_start_Suc)
next
  case (step z)
  then show ?case by (simp add: year_start_Suc)
qed

lemma days_of_date_eq:
  "days_of_date y m d =
     year_start y + int (sum_list (take (m - 1) (month_lengths (year_in_cycle y))) + (d - 1))"
  by (simp add: days_of_date_def year_start_def Let_def)

lemma valid_from_timestamp_fields:
  "let t = from_timestamp ts in
     1 \<le> dt_month t \<and> dt_month t \<le> 12 \<and> 1 \<le> dt_day t
     \<and> dt_day t \<le> month_lengths (year_in_cycle (dt_year t)) ! (dt_month t - 1)
     \<and> dt_hour t < 24 \<and> dt_minute t < 60 \<and> dt_second t < 60 \<and> timestamp t = ts"
proof -
  define days where "days = ts div 86400"
  define secs where "secs = nat (ts mod 86400)"
  obtain y doy where w: "year_walk 1970 (nat (days mod cycle)) = (y, doy)" by fastforce
  obtain m d where mw: "month_walk 1 (month_lengths y) doy = (m, d)" by fastforce
  note yw = year_walk_spec [OF w]
  have secs: "secs < 86400" "int secs = ts mod 86400" by (simp_all add: secs_def nat_less_iff)
  have c: "nat (days mod cycle) < 146097" by (simp add: cycle_def nat_less_iff)
  have "y < 2370"
  proof (rule ccontr)
    assume "\<not> y < 2370"
    then have "146097 \<le> days_to_year 1970 y"
      using days_to_year_mono [of 2370 y 1970] cycle_days by simp
    with yw c show False by linarith
  qed
  with yw have yic: "year_in_cycle (int y + 400 * q) = y" for q by (intro year_in_cycle_add) auto
  have mws: "1 \<le> m" "m < 13" "1 \<le> d" "d \<le> month_lengths y ! (m - 1)"
    "doy = sum_list (take (m - 1) (month_lengths y)) + (d - 1)"
    using month_walk_spec [OF mw] yw by simp_all
  have t: "from_timestamp ts =
     \<lparr>dt_year = int y + 400 * (days div cycle), dt_month = m, dt_day = d,
      dt_hour = secs div 3600, dt_minute = secs mod 3600 div 60, dt_second = secs mod 60\<rparr>"
    using w mw by (simp add: from_timestamp_def days_def [symmetric] secs_def [symmetric] Let_def)
  have "days_of_date (int y + 400 * (days div cycle)) m d
      = cycle * (days div cycle) + int (days_to_year 1970 y + doy)"
    using yw \<open>y < 2370\<close> mws(5) by (simp add: days_of_date_eq year_start_eq yic)
  also have "\<dots> = cycle * (days div cycle) + days mod cycle"
  proof -
    have "days_to_year 1970 y + doy = nat (days mod cycle)" using yw by simp
    moreover have "0 \<le> days mod cycle" by (simp add: cycle_def)
    ultimately show ?thesis by simp
  qed
  also have "\<dots> = days" by simp
  finally have dd: "days_of_date (int y + 400 * (days div cycle)) m d = days" .
  have "secs div 3600 * 3600 + secs mod 3600 div 60 * 60 + secs mod 60 = secs"
  proof -
    have "secs mod 3600 mod 60 = secs mod 60" by (simp add: mod_mod_cancel)
    then show ?thesis
      using div_mult_mod_eq [of secs 3600] div_mult_mod_eq [of "secs mod 3600" 60] by linarith
  qed
  then have "timestamp (from_timestamp ts) = days * 86400 + int secs"
    unfolding t timestamp_def by (simp only: datetime.simps dd)
  with secs have "timestamp (from_timestamp ts) = ts" by (simp add: days_def)
  with secs mws yic show ?thesis by (simp add: t Let_def less_mult_imp_div_less)
qed


lemma timestamp_from_timestamp [simp]: "timestamp (from_timestamp ts) = ts"
  using valid_from_timestamp_fields [of ts] by (simp add: Let_def)

lemma valid_from_timestamp:
  "1 \<le> dt_year (from_timestamp ts) \<Longrightarrow> dt_year (from_timestamp ts) \<le> 9999 \<Longrightarrow>
   valid_datetime (from_timestamp ts)"
  using valid_from_timestamp_fields [of ts] by (simp add: Let_def valid_datetime_def)

text \<open>The fields in the order they are compared.\<close>

definition fields :: "datetime \<Rightarrow> int \<times> nat \<times> nat \<times> nat \<times> nat \<times> nat" where
  "fields t = (dt_year t, dt_month t, dt_day t, dt_hour t, dt_minute t, dt_second t)"

definition civil :: "datetime \<Rightarrow> bool" where
  "civil t =
     (1 \<le> dt_month t \<and> dt_month t \<le> 12 \<and> 1 \<le> dt_day t
      \<and> dt_day t \<le> month_lengths (year_in_cycle (dt_year t)) ! (dt_month t - 1)
      \<and> dt_hour t < 24 \<and> dt_minute t < 60 \<and> dt_second t < 60)"

lemma civil_from_timestamp [simp]: "civil (from_timestamp ts)"
  using valid_from_timestamp_fields [of ts] by (simp add: Let_def civil_def)

lemma civil_valid: "valid_datetime t \<Longrightarrow> civil t"
  by (simp add: valid_datetime_def civil_def)

definition day_of :: "datetime \<Rightarrow> int" where
  "day_of t = days_of_date (dt_year t) (dt_month t) (dt_day t)"

definition second_of :: "datetime \<Rightarrow> nat" where
  "second_of t = dt_hour t * 3600 + dt_minute t * 60 + dt_second t"

lemma timestamp_split: "timestamp t = day_of t * 86400 + int (second_of t)"
  by (simp add: timestamp_def day_of_def second_of_def)

lemma second_of_less: "civil t \<Longrightarrow> second_of t < 86400"
  by (simp add: civil_def second_of_def)

lemma sum_take_Suc: "i < length ls \<Longrightarrow> sum_list (take (Suc i) ls) = sum_list (take i ls) + ls ! i" for ls :: "nat list"
  by (simp add: take_Suc_conv_app_nth)

lemma sum_take_mono:
  fixes ls :: "nat list"
  assumes "i \<le> j"
  shows "sum_list (take i ls) \<le> sum_list (take j ls)"
proof -
  have "take j ls = take i ls @ drop i (take j ls)"
    using assms append_take_drop_id [of i "take j ls"] by (simp add: min_def)
  then have "sum_list (take j ls) = sum_list (take i ls) + sum_list (drop i (take j ls))"
    by (metis sum_list_append)
  then show ?thesis by linarith
qed

lemma sum_take_less:
  fixes ls :: "nat list"
  assumes "i < j" and "j < length ls" and "d \<le> ls ! i" and "1 \<le> d"
  shows "sum_list (take i ls) + (d - 1) < sum_list (take j ls)"
  using sum_take_mono [of "Suc i" j ls] sum_take_Suc [of i ls] assms by linarith

lemma date_in_year:
  assumes "civil t"
  shows "year_start (dt_year t) \<le> day_of t"
    and "day_of t < year_start (dt_year t) + int (year_days (year_in_cycle (dt_year t)))"
proof -
  let ?ls = "month_lengths (year_in_cycle (dt_year t))" and ?k = "dt_month t - 1"
  have k: "?k < length ?ls" "dt_day t \<le> ?ls ! ?k" "1 \<le> dt_day t"
    using assms by (auto simp: civil_def)
  have "sum_list ?ls \<ge> sum_list (take ?k ?ls) + ?ls ! ?k"
    using sum_take_mono [of "Suc ?k" 12 ?ls] sum_take_Suc [OF k(1)] k(1) by simp
  with k show "day_of t < year_start (dt_year t) + int (year_days (year_in_cycle (dt_year t)))"
    by (simp add: day_of_def days_of_date_eq)
  show "year_start (dt_year t) \<le> day_of t" by (simp add: day_of_def days_of_date_eq)
qed

lemma day_of_less:
  assumes "civil t" and "civil u"
    and "(dt_year t, dt_month t, dt_day t) < (dt_year u, dt_month u, dt_day u)"
  shows "day_of t < day_of u"
proof (cases "dt_year t = dt_year u")
  case False
  with assms(3) have "dt_year t < dt_year u" by (auto simp: less_prod_def)
  then show ?thesis
    using date_in_year [OF assms(1)] date_in_year [OF assms(2)] year_start_less
    by (meson le_less_trans not_less order.trans)
next
  case True
  let ?ls = "month_lengths (year_in_cycle (dt_year u))"
  show ?thesis
  proof (cases "dt_month t = dt_month u")
    case False
    with assms(3) True have "dt_month t < dt_month u" by (auto simp: less_prod_def)
    with assms(1,2) True have "sum_list (take (dt_month t - 1) ?ls) + (dt_day t - 1)
        < sum_list (take (dt_month u - 1) ?ls)"
      by (intro sum_take_less) (auto simp: civil_def)
    with True show ?thesis by (simp add: day_of_def days_of_date_eq)
  next
    case m: True
    with assms(3) True have "dt_day t < dt_day u" by (auto simp: less_prod_def)
    with assms(1) True m show ?thesis
      by (simp add: day_of_def days_of_date_eq civil_def)
  qed
qed

lemma second_of_less_iff:
  assumes "civil t" and "civil u"
    and "(dt_hour t, dt_minute t, dt_second t) < (dt_hour u, dt_minute u, dt_second u)"
  shows "second_of t < second_of u"
  using assms by (auto simp: civil_def second_of_def less_prod_def)

lemma timestamp_less:
  assumes "civil t" and "civil u" and "fields t < fields u"
  shows "timestamp t < timestamp u"
proof (cases "(dt_year t, dt_month t, dt_day t) = (dt_year u, dt_month u, dt_day u)")
  case True
  with assms(3) have "(dt_hour t, dt_minute t, dt_second t) < (dt_hour u, dt_minute u, dt_second u)"
    by (simp add: fields_def less_prod_def)
  then have "second_of t < second_of u" using assms(1,2) by (intro second_of_less_iff)
  with True show ?thesis by (simp add: timestamp_split day_of_def)
next
  case False
  with assms(3) have "(dt_year t, dt_month t, dt_day t) < (dt_year u, dt_month u, dt_day u)"
    by (auto simp: fields_def less_prod_def)
  then have "day_of t < day_of u" using assms(1,2) by (intro day_of_less)
  with second_of_less [OF assms(1)] show ?thesis by (simp add: timestamp_split)
qed

lemma fields_eq_iff: "fields t = fields u \<longleftrightarrow> t = u"
  by (cases t; cases u) (auto simp: fields_def)

lemma timestamp_less_iff:
  assumes "civil t" and "civil u"
  shows "timestamp t < timestamp u \<longleftrightarrow> fields t < fields u"
  using timestamp_less [OF assms] timestamp_less [OF assms(2,1)]
  by (metis fields_eq_iff less_asym less_irrefl linorder_neqE)

lemma from_timestamp_timestamp: "civil t \<Longrightarrow> from_timestamp (timestamp t) = t"
  by (metis civil_from_timestamp fields_eq_iff less_irrefl linorder_neqE timestamp_from_timestamp
      timestamp_less)

lemma month_lengths_le: "i < 12 \<Longrightarrow> month_lengths y ! i \<le> 31"
  by (auto simp: month_lengths_def less_Suc_eq numeral_eq_Suc)

lemma civil_bounds:
  assumes "civil t"
  shows "dt_month t < 100" "dt_day t < 100" "dt_hour t < 100" "dt_minute t < 100" "dt_second t < 100"
proof -
  have "dt_month t - 1 < 12" using assms by (auto simp: civil_def)
  from month_lengths_le [OF this, of "year_in_cycle (dt_year t)"] show "dt_day t < 100"
    using assms unfolding civil_def by linarith
qed (use assms in \<open>auto simp: civil_def\<close>)

text \<open>The text of a time orders as the time, and parses back to it.\<close>

lemma stamp_text_less_iff:
  assumes "civil t" and "civil u" and "0 \<le> dt_year t" "dt_year t < 10000"
    and "0 \<le> dt_year u" "dt_year u < 10000"
  shows "stamp_text t < stamp_text u \<longleftrightarrow> fields t < fields u"
  using civil_bounds [OF assms(1)] civil_bounds [OF assms(2)] assms(3-)
  by (simp add: stamp_text_def append_less_iff pad4_less_iff pad4_eq_iff pad2_less_iff pad2_eq_iff
      fields_def less_prod_def nat_less_iff) auto

lemma datetime_eta:
  "\<lparr>dt_year = dt_year t, dt_month = dt_month t, dt_day = dt_day t, dt_hour = dt_hour t,
    dt_minute = dt_minute t, dt_second = dt_second t\<rparr> = (t :: datetime)"
  by simp

lemma parse_stamp_text:
  assumes "valid_datetime t"
  shows "parse_stamp (stamp_text t) = Some t"
proof -
  have b: "civil t" "nat (dt_year t) < 10000" "0 \<le> dt_year t"
    using assms by (auto simp: valid_datetime_def civil_valid nat_less_iff)
  have "dec_val (take 4 (stamp_text t)) = nat (dt_year t)"
    "dec_val (take 2 (drop 5 (stamp_text t))) = dt_month t"
    "dec_val (take 2 (drop 8 (stamp_text t))) = dt_day t"
    "dec_val (take 2 (drop 11 (stamp_text t))) = dt_hour t"
    "dec_val (take 2 (drop 14 (stamp_text t))) = dt_minute t"
    "dec_val (take 2 (drop 17 (stamp_text t))) = dt_second t"
    using civil_bounds [OF b(1)] b(2) by (simp_all add: stamp_text_def)
  then have "parse_stamp (stamp_text t) =
      (if valid_datetime t then Some t else None)"
    using b(3) by (simp add: parse_stamp_def Let_def datetime_eta)
  with assms show ?thesis by simp
qed


text \<open>Evaluating the calendar on a closed time.\<close>

lemmas calendar_eval = from_timestamp_def year_walk.simps year_days_def leap_def month_lengths_def
  cycle_def stamp_text_def month_text_def date_text_def pad2_def pad4_def digit_def

end
