(* ===== verification/Replication.thy ===== *)
theory Replication
  imports Civil_Time
begin

text \<open>
  \<open>lib/replication.py\<close>: the names of backup points and anchors, and the planner that decides what
  each dataset needs to reach a backup point. Origin and drive are dictionaries from a dataset
  name relative to the pool root to what was read of it; snapshots are listed by \<open>createtxg\<close>.
  A \<open>datetime\<close> argument is its UTC time in seconds.
\<close>

section \<open>Names\<close>

definition POINT_PREFIX :: string where
  "POINT_PREFIX = ''zark_''"

definition ARCHIVE_MARK :: string where
  "ARCHIVE_MARK = ''.archived-''"

definition SYNCOID_PREFIX :: string where
  "SYNCOID_PREFIX = ''syncoid_''"

definition KEYSTORE :: string where
  "KEYSTORE = ''rpool/keystore''"

definition STRUCTURAL :: "string list" where
  "STRUCTURAL = [''rpool'', ''rpool/ROOT'', ''rpool/USERDATA'', ''bpool'', ''bpool/BOOT'']"

definition STRUCTURAL_DATA_LIMIT :: int where
  "STRUCTURAL_DATA_LIMIT = 8 * 1024 * 1024"

definition SANOID_TYPES :: "string list" where
  "SANOID_TYPES = [''frequently'', ''hourly'', ''daily'', ''weekly'', ''monthly'', ''yearly'']"

text \<open>
  A pattern of fixed length is a list of character classes. The end anchor \<open>$\<close> of a Python
  pattern also matches before a final line feed, so the text is tried without it too.
\<close>

definition lit :: "string \<Rightarrow> (char \<Rightarrow> bool) list" where
  "lit s = map (=) s"

definition digs :: "nat \<Rightarrow> (char \<Rightarrow> bool) list" where
  "digs n = replicate n is_digit"

definition STAMP :: "(char \<Rightarrow> bool) list" where
  "STAMP = digs 4 @ lit ''-'' @ digs 2 @ lit ''-'' @ digs 2 @ lit ''_'' @ digs 2 @ lit '':''
             @ digs 2 @ lit '':'' @ digs 2 @ lit ''Z''"

definition matches :: "(char \<Rightarrow> bool) list \<Rightarrow> string \<Rightarrow> bool" where
  "matches ps s = list_all2 (\<lambda>p c. p c) ps s"

definition chop_newline :: "string \<Rightarrow> string" where
  "chop_newline s = (if s \<noteq> [] \<and> last s = CHR 0x0A then butlast s else s)"

definition ends_matching :: "(char \<Rightarrow> bool) list \<Rightarrow> string \<Rightarrow> bool" where
  "ends_matching ps s = (matches ps s \<or> matches ps (chop_newline s))"

definition POINT_RE :: "string \<Rightarrow> bool" where
  "POINT_RE s = ends_matching (lit POINT_PREFIX @ STAMP) s"

text \<open>\<open>ANCHOR_RE.match(name).groups()\<close>: the pool GUID and the stamp.\<close>

definition ANCHOR_RE :: "string \<Rightarrow> (string \<times> string) option" where
  "ANCHOR_RE s =
     (if prefix POINT_PREFIX s then
        let r = drop (length POINT_PREFIX) s;
            g = takeWhile is_digit r; u = dropWhile is_digit r
        in if g \<noteq> [] \<and> prefix ''_'' u \<and> ends_matching STAMP (tl u)
           then Some (g, take (length STAMP) (tl u)) else None
      else None)"

definition point_name :: "int \<Rightarrow> string" where
  "point_name now = POINT_PREFIX @ stamp_text (from_timestamp now) @ ''Z''"

definition anchor_name :: "string \<Rightarrow> string \<Rightarrow> string" where
  "anchor_name disk_guid point =
     POINT_PREFIX @ disk_guid @ ''_'' @ drop (length POINT_PREFIX) point"

definition anchor_disk :: "string \<Rightarrow> string" where
  "anchor_disk name = (case ANCHOR_RE name of Some (g, _) \<Rightarrow> g | None \<Rightarrow> '''')"

definition is_bpool :: "string \<Rightarrow> bool" where
  "is_bpool rel = (rel = ''bpool'' \<or> startswith rel ''bpool/'')"

definition parent :: "string \<Rightarrow> string" where
  "parent rel = (if CHR ''/'' \<in> set rel then fst (rsplit_last CHR ''/'' rel) else '''')"

definition is_archived :: "string \<Rightarrow> bool" where
  "is_archived rel = list_ex (\<lambda>part. contains part ARCHIVE_MARK) (split_on CHR ''/'' rel)"


section \<open>What was read of origin and of the drive\<close>

record ref =
  r_name :: string
  r_guid :: string
  r_createtxg :: int
  r_creation :: int

record origin =
  o_rel :: string
  o_kind :: string
  o_canmount :: string
  o_mountpoint :: string
  o_referenced :: int
  o_snaps :: "ref list"
  o_bookmarks :: "ref list"
  o_clone_of :: string

definition snap_by_guid :: "origin \<Rightarrow> string \<Rightarrow> ref option" where
  "snap_by_guid ori guid = find (\<lambda>s. r_guid s = guid) (o_snaps ori)"

definition bookmark_by_guid :: "origin \<Rightarrow> string \<Rightarrow> ref option" where
  "bookmark_by_guid ori guid = find (\<lambda>b. r_guid b = guid) (o_bookmarks ori)"

record dest =
  d_rel :: string
  d_kind :: string
  d_token :: string
  d_orphan :: string
  d_excluded_kept :: string
  d_used :: int
  d_written :: int
  d_snaps :: "ref list"
  d_clone_of :: string

definition newest :: "dest \<Rightarrow> ref option" where
  "newest d = (if d_snaps d = [] then None else Some (last (d_snaps d)))"

datatype state =
    AT_POINT | RESUME | NEW | INCREMENTAL | VIA_BOOKMARK | ROLLBACK | DIVERGED | MODIFIED
  | ORPHAN | EXCLUDED

definition TRANSFERABLE :: "state list" where
  "TRANSFERABLE = [AT_POINT, RESUME, NEW, INCREMENTAL, VIA_BOOKMARK]"

record dataset_plan =
  p_rel :: string
  p_state :: state
  p_base :: string
  p_first :: string
  p_common :: string
  p_newer :: "string list"
  p_rename_to :: string
  p_clone_from :: string
  p_kept :: bool
  p_partial :: bool
  p_after :: "state option"
  p_used :: int
  p_note :: string
  p_declared :: bool
  p_held :: bool

definition DatasetPlan :: "string \<Rightarrow> state \<Rightarrow> dataset_plan" where
  "DatasetPlan rel st =
     \<lparr>p_rel = rel, p_state = st, p_base = '''', p_first = '''', p_common = '''', p_newer = [],
      p_rename_to = '''', p_clone_from = '''', p_kept = False, p_partial = False, p_after = None,
      p_used = 0, p_note = '''', p_declared = False, p_held = False\<rparr>"


section \<open>What is backed up\<close>

definition is_excluded :: "string \<Rightarrow> string list \<Rightarrow> bool" where
  "is_excluded rel skip = list_ex (\<lambda>t. rel = t \<or> startswith rel (t @ ''/'')) skip"

definition expected :: "(string, origin) dict \<Rightarrow> string list \<Rightarrow> string list" where
  "expected ori skip =
     sort (map fst (filter (\<lambda>(rel, x).
       rel \<noteq> KEYSTORE \<and> \<not> startswith rel (KEYSTORE @ ''/'') \<and> o_kind x \<noteq> ''volume''
       \<and> rel \<notin> set STRUCTURAL \<and> \<not> is_archived rel \<and> \<not> is_excluded rel skip) ori))"

fun structural_rows :: "(string, origin) dict \<Rightarrow> string list \<Rightarrow> (string \<times> string) list" where
  "structural_rows ori [] = []"
| "structural_rows ori (rel # rels) =
     (case map_of ori rel of
        None \<Rightarrow> []
      | Some x \<Rightarrow>
          if o_referenced x > STRUCTURAL_DATA_LIMIT
          then [(rel, ''structural container holding data, not backed up'')]
          else if o_canmount x \<in> {''on'', ''noauto''} \<and> startswith (o_mountpoint x) ''/''
          then [(rel, ''structural container mountable at '' @ o_mountpoint x @ '', not backed up'')]
          else [])
     @ structural_rows ori rels"

definition excluded :: "(string, origin) dict \<Rightarrow> (string \<times> string) list" where
  "excluded ori =
     sort (map (\<lambda>(rel, x). (rel, ''zvol, not backed up''))
             (filter (\<lambda>(rel, x). o_kind x = ''volume'' \<and> rel \<noteq> KEYSTORE) ori)
         @ map (\<lambda>(rel, x). (rel, ''its name contains '' @ ARCHIVE_MARK
               @ '', which zark reserves for archived lineages: rename it''))
             (filter (\<lambda>(rel, x). is_archived rel \<and> o_kind x \<noteq> ''volume'') ori)
         @ structural_rows ori STRUCTURAL)"


section \<open>The plan of one dataset\<close>

text \<open>
  The loop over the drive's snapshots from the second newest to the oldest: the newest one that
  origin still has, as a snapshot or (not on bpool) as a bookmark. \<open>older_common o d i\<close> looks at
  the indices below \<open>i\<close>.
\<close>

fun older_common :: "origin \<Rightarrow> dest \<Rightarrow> nat \<Rightarrow> dataset_plan option" where
  "older_common x d 0 = None"
| "older_common x d (Suc i) =
     (let s = d_snaps d ! i; rel = o_rel x;
          own_old = snap_by_guid x (r_guid s);
          bm_old = (if own_old \<noteq> None \<or> is_bpool rel then None else bookmark_by_guid x (r_guid s));
          row = (\<lambda>base. (DatasetPlan rel ROLLBACK)
                   \<lparr>p_base := base, p_common := ''@'' @ r_name s,
                    p_newer := map (\<lambda>r. ''@'' @ r_name r) (drop (Suc i) (d_snaps d)),
                    p_used := d_used d\<rparr>)
      in case own_old of
           Some y \<Rightarrow> Some (row (''@'' @ r_name y))
         | None \<Rightarrow> (case bm_old of
             Some b \<Rightarrow> Some (row (''#'' @ r_name b))
           | None \<Rightarrow> older_common x d i))"

text \<open>\<open>_plan_dataset\<close>.\<close>

definition later_snaps :: "origin \<Rightarrow> ref \<Rightarrow> ref list" where
  "later_snaps x bm = filter (\<lambda>s. r_createtxg s > r_createtxg bm) (o_snaps x)"

definition rollback_or_diverged :: "origin \<Rightarrow> dest \<Rightarrow> dataset_plan" where
  "rollback_or_diverged x d =
     (case older_common x d (length (d_snaps d) - 1) of
        Some p \<Rightarrow> p
      | None \<Rightarrow> (DatasetPlan (o_rel x) DIVERGED)
                 \<lparr>p_used := d_used d, p_note := ''no common snapshot or bookmark''\<rparr>)"

definition plan_dataset_raw :: "origin \<Rightarrow> dest option \<Rightarrow> string \<Rightarrow> dataset_plan" where
  "plan_dataset_raw x dopt point =
     (let rel = o_rel x in
      case dopt of
        None \<Rightarrow> DatasetPlan rel NEW
      | Some d \<Rightarrow>
          if d_token d \<noteq> '''' then DatasetPlan rel RESUME
          else (case newest d of
            None \<Rightarrow> (DatasetPlan rel DIVERGED)\<lparr>p_used := d_used d, p_note := ''no snapshot on backup''\<rparr>
          | Some n \<Rightarrow> (case snap_by_guid x (r_guid n) of
              Some own \<Rightarrow>
                if r_name own = point then DatasetPlan rel AT_POINT
                else (DatasetPlan rel INCREMENTAL)\<lparr>p_base := ''@'' @ r_name own\<rparr>
            | None \<Rightarrow>
                (case (if is_bpool rel then None else bookmark_by_guid x (r_guid n)) of
                   Some bm \<Rightarrow> (case later_snaps x bm of
                       s # _ \<Rightarrow> (DatasetPlan rel VIA_BOOKMARK)
                                 \<lparr>p_base := ''#'' @ r_name bm, p_first := ''@'' @ r_name s\<rparr>
                     | [] \<Rightarrow> rollback_or_diverged x d)
                 | None \<Rightarrow> rollback_or_diverged x d))))"

definition newest_ref :: "dest \<Rightarrow> string" where
  "newest_ref d = (case newest d of Some n \<Rightarrow> ''@'' @ r_name n | None \<Rightarrow> '''')"

definition plan_dataset :: "origin \<Rightarrow> dest option \<Rightarrow> string \<Rightarrow> dataset_plan" where
  "plan_dataset x dopt point =
     (let p = plan_dataset_raw x dopt point;
          q = (case dopt of
                 Some d \<Rightarrow>
                   if d_written d > 0 \<and> p_state p = RESUME \<and> newest d \<noteq> None then
                     let r = plan_dataset_raw x (Some (d\<lparr>d_token := ''''\<rparr>)) point;
                         r' = r\<lparr>p_partial := True, p_after := Some (p_state r)\<rparr>
                     in if p_state r \<notin> {INCREMENTAL, VIA_BOOKMARK} then r'\<lparr>p_base := ''''\<rparr> else r'
                   else p
               | None \<Rightarrow> p)
      in case dopt of
           Some d \<Rightarrow>
             if d_written d > 0 \<and> p_state q \<in> {INCREMENTAL, VIA_BOOKMARK} \<or> p_partial q
             then q\<lparr>p_state := MODIFIED, p_used := d_written d, p_common := newest_ref d\<rparr>
             else q
         | None \<Rightarrow> if p_partial q then q\<lparr>p_state := MODIFIED, p_used := 0, p_common := ''''\<rparr> else q)"


section \<open>The plan of a run\<close>

text \<open>\<open>_clone_base\<close>: a NEW clone whose origin snapshot the drive holds, matched by guid.\<close>

definition clone_base ::
    "dataset_plan \<Rightarrow> (string, origin) dict \<Rightarrow> (string, dest) dict \<Rightarrow> dataset_plan" where
  "clone_base p ori live =
     (case map_of ori (p_rel p) of
        None \<Rightarrow> p
      | Some x \<Rightarrow>
          (let (src_ds, _, src_snap) = partition_on CHR ''@'' (o_clone_of x) in
           case (map_of ori src_ds, map_of live src_ds) of
             (Some parent_o, Some held) \<Rightarrow>
               if src_snap = '''' then p
               else (case find (\<lambda>s. r_name s = src_snap) (o_snaps parent_o) of
                 None \<Rightarrow> p
               | Some snap \<Rightarrow> (case find (\<lambda>s. r_guid s = r_guid snap) (d_snaps held) of
                   None \<Rightarrow> p
                 | Some copy \<Rightarrow>
                     p\<lparr>p_base := o_clone_of x, p_clone_from := src_ds @ ''@'' @ r_name copy,
                       p_note := ''clone of '' @ o_clone_of x\<rparr>))
           | _ \<Rightarrow> p))"

text \<open>\<open>_declared_rows\<close>: one EXCLUDED row per subtree excluded from backups.\<close>

definition kept_mark :: "string \<Rightarrow> bool" where
  "kept_mark v = startswith v ''kept@''"

definition declared_rows ::
    "(string, origin) dict \<Rightarrow> (string, dest) dict \<Rightarrow> string list \<Rightarrow> dataset_plan list" where
  "declared_rows ori live skip =
     map (\<lambda>t. let held = map_of live t in
            (DatasetPlan t EXCLUDED)
              \<lparr>p_note := ''excluded from backups (zark exclude)'',
               p_used := sum_list (map (\<lambda>(rel, x). o_referenced x)
                                     (filter (\<lambda>(rel, x). is_excluded rel [t]) ori)),
               p_declared := True, p_held := held \<noteq> None,
               p_kept := (case held of Some d \<Rightarrow> kept_mark (d_excluded_kept d) | None \<Rightarrow> False)\<rparr>)
         (sort (filter (\<lambda>t. map_of ori t \<noteq> None) skip))"

text \<open>\<open>_renames\<close>: an orphan whose newest snapshot origin holds under a new name.\<close>

definition rename_hit ::
    "string \<Rightarrow> ref \<Rightarrow> (string, origin) dict \<Rightarrow> (string, dest) dict \<Rightarrow> string list \<Rightarrow> string \<Rightarrow> bool" where
  "rename_hit rel n ori live taken name =
     (is_bpool name = is_bpool rel
      \<and> (case map_of ori name of
           None \<Rightarrow> False
         | Some x \<Rightarrow> snap_by_guid x (r_guid n) \<noteq> None
                    \<or> (\<not> is_bpool name \<and> bookmark_by_guid x (r_guid n) \<noteq> None))
      \<and> map_of live (parent name) \<noteq> None \<and> name \<notin> set taken)"

definition rename_step ::
    "string list \<Rightarrow> (string, origin) dict \<Rightarrow> (string, dest) dict \<Rightarrow> (string, string) dict \<Rightarrow> string
      \<Rightarrow> (string, string) dict" where
  "rename_step new_names ori live out rel =
     (case map_of live rel of
        None \<Rightarrow> out
      | Some d \<Rightarrow> (case newest d of
          None \<Rightarrow> out
        | Some n \<Rightarrow> (case find (rename_hit rel n ori live (dict_values out)) (sort new_names) of
            None \<Rightarrow> out
          | Some name \<Rightarrow> dict_set rel name out)))"

definition renames ::
    "string list \<Rightarrow> string list \<Rightarrow> (string, origin) dict \<Rightarrow> (string, dest) dict
      \<Rightarrow> (string, string) dict" where
  "renames tops new_names ori live = foldl (rename_step new_names ori live) [] tops"

definition live_of :: "(string, dest) dict \<Rightarrow> (string, dest) dict" where
  "live_of dst = filter (\<lambda>(rel, d). \<not> is_archived rel) dst"

definition orphans_of :: "(string, origin) dict \<Rightarrow> (string, dest) dict \<Rightarrow> string list" where
  "orphans_of ori live =
     sort (filter (\<lambda>rel. map_of ori rel = None \<and> rel \<notin> set STRUCTURAL) (dict_keys live))"

definition orphan_tops :: "string list \<Rightarrow> string list" where
  "orphan_tops orphans = filter (\<lambda>rel. parent rel \<notin> set orphans) orphans"

definition orphan_row :: "(string, dest) dict \<Rightarrow> (string, string) dict \<Rightarrow> string \<Rightarrow> dataset_plan" where
  "orphan_row live rens rel =
     (DatasetPlan rel ORPHAN)
       \<lparr>p_rename_to := dict_get_or rens rel '''',
        p_kept := (case map_of live rel of Some d \<Rightarrow> kept_mark (d_orphan d) | None \<Rightarrow> False),
        p_used := (case map_of live rel of Some d \<Rightarrow> d_used d | None \<Rightarrow> 0)\<rparr>"

definition expected_rows ::
    "(string, origin) dict \<Rightarrow> (string, dest) dict \<Rightarrow> string \<Rightarrow> string list \<Rightarrow> dataset_plan list" where
  "expected_rows ori live point skip =
     map (\<lambda>rel. let p = plan_dataset (the (map_of ori rel)) (map_of live rel) point
                in if p_state p = NEW then clone_base p ori live else p)
         (expected ori skip)"

definition plan ::
    "(string, origin) dict \<Rightarrow> (string, dest) dict \<Rightarrow> string \<Rightarrow> string list \<Rightarrow> dataset_plan list" where
  "plan ori dst point skip =
     (let live = live_of dst;
          plans = expected_rows ori live point skip
            @ map (\<lambda>(rel, why). (DatasetPlan rel EXCLUDED)\<lparr>p_note := why\<rparr>)
                (filter (\<lambda>(rel, why). \<not> is_excluded rel skip) (excluded ori))
            @ declared_rows ori live skip;
          tops = orphan_tops (orphans_of ori live);
          new_names = map p_rel (filter (\<lambda>p. p_state p = NEW) plans);
          rens = renames tops new_names ori live
      in plans @ map (orphan_row live rens) tops)"

definition reached :: "dataset_plan list \<Rightarrow> bool" where
  "reached plans =
     list_all (\<lambda>p. p_state p = AT_POINT) (filter (\<lambda>p. p_state p \<notin> {ORPHAN, EXCLUDED}) plans)"


section \<open>Anchors, archives and shared snapshots\<close>

definition old_anchors :: "string list \<Rightarrow> string \<Rightarrow> string \<Rightarrow> string list" where
  "old_anchors names disk_guid keep = filter (\<lambda>n. anchor_disk n = disk_guid \<and> n \<noteq> keep) names"

text \<open>
  The loop of \<open>archive_name\<close> tries \<open>base-2\<close>, \<open>base-3\<close>, ... until a name is free. The texts differ,
  so at most \<open>length taken\<close> of them are taken and the loop needs no more steps than that.
\<close>

fun free_name :: "string list \<Rightarrow> string \<Rightarrow> nat \<Rightarrow> nat \<Rightarrow> string \<Rightarrow> string option" where
  "free_name taken base n 0 name = (if name \<in> set taken then None else Some name)"
| "free_name taken base n (Suc fuel) name =
     (if name \<in> set taken then free_name taken base (Suc n) fuel (base @ ''-'' @ dec_of_nat (Suc n))
      else Some name)"

definition archive_name :: "string \<Rightarrow> string list \<Rightarrow> int \<Rightarrow> string" where
  "archive_name rel taken now =
     (let base = rel @ ARCHIVE_MARK @ date_text (from_timestamp now)
      in the (free_name taken base 1 (length taken) base))"

text \<open>\<open>SANOID_RE\<close>: \<open>autosnap_\<close>, at least one character that is not a line feed, \<open>_\<close> and a type.\<close>

definition sanoid_type :: "string \<Rightarrow> string \<Rightarrow> string option" where
  "sanoid_type s t =
     (let tail = CHR ''_'' # t; mid = take (length s - length tail - 9) (drop 9 s)
      in if prefix ''autosnap_'' s \<and> suffix tail s \<and> length s > 9 + length tail
            \<and> CHR 0x0A \<notin> set mid then Some t else None)"

definition SANOID_RE :: "string \<Rightarrow> string option" where
  "SANOID_RE s =
     (case List.map_filter (sanoid_type (chop_newline s)) SANOID_TYPES of
        t # _ \<Rightarrow> Some t | [] \<Rightarrow> None)"

definition shared_kind :: "string \<Rightarrow> string" where
  "shared_kind name =
     (case SANOID_RE name of
        Some t \<Rightarrow> t
      | None \<Rightarrow> if startswith name SYNCOID_PREFIX then ''syncoid'' else '''')"

definition newest_by_kind :: "string list \<Rightarrow> ref list \<Rightarrow> (string, ref) dict" where
  "newest_by_kind held snaps =
     foldl (\<lambda>m s. let kind = shared_kind (r_name s) in
              if kind \<noteq> '''' \<and> r_guid s \<in> set held then dict_set kind s m else m) [] snaps"

definition shared_snapshots ::
    "(string, origin) dict \<Rightarrow> (string, dest) dict \<Rightarrow> string list \<Rightarrow> (string, ref list) dict" where
  "shared_snapshots ori dst skip =
     map (\<lambda>rel. let held = (case map_of dst rel of Some d \<Rightarrow> map r_guid (d_snaps d) | None \<Rightarrow> [])
                in (rel, sort_key r_createtxg
                           (dict_values (newest_by_kind held (o_snaps (the (map_of ori rel)))))))
         (expected ori skip)"


section \<open>Lemmas: names\<close>

lemmas name_defs = POINT_PREFIX_def ARCHIVE_MARK_def

lemma matches_append:
  "length ps = length a \<Longrightarrow> matches (ps @ qs) (a @ b) \<longleftrightarrow> matches ps a \<and> matches qs b"
  by (simp add: matches_def list_all2_append)

lemma matches_lit [simp]: "matches (lit a) b \<longleftrightarrow> b = a"
  by (auto simp: matches_def lit_def list_all2_conv_all_nth intro: nth_equalityI)

lemma matches_lit_Cons: "matches (lit [a] @ qs) (c # s) \<longleftrightarrow> c = a \<and> matches qs s"
  by (auto simp: matches_def lit_def)

lemma matches_digs: "matches (digs n) a \<longleftrightarrow> length a = n \<and> list_all is_digit a"
  by (auto simp: matches_def digs_def list_all2_conv_all_nth list_all_length)

lemma length_lit [simp]: "length (lit a) = length a"
  by (simp add: lit_def)

lemma length_digs [simp]: "length (digs n) = n"
  by (simp add: digs_def)

lemma length_STAMP [simp]: "length STAMP = 20"
  by (simp add: STAMP_def)

lemma matches_STAMP_text: "matches STAMP (stamp_text t @ ''Z'')"
proof -
  have "matches (digs 4 @ lit ''-'' @ digs 2 @ lit ''-'' @ digs 2 @ lit ''_'' @ digs 2 @ lit '':''
      @ digs 2 @ lit '':'' @ digs 2 @ lit ''Z'')
     (pad4 (nat (dt_year t)) @ ''-'' @ pad2 (dt_month t) @ ''-'' @ pad2 (dt_day t) @ ''_''
       @ pad2 (dt_hour t) @ '':'' @ pad2 (dt_minute t) @ '':'' @ pad2 (dt_second t) @ ''Z'')"
    by (simp add: matches_append matches_digs matches_lit_Cons)
  then show ?thesis by (simp add: STAMP_def stamp_text_def)
qed

lemma POINT_RE_point_name [simp]: "POINT_RE (point_name now)"
  by (simp add: POINT_RE_def ends_matching_def point_name_def matches_append matches_STAMP_text)

lemma matches_length: "matches ps s \<Longrightarrow> length s = length ps"
  by (simp add: matches_def list_all2_lengthD)

lemma takeWhile_digits: "list_all is_digit g \<Longrightarrow> \<not> is_digit c \<Longrightarrow> takeWhile is_digit (g @ c # s) = g"
  by (induction g) auto

lemma dropWhile_digits: "list_all is_digit g \<Longrightarrow> \<not> is_digit c \<Longrightarrow> dropWhile is_digit (g @ c # s) = c # s"
  by (induction g) auto

lemma not_digit_sep [simp]: "\<not> is_digit CHR ''_''"
  by (simp add: is_digit_def)

text \<open>The anchor of a disk for a point names that disk, and its stamp is the point's.\<close>

lemma ANCHOR_RE_anchor_name:
  assumes "isdigit guid" and "point = POINT_PREFIX @ stamp" and "matches STAMP stamp"
  shows "ANCHOR_RE (anchor_name guid point) = Some (guid, stamp)"
proof -
  have "length stamp = 20" using matches_length [OF assms(3)] by simp
  with assms show ?thesis
    by (simp add: ANCHOR_RE_def anchor_name_def isdigit_def takeWhile_digits dropWhile_digits
        ends_matching_def Let_def)
qed

lemma anchor_disk_of_point_name:
  assumes "isdigit guid"
  shows "anchor_disk (anchor_name guid (point_name now)) = guid"
  using ANCHOR_RE_anchor_name [OF assms _ matches_STAMP_text [of "from_timestamp now"]]
  by (simp add: anchor_disk_def point_name_def)

lemma is_excluded_iff: "is_excluded rel skip \<longleftrightarrow> under_any rel skip"
  by (simp add: is_excluded_def under_any_iff under_def startswith_def list_ex_iff)

lemma is_bpool_iff: "is_bpool rel \<longleftrightarrow> under rel ''bpool''"
  by (auto simp: is_bpool_def under_def startswith_def)

lemma parent_append: "CHR ''/'' \<notin> set b \<Longrightarrow> parent (a @ CHR ''/'' # b) = a"
  by (simp add: parent_def rsplit_last_append)

lemma parent_under:
  assumes "parent rel \<noteq> ''''"
  shows "under rel (parent rel)" and "parent rel \<noteq> rel" and "length (parent rel) < length rel"
proof -
  from assms have sl: "CHR ''/'' \<in> set rel" by (auto simp: parent_def split: if_splits)
  then obtain a b where ab: "rel = a @ CHR ''/'' # b" "CHR ''/'' \<notin> set b"
    by (meson split_list_last)
  then have "parent rel = a" by (simp add: parent_append)
  with ab show "under rel (parent rel)" "parent rel \<noteq> rel" "length (parent rel) < length rel"
    by (auto simp: under_iff)
qed


section \<open>Lemmas: one dataset\<close>

lemma snap_by_guid_Some:
  "snap_by_guid x g = Some s \<Longrightarrow> s \<in> set (o_snaps x) \<and> r_guid s = g"
  by (auto simp: snap_by_guid_def dest: find_SomeD)

lemma snap_by_guid_None: "snap_by_guid x g = None \<longleftrightarrow> (\<forall>s \<in> set (o_snaps x). r_guid s \<noteq> g)"
  by (auto simp: snap_by_guid_def find_None_iff)

lemma bookmark_by_guid_Some:
  "bookmark_by_guid x g = Some b \<Longrightarrow> b \<in> set (o_bookmarks x) \<and> r_guid b = g"
  by (auto simp: bookmark_by_guid_def dest: find_SomeD)

lemma bookmark_by_guid_None: "bookmark_by_guid x g = None \<longleftrightarrow> (\<forall>b \<in> set (o_bookmarks x). r_guid b \<noteq> g)"
  by (auto simp: bookmark_by_guid_def find_None_iff)

lemmas by_guid = snap_by_guid_Some snap_by_guid_None bookmark_by_guid_Some bookmark_by_guid_None

text \<open>Origin can still start an incremental from this snapshot of the drive.\<close>

definition recoverable :: "origin \<Rightarrow> ref \<Rightarrow> bool" where
  "recoverable x s =
     ((\<exists>t \<in> set (o_snaps x). r_guid t = r_guid s)
      \<or> (\<not> is_bpool (o_rel x) \<and> (\<exists>b \<in> set (o_bookmarks x). r_guid b = r_guid s)))"

lemma recoverable_iff:
  "recoverable x s \<longleftrightarrow> snap_by_guid x (r_guid s) \<noteq> None
     \<or> (\<not> is_bpool (o_rel x) \<and> bookmark_by_guid x (r_guid s) \<noteq> None)"
  by (simp only: recoverable_def by_guid(2,4)) blast

lemma DatasetPlan_sel [simp]:
  "p_rel (DatasetPlan r s) = r" "p_state (DatasetPlan r s) = s" "p_base (DatasetPlan r s) = ''''"
  "p_partial (DatasetPlan r s) = False" "p_common (DatasetPlan r s) = ''''"
  "p_newer (DatasetPlan r s) = []" "p_rename_to (DatasetPlan r s) = ''''"
  "p_clone_from (DatasetPlan r s) = ''''" "p_first (DatasetPlan r s) = ''''"
  "p_kept (DatasetPlan r s) = False" "p_used (DatasetPlan r s) = 0"
  by (simp_all add: DatasetPlan_def)

lemma older_common_None: "older_common x d i = None \<longleftrightarrow> (\<forall>j < i. \<not> recoverable x (d_snaps d ! j))"
proof (induction i)
  case (Suc i)
  then show ?case
    by (auto simp: Let_def recoverable_iff less_Suc_eq split: option.splits if_splits)
qed simp

text \<open>The loop finds the newest recoverable snapshot below \<open>i\<close>, and lists what is newer.\<close>

definition rollback_at :: "origin \<Rightarrow> dest \<Rightarrow> nat \<Rightarrow> dataset_plan \<Rightarrow> bool" where
  "rollback_at x d j p =
     (recoverable x (d_snaps d ! j) \<and> p_state p = ROLLBACK \<and> p_rel p = o_rel x
      \<and> p_common p = ''@'' @ r_name (d_snaps d ! j)
      \<and> p_newer p = map (\<lambda>r. ''@'' @ r_name r) (drop (Suc j) (d_snaps d)) \<and> p_used p = d_used d
      \<and> \<not> p_partial p)"

lemma older_common_Some:
  assumes "older_common x d i = Some p"
  shows "\<exists>j < i. rollback_at x d j p \<and> (\<forall>k. j < k \<and> k < i \<longrightarrow> \<not> recoverable x (d_snaps d ! k))"
  using assms
proof (induction i)
  case (Suc i)
  show ?case
  proof (cases "recoverable x (d_snaps d ! i)")
    case True
    with Suc.prems have "rollback_at x d i p"
      by (auto simp: rollback_at_def Let_def recoverable_iff split: option.splits if_splits)
    then show ?thesis by (intro exI [of _ i]) auto
  next
    case False
    with Suc.prems have "older_common x d i = Some p"
      by (auto simp: Let_def recoverable_iff split: option.splits if_splits)
    from Suc.IH [OF this] False show ?thesis by (metis less_Suc_eq)
  qed
qed simp

lemma rollback_or_diverged_props:
  "p_state (rollback_or_diverged x d) \<in> {ROLLBACK, DIVERGED}"
  "p_rel (rollback_or_diverged x d) = o_rel x" "p_partial (rollback_or_diverged x d) = False"
  by (auto simp: rollback_or_diverged_def rollback_at_def split: option.split
      dest!: older_common_Some)

lemma raw_rel [simp]: "p_rel (plan_dataset_raw x dopt point) = o_rel x"
  by (simp add: plan_dataset_raw_def Let_def rollback_or_diverged_props
      split: option.split list.split)

lemma raw_partial [simp]: "p_partial (plan_dataset_raw x dopt point) = False"
  by (simp add: plan_dataset_raw_def Let_def rollback_or_diverged_props(3)
      split: option.split list.split)

lemma rollback_not:
  "p_state (rollback_or_diverged x d) \<noteq> AT_POINT" "p_state (rollback_or_diverged x d) \<noteq> RESUME"
  "p_state (rollback_or_diverged x d) \<noteq> NEW" "p_state (rollback_or_diverged x d) \<noteq> INCREMENTAL"
  "p_state (rollback_or_diverged x d) \<noteq> VIA_BOOKMARK"
  "p_state (rollback_or_diverged x d) \<noteq> MODIFIED" "p_state (rollback_or_diverged x d) \<noteq> ORPHAN"
  "p_state (rollback_or_diverged x d) \<noteq> EXCLUDED"
  using rollback_or_diverged_props(1) [of x d] by auto

lemmas raw_splits = option.splits list.splits if_splits

lemma raw_RESUME:
  "p_state (plan_dataset_raw x dopt point) = RESUME \<longleftrightarrow> (\<exists>d. dopt = Some d \<and> d_token d \<noteq> '''')"
  by (auto simp: plan_dataset_raw_def Let_def rollback_not split: raw_splits)

lemma raw_NEW: "p_state (plan_dataset_raw x dopt point) = NEW \<longleftrightarrow> dopt = None"
  by (auto simp: plan_dataset_raw_def Let_def rollback_not split: raw_splits)

lemma raw_AT_POINT:
  "p_state (plan_dataset_raw x (Some d) point) = AT_POINT \<longleftrightarrow>
     d_token d = '''' \<and> (\<exists>n s. newest d = Some n \<and> snap_by_guid x (r_guid n) = Some s \<and> r_name s = point)"
  by (auto simp: plan_dataset_raw_def Let_def rollback_not split: raw_splits)


text \<open>The newest snapshot of the drive is a base of the next incremental.\<close>

definition newest_usable :: "origin \<Rightarrow> ref \<Rightarrow> bool" where
  "newest_usable x n =
     (snap_by_guid x (r_guid n) \<noteq> None
      \<or> (\<not> is_bpool (o_rel x)
         \<and> (\<exists>bm. bookmark_by_guid x (r_guid n) = Some bm \<and> later_snaps x bm \<noteq> [])))"

lemma raw_INCREMENTAL:
  assumes "p_state (plan_dataset_raw x (Some d) point) = INCREMENTAL"
  shows "d_token d = '''' \<and> (\<exists>n s. newest d = Some n \<and> snap_by_guid x (r_guid n) = Some s
    \<and> r_name s \<noteq> point \<and> p_base (plan_dataset_raw x (Some d) point) = ''@'' @ r_name s)"
  using assms by (auto simp: plan_dataset_raw_def Let_def rollback_not split: raw_splits)

lemma raw_VIA_BOOKMARK:
  assumes "p_state (plan_dataset_raw x (Some d) point) = VIA_BOOKMARK"
  shows "d_token d = '''' \<and> \<not> is_bpool (o_rel x) \<and> (\<exists>n bm s ss. newest d = Some n
    \<and> snap_by_guid x (r_guid n) = None \<and> bookmark_by_guid x (r_guid n) = Some bm
    \<and> later_snaps x bm = s # ss \<and> p_base (plan_dataset_raw x (Some d) point) = ''#'' @ r_name bm
    \<and> p_first (plan_dataset_raw x (Some d) point) = ''@'' @ r_name s)"
  using assms by (auto simp: plan_dataset_raw_def Let_def rollback_not split: raw_splits)

lemma raw_fallback:
  assumes "newest d = Some n" and "\<not> newest_usable x n" and "d_token d = ''''"
  shows "plan_dataset_raw x (Some d) point = rollback_or_diverged x d"
  using assms by (auto simp: plan_dataset_raw_def Let_def newest_usable_def split: raw_splits)

lemma raw_usable_state:
  assumes "newest d = Some n" and "newest_usable x n" and "d_token d = ''''"
  shows "p_state (plan_dataset_raw x (Some d) point) \<in> {AT_POINT, INCREMENTAL, VIA_BOOKMARK}"
  using assms by (auto simp: plan_dataset_raw_def Let_def newest_usable_def split: raw_splits)

lemma plan_None [simp]: "plan_dataset x None point = DatasetPlan (o_rel x) NEW"
  by (simp add: plan_dataset_def plan_dataset_raw_def)

lemma plan_rel [simp]: "p_rel (plan_dataset x dopt point) = o_rel x"
  by (auto simp: plan_dataset_def Let_def split: option.split)

text \<open>The three ways a plan is reached: unwritten, written, and written over a partial receive.\<close>

lemma plan_unwritten: "d_written d \<le> 0 \<Longrightarrow> plan_dataset x (Some d) point = plan_dataset_raw x (Some d) point"
  by (auto simp: plan_dataset_def Let_def)

lemma plan_written:
  assumes "d_written d > 0" and "p_state (plan_dataset_raw x (Some d) point) \<noteq> RESUME \<or> newest d = None"
  shows "plan_dataset x (Some d) point =
    (let p = plan_dataset_raw x (Some d) point in
     if p_state p \<in> {INCREMENTAL, VIA_BOOKMARK}
     then p\<lparr>p_state := MODIFIED, p_used := d_written d, p_common := newest_ref d\<rparr> else p)"
  using assms by (auto simp: plan_dataset_def Let_def)

lemma plan_partial:
  assumes "d_written d > 0" and "d_token d \<noteq> ''''" and "newest d \<noteq> None"
  shows "p_state (plan_dataset x (Some d) point) = MODIFIED"
    and "p_partial (plan_dataset x (Some d) point)"
    and "p_common (plan_dataset x (Some d) point) = newest_ref d"
    and "p_used (plan_dataset x (Some d) point) = d_written d"
proof -
  have "p_state (plan_dataset_raw x (Some d) point) = RESUME"
    using assms(2) by (simp add: raw_RESUME)
  with assms show "p_state (plan_dataset x (Some d) point) = MODIFIED"
    "p_partial (plan_dataset x (Some d) point)"
    "p_common (plan_dataset x (Some d) point) = newest_ref d"
    "p_used (plan_dataset x (Some d) point) = d_written d"
    by (auto simp: plan_dataset_def Let_def)
qed

lemma plan_state_cases:
  "p_state (plan_dataset x (Some d) point) = MODIFIED
   \<or> plan_dataset x (Some d) point = plan_dataset_raw x (Some d) point
     \<and> (d_written d \<le> 0 \<or> p_state (plan_dataset_raw x (Some d) point) \<notin> {INCREMENTAL, VIA_BOOKMARK})"
proof (cases "d_written d > 0")
  case True
  show ?thesis
  proof (cases "d_token d \<noteq> '''' \<and> newest d \<noteq> None")
    case True
    with \<open>d_written d > 0\<close> show ?thesis by (blast intro: plan_partial)
  next
    case False
    then have "p_state (plan_dataset_raw x (Some d) point) \<noteq> RESUME \<or> newest d = None"
      by (auto simp: raw_RESUME)
    with True show ?thesis by (simp add: plan_written Let_def)
  qed
next
  case False
  then show ?thesis by (simp add: plan_unwritten)
qed

lemma raw_not_MODIFIED: "p_state (plan_dataset_raw x dopt point) \<notin> {MODIFIED, ORPHAN, EXCLUDED}"
  by (auto simp: plan_dataset_raw_def Let_def rollback_not split: raw_splits)


section \<open>Properties: one dataset\<close>

text \<open>C13: the base of an incremental is always the drive's newest snapshot. A dataset planned
  INCREMENTAL or VIA BOOKMARK has an unwritten copy without partial receive whose newest snapshot
  origin holds: as the snapshot the base names, or (never on bpool) as the bookmark the base names,
  when it is no longer a snapshot in origin; the first stream then ends at the earliest listed
  snapshot after the bookmark.\<close>

theorem plan_base_is_newest:
  assumes "p_state (plan_dataset x (Some d) point) \<in> {INCREMENTAL, VIA_BOOKMARK}"
  shows "d_written d \<le> 0 \<and> d_token d = '''' \<and>
    (\<exists>n. newest d = Some n \<and>
      (if p_state (plan_dataset x (Some d) point) = INCREMENTAL
       then \<exists>s \<in> set (o_snaps x). r_guid s = r_guid n \<and> r_name s \<noteq> point
              \<and> p_base (plan_dataset x (Some d) point) = ''@'' @ r_name s
       else \<not> is_bpool (o_rel x) \<and> (\<forall>s \<in> set (o_snaps x). r_guid s \<noteq> r_guid n)
            \<and> (\<exists>bm \<in> set (o_bookmarks x). \<exists>s ss. r_guid bm = r_guid n
                \<and> filter (\<lambda>s. r_createtxg s > r_createtxg bm) (o_snaps x) = s # ss
                \<and> p_base (plan_dataset x (Some d) point) = ''#'' @ r_name bm
                \<and> p_first (plan_dataset x (Some d) point) = ''@'' @ r_name s)))"
proof -
  let ?raw = "plan_dataset_raw x (Some d) point"
  have eq: "plan_dataset x (Some d) point = ?raw" and w: "d_written d \<le> 0"
    using plan_state_cases [of x d point] assms by auto
  show ?thesis
  proof (cases "p_state ?raw = INCREMENTAL")
    case True
    then show ?thesis
      using raw_INCREMENTAL [OF True] w by (auto simp: eq dest!: snap_by_guid_Some)
  next
    case False
    with assms eq have "p_state ?raw = VIA_BOOKMARK" by auto
    from raw_VIA_BOOKMARK [OF this] False w show ?thesis
      by (fastforce simp: eq later_snaps_def snap_by_guid_None dest!: bookmark_by_guid_Some)
  qed
qed

definition ex_snap :: "string \<Rightarrow> string \<Rightarrow> int \<Rightarrow> ref" where
  "ex_snap name guid txg = \<lparr>r_name = name, r_guid = guid, r_createtxg = txg, r_creation = txg\<rparr>"

definition ex_origin :: "string \<Rightarrow> ref list \<Rightarrow> ref list \<Rightarrow> origin" where
  "ex_origin rel snaps bms =
     \<lparr>o_rel = rel, o_kind = ''filesystem'', o_canmount = ''on'', o_mountpoint = ''/x'',
      o_referenced = 7, o_snaps = snaps, o_bookmarks = bms, o_clone_of = ''''\<rparr>"

definition ex_dest :: "string \<Rightarrow> ref list \<Rightarrow> dest" where
  "ex_dest rel snaps =
     \<lparr>d_rel = rel, d_kind = ''filesystem'', d_token = '''', d_orphan = '''', d_excluded_kept = '''',
      d_used = 9, d_written = 0, d_snaps = snaps, d_clone_of = ''''\<rparr>"

definition ex_var :: origin where
  "ex_var = ex_origin ''rpool/var'' [ex_snap ''b'' ''g2'' 20, ex_snap ''pt'' ''g3'' 30]
              [ex_snap ''bm'' ''g1'' 10]"

lemmas ex_defs = ex_snap_def ex_origin_def ex_dest_def ex_var_def

theorem plan_base_is_newest_witness:
  "p_state (plan_dataset ex_var (Some (ex_dest ''rpool/var'' [ex_snap ''a'' ''g1'' 5])) ''pt'')
     = VIA_BOOKMARK
   \<and> \<not> is_bpool (o_rel ex_var)
   \<and> p_first (plan_dataset ex_var (Some (ex_dest ''rpool/var'' [ex_snap ''a'' ''g1'' 5])) ''pt'')
     = ''@b''"
proof -
  let ?p = "plan_dataset ex_var (Some (ex_dest ''rpool/var'' [ex_snap ''a'' ''g1'' 5])) ''pt''"
  have st: "p_state ?p = VIA_BOOKMARK" by code_simp
  then show ?thesis
    using plan_base_is_newest [of ex_var "ex_dest ''rpool/var'' [ex_snap ''a'' ''g1'' 5]" "''pt''"]
    by (auto simp: ex_defs newest_def)
qed

text \<open>A ROLLBACK names the newest snapshot of the drive that origin can still continue from,
  and lists for destruction exactly the drive's snapshots after it; the newest snapshot itself is
  then no usable base.\<close>

lemma plan_rollback_newest_common:
  assumes "p_state (plan_dataset x (Some d) point) = ROLLBACK"
  shows "\<exists>n j. newest d = Some n \<and> \<not> newest_usable x n \<and> Suc j < length (d_snaps d)
    \<and> recoverable x (d_snaps d ! j)
    \<and> (\<forall>k. j < k \<and> Suc k < length (d_snaps d) \<longrightarrow> \<not> recoverable x (d_snaps d ! k))
    \<and> p_common (plan_dataset x (Some d) point) = ''@'' @ r_name (d_snaps d ! j)
    \<and> p_newer (plan_dataset x (Some d) point)
        = map (\<lambda>r. ''@'' @ r_name r) (drop (Suc j) (d_snaps d))"
proof -
  let ?raw = "plan_dataset_raw x (Some d) point"
  have eq: "plan_dataset x (Some d) point = ?raw"
    using plan_state_cases [of x d point] assms by auto
  then have "p_state ?raw \<noteq> RESUME" using assms by simp
  then have tok: "d_token d = ''''" by (simp add: raw_RESUME)
  have nw: "newest d \<noteq> None"
  proof
    assume "newest d = None"
    with tok have "p_state ?raw = DIVERGED" by (simp add: plan_dataset_raw_def)
    with assms eq show False by simp
  qed
  then obtain n where n: "newest d = Some n" by auto
  have nu: "\<not> newest_usable x n"
    using raw_usable_state [OF n _ tok, of x point] assms eq by auto
  have raw: "?raw = rollback_or_diverged x d" using raw_fallback [OF n nu tok] .
  then obtain p where p: "older_common x d (length (d_snaps d) - 1) = Some p" "?raw = p"
    using assms eq by (auto simp: rollback_or_diverged_def split: option.splits)
  from older_common_Some [OF p(1)] obtain j where
    "j < length (d_snaps d) - 1" "rollback_at x d j p"
    "\<forall>k. j < k \<and> k < length (d_snaps d) - 1 \<longrightarrow> \<not> recoverable x (d_snaps d ! k)" by blast
  moreover have "plan_dataset x (Some d) point = p" using eq p(2) by simp
  ultimately show ?thesis
    using n nu by (intro exI [of _ n] exI [of _ j]) (simp add: rollback_at_def less_diff_conv)
qed

text \<open>A dataset is DIVERGED exactly when its copy on the drive has no partial receive and
  origin can continue from none of its snapshots: there is none at all, or the newest is no usable
  base and no older one is held by origin as a snapshot or (not on bpool) as a bookmark.\<close>

lemma plan_diverged_iff:
  "p_state (plan_dataset x (Some d) point) = DIVERGED \<longleftrightarrow>
     d_token d = '''' \<and>
     (case newest d of
        None \<Rightarrow> True
      | Some n \<Rightarrow> \<not> newest_usable x n \<and> (\<forall>s \<in> set (butlast (d_snaps d)). \<not> recoverable x s))"
proof -
  let ?raw = "plan_dataset_raw x (Some d) point"
  have pr: "p_state (plan_dataset x (Some d) point) = DIVERGED \<longleftrightarrow> p_state ?raw = DIVERGED
      \<and> \<not> (d_token d \<noteq> '''' \<and> newest d \<noteq> None \<and> d_written d > 0)"
    using plan_state_cases [of x d point] plan_partial(1) [of d x point] raw_RESUME [of x "Some d" point]
      raw_not_MODIFIED [of x "Some d" point]
    by (cases "d_written d > 0") (auto simp: plan_unwritten plan_written Let_def)
  have bl: "(\<forall>s \<in> set (butlast (d_snaps d)). \<not> recoverable x s) \<longleftrightarrow>
      older_common x d (length (d_snaps d) - 1) = None"
    unfolding older_common_None
    by (metis in_set_conv_nth length_butlast nth_butlast)
  have "p_state ?raw = DIVERGED \<longleftrightarrow> d_token d = '''' \<and>
     (case newest d of None \<Rightarrow> True
      | Some n \<Rightarrow> \<not> newest_usable x n \<and> (\<forall>s \<in> set (butlast (d_snaps d)). \<not> recoverable x s))"
  proof (cases "d_token d = ''''")
    case False
    then show ?thesis using raw_RESUME [of x "Some d" point] by auto
  next
    case True
    show ?thesis
    proof (cases "newest d")
      case None
      with True show ?thesis by (simp add: plan_dataset_raw_def)
    next
      case (Some n)
      show ?thesis
      proof (cases "newest_usable x n")
        case u: True
        from raw_usable_state [OF Some u True, of point] u Some show ?thesis by auto
      next
        case False
        have "p_state (rollback_or_diverged x d) = DIVERGED \<longleftrightarrow>
            older_common x d (length (d_snaps d) - 1) = None"
          by (auto simp: rollback_or_diverged_def rollback_at_def split: option.split
              dest!: older_common_Some)
        with False Some True bl show ?thesis by (simp add: raw_fallback)
      qed
    qed
  qed
  with pr show ?thesis by auto
qed

text \<open>A copy that was written since its newest snapshot is never sent onto: it is MODIFIED
  exactly when it was written, has a snapshot, and either holds a partial receive or its newest
  snapshot is the base of an incremental; the plan then names that newest snapshot as what a
  rollback returns to, destroying no snapshot.\<close>

lemma plan_modified_iff:
  "p_state (plan_dataset x (Some d) point) = MODIFIED \<longleftrightarrow>
     d_written d > 0 \<and> (\<exists>n. newest d = Some n \<and>
       (d_token d \<noteq> '''' \<or> p_state (plan_dataset_raw x (Some d) point) \<in> {INCREMENTAL, VIA_BOOKMARK})
       \<and> p_common (plan_dataset x (Some d) point) = ''@'' @ r_name n)"
proof (cases "d_written d > 0")
  case False
  then show ?thesis using raw_not_MODIFIED [of x "Some d" point] by (auto simp: plan_unwritten)
next
  case w: True
  show ?thesis
  proof (cases "d_token d \<noteq> '''' \<and> newest d \<noteq> None")
    case True
    then show ?thesis using plan_partial [OF w] w by (auto simp: newest_ref_def)
  next
    case False
    then have "p_state (plan_dataset_raw x (Some d) point) \<noteq> RESUME \<or> newest d = None"
      by (auto simp: raw_RESUME)
    from plan_written [OF w this] show ?thesis
      using raw_not_MODIFIED [of x "Some d" point] raw_INCREMENTAL [of x d point]
        raw_VIA_BOOKMARK [of x d point] False w
      by (auto simp: Let_def newest_ref_def)
  qed
qed

section \<open>Lemmas: a run\<close>

text \<open>The readers key every dataset by its own name and list the snapshots by \<open>createtxg\<close>.\<close>

definition wf_origin :: "(string, origin) dict \<Rightarrow> bool" where
  "wf_origin ori = (wf_dict ori \<and> list_all (\<lambda>(rel, x). o_rel x = rel) ori)"

lemma wf_origin_rel: "wf_origin ori \<Longrightarrow> map_of ori rel = Some x \<Longrightarrow> o_rel x = rel"
  by (auto simp: wf_origin_def list_all_iff dest: map_of_SomeD)

lemma expected_set:
  "set (expected ori skip) =
     {rel. \<exists>x. (rel, x) \<in> set ori \<and> rel \<noteq> KEYSTORE \<and> \<not> startswith rel (KEYSTORE @ ''/'')
       \<and> o_kind x \<noteq> ''volume'' \<and> rel \<notin> set STRUCTURAL \<and> \<not> is_archived rel \<and> \<not> is_excluded rel skip}"
  by (force simp: expected_def)

lemma expected_in_origin:
  "wf_dict ori \<Longrightarrow> rel \<in> set (expected ori skip) \<Longrightarrow> \<exists>x. map_of ori rel = Some x"
  by (auto simp: expected_set wf_dict_map_of)

lemma expected_not_archived: "rel \<in> set (expected ori skip) \<Longrightarrow> \<not> is_archived rel"
  by (auto simp: expected_set)

lemma map_of_live: "map_of (live_of dst) rel = (if is_archived rel then None else map_of dst rel)"
  using map_of_filter_keys [of "\<lambda>rel. \<not> is_archived rel" dst rel] by (simp add: live_of_def)

lemma clone_base_sel [simp]:
  "p_state (clone_base p ori live) = p_state p" "p_rel (clone_base p ori live) = p_rel p"
  by (simp_all add: clone_base_def Let_def split: option.split prod.split)

lemma plan_split:
  obtains tops rens where
    "plan ori dst point skip = expected_rows ori (live_of dst) point skip
      @ map (\<lambda>(rel, why). (DatasetPlan rel EXCLUDED)\<lparr>p_note := why\<rparr>)
          (filter (\<lambda>(rel, why). \<not> is_excluded rel skip) (excluded ori))
      @ declared_rows ori (live_of dst) skip @ map (orphan_row (live_of dst) rens) tops"
    "tops = orphan_tops (orphans_of ori (live_of dst))"
    "rens = renames tops (map p_rel (filter (\<lambda>p. p_state p = NEW)
        (expected_rows ori (live_of dst) point skip))) ori (live_of dst)"
proof -
  have n: "filter (\<lambda>p. p_state p = NEW)
      (map (\<lambda>(rel, why). (DatasetPlan rel EXCLUDED)\<lparr>p_note := why\<rparr>)
          (filter (\<lambda>(rel, why). \<not> is_excluded rel skip) (excluded ori))
       @ declared_rows ori (live_of dst) skip) = []"
    by (auto simp: filter_empty_conv declared_rows_def Let_def)
  show thesis
    by (rule that [OF _ refl refl]) (use n in \<open>simp add: plan_def Let_def\<close>)
qed

lemma declared_rows_state: "p \<in> set (declared_rows ori live skip) \<Longrightarrow> p_state p = EXCLUDED"
  by (auto simp: declared_rows_def Let_def)

lemma orphan_row_sel [simp]:
  "p_state (orphan_row live rens rel) = ORPHAN" "p_rel (orphan_row live rens rel) = rel"
  "p_rename_to (orphan_row live rens rel) = dict_get_or rens rel ''''"
  by (simp_all add: orphan_row_def)

lemma expected_rows_state:
  "p \<in> set (expected_rows ori live point skip) \<Longrightarrow> p_state p \<notin> {ORPHAN, EXCLUDED}"
proof -
  have "p_state (plan_dataset x dopt point) \<notin> {ORPHAN, EXCLUDED}" for x dopt
    using plan_state_cases [of x _ point] raw_not_MODIFIED [of x dopt point]
    by (cases dopt) (simp, metis insertCI insert_iff singletonD state.distinct)
  then show "p \<in> set (expected_rows ori live point skip) \<Longrightarrow> p_state p \<notin> {ORPHAN, EXCLUDED}"
    by (auto simp: expected_rows_def Let_def split: if_splits)
qed

lemma planned_rows:
  "filter (\<lambda>p. p_state p \<notin> {ORPHAN, EXCLUDED}) (plan ori dst point skip)
     = expected_rows ori (live_of dst) point skip"
proof -
  obtain tops rens where *:
    "plan ori dst point skip = expected_rows ori (live_of dst) point skip
      @ map (\<lambda>(rel, why). (DatasetPlan rel EXCLUDED)\<lparr>p_note := why\<rparr>)
          (filter (\<lambda>(rel, why). \<not> is_excluded rel skip) (excluded ori))
      @ declared_rows ori (live_of dst) skip @ map (orphan_row (live_of dst) rens) tops"
    by (rule plan_split)
  have "filter (\<lambda>p. p_state p \<notin> {ORPHAN, EXCLUDED}) (expected_rows ori (live_of dst) point skip)
      = expected_rows ori (live_of dst) point skip"
    using expected_rows_state by (auto simp: filter_id_conv)
  moreover have "filter (\<lambda>p. p_state p \<notin> {ORPHAN, EXCLUDED}) (declared_rows ori (live_of dst) skip) = []"
    using declared_rows_state by (fastforce simp: filter_empty_conv)
  ultimately show ?thesis
    unfolding * by (auto simp: filter_empty_conv)
qed

lemma expected_row_AT_POINT:
  assumes "wf_dict ori" and "rel \<in> set (expected ori skip)" and "map_of ori rel = Some x"
  shows "p_state (let p = plan_dataset x (map_of (live_of dst) rel) point
                  in if p_state p = NEW then clone_base p ori (live_of dst) else p) = AT_POINT
    \<longleftrightarrow> (\<exists>d n s. map_of dst rel = Some d \<and> d_token d = '''' \<and> newest d = Some n
        \<and> snap_by_guid x (r_guid n) = Some s \<and> r_name s = point)"
proof -
  have live: "map_of (live_of dst) rel = map_of dst rel"
    using expected_not_archived [OF assms(2)] by (simp add: map_of_live)
  show ?thesis
  proof (cases "map_of dst rel")
    case None
    with live show ?thesis by (simp add: Let_def)
  next
    case (Some d)
    have "p_state (plan_dataset x (Some d) point) = AT_POINT \<longleftrightarrow>
        p_state (plan_dataset_raw x (Some d) point) = AT_POINT"
      using plan_state_cases [of x d point] plan_partial(1) [of d x point]
        raw_not_MODIFIED [of x "Some d" point] raw_RESUME [of x "Some d" point]
      by (cases "d_written d > 0") (auto simp: plan_unwritten plan_written Let_def)
    with live Some show ?thesis by (auto simp: Let_def raw_AT_POINT)
  qed
qed


section \<open>Properties: a run\<close>

text \<open>What a backup must bring to the point. \<open>expected\<close> lists, once each and in name order, the
  datasets of origin that are file systems outside the keystore, the structural containers, the
  archived lineages and every excluded subtree; nothing below an excluded top is expected.\<close>

lemma expected_correct:
  assumes "wf_dict ori"
  shows "sorted (expected ori skip) \<and> distinct (expected ori skip) \<and>
    (\<forall>rel. rel \<in> set (expected ori skip) \<longleftrightarrow>
       (\<exists>x. map_of ori rel = Some x \<and> o_kind x \<noteq> ''volume'') \<and> \<not> under rel KEYSTORE
       \<and> rel \<notin> set STRUCTURAL \<and> \<not> is_archived rel \<and> (\<forall>t \<in> set skip. \<not> under rel t))"
proof -
  have "distinct (map fst (filter P ori))" for P
    using assms wf_dict_filter [of ori P] by (simp add: wf_dict_def dict_keys_def)
  moreover have "rel \<in> set (expected ori skip) \<longleftrightarrow>
       (\<exists>x. map_of ori rel = Some x \<and> o_kind x \<noteq> ''volume'') \<and> \<not> under rel KEYSTORE
       \<and> rel \<notin> set STRUCTURAL \<and> \<not> is_archived rel \<and> (\<forall>t \<in> set skip. \<not> under rel t)" for rel
    using assms by (auto simp: expected_set wf_dict_map_of is_excluded_iff under_any_iff
        under_def startswith_def)
  ultimately show ?thesis by (simp add: expected_def)
qed

lemma reached_all:
  assumes "wf_dict ori"
  shows "reached (plan ori dst point skip) \<longleftrightarrow>
    (\<forall>rel \<in> set (expected ori skip). \<exists>x d n s. map_of ori rel = Some x \<and> map_of dst rel = Some d
       \<and> d_token d = '''' \<and> newest d = Some n \<and> snap_by_guid x (r_guid n) = Some s
       \<and> r_name s = point)"
proof -
  have "reached (plan ori dst point skip) \<longleftrightarrow>
      (\<forall>rel \<in> set (expected ori skip).
        p_state (let p = plan_dataset (the (map_of ori rel)) (map_of (live_of dst) rel) point
                 in if p_state p = NEW then clone_base p ori (live_of dst) else p) = AT_POINT)"
    unfolding reached_def planned_rows by (simp add: expected_rows_def list_all_iff)
  also have "\<dots> \<longleftrightarrow> (\<forall>rel \<in> set (expected ori skip). \<exists>x d n s. map_of ori rel = Some x
       \<and> map_of dst rel = Some d \<and> d_token d = '''' \<and> newest d = Some n
       \<and> snap_by_guid x (r_guid n) = Some s \<and> r_name s = point)"
  proof (rule ball_cong [OF refl])
    fix rel assume rel: "rel \<in> set (expected ori skip)"
    from expected_in_origin [OF assms rel] obtain x where x: "map_of ori rel = Some x" by blast
    from expected_row_AT_POINT [OF assms rel x, of dst point] x
    show "(p_state (let p = plan_dataset (the (map_of ori rel)) (map_of (live_of dst) rel) point
                 in if p_state p = NEW then clone_base p ori (live_of dst) else p) = AT_POINT)
       = (\<exists>x d n s. map_of ori rel = Some x
       \<and> map_of dst rel = Some d \<and> d_token d = '''' \<and> newest d = Some n
       \<and> snap_by_guid x (r_guid n) = Some s \<and> r_name s = point)"
      by simp
  qed
  finally show ?thesis .
qed

text \<open>Success is what it says (invariant I-D). The plan of a survey counts as reached exactly
  when every expected dataset of origin is on the drive without a partial receive and the drive's
  newest snapshot of it is, by guid, origin's snapshot of the point.\<close>

lemma reached_iff:
  assumes "wf_dict ori"
  shows "reached (plan ori dst point skip) \<longleftrightarrow>
    (\<forall>rel \<in> set (expected ori skip). \<exists>x d n s. map_of ori rel = Some x \<and> map_of dst rel = Some d
       \<and> d_token d = '''' \<and> newest d = Some n \<and> snap_by_guid x (r_guid n) = Some s
       \<and> r_name s = point)"
  by (rule reached_all [OF assms])

lemma orphan_top_above:
  "rel \<in> set orphans \<Longrightarrow> '''' \<notin> set orphans \<Longrightarrow> \<exists>t \<in> set (orphan_tops orphans). under rel t"
proof (induction "length rel" arbitrary: rel rule: less_induct)
  case less
  show ?case
  proof (cases "parent rel \<in> set orphans")
    case False
    with less.prems show ?thesis by (auto simp: orphan_tops_def)
  next
    case True
    with less.prems have "parent rel \<noteq> ''''" by auto
    note pu = parent_under [OF this]
    from less.hyps [OF pu(3) True less.prems(2)] pu(1) show ?thesis by (blast intro: under_trans)
  qed
qed

lemma orphans_set:
  "set (orphans_of ori (live_of dst)) =
     {rel. rel \<in> dom (map_of dst) \<and> \<not> is_archived rel \<and> map_of ori rel = None \<and> rel \<notin> set STRUCTURAL}"
  by (auto simp: orphans_of_def map_of_live dom_def split: if_splits)

lemma plan_covers_parts:
  assumes "wf_origin ori" and "'''' \<notin> dom (map_of dst)"
  shows "map p_rel (filter (\<lambda>p. p_state p \<notin> {ORPHAN, EXCLUDED}) (plan ori dst point skip))
      = expected ori skip"
    and "p \<in> set (plan ori dst point skip) \<Longrightarrow> p_state p = ORPHAN \<Longrightarrow>
      p_rel p \<in> dom (map_of dst) \<and> map_of ori (p_rel p) = None \<and> \<not> is_archived (p_rel p)
      \<and> p_rel p \<notin> set STRUCTURAL"
    and "rel \<in> dom (map_of dst) \<Longrightarrow> map_of ori rel = None \<Longrightarrow> \<not> is_archived rel \<Longrightarrow>
      rel \<notin> set STRUCTURAL \<Longrightarrow>
      \<exists>p \<in> set (plan ori dst point skip). p_state p = ORPHAN \<and> under rel (p_rel p)"
proof -
  have "p_rel (plan_dataset (the (map_of ori rel)) dopt point) = rel"
    if r: "rel \<in> set (expected ori skip)" for rel dopt
  proof -
    from expected_in_origin [OF _ r] assms(1) obtain x where "map_of ori rel = Some x"
      by (auto simp: wf_origin_def)
    with wf_origin_rel [OF assms(1)] show ?thesis by simp
  qed
  then have "map p_rel (expected_rows ori (live_of dst) point skip) = expected ori skip"
    by (auto simp: expected_rows_def Let_def comp_def intro: map_idI)
  then show "map p_rel (filter (\<lambda>p. p_state p \<notin> {ORPHAN, EXCLUDED}) (plan ori dst point skip))
      = expected ori skip" by (simp only: planned_rows)
next
  let ?tops = "orphan_tops (orphans_of ori (live_of dst))"
  obtain rens where pl:
    "plan ori dst point skip = expected_rows ori (live_of dst) point skip
      @ map (\<lambda>(rel, why). (DatasetPlan rel EXCLUDED)\<lparr>p_note := why\<rparr>)
          (filter (\<lambda>(rel, why). \<not> is_excluded rel skip) (excluded ori))
      @ declared_rows ori (live_of dst) skip @ map (orphan_row (live_of dst) rens) ?tops"
    by (rule plan_split) blast
  show "p_rel p \<in> dom (map_of dst) \<and> map_of ori (p_rel p) = None \<and> \<not> is_archived (p_rel p)
      \<and> p_rel p \<notin> set STRUCTURAL"
    if "p \<in> set (plan ori dst point skip)" "p_state p = ORPHAN"
  proof -
    from that have "p \<in> set (map (orphan_row (live_of dst) rens) ?tops)"
      unfolding pl using expected_rows_state declared_rows_state by fastforce
    then have "p_rel p \<in> set (orphans_of ori (live_of dst))" by (auto simp: orphan_tops_def)
    then show ?thesis unfolding orphans_set by blast
  qed
  show "\<exists>p \<in> set (plan ori dst point skip). p_state p = ORPHAN \<and> under rel (p_rel p)"
    if "rel \<in> dom (map_of dst)" "map_of ori rel = None" "\<not> is_archived rel" "rel \<notin> set STRUCTURAL"
  proof -
    from that have "rel \<in> set (orphans_of ori (live_of dst))" unfolding orphans_set by blast
    moreover have "'''' \<notin> set (orphans_of ori (live_of dst))"
      using assms(2) unfolding orphans_set by blast
    ultimately obtain t where "t \<in> set ?tops" "under rel t" using orphan_top_above by blast
    then show ?thesis unfolding pl by (intro bexI [of _ "orphan_row (live_of dst) rens t"]) auto
  qed
qed

text \<open>The plan covers origin and the drive. Its rows other than ORPHAN and EXCLUDED are the
  expected datasets, each once and in name order; its ORPHAN rows are datasets of the drive that
  origin does not have, never archived nor structural; and every such dataset of the drive lies in
  the tree of one of them, so nothing that exists only on the drive goes unreported.\<close>

lemma plan_covers:
  assumes "wf_origin ori" and "'''' \<notin> dom (map_of dst)"
  shows "map p_rel (filter (\<lambda>p. p_state p \<notin> {ORPHAN, EXCLUDED}) (plan ori dst point skip))
      = expected ori skip
    \<and> (\<forall>p \<in> set (plan ori dst point skip). p_state p = ORPHAN \<longrightarrow>
        p_rel p \<in> dom (map_of dst) \<and> map_of ori (p_rel p) = None \<and> \<not> is_archived (p_rel p)
        \<and> p_rel p \<notin> set STRUCTURAL)
    \<and> (\<forall>rel \<in> dom (map_of dst). map_of ori rel = None \<and> \<not> is_archived rel \<and> rel \<notin> set STRUCTURAL \<longrightarrow>
        (\<exists>p \<in> set (plan ori dst point skip). p_state p = ORPHAN \<and> under rel (p_rel p)))"
  using plan_covers_parts [OF assms] by blast

definition rename_ok ::
    "string list \<Rightarrow> (string, origin) dict \<Rightarrow> (string, dest) dict \<Rightarrow> string \<Rightarrow> string \<Rightarrow> bool" where
  "rename_ok new_names ori live rel name =
     (name \<in> set new_names \<and> is_bpool name = is_bpool rel \<and> map_of live (parent name) \<noteq> None
      \<and> (\<exists>d n x. map_of live rel = Some d \<and> newest d = Some n \<and> map_of ori name = Some x
           \<and> (snap_by_guid x (r_guid n) \<noteq> None
              \<or> (\<not> is_bpool name \<and> bookmark_by_guid x (r_guid n) \<noteq> None))))"

lemma rename_step_cases:
  "rename_step nn ori live out rel = out \<or>
   (\<exists>name. rename_step nn ori live out rel = dict_set rel name out \<and> name \<notin> set (dict_values out)
      \<and> rename_ok nn ori live rel name)"
proof -
  have "rename_ok nn ori live rel name \<and> name \<notin> set (dict_values out)"
    if "map_of live rel = Some d" "newest d = Some n"
      "find (rename_hit rel n ori live (dict_values out)) (sort nn) = Some name" for d n name
    using find_SomeD [OF that(3)] that(1,2)
    by (auto simp: rename_ok_def rename_hit_def split: option.splits)
  then show ?thesis
    by (auto simp: rename_step_def split: option.split)
qed

lemma renames_invariant:
  assumes "distinct tops"
  shows "dom (map_of (renames tops nn ori live)) \<subseteq> set tops
    \<and> inj_on (map_of (renames tops nn ori live)) (dom (map_of (renames tops nn ori live)))
    \<and> wf_dict (renames tops nn ori live)
    \<and> (\<forall>rel name. map_of (renames tops nn ori live) rel = Some name \<longrightarrow> rename_ok nn ori live rel name)"
  using assms
proof (induction tops rule: rev_induct)
  case Nil
  then show ?case by (simp add: renames_def)
next
  case (snoc rel tops)
  let ?out = "renames tops nn ori live"
  have IH: "dom (map_of ?out) \<subseteq> set tops" "inj_on (map_of ?out) (dom (map_of ?out))" "wf_dict ?out"
    "\<And>r n. map_of ?out r = Some n \<Longrightarrow> rename_ok nn ori live r n"
    using snoc by auto
  have eq: "renames (tops @ [rel]) nn ori live = rename_step nn ori live ?out rel"
    by (simp add: renames_def)
  have vals: "name \<notin> set (dict_values ?out) \<Longrightarrow> map_of ?out r \<noteq> Some name" for name r
    by (metis dict_values_def image_eqI list.set_map map_of_SomeD snd_conv)
  from rename_step_cases [of nn ori live ?out rel] show ?case
  proof (elim disjE exE conjE)
    assume "rename_step nn ori live ?out rel = ?out"
    with IH show ?thesis by (auto simp: eq)
  next
    fix name
    assume s: "rename_step nn ori live ?out rel = dict_set rel name ?out"
      and new: "name \<notin> set (dict_values ?out)" and ok: "rename_ok nn ori live rel name"
    have inj: "x = y" if "map_of ?out x = Some v" "map_of ?out y = Some v" for x y v
      using inj_onD [OF IH(2), of x y] that by (simp add: domI)
    have "inj_on ((map_of ?out)(rel \<mapsto> name)) (dom ((map_of ?out)(rel \<mapsto> name)))"
      using vals [OF new] inj by (auto simp: inj_on_def split: if_splits)
    moreover have "dom ((map_of ?out)(rel \<mapsto> name)) \<subseteq> set (tops @ [rel])" using IH(1) by auto
    moreover have "rename_ok nn ori live r n" if "((map_of ?out)(rel \<mapsto> name)) r = Some n" for r n
      using that IH(4) ok by (auto split: if_splits)
    moreover have "wf_dict (dict_set rel name ?out)" using IH(3) by simp
    ultimately show ?thesis unfolding eq s map_of_dict_set by blast
  qed
qed

lemma distinct_orphan_tops: "wf_dict dst \<Longrightarrow> distinct (orphan_tops (orphans_of ori (live_of dst)))"
proof -
  assume "wf_dict dst"
  then have "distinct (dict_keys (live_of dst))"
    using wf_dict_filter [of dst] by (simp add: live_of_def wf_dict_def)
  then show ?thesis by (simp add: orphan_tops_def orphans_of_def del: set_dict_keys)
qed

text \<open>A rename offered for an orphan never claims a name twice, and each one is a lineage that
  continues: the orphan's newest snapshot is in origin, as a snapshot or (not on bpool) as a
  bookmark, under a name that is new there, on the same pool, whose parent the drive has.\<close>

lemma plan_renames_injective:
  assumes "wf_dict dst"
    and "p \<in> set (plan ori dst point skip)" "p_state p = ORPHAN" "p_rename_to p \<noteq> ''''"
    and "q \<in> set (plan ori dst point skip)" "p_state q = ORPHAN"
    and "p_rename_to q = p_rename_to p"
  shows "p_rel q = p_rel p \<and>
    (\<exists>r \<in> set (plan ori dst point skip). p_state r = NEW \<and>
       rename_ok [p_rel r] ori (live_of dst) (p_rel p) (p_rename_to p))"
proof -
  let ?nn = "map p_rel (filter (\<lambda>p. p_state p = NEW) (expected_rows ori (live_of dst) point skip))"
  obtain tops rens where pl:
    "plan ori dst point skip = expected_rows ori (live_of dst) point skip
      @ map (\<lambda>(rel, why). (DatasetPlan rel EXCLUDED)\<lparr>p_note := why\<rparr>)
          (filter (\<lambda>(rel, why). \<not> is_excluded rel skip) (excluded ori))
      @ declared_rows ori (live_of dst) skip @ map (orphan_row (live_of dst) rens) tops"
    and tops: "tops = orphan_tops (orphans_of ori (live_of dst))"
    and rens: "rens = renames tops ?nn ori (live_of dst)"
    by (rule plan_split)
  have orphan: "\<exists>t. r = orphan_row (live_of dst) rens t"
    if "r \<in> set (plan ori dst point skip)" "p_state r = ORPHAN" for r
    using that unfolding pl using expected_rows_state declared_rows_state by fastforce
  obtain t u where t: "p = orphan_row (live_of dst) rens t" and u: "q = orphan_row (live_of dst) rens u"
    using orphan assms(2,3,5,6) by metis
  have mt: "map_of rens t = Some (p_rename_to p)"
    using assms(4) by (auto simp: t dict_get_or_def split: option.splits)
  moreover have "map_of rens u = Some (p_rename_to p)"
    using assms(4,7) by (auto simp: u dict_get_or_def split: option.splits)
  moreover have inv: "inj_on (map_of rens) (dom (map_of rens))"
    "\<And>r n. map_of rens r = Some n \<Longrightarrow> rename_ok ?nn ori (live_of dst) r n"
    using renames_invariant [OF distinct_orphan_tops [OF assms(1)], of ori ?nn ori "live_of dst"]
    unfolding rens tops by blast+
  ultimately have "u = t" by (auto dest!: inj_onD [of "map_of rens" _ u t])
  from inv(2) mt have ok: "rename_ok ?nn ori (live_of dst) t (p_rename_to p)" by blast
  then obtain r where "r \<in> set (expected_rows ori (live_of dst) point skip)" "p_state r = NEW"
    "p_rel r = p_rename_to p" by (auto simp: rename_ok_def)
  then have "r \<in> set (plan ori dst point skip)" "rename_ok [p_rel r] ori (live_of dst) t (p_rename_to p)"
    using ok by (auto simp: pl rename_ok_def)
  with \<open>p_state r = NEW\<close> \<open>u = t\<close> show ?thesis by (auto simp: t u)
qed


definition ex_live :: "(string, dest) dict" where
  "ex_live = [(''rpool'', ex_dest ''rpool'' []),
              (''rpool/old'', ex_dest ''rpool/old'' [ex_snap ''b'' ''g2'' 4])]"

text \<open>An anchor belongs to one disk. The anchors a run may supersede are this disk's and not
  the one kept; the anchor any run wrote for another disk is never among them.\<close>

lemma old_anchors_own_disk:
  assumes "isdigit guid" and "isdigit other" and "other \<noteq> guid"
  shows "anchor_name other (point_name now) \<notin> set (old_anchors names guid keep)
    \<and> (anchor_name guid (point_name now) \<in> set (old_anchors names guid keep) \<longleftrightarrow>
         anchor_name guid (point_name now) \<in> set names \<and> anchor_name guid (point_name now) \<noteq> keep)"
  using assms by (auto simp: old_anchors_def anchor_disk_of_point_name)

lemma free_name_spec:
  assumes "free_name taken base n fuel name = Some r"
  shows "r \<notin> set taken \<and> (r = name \<or> prefix base r)"
  using assms
  by (induction taken base n fuel name rule: free_name.induct) (auto split: if_splits)

lemma free_name_None:
  assumes "free_name taken base n fuel name = None"
  shows "name \<in> set taken \<and> (\<forall>i < fuel. base @ ''-'' @ dec_of_nat (Suc (n + i)) \<in> set taken)"
  using assms
proof (induction taken base n fuel name rule: free_name.induct)
  case (2 taken base n fuel name)
  then have "name \<in> set taken" "free_name taken base (Suc n) fuel (base @ ''-'' @ dec_of_nat (Suc n)) = None"
    by (auto split: if_splits)
  with "2.IH" show ?case
    by (auto simp: less_Suc_eq_0_disj)
qed (auto split: if_splits)

lemma free_name_total: "\<exists>r. free_name taken base n (length taken) base = Some r"
proof (rule ccontr)
  assume "\<not> ?thesis"
  then have "free_name taken base n (length taken) base = None" by simp
  note none = free_name_None [OF this]
  let ?names = "base # map (\<lambda>i. base @ ''-'' @ dec_of_nat (Suc (n + i))) [0..<length taken]"
  have "distinct ?names" by (auto simp: distinct_map inj_on_def)
  moreover have "set ?names \<subseteq> set taken" using none by auto
  ultimately have "length ?names \<le> card (set taken)"
    by (metis List.finite_set card_mono distinct_card)
  then show False using card_length [of taken] by simp
qed

text \<open>An archive gets a name nothing on the drive has, whatever the drive holds: the loop that
  tries \<open>-2\<close>, \<open>-3\<close>, ... always ends with a free name, which extends the dataset's name by the mark
  of an archived lineage.\<close>

lemma archive_name_free:
  "archive_name rel taken now \<notin> set taken \<and> prefix (rel @ ARCHIVE_MARK) (archive_name rel taken now)"
proof -
  let ?base = "rel @ ARCHIVE_MARK @ date_text (from_timestamp now)"
  obtain r where r: "free_name taken ?base 1 (length taken) ?base = Some r"
    using free_name_total by blast
  from free_name_spec [OF this] have "r \<notin> set taken" "prefix ?base r" by auto
  moreover from this(2) have "prefix (rel @ ARCHIVE_MARK) r" by (metis append_assoc append_prefixD)
  ultimately show ?thesis using r by (simp add: archive_name_def Let_def)
qed


lemma newest_by_kind_snoc:
  "newest_by_kind held (snaps @ [s]) =
     (if shared_kind (r_name s) \<noteq> '''' \<and> r_guid s \<in> set held
      then dict_set (shared_kind (r_name s)) s (newest_by_kind held snaps)
      else newest_by_kind held snaps)"
  by (simp add: newest_by_kind_def Let_def)

lemma newest_by_kind_spec:
  "map_of (newest_by_kind held snaps) kind =
     (if kind = '''' then None
      else find (\<lambda>s. shared_kind (r_name s) = kind \<and> r_guid s \<in> set held) (rev snaps))"
proof (induction snaps rule: rev_induct)
  case Nil
  then show ?case by (simp add: newest_by_kind_def)
next
  case (snoc s snaps)
  then show ?case by (auto simp: newest_by_kind_snoc)
qed

lemma wf_newest_by_kind: "wf_dict (newest_by_kind held snaps)"
proof (induction snaps rule: rev_induct)
  case Nil
  then show ?case by (simp add: newest_by_kind_def)
next
  case (snoc s snaps)
  then show ?case by (simp add: newest_by_kind_snoc)
qed

lemma set_dict_values: "wf_dict m \<Longrightarrow> v \<in> set (dict_values m) \<longleftrightarrow> (\<exists>k. map_of m k = Some v)"
  by (force simp: dict_values_def wf_dict_map_of [symmetric])

text \<open>What the drive shares with origin besides its anchors. For every expected dataset the
  result lists, oldest first, snapshots origin still has and the drive holds by guid, and for each
  sanoid type (and syncoid residue) that occurs among those exactly the one listed last.\<close>

lemma shared_snapshots_correct:
  assumes "wf_dict ori" and "(rel, shared) \<in> set (shared_snapshots ori dst skip)"
  shows "\<exists>x. map_of ori rel = Some x \<and> rel \<in> set (expected ori skip)
    \<and> sorted (map r_createtxg shared)
    \<and> (\<forall>s. s \<in> set shared \<longleftrightarrow> (shared_kind (r_name s) \<noteq> ''''
          \<and> find (\<lambda>r. shared_kind (r_name r) = shared_kind (r_name s)
               \<and> (\<exists>d h. map_of dst rel = Some d \<and> h \<in> set (d_snaps d) \<and> r_guid h = r_guid r))
             (rev (o_snaps x)) = Some s))"
proof -
  define held where "held = (case map_of dst rel of Some d \<Rightarrow> map r_guid (d_snaps d) | None \<Rightarrow> [])"
  from assms(2) have rel: "rel \<in> set (expected ori skip)"
    and sh: "shared = sort_key r_createtxg
        (dict_values (newest_by_kind held (o_snaps (the (map_of ori rel)))))"
    by (auto simp: shared_snapshots_def Let_def held_def)
  from expected_in_origin [OF assms(1) rel] obtain x where x: "map_of ori rel = Some x" by blast
  have held: "g \<in> set held \<longleftrightarrow> (\<exists>d h. map_of dst rel = Some d \<and> h \<in> set (d_snaps d) \<and> r_guid h = g)" for g
    by (cases "map_of dst rel") (auto simp: held_def)
  have kind: "shared_kind (r_name s) = kind"
    if "find (\<lambda>s. shared_kind (r_name s) = kind \<and> r_guid s \<in> set held) xs = Some s" for s kind xs
    using find_SomeD [OF that] by blast
  have "s \<in> set shared \<longleftrightarrow> shared_kind (r_name s) \<noteq> ''''
      \<and> find (\<lambda>r. shared_kind (r_name r) = shared_kind (r_name s) \<and> r_guid r \<in> set held)
             (rev (o_snaps x)) = Some s" for s
    using kind by (auto simp: sh x set_dict_values [OF wf_newest_by_kind] newest_by_kind_spec
        split: if_splits)
  with x rel show ?thesis by (simp add: held sh)
qed

section \<open>Point names as a clock\<close>

text \<open>
  The laws the retention and restore-point code relies on when it compares point names: a name
  parses back to its time and names order as times do (for the years \<open>%Y\<close> prints with four
  digits). \<open>point_time\<close> is what \<open>strptime(name, "zark_%Y-%m-%d_%H:%M:%SZ")\<close> gives.
\<close>

definition point_time :: "string \<Rightarrow> int option" where
  "point_time name =
     (if matches (lit POINT_PREFIX @ STAMP) name
      then map_option timestamp (parse_stamp (drop 5 name)) else None)"

definition four_digit_year :: "int \<Rightarrow> bool" where
  "four_digit_year ts = (0 < dt_year (from_timestamp ts) \<and> dt_year (from_timestamp ts) < 10000)"

locale point_clock =
  fixes name_of :: "int \<Rightarrow> string" and time_of :: "string \<Rightarrow> int option" and valid :: "int \<Rightarrow> bool"
  assumes time_of_name: "valid t \<Longrightarrow> time_of (name_of t) = Some t"
    and name_less: "valid t \<Longrightarrow> valid u \<Longrightarrow> name_of t < name_of u \<longleftrightarrow> t < u"
begin

lemma name_inj: "valid t \<Longrightarrow> valid u \<Longrightarrow> name_of t = name_of u \<longleftrightarrow> t = u"
  by (metis option.inject time_of_name)

lemma name_le: "valid t \<Longrightarrow> valid u \<Longrightarrow> name_of t \<le> name_of u \<longleftrightarrow> t \<le> u"
  by (auto simp: le_less name_less name_inj)

lemma sorted_names:
  "list_all valid ts \<Longrightarrow> sorted (map name_of ts) \<longleftrightarrow> sorted ts"
  by (induction ts) (auto simp: name_le list_all_iff)

lemma max_name:
  assumes "list_all valid ts" and "t \<in> set ts" and "\<forall>u \<in> set ts. name_of u \<le> name_of t"
  shows "\<forall>u \<in> set ts. u \<le> t"
  using assms by (auto simp: list_all_iff name_le)

end

lemma stamp_text_append_less:
  "length a = length b \<Longrightarrow> a @ z < b @ z \<longleftrightarrow> a < b" for a b z :: string
  by (simp add: append_less_iff)

lemma length_stamp_text [simp]: "length (stamp_text t) = 19"
  by (simp add: stamp_text_def)

interpretation pc: point_clock point_name point_time four_digit_year
proof
  fix t u
  assume t: "four_digit_year t"
  have "valid_datetime (from_timestamp t)"
    using t by (intro valid_from_timestamp) (auto simp: four_digit_year_def)
  then have "parse_stamp (stamp_text (from_timestamp t) @ ''Z'') = Some (from_timestamp t)"
    using parse_stamp_text [of "from_timestamp t"] by (simp add: parse_stamp_def Let_def)
  moreover have "matches (lit POINT_PREFIX @ STAMP) (point_name t)"
    by (simp add: point_name_def matches_append matches_STAMP_text)
  ultimately show "point_time (point_name t) = Some t"
    by (simp add: point_time_def) (simp add: point_name_def POINT_PREFIX_def)
  assume u: "four_digit_year u"
  show "point_name t < point_name u \<longleftrightarrow> t < u"
    using t u by (simp add: point_name_def append_less_iff stamp_text_less_iff four_digit_year_def
        timestamp_less_iff [symmetric])
qed

text \<open>Backup point names are a clock. A point's name is a backup point name, parses back to
  the second it was taken, and two names compare as strings the way their times compare.\<close>

lemma point_names_are_times:
  assumes "four_digit_year t" and "four_digit_year u"
  shows "POINT_RE (point_name t) \<and> point_time (point_name t) = Some t
    \<and> (point_name t < point_name u \<longleftrightarrow> t < u) \<and> (point_name t = point_name u \<longleftrightarrow> t = u)"
  using pc.time_of_name [OF assms(1)] pc.name_less [OF assms] pc.name_inj [OF assms] by simp

end
