(* ===== verification/Retention.thy ===== *)
theory Retention
  imports Replication
begin

text \<open>
  \<open>lib/retention.py\<close>: which snapshots on a backup drive may go. Sets of names are lists read by
  membership; \<open>whole\<close> is \<open>None\<close> when the caller gives none. \<open>plan_prune\<close> can fail: a recorded
  first point that has the shape of a point name but is no date makes \<open>strptime\<close> raise.
\<close>

section \<open>The policy and what it removes\<close>

definition DAY :: int where
  "DAY = 86400"

record policy =
  window_days :: int
  max_age_days :: int
  margin_pct :: int

record removal =
  rm_rel :: string
  rm_name :: string
  rm_reason :: string

definition target :: "removal \<Rightarrow> string" where
  "target r = rm_rel r @ ''@'' @ rm_name r"

record prune =
  pr_snapshots :: "removal list"
  pr_datasets :: "(string \<times> string) list"
  pr_kept :: "(string \<times> string) list"

definition prune_empty :: "prune \<Rightarrow> bool" where
  "prune_empty p = (pr_snapshots p = [] \<and> pr_datasets p = [])"

definition is_live :: "string \<Rightarrow> dest \<Rightarrow> bool" where
  "is_live rel d = (\<not> is_archived rel \<and> \<not> startswith (d_orphan d) ''kept@'')"

definition snapshot_kind :: "string \<Rightarrow> string" where
  "snapshot_kind name =
     (if POINT_RE name then ''point''
      else if startswith name ''autosnap_'' \<or> anchor_disk name \<noteq> '''' then ''intermediate''
      else ''other'')"

definition month_of :: "int \<Rightarrow> string" where
  "month_of ts = month_text (from_timestamp ts)"

text \<open>\<open>point_times\<close>: each backup point with its newest creation on the drive.\<close>

definition point_times :: "(string, dest) dict \<Rightarrow> (string, int) dict" where
  "point_times dst =
     foldl (\<lambda>out s. if POINT_RE (r_name s)
              then dict_set (r_name s) (max (dict_get_or out (r_name s) 0) (r_creation s)) out
              else out)
       [] (concat (map d_snaps (dict_values dst)))"

definition whole_or :: "string list \<Rightarrow> string list option \<Rightarrow> string list" where
  "whole_or complete whole = (case whole of None \<Rightarrow> complete | Some w \<Rightarrow> w)"

definition monthly_points ::
    "(string, int) dict \<Rightarrow> string list \<Rightarrow> string list option \<Rightarrow> string list" where
  "monthly_points tms complete whole =
     (let w = whole_or complete whole;
          best = foldl (\<lambda>best (name, ts).
              if name \<in> set complete then
                let month = month_of ts in
                dict_set month (max (dict_get_or best month (False, 0, ''''))
                                    (name \<in> set w, ts, name)) best
              else best) [] tms
      in map (\<lambda>(_, _, name). name) (dict_values best))"

definition newest_complete ::
    "(string, int) dict \<Rightarrow> string list \<Rightarrow> string list option \<Rightarrow> string" where
  "newest_complete tms complete whole =
     (let w = whole_or complete whole;
          cands = map (\<lambda>(name, ts). (name \<in> set w, ts, name))
                    (filter (\<lambda>(name, ts). name \<in> set complete) tms)
      in case max_by (\<lambda>t. t) cands of None \<Rightarrow> '''' | Some (_, _, name) \<Rightarrow> name)"

definition first_point_time :: "(string, int) dict \<Rightarrow> string \<Rightarrow> py_error + int option" where
  "first_point_time tms recorded =
     (let found = dict_values tms;
          least = (\<lambda>xs. case xs of [] \<Rightarrow> None | _ \<Rightarrow> Some (Min (set xs)))
      in if POINT_RE recorded then
           (case point_time recorded of
              None \<Rightarrow> Inl ValueError
            | Some t \<Rightarrow> Inr (least (found @ [t])))
         else Inr (least found))"

text \<open>\<open>_keep_reason\<close>: empty when the policy may remove the snapshot.\<close>

definition keep_reason ::
    "ref \<Rightarrow> string \<Rightarrow> int \<Rightarrow> ref option \<Rightarrow> string \<Rightarrow> int \<Rightarrow> string \<Rightarrow> string list \<Rightarrow> string" where
  "keep_reason s kind when newest_s keep_point start tgt protected =
     (if kind = ''other'' then ''not written by zark or sanoid''
      else if when < start then ''from before the drive's first backup point''
      else if newest_s \<noteq> None \<and> r_guid s = r_guid (the newest_s)
        then ''newest snapshot of a live dataset (I-E)''
      else if r_name s = keep_point then ''newest complete backup point''
      else if tgt \<in> set protected then ''base of this run''
      else '''')"

definition outside_window :: "string \<Rightarrow> string \<Rightarrow> string list \<Rightarrow> string list \<Rightarrow> string" where
  "outside_window name kind monthly complete =
     (if kind = ''intermediate'' then ''intermediate older than the window''
      else if name \<in> set monthly then ''''
      else if name \<notin> set complete then ''incomplete backup point older than the window''
      else ''older than the window, not its month's newest complete point'')"

text \<open>What the loop body of \<open>plan_prune\<close> does with one snapshot.\<close>

datatype fate = Stays | Reported string | Goes string

definition snap_time :: "(string, int) dict \<Rightarrow> ref \<Rightarrow> int" where
  "snap_time tms s =
     (if snapshot_kind (r_name s) = ''point'' then dict_get_or tms (r_name s) (r_creation s)
      else r_creation s)"

record prune_ctx =
  c_times :: "(string, int) dict"
  c_monthly :: "string list"
  c_complete :: "string list"
  c_keep_point :: string
  c_start :: int
  c_window :: int
  c_too_old :: "int option"
  c_max_age :: int
  c_pinned :: "(string, string) dict"
  c_protected :: "string list"

definition fate_of :: "prune_ctx \<Rightarrow> string \<Rightarrow> dest \<Rightarrow> ref \<Rightarrow> fate" where
  "fate_of c rel d s =
     (let tgt = rel @ ''@'' @ r_name s;
          kind = snapshot_kind (r_name s);
          when = snap_time (c_times c) s;
          newest_s = (if is_live rel d then newest d else None)
      in if keep_reason s kind when newest_s (c_keep_point c) (c_start c) tgt (c_protected c) \<noteq> ''''
         then Stays
         else case map_of (c_pinned c) tgt of
           Some why \<Rightarrow> if when < c_window c then Reported why else Stays
         | None \<Rightarrow>
             if c_too_old c \<noteq> None \<and> when < the (c_too_old c)
             then Goes (''older than '' @ py_str (c_max_age c) @ '' days'')
             else if when \<ge> c_window c then Stays
             else (let reason = outside_window (r_name s) kind (c_monthly c) (c_complete c)
                   in if reason \<noteq> '''' then Goes reason else Stays))"

definition removals_of :: "prune_ctx \<Rightarrow> string \<times> dest \<Rightarrow> removal list" where
  "removals_of c rd = (case rd of (rel, d) \<Rightarrow>
     List.map_filter (\<lambda>s. case fate_of c rel d s of
         Goes why \<Rightarrow> Some \<lparr>rm_rel = rel, rm_name = r_name s, rm_reason = why\<rparr> | _ \<Rightarrow> None) (d_snaps d))"

definition reports_of :: "prune_ctx \<Rightarrow> string \<times> dest \<Rightarrow> (string \<times> string) list" where
  "reports_of c rd = (case rd of (rel, d) \<Rightarrow>
     List.map_filter (\<lambda>s. case fate_of c rel d s of
         Reported why \<Rightarrow> Some (rel @ ''@'' @ r_name s, why) | _ \<Rightarrow> None) (d_snaps d))"

text \<open>\<open>whole_datasets\<close>: the subtree tops left with nothing.\<close>

definition going :: "removal list \<Rightarrow> string \<Rightarrow> nat" where
  "going removals rel = length (filter (\<lambda>r. rm_rel r = rel) removals)"

definition emptied :: "(string, dest) dict \<Rightarrow> removal list \<Rightarrow> string list" where
  "emptied dst removals =
     map fst (filter (\<lambda>(rel, d). \<not> is_live rel d \<and> length (d_snaps d) = going removals rel
                        \<and> d_snaps d \<noteq> []) dst)"

definition whole_step ::
    "(string, dest) dict \<Rightarrow> string list \<Rightarrow> (string \<times> string) list \<Rightarrow> string \<Rightarrow> (string \<times> string) list" where
  "whole_step dst emp out t =
     (if list_ex (\<lambda>(u, _). startswith t (u @ ''/'')) out then out
      else if list_all (\<lambda>(rel, d). rel \<in> set emp \<or> d_snaps d = [])
                (filter (\<lambda>(rel, d). rel = t \<or> startswith rel (t @ ''/'')) dst)
      then out @ [(t, (if is_archived t then ''archived lineage'' else ''kept orphan'')
                      @ '' with nothing left that the policy keeps'')]
      else out)"

definition whole_datasets ::
    "(string, dest) dict \<Rightarrow> removal list \<Rightarrow> (string \<times> string) list" where
  "whole_datasets dst removals =
     (let emp = emptied dst removals in foldl (whole_step dst emp) [] (sort emp))"

definition prune_ctx_of ::
    "(string, dest) dict \<Rightarrow> string list \<Rightarrow> policy \<Rightarrow> int \<Rightarrow> string list option
      \<Rightarrow> (string, string) dict \<Rightarrow> string list \<Rightarrow> int \<Rightarrow> prune_ctx" where
  "prune_ctx_of dst complete pol now whole pinned protected start =
     (let tms = point_times dst in
      \<lparr>c_times = tms, c_monthly = monthly_points tms complete whole, c_complete = complete,
       c_keep_point = newest_complete tms complete whole, c_start = start,
       c_window = now - window_days pol * DAY,
       c_too_old = (if max_age_days pol \<noteq> 0 then Some (now - max_age_days pol * DAY) else None),
       c_max_age = max_age_days pol, c_pinned = pinned, c_protected = protected\<rparr>)"

definition plan_prune ::
    "(string, dest) dict \<Rightarrow> string list \<Rightarrow> policy \<Rightarrow> int \<Rightarrow> string list option
      \<Rightarrow> (string, string) dict \<Rightarrow> string list \<Rightarrow> string \<Rightarrow> py_error + prune" where
  "plan_prune dst complete pol now whole pinned protected first =
     (case first_point_time (point_times dst) first of
        Inl e \<Rightarrow> Inl e
      | Inr None \<Rightarrow> Inr \<lparr>pr_snapshots = [], pr_datasets = [], pr_kept = []\<rparr>
      | Inr (Some start) \<Rightarrow>
          (let c = prune_ctx_of dst complete pol now whole pinned protected start;
               rows = sort_key fst dst;
               snaps = concat (map (removals_of c) rows)
           in Inr \<lparr>pr_snapshots = snaps, pr_datasets = whole_datasets dst snaps,
                   pr_kept = concat (map (reports_of c) rows)\<rparr>))"

definition space_candidates ::
    "(string, dest) dict \<Rightarrow> string list \<Rightarrow> policy \<Rightarrow> int \<Rightarrow> prune \<Rightarrow> string list option
      \<Rightarrow> string list" where
  "space_candidates dst complete pol now prune whole =
     (let tms = point_times dst;
          window = now - window_days pol * DAY;
          keep_point = newest_complete tms complete whole;
          gone = map rm_name (pr_snapshots prune);
          names = filter (\<lambda>name. dict_get_or tms name 0 < window \<and> name \<noteq> keep_point
                             \<and> name \<notin> set gone) (monthly_points tms complete whole)
      in sort_key (\<lambda>n. dict_get_or tms n 0) names)"

definition point_removals ::
    "(string, dest) dict \<Rightarrow> string \<Rightarrow> (string, string) dict \<Rightarrow> string list \<Rightarrow> removal list" where
  "point_removals dst name pinned protected =
     concat (map (\<lambda>(rel, d).
       let newest_s = (if is_live rel d then newest d else None) in
       map (\<lambda>s. \<lparr>rm_rel = rel, rm_name = r_name s, rm_reason = ''oldest monthly point, to free space''\<rparr>)
         (filter (\<lambda>s. r_name s = name \<and> map_of pinned (rel @ ''@'' @ r_name s) = None
                    \<and> rel @ ''@'' @ r_name s \<notin> set protected
                    \<and> \<not> (newest_s \<noteq> None \<and> r_guid s = r_guid (the newest_s))) (d_snaps d)))
       (sort_key fst dst))"


section \<open>Lemmas: tms and months\<close>

lemma point_times_fold:
  fixes snaps :: "ref list" and out0 :: "(string, int) dict"
  defines "step \<equiv> \<lambda>out s. if POINT_RE (r_name s)
              then dict_set (r_name s) (max (dict_get_or out (r_name s) 0) (r_creation s)) out
              else out"
  shows "map_of (foldl step out0 snaps) name =
    (case filter (\<lambda>s. r_name s = name \<and> POINT_RE name) snaps of
       [] \<Rightarrow> map_of out0 name
     | ss \<Rightarrow> Some (foldl (\<lambda>m s. max m (r_creation s)) (dict_get_or out0 name 0) ss))"
proof (induction snaps rule: rev_induct)
  case Nil
  then show ?case by simp
next
  case (snoc s snaps)
  then show ?case
    by (cases "filter (\<lambda>s. r_name s = name \<and> POINT_RE name) snaps")
       (auto simp: step_def dict_get_or_def split: option.splits list.splits)
qed

lemma foldl_max_ge:
  fixes m :: int and f :: "'a \<Rightarrow> int"
  shows "m \<le> foldl (\<lambda>m s. max m (f s)) m ss"
    and "s \<in> set ss \<Longrightarrow> f s \<le> foldl (\<lambda>m s. max m (f s)) m ss"
proof -
  have *: "m \<le> foldl (\<lambda>m s. max m (f s)) m ss" for m :: int and ss
    by (induction ss arbitrary: m) (auto intro: order.trans [OF max.cobounded1])
  show "m \<le> foldl (\<lambda>m s. max m (f s)) m ss" by (rule *)
  show "s \<in> set ss \<Longrightarrow> f s \<le> foldl (\<lambda>m s. max m (f s)) m ss"
  proof (induction ss arbitrary: m)
    case (Cons a ss)
    then show ?case using * [of "max m (f a)"] by auto
  qed simp
qed

definition drive_snaps :: "(string, dest) dict \<Rightarrow> ref list" where
  "drive_snaps dst = concat (map d_snaps (dict_values dst))"

lemma point_times_alt:
  "map_of (point_times dst) name =
    (case filter (\<lambda>s. r_name s = name \<and> POINT_RE name) (drive_snaps dst) of
       [] \<Rightarrow> None
     | ss \<Rightarrow> Some (foldl (\<lambda>m s. max m (r_creation s)) 0 ss))"
  unfolding point_times_def drive_snaps_def
  by (subst point_times_fold) (auto simp: dict_get_or_def split: list.splits)

lemma point_times_Some:
  assumes "map_of (point_times dst) name = Some ts"
  shows "POINT_RE name" and "0 \<le> ts" and "\<exists>s \<in> set (drive_snaps dst). r_name s = name"
    and "s \<in> set (drive_snaps dst) \<Longrightarrow> r_name s = name \<Longrightarrow> r_creation s \<le> ts"
proof -
  let ?ss = "filter (\<lambda>s. r_name s = name \<and> POINT_RE name) (drive_snaps dst)"
  from assms have ne: "?ss \<noteq> []" and ts: "ts = foldl (\<lambda>m s. max m (r_creation s)) 0 ?ss"
    by (auto simp: point_times_alt split: list.splits)
  from ne show re: "POINT_RE name" and "\<exists>s \<in> set (drive_snaps dst). r_name s = name"
    by (auto simp: filter_empty_conv)
  show "0 \<le> ts" unfolding ts by (rule foldl_max_ge)
  show "r_creation s \<le> ts" if "s \<in> set (drive_snaps dst)" "r_name s = name"
    unfolding ts using that re by (intro foldl_max_ge) auto
qed

lemma point_times_exists:
  "s \<in> set (drive_snaps dst) \<Longrightarrow> POINT_RE (r_name s) \<Longrightarrow> \<exists>ts. map_of (point_times dst) (r_name s) = Some ts"
  by (auto simp: point_times_alt filter_empty_conv split: list.splits)

lemma POINT_RE_nonempty: "POINT_RE name \<Longrightarrow> name \<noteq> ''''"
  by (auto simp: POINT_RE_def ends_matching_def matches_def lit_def POINT_PREFIX_def chop_newline_def)

lemma wf_point_times [simp]: "wf_dict (point_times dst)"
proof -
  have "wf_dict out \<Longrightarrow> wf_dict (foldl (\<lambda>out s. if POINT_RE (r_name s)
              then dict_set (r_name s) (max (dict_get_or out (r_name s) 0) (r_creation s)) out
              else out) out ss)" for out and ss :: "ref list"
    by (induction ss arbitrary: out) auto
  then show ?thesis by (simp add: point_times_def)
qed


text \<open>The best candidate kept for a month is the greatest of its complete points.\<close>

definition month_best ::
    "string list \<Rightarrow> string list \<Rightarrow> (string, int) dict \<Rightarrow> (string, bool \<times> int \<times> string) dict" where
  "month_best complete w tms =
     foldl (\<lambda>best (name, ts).
        if name \<in> set complete then
          let month = month_of ts in
          dict_set month (max (dict_get_or best month (False, 0, '''')) (name \<in> set w, ts, name)) best
        else best) [] tms"

lemma monthly_points_eq:
  "monthly_points tms complete whole =
     map (\<lambda>(_, _, name). name) (dict_values (month_best complete (whole_or complete whole) tms))"
  by (simp add: monthly_points_def month_best_def Let_def)

lemma month_best_snoc:
  "month_best complete w (tms @ [(name, ts)]) =
     (if name \<in> set complete
      then dict_set (month_of ts)
             (max (dict_get_or (month_best complete w tms) (month_of ts) (False, 0, ''''))
                  (name \<in> set w, ts, name)) (month_best complete w tms)
      else month_best complete w tms)"
  by (simp add: month_best_def Let_def)

definition cand :: "string list \<Rightarrow> string \<times> int \<Rightarrow> bool \<times> int \<times> string" where
  "cand w nt = (fst nt \<in> set w, snd nt, fst nt)"

lemma cand_default: "0 \<le> ts \<Longrightarrow> name \<noteq> '''' \<Longrightarrow> (False, 0, '''') < cand w (name, ts)"
  by (auto simp: cand_def less_prod_def neq_Nil_conv)

definition month_ok ::
    "string list \<Rightarrow> string list \<Rightarrow> (string, int) dict \<Rightarrow> string \<Rightarrow> (bool \<times> int \<times> string) option \<Rightarrow> bool" where
  "month_ok complete w tms month ob =
     (let mine = filter (\<lambda>nt. fst nt \<in> set complete \<and> month_of (snd nt) = month) tms in
      case ob of
        None \<Rightarrow> mine = []
      | Some b \<Rightarrow> b \<in> cand w ` set mine \<and> (\<forall>nt \<in> set mine. cand w nt \<le> b))"

lemma month_ok_skip:
  "fst nt \<notin> set complete \<or> month_of (snd nt) \<noteq> month \<Longrightarrow>
   month_ok complete w (tms @ [nt]) month ob = month_ok complete w tms month ob"
  by (auto simp: month_ok_def)

lemma month_ok_max:
  assumes "month_ok complete w tms month (Some b)" and "fst nt \<in> set complete" "month_of (snd nt) = month"
  shows "month_ok complete w (tms @ [nt]) month (Some (max b (cand w nt)))"
proof -
  have "cand w nt' \<le> max b (cand w nt)" if "cand w nt' \<le> b" for nt'
    using that by (simp add: max.coboundedI1)
  with assms show ?thesis by (auto simp: month_ok_def max_def)
qed

lemma month_ok_Some:
  assumes "month_ok complete w tms month (Some b)"
  shows "\<exists>mt \<in> set tms. fst mt \<in> set complete \<and> month_of (snd mt) = month \<and> b = cand w mt"
    and "nt \<in> set tms \<Longrightarrow> fst nt \<in> set complete \<Longrightarrow> month_of (snd nt) = month \<Longrightarrow> cand w nt \<le> b"
proof -
  let ?mine = "filter (\<lambda>nt. fst nt \<in> set complete \<and> month_of (snd nt) = month) tms"
  have img: "b \<in> cand w ` set ?mine" and le: "\<forall>nt \<in> set ?mine. cand w nt \<le> b"
    using assms unfolding month_ok_def Let_def option.case by (rule conjunct1, rule conjunct2)
  from img obtain mt where "mt \<in> set ?mine" "b = cand w mt" by (rule imageE)
  then show "\<exists>mt \<in> set tms. fst mt \<in> set complete \<and> month_of (snd mt) = month \<and> b = cand w mt"
    by (intro bexI [of _ mt]) simp_all
  show "cand w nt \<le> b" if "nt \<in> set tms" "fst nt \<in> set complete" "month_of (snd nt) = month"
    by (rule bspec [OF le]) (simp add: that)
qed

lemma month_best_spec:
  assumes "\<forall>(name, ts) \<in> set tms. 0 \<le> ts \<and> name \<noteq> []"
  shows "wf_dict (month_best complete w tms) \<and>
    (\<forall>month. month_ok complete w tms month (map_of (month_best complete w tms) month))"
  using assms
proof (induction tms rule: rev_induct)
  case Nil
  then show ?case by (simp add: month_best_def month_ok_def)
next
  case (snoc nt tms)
  obtain name ts where nt: "nt = (name, ts)" by fastforce
  let ?b = "month_best complete w tms" and ?m = "month_of ts"
  have IH: "wf_dict ?b" and spec: "\<And>month. month_ok complete w tms month (map_of ?b month)"
    using snoc by auto
  show ?case
  proof (cases "name \<in> set complete")
    case False
    with IH spec show ?thesis by (simp add: nt month_best_snoc month_ok_skip)
  next
    case True
    let ?new = "max (dict_get_or ?b ?m (False, 0, [])) (cand w (name, ts))"
    have eq: "month_best complete w (tms @ [nt]) = dict_set ?m ?new ?b"
      using True by (simp add: nt month_best_snoc cand_def)
    have "month_ok complete w (tms @ [nt]) ?m (Some ?new)"
    proof (cases "map_of ?b ?m")
      case None
      have "(False, 0, []) < cand w (name, ts)"
        using snoc.prems nt by (intro cand_default) auto
      then have "?new = cand w (name, ts)" using None by (simp add: dict_get_or_def max_absorb2 less_imp_le)
      with None spec [of ?m] True show ?thesis by (auto simp: nt month_ok_def)
    next
      case (Some b)
      then have "?new = max b (cand w (name, ts))" by (simp add: dict_get_or_def)
      with month_ok_max [of complete w tms ?m b "(name, ts)"] Some spec [of ?m] True
      show ?thesis by (simp add: nt)
    qed
    moreover have "month \<noteq> ?m \<Longrightarrow> month_ok complete w (tms @ [nt]) month (map_of ?b month)" for month
      using spec [of month] by (simp add: nt month_ok_skip)
    ultimately show ?thesis using IH unfolding eq by simp
  qed
qed

text \<open>
  The monthly points are complete points; every month with a complete point has one, and it is
  the greatest by wholeness and then time.
\<close>

lemma point_times_pos: "\<forall>(name, ts) \<in> set (point_times dst). 0 \<le> ts \<and> name \<noteq> ''''"
  using point_times_Some(1,2) POINT_RE_nonempty by (fastforce simp: wf_dict_map_of)

lemma monthly_points_complete:
  assumes "name \<in> set (monthly_points (point_times dst) complete whole)"
  shows "name \<in> set complete \<and> (\<exists>ts. map_of (point_times dst) name = Some ts)"
proof -
  let ?mb = "month_best complete (whole_or complete whole) (point_times dst)"
  have spec: "wf_dict ?mb" "\<And>month. month_ok complete (whole_or complete whole) (point_times dst) month
      (map_of ?mb month)"
    using month_best_spec [OF point_times_pos] by blast+
  from assms obtain month b where "map_of ?mb month = Some b" "snd (snd b) = name"
    using spec(1) by (auto simp: monthly_points_eq set_dict_values)
  with spec(2) [of month] obtain nt where "nt \<in> set (point_times dst)" "fst nt \<in> set complete"
    "b = cand (whole_or complete whole) nt" by (auto simp: month_ok_def)
  with \<open>snd (snd b) = name\<close> show ?thesis
    by (cases nt) (auto simp: cand_def wf_dict_map_of)
qed

lemma monthly_points_exist:
  assumes "map_of (point_times dst) name = Some ts" and "name \<in> set complete"
  shows "\<exists>m tm. m \<in> set (monthly_points (point_times dst) complete whole)
    \<and> map_of (point_times dst) m = Some tm \<and> m \<in> set complete \<and> month_of tm = month_of ts
    \<and> (name \<in> set (whole_or complete whole), ts, name) \<le> (m \<in> set (whole_or complete whole), tm, m)"
proof -
  let ?w = "whole_or complete whole"
  let ?mb = "month_best complete ?w (point_times dst)"
  have spec: "wf_dict ?mb" "month_ok complete ?w (point_times dst) (month_of ts) (map_of ?mb (month_of ts))"
    using month_best_spec [OF point_times_pos] by blast+
  have nt: "(name, ts) \<in> set (point_times dst)" using assms(1) by (rule map_of_SomeD)
  with spec(2) assms(2) obtain b where b: "map_of ?mb (month_of ts) = Some b"
    by (cases "map_of ?mb (month_of ts)") (auto simp: month_ok_def filter_empty_conv)
  note ok = spec(2) [unfolded b]
  from month_ok_Some(1) [OF ok] obtain mt where mt: "mt \<in> set (point_times dst)" "fst mt \<in> set complete"
    "month_of (snd mt) = month_of ts" "b = cand ?w mt" by blast
  obtain m tm where m: "mt = (m, tm)" by fastforce
  have "m \<in> set (monthly_points (point_times dst) complete whole)"
    using b mt(4) m spec(1) by (force simp: monthly_points_eq set_dict_values cand_def)
  moreover have "cand ?w (name, ts) \<le> cand ?w mt" using month_ok_Some(2) [OF ok nt] mt(4) assms(2) by simp
  ultimately show ?thesis
    using mt m by (intro exI [of _ m] exI [of _ tm]) (simp add: wf_dict_map_of cand_def)
qed



section \<open>Lemmas: fates and removals\<close>

lemma removals_of_mem:
  "r \<in> set (removals_of c (rel, d)) \<longleftrightarrow>
     (\<exists>s why. s \<in> set (d_snaps d) \<and> fate_of c rel d s = Goes why
        \<and> r = \<lparr>rm_rel = rel, rm_name = r_name s, rm_reason = why\<rparr>)"
proof -
  let ?f = "\<lambda>s. case fate_of c rel d s of
         Goes why \<Rightarrow> Some \<lparr>rm_rel = rel, rm_name = r_name s, rm_reason = why\<rparr> | _ \<Rightarrow> None"
  have "?f s = Some r \<longleftrightarrow> (\<exists>why. fate_of c rel d s = Goes why
        \<and> r = \<lparr>rm_rel = rel, rm_name = r_name s, rm_reason = why\<rparr>)" for s
    by (auto split: fate.splits)
  moreover have "r \<in> set (List.map_filter ?f (d_snaps d)) \<longleftrightarrow> (\<exists>s \<in> set (d_snaps d). ?f s = Some r)"
    by (force simp: map_filter_def)
  ultimately show ?thesis unfolding removals_of_def by auto
qed

lemma plan_prune_cases:
  assumes "plan_prune dst complete pol now whole pinned protected first = Inr pr"
  shows "(\<exists>start. first_point_time (point_times dst) first = Inr (Some start) \<and>
      pr_snapshots pr = concat (map (removals_of
        (prune_ctx_of dst complete pol now whole pinned protected start)) (sort_key fst dst))
      \<and> pr_datasets pr = whole_datasets dst (pr_snapshots pr))
    \<or> (first_point_time (point_times dst) first = Inr None \<and> pr_snapshots pr = [] \<and> pr_datasets pr = [])"
  using assms by (auto simp: plan_prune_def Let_def split: sum.splits option.splits)

lemma prune_mem:
  assumes "plan_prune dst complete pol now whole pinned protected first = Inr pr"
    and "r \<in> set (pr_snapshots pr)"
  shows "\<exists>start d s why. first_point_time (point_times dst) first = Inr (Some start)
    \<and> (rm_rel r, d) \<in> set dst \<and> s \<in> set (d_snaps d) \<and> rm_name r = r_name s
    \<and> fate_of (prune_ctx_of dst complete pol now whole pinned protected start) (rm_rel r) d s = Goes why"
proof -
  from plan_prune_cases [OF assms(1)] assms(2) obtain start where
    start: "first_point_time (point_times dst) first = Inr (Some start)" and
    r: "r \<in> set (concat (map (removals_of
        (prune_ctx_of dst complete pol now whole pinned protected start)) (sort_key fst dst)))"
    by auto
  from r obtain rel d where rd: "(rel, d) \<in> set dst"
    "r \<in> set (removals_of (prune_ctx_of dst complete pol now whole pinned protected start) (rel, d))"
    by auto
  from rd(2) show ?thesis unfolding removals_of_mem
    using start rd(1) by (elim exE conjE) (intro exI conjI, assumption+, simp_all)
qed

lemma keep_reason_empty:
  "keep_reason s kind when n kp start tgt prot = '''' \<longleftrightarrow>
     kind \<noteq> ''other'' \<and> start \<le> when \<and> (\<forall>m. n = Some m \<longrightarrow> r_guid s \<noteq> r_guid m)
     \<and> r_name s \<noteq> kp \<and> tgt \<notin> set prot"
  by (auto simp: keep_reason_def)

lemma outside_window_empty:
  "outside_window name kind monthly complete = '''' \<longleftrightarrow> kind \<noteq> ''intermediate'' \<and> name \<in> set monthly"
  by (auto simp: outside_window_def)

text \<open>Everything that must hold of a snapshot for the policy to remove it.\<close>

lemma fate_Goes:
  "(\<exists>why. fate_of c rel d s = Goes why) \<longleftrightarrow>
     snapshot_kind (r_name s) \<noteq> ''other'' \<and> c_start c \<le> snap_time (c_times c) s
     \<and> \<not> (is_live rel d \<and> (\<exists>n. newest d = Some n \<and> r_guid s = r_guid n))
     \<and> r_name s \<noteq> c_keep_point c \<and> rel @ ''@'' @ r_name s \<notin> set (c_protected c)
     \<and> map_of (c_pinned c) (rel @ ''@'' @ r_name s) = None
     \<and> ((\<exists>lim. c_too_old c = Some lim \<and> snap_time (c_times c) s < lim)
        \<or> (snap_time (c_times c) s < c_window c
           \<and> (snapshot_kind (r_name s) = ''intermediate'' \<or> r_name s \<notin> set (c_monthly c))))"
proof -
  let ?t = "rel @ ''@'' @ r_name s"
  let ?k = "keep_reason s (snapshot_kind (r_name s)) (snap_time (c_times c) s)
    (if is_live rel d then newest d else None) (c_keep_point c) (c_start c) ?t (c_protected c)"
  let ?o = "outside_window (r_name s) (snapshot_kind (r_name s)) (c_monthly c) (c_complete c)"
  have "(\<exists>why. fate_of c rel d s = Goes why) \<longleftrightarrow> ?k = '''' \<and> map_of (c_pinned c) ?t = None
     \<and> ((\<exists>lim. c_too_old c = Some lim \<and> snap_time (c_times c) s < lim)
        \<or> (snap_time (c_times c) s < c_window c \<and> ?o \<noteq> ''''))"
    unfolding fate_of_def Let_def
    by (cases "?k = ''''"; cases "map_of (c_pinned c) ?t"; cases "c_too_old c"; cases "?o = ''''") simp_all
  moreover have "?k = '''' \<longleftrightarrow> snapshot_kind (r_name s) \<noteq> ''other'' \<and> c_start c \<le> snap_time (c_times c) s
     \<and> \<not> (is_live rel d \<and> (\<exists>n. newest d = Some n \<and> r_guid s = r_guid n))
     \<and> r_name s \<noteq> c_keep_point c \<and> ?t \<notin> set (c_protected c)"
    unfolding keep_reason_empty by (cases "is_live rel d"; cases "newest d") simp_all
  moreover have "?o \<noteq> '''' \<longleftrightarrow> snapshot_kind (r_name s) = ''intermediate'' \<or> r_name s \<notin> set (c_monthly c)"
    unfolding outside_window_empty by simp
  ultimately show ?thesis by (simp only: conj_assoc)
qed


section \<open>Properties: the retention policy\<close>

text \<open>C15: what the policy never touches. A snapshot the policy removes exists on the drive and was
  written by zark or sanoid, at or after the drive's first backup point; it is not the newest
  snapshot of a live dataset (I-E: the base of its next incremental), not the newest complete
  backup point, not protected by the running backup and not pinned by a hold or a clone.\<close>

theorem prune_never_touches:
  assumes "plan_prune dst complete pol now whole pinned protected first = Inr pr"
    and "r \<in> set (pr_snapshots pr)"
  shows "\<exists>d s start. (rm_rel r, d) \<in> set dst \<and> s \<in> set (d_snaps d) \<and> r_name s = rm_name r
    \<and> snapshot_kind (rm_name r) \<in> {''point'', ''intermediate''}
    \<and> first_point_time (point_times dst) first = Inr (Some start)
    \<and> start \<le> snap_time (point_times dst) s
    \<and> \<not> (is_live (rm_rel r) d \<and> (\<exists>n. newest d = Some n \<and> r_guid s = r_guid n))
    \<and> rm_name r \<noteq> newest_complete (point_times dst) complete whole
    \<and> target r \<notin> set protected \<and> map_of pinned (target r) = None"
proof -
  from prune_mem [OF assms] obtain start d s why where
    *: "first_point_time (point_times dst) first = Inr (Some start)"
    "(rm_rel r, d) \<in> set dst" "s \<in> set (d_snaps d)" "rm_name r = r_name s"
    "fate_of (prune_ctx_of dst complete pol now whole pinned protected start) (rm_rel r) d s = Goes why"
    by blast
  from *(5) have "\<exists>why. fate_of (prune_ctx_of dst complete pol now whole pinned protected start)
    (rm_rel r) d s = Goes why" by (rule exI)
  from iffD1 [OF fate_Goes this] have g:
    "snapshot_kind (r_name s) \<noteq> ''other''" "start \<le> snap_time (point_times dst) s"
    "\<not> (is_live (rm_rel r) d \<and> (\<exists>n. newest d = Some n \<and> r_guid s = r_guid n))"
    "r_name s \<noteq> newest_complete (point_times dst) complete whole"
    "rm_rel r @ ''@'' @ r_name s \<notin> set protected" "map_of pinned (rm_rel r @ ''@'' @ r_name s) = None"
    by (simp_all add: prune_ctx_of_def Let_def)
  have "snapshot_kind (rm_name r) \<in> {''point'', ''intermediate''}"
    using g(1) *(4) by (auto simp: snapshot_kind_def split: if_splits)
  with * g show ?thesis
    by (intro exI [of _ d] exI [of _ s] exI [of _ start]) (simp add: target_def)
qed

definition ex_pt :: "string \<Rightarrow> string \<Rightarrow> int \<Rightarrow> ref" where
  "ex_pt name guid at = \<lparr>r_name = name, r_guid = guid, r_createtxg = at, r_creation = at\<rparr>"

definition ex_drive :: "(string, dest) dict" where
  "ex_drive = [(''rpool/var'', ex_dest ''rpool/var''
     [ex_pt ''zark_2026-01-01_00:00:00Z'' ''a'' 1767225600,
      ex_pt ''autosnap_1_daily'' ''b'' 1767312000,
      ex_pt ''zark_2026-01-20_00:00:00Z'' ''c'' 1768867200,
      ex_pt ''zark_2026-04-01_00:00:00Z'' ''d'' 1775001600])]"

definition ex_complete :: "string list" where
  "ex_complete = [''zark_2026-01-01_00:00:00Z'', ''zark_2026-01-20_00:00:00Z'', ''zark_2026-04-01_00:00:00Z'']"

definition ex_policy :: policy where
  "ex_policy = \<lparr>window_days = 30, max_age_days = 0, margin_pct = 10\<rparr>"

lemma ex_times:
  "point_times ex_drive = [(''zark_2026-01-01_00:00:00Z'', 1767225600),
     (''zark_2026-01-20_00:00:00Z'', 1768867200), (''zark_2026-04-01_00:00:00Z'', 1775001600)]"
  by code_simp

lemma ex_months: "month_of 1767225600 = ''2026-01''" "month_of 1768867200 = ''2026-01''"
  "month_of 1775001600 = ''2026-04''"
  by (simp_all add: month_of_def calendar_eval)

lemma ex_monthly:
  "monthly_points (point_times ex_drive) ex_complete None
     = [''zark_2026-01-20_00:00:00Z'', ''zark_2026-04-01_00:00:00Z'']"
  unfolding ex_times
  by (simp add: monthly_points_def ex_months ex_complete_def whole_or_def dict_set_def
      dict_get_or_def dict_values_def max_def)


lemma ex_first: "first_point_time (point_times ex_drive) '''' = Inr (Some 1767225600)"
  unfolding ex_times by (simp add: first_point_time_def POINT_RE_def ends_matching_def matches_def
      lit_def POINT_PREFIX_def chop_newline_def dict_values_def)

text \<open>The example pass: with a window of thirty days on 2026-04-10, January keeps its newest
  complete point; the older one and sanoid's intermediate go.\<close>

lemma ex_keep: "newest_complete (point_times ex_drive) ex_complete None = ''zark_2026-04-01_00:00:00Z''"
  unfolding ex_times by code_simp

lemma ex_kinds:
  "snapshot_kind ''zark_2026-01-01_00:00:00Z'' = ''point''" "snapshot_kind ''autosnap_1_daily'' = ''intermediate''"
  "snapshot_kind ''zark_2026-01-20_00:00:00Z'' = ''point''" "snapshot_kind ''zark_2026-04-01_00:00:00Z'' = ''point''"
  by code_simp+

definition ex_prune :: prune where
  "ex_prune = \<lparr>pr_snapshots =
     [\<lparr>rm_rel = ''rpool/var'', rm_name = ''zark_2026-01-01_00:00:00Z'',
       rm_reason = ''older than the window, not its month's newest complete point''\<rparr>,
      \<lparr>rm_rel = ''rpool/var'', rm_name = ''autosnap_1_daily'', rm_reason = ''intermediate older than the window''\<rparr>],
     pr_datasets = [], pr_kept = []\<rparr>"

definition ex_ctx :: prune_ctx where
  "ex_ctx = \<lparr>c_times = [(''zark_2026-01-01_00:00:00Z'', 1767225600),
     (''zark_2026-01-20_00:00:00Z'', 1768867200), (''zark_2026-04-01_00:00:00Z'', 1775001600)],
     c_monthly = [''zark_2026-01-20_00:00:00Z'', ''zark_2026-04-01_00:00:00Z''], c_complete = ex_complete,
     c_keep_point = ''zark_2026-04-01_00:00:00Z'', c_start = 1767225600, c_window = 1773187200,
     c_too_old = None, c_max_age = 0, c_pinned = [], c_protected = []\<rparr>"

lemma ex_ctx_eq: "prune_ctx_of ex_drive ex_complete ex_policy 1775779200 None [] [] 1767225600 = ex_ctx"
  by (simp add: prune_ctx_of_def ex_ctx_def ex_monthly [unfolded ex_times] ex_keep [unfolded ex_times]
      ex_times ex_policy_def DAY_def)

lemma ex_removals: "concat (map (removals_of ex_ctx) (sort_key fst ex_drive)) = pr_snapshots ex_prune"
  by code_simp

lemma ex_reports: "concat (map (reports_of ex_ctx) (sort_key fst ex_drive)) = []"
  by code_simp

lemma ex_whole: "whole_datasets ex_drive (pr_snapshots ex_prune) = []"
  by code_simp

lemma ex_plan_prune: "plan_prune ex_drive ex_complete ex_policy 1775779200 None [] [] '''' = Inr ex_prune"
  by (simp add: plan_prune_def ex_first ex_ctx_eq ex_removals ex_reports ex_whole Let_def)
     (simp add: ex_prune_def)

lemma ex_prune_removes:
  "\<lparr>rm_rel = ''rpool/var'', rm_name = ''autosnap_1_daily'',
     rm_reason = ''intermediate older than the window''\<rparr> \<in> set (pr_snapshots ex_prune)"
  by (simp add: ex_prune_def)

theorem prune_never_touches_witness:
  "\<exists>d s start. (''rpool/var'', d) \<in> set ex_drive \<and> s \<in> set (d_snaps d) \<and> r_name s = ''autosnap_1_daily''
    \<and> first_point_time (point_times ex_drive) '''' = Inr (Some start) \<and> start \<le> snap_time (point_times ex_drive) s"
  using prune_never_touches [OF ex_plan_prune ex_prune_removes] by auto

text \<open>A removal, read through the context of the pass.\<close>

lemma prune_fate:
  assumes "plan_prune dst complete pol now whole pinned protected first = Inr pr"
    and "r \<in> set (pr_snapshots pr)"
  obtains start d s where "(rm_rel r, d) \<in> set dst" "s \<in> set (d_snaps d)" "rm_name r = r_name s"
    "first_point_time (point_times dst) first = Inr (Some start)"
    "\<exists>why. fate_of (prune_ctx_of dst complete pol now whole pinned protected start) (rm_rel r) d s = Goes why"
  using prune_mem [OF assms] by blast

lemma prune_ctx_simps [simp]:
  "c_times (prune_ctx_of dst complete pol now whole pinned protected start) = point_times dst"
  "c_monthly (prune_ctx_of dst complete pol now whole pinned protected start)
     = monthly_points (point_times dst) complete whole"
  "c_keep_point (prune_ctx_of dst complete pol now whole pinned protected start)
     = newest_complete (point_times dst) complete whole"
  "c_start (prune_ctx_of dst complete pol now whole pinned protected start) = start"
  "c_window (prune_ctx_of dst complete pol now whole pinned protected start) = now - window_days pol * DAY"
  "c_too_old (prune_ctx_of dst complete pol now whole pinned protected start)
     = (if max_age_days pol \<noteq> 0 then Some (now - max_age_days pol * DAY) else None)"
  "c_pinned (prune_ctx_of dst complete pol now whole pinned protected start) = pinned"
  "c_protected (prune_ctx_of dst complete pol now whole pinned protected start) = protected"
  by (simp_all add: prune_ctx_of_def Let_def)

lemma prune_removed_old:
  assumes "plan_prune dst complete pol now whole pinned protected first = Inr pr"
    and "r \<in> set (pr_snapshots pr)" and "max_age_days pol = 0"
  shows "\<exists>d s. (rm_rel r, d) \<in> set dst \<and> s \<in> set (d_snaps d) \<and> r_name s = rm_name r
    \<and> snap_time (point_times dst) s < now - window_days pol * DAY
    \<and> (snapshot_kind (rm_name r) = ''intermediate''
       \<or> rm_name r \<notin> set (monthly_points (point_times dst) complete whole))"
proof -
  from prune_fate [OF assms(1,2)] obtain start d s where *: "(rm_rel r, d) \<in> set dst" "s \<in> set (d_snaps d)"
    "rm_name r = r_name s"
    "\<exists>why. fate_of (prune_ctx_of dst complete pol now whole pinned protected start) (rm_rel r) d s = Goes why"
    by metis
  from iffD1 [OF fate_Goes *(4)] assms(3) * show ?thesis by (intro exI [of _ d] exI [of _ s]) simp
qed

text \<open>The window keeps everything inside it. Without a maximum age, every snapshot the policy
  removes is older than the window, and it is either an intermediate or a point that is not a
  monthly one.\<close>

lemma prune_outside_window:
  assumes "plan_prune dst complete pol now whole pinned protected first = Inr pr"
    and "r \<in> set (pr_snapshots pr)" and "max_age_days pol = 0"
  shows "\<exists>d s. (rm_rel r, d) \<in> set dst \<and> s \<in> set (d_snaps d) \<and> r_name s = rm_name r
    \<and> snap_time (point_times dst) s < now - window_days pol * DAY
    \<and> (snapshot_kind (rm_name r) = ''intermediate''
       \<or> rm_name r \<notin> set (monthly_points (point_times dst) complete whole))"
  by (rule prune_removed_old [OF assms])

lemma snapshot_kind_point [simp]: "POINT_RE name \<Longrightarrow> snapshot_kind name = ''point''"
  by (simp add: snapshot_kind_def)

text \<open>C16: a month never loses its last word. When the drive holds a complete point and no maximum
  age is set, its month keeps a complete point on every dataset that has it: no snapshot of that
  name is removed. The point kept is whole when any complete point of the month is whole, and
  otherwise at least as new.\<close>

theorem prune_keeps_every_month:
  assumes "plan_prune dst complete pol now whole pinned protected first = Inr pr"
    and "max_age_days pol = 0" and "map_of (point_times dst) name = Some ts" and "name \<in> set complete"
  shows "\<exists>m tm. m \<in> set complete \<and> map_of (point_times dst) m = Some tm \<and> month_of tm = month_of ts
    \<and> (name \<in> set (whole_or complete whole), ts) \<le> (m \<in> set (whole_or complete whole), tm)
    \<and> m \<notin> rm_name ` set (pr_snapshots pr)"
proof -
  from monthly_points_exist [OF assms(3,4), of whole] obtain m tm where
    m: "m \<in> set (monthly_points (point_times dst) complete whole)" "map_of (point_times dst) m = Some tm"
    "m \<in> set complete" "month_of tm = month_of ts" and
    le: "(name \<in> set (whole_or complete whole), ts, name) \<le> (m \<in> set (whole_or complete whole), tm, m)"
    by blast
  have "snapshot_kind m = ''point''" using point_times_Some(1) [OF m(2)] by simp
  then have "m \<notin> rm_name ` set (pr_snapshots pr)"
    using prune_removed_old [OF assms(1) _ assms(2)] m(1) by fastforce
  moreover have "(name \<in> set (whole_or complete whole), ts) \<le> (m \<in> set (whole_or complete whole), tm)"
    using le by (auto simp: less_eq_prod_def)
  ultimately show ?thesis using m by blast
qed

theorem prune_keeps_every_month_witness:
  "\<exists>m tm. m \<in> set ex_complete \<and> map_of (point_times ex_drive) m = Some tm
    \<and> month_of tm = ''2026-01'' \<and> m \<notin> rm_name ` set (pr_snapshots ex_prune)"
proof -
  have "map_of (point_times ex_drive) ''zark_2026-01-01_00:00:00Z'' = Some 1767225600" by (simp add: ex_times)
  from prune_keeps_every_month [OF ex_plan_prune _ this]
  show ?thesis by (fastforce simp: ex_policy_def ex_complete_def ex_months)
qed


lemma prune_mem_iff:
  assumes "plan_prune dst complete pol now whole pinned protected first = Inr pr"
    and "first_point_time (point_times dst) first = Inr (Some start)"
    and "(rel, d) \<in> set dst" "s \<in> set (d_snaps d)"
    and "\<exists>why. fate_of (prune_ctx_of dst complete pol now whole pinned protected start) rel d s = Goes why"
  shows "\<exists>r \<in> set (pr_snapshots pr). rm_rel r = rel \<and> rm_name r = r_name s"
proof -
  let ?c = "prune_ctx_of dst complete pol now whole pinned protected start"
  from assms(5) obtain why where why: "fate_of ?c rel d s = Goes why" by blast
  let ?r = "\<lparr>rm_rel = rel, rm_name = r_name s, rm_reason = why\<rparr>"
  have "?r \<in> set (removals_of ?c (rel, d))"
    unfolding removals_of_mem using assms(4) why by blast
  moreover have "pr_snapshots pr = concat (map (removals_of ?c) (sort_key fst dst))"
    using plan_prune_cases [OF assms(1)] assms(2) by auto
  ultimately have "?r \<in> set (pr_snapshots pr)" using assms(3) by auto
  then show ?thesis by force
qed

text \<open>A point goes whole or stays whole. When the policy removes a backup point from one
  dataset, it removes it from every dataset of the drive that holds it, save where it is a live
  dataset's newest snapshot, protected by the running backup or pinned.\<close>

lemma prune_point_whole:
  assumes "plan_prune dst complete pol now whole pinned protected first = Inr pr"
    and "r \<in> set (pr_snapshots pr)" and "POINT_RE (rm_name r)"
    and "(rel, d) \<in> set dst" "s \<in> set (d_snaps d)" "r_name s = rm_name r"
    and "\<not> (is_live rel d \<and> (\<exists>n. newest d = Some n \<and> r_guid s = r_guid n))"
    and "rel @ ''@'' @ rm_name r \<notin> set protected" "map_of pinned (rel @ ''@'' @ rm_name r) = None"
  shows "\<exists>r' \<in> set (pr_snapshots pr). rm_rel r' = rel \<and> rm_name r' = rm_name r"
proof -
  from prune_fate [OF assms(1,2)] obtain start d0 s0 where *: "(rm_rel r, d0) \<in> set dst"
    "s0 \<in> set (d_snaps d0)" "rm_name r = r_name s0"
    "first_point_time (point_times dst) first = Inr (Some start)"
    "\<exists>why. fate_of (prune_ctx_of dst complete pol now whole pinned protected start) (rm_rel r) d0 s0 = Goes why"
    by metis
  have "s \<in> set (drive_snaps dst)" using assms(4,5) by (force simp: drive_snaps_def dict_values_def)
  with point_times_exists [of s dst] assms(3,6) obtain ts where
    "map_of (point_times dst) (rm_name r) = Some ts" by auto
  then have same: "snap_time (point_times dst) s = snap_time (point_times dst) s0"
    using assms(3,6) *(3) by (simp add: snap_time_def dict_get_or_def)
  have "\<exists>why. fate_of (prune_ctx_of dst complete pol now whole pinned protected start) rel d s = Goes why"
    unfolding fate_Goes using iffD1 [OF fate_Goes *(5)] assms(6-9) *(3) same by simp
  from prune_mem_iff [OF assms(1) *(4) assms(4,5) this] show ?thesis by (simp add: assms(6))
qed

text \<open>Two datasets holding the January point; the policy removes it from both.\<close>

definition ex_twin :: "(string, dest) dict" where
  "ex_twin = ex_drive @ [(''rpool/home'', ex_dest ''rpool/home''
     [ex_pt ''zark_2026-01-01_00:00:00Z'' ''e'' 1767225600, ex_pt ''zark_2026-04-01_00:00:00Z'' ''f'' 1775001600])]"

lemma ex_twin_times: "point_times ex_twin = point_times ex_drive"
  unfolding ex_times by code_simp

definition ex_twin_prune :: prune where
  "ex_twin_prune = \<lparr>pr_snapshots = \<lparr>rm_rel = ''rpool/home'', rm_name = ''zark_2026-01-01_00:00:00Z'',
       rm_reason = ''older than the window, not its month's newest complete point''\<rparr> # pr_snapshots ex_prune,
     pr_datasets = [], pr_kept = []\<rparr>"

lemma ex_twin_ctx: "prune_ctx_of ex_twin ex_complete ex_policy 1775779200 None [] [] 1767225600 = ex_ctx"
  unfolding ex_ctx_eq [symmetric] by (simp add: prune_ctx_of_def ex_twin_times)

lemma ex_twin_removals: "concat (map (removals_of ex_ctx) (sort_key fst ex_twin)) = pr_snapshots ex_twin_prune"
  by code_simp

lemma ex_twin_reports: "concat (map (reports_of ex_ctx) (sort_key fst ex_twin)) = []"
  by code_simp

lemma ex_twin_whole: "whole_datasets ex_twin (pr_snapshots ex_twin_prune) = []"
  by code_simp

lemma ex_twin_plan: "plan_prune ex_twin ex_complete ex_policy 1775779200 None [] [] '''' = Inr ex_twin_prune"
  by (simp add: plan_prune_def ex_first ex_twin_times ex_twin_ctx ex_twin_removals ex_twin_reports
      ex_twin_whole Let_def) (simp add: ex_twin_prune_def)

section \<open>Properties: datasets destroyed whole and space plans\<close>

lemma filter_concat_none: "\<forall>x \<in> set xs. filter P (f x) = [] \<Longrightarrow> filter P (concat (map f xs)) = []"
  by (induction xs) auto

lemma filter_concat_keyed:
  assumes "distinct (map fst rows)" "(rel, d) \<in> set rows"
    and "\<And>k e. filter (\<lambda>r. key r = rel) (f (k, e)) = (if k = rel then f (k, e) else [])"
  shows "filter (\<lambda>r. key r = rel) (concat (map f rows)) = f (rel, d)"
proof -
  obtain ys zs where rows: "rows = ys @ (rel, d) # zs" using split_list [OF assms(2)] by blast
  have "\<forall>x \<in> set ys. filter (\<lambda>r. key r = rel) (f x) = []" "\<forall>x \<in> set zs. filter (\<lambda>r. key r = rel) (f x) = []"
    using assms(1,3) rows by force+
  then show ?thesis using assms(3) [of rel d] by (simp add: rows filter_concat_none)
qed

lemma removals_of_rel: "filter (\<lambda>r. rm_rel r = k) (removals_of c (rel, d)) = (if rel = k then removals_of c (rel, d) else [])"
  by (auto simp: removals_of_mem filter_id_conv filter_empty_conv)

lemma removals_of_all:
  assumes "length (removals_of c (rel, d)) = length (d_snaps d)" "s \<in> set (d_snaps d)"
  shows "\<exists>why. fate_of c rel d s = Goes why"
proof (rule ccontr)
  assume "\<not> ?thesis"
  then have "s \<notin> set (filter (\<lambda>s. (case fate_of c rel d s of Goes why \<Rightarrow> True | _ \<Rightarrow> False)) (d_snaps d))"
    by (auto split: fate.splits)
  with assms(2) have "length (filter (\<lambda>s. (case fate_of c rel d s of Goes why \<Rightarrow> True | _ \<Rightarrow> False)) (d_snaps d))
      < length (d_snaps d)"
    by (intro length_filter_less) (auto split: fate.splits)
  moreover have "length (removals_of c (rel, d))
    = length (filter (\<lambda>s. (case fate_of c rel d s of Goes why \<Rightarrow> True | _ \<Rightarrow> False)) (d_snaps d))"
    by (auto simp: removals_of_def map_filter_def intro!: arg_cong [where f = length] filter_cong split: fate.splits)
  ultimately show False using assms(1) by simp
qed

definition apart :: "string \<Rightarrow> string \<Rightarrow> bool" where
  "apart a b = (\<not> under a b \<and> \<not> under b a)"

text \<open>The tops chosen so far: pairwise apart, not live, and with nothing kept below them.\<close>

definition tops_ok :: "(string, dest) dict \<Rightarrow> string list \<Rightarrow> (string \<times> string) list \<Rightarrow> bool" where
  "tops_ok dst emp out \<longleftrightarrow>
     (\<forall>(t, _) \<in> set out. t \<in> set emp
        \<and> (\<forall>(rel, d) \<in> set dst. under rel t \<longrightarrow> rel \<in> set emp \<or> d_snaps d = []))
     \<and> sorted_wrt apart (map fst out)"

lemma under_startswith: "startswith rel (t @ ''/'') \<longleftrightarrow> under rel t \<and> rel \<noteq> t"
  by (auto simp: under_def startswith_def prefix_def)

lemma le_append: "(t :: 'a::linorder list) \<le> t @ s"
  by (induction t) simp_all

lemma under_imp_le: "under a t \<Longrightarrow> t \<le> (a :: string)"
  by (auto simp: under_iff le_append)

lemma whole_step_sub: "set (map fst (whole_step dst emp out t)) \<subseteq> insert t (set (map fst out))"
  by (auto simp: whole_step_def)

lemma whole_step_ok:
  assumes "tops_ok dst emp out" "t \<in> set emp" "\<forall>u \<in> set (map fst out). u < t"
  shows "tops_ok dst emp (whole_step dst emp out t)"
proof -
  have "apart u t" if "u \<in> set (map fst out)" "\<not> list_ex (\<lambda>(u, _). startswith t (u @ ''/'')) out" for u
    using that assms(3) under_imp_le [of u t]
    by (force simp: apart_def list_ex_iff under_startswith)
  then show "tops_ok dst emp (whole_step dst emp out t)"
    using assms(1,2)
    by (auto simp: tops_ok_def whole_step_def sorted_wrt_append list_all_iff under_def startswith_def)
qed

lemma whole_fold_ok:
  assumes "sorted ts" "distinct ts" "set ts \<subseteq> set emp" "tops_ok dst emp out"
    and "\<forall>u \<in> set (map fst out). \<forall>t \<in> set ts. u < t"
  shows "tops_ok dst emp (foldl (whole_step dst emp) out ts)"
  using assms
proof (induction ts arbitrary: out)
  case (Cons t ts)
  have "tops_ok dst emp (whole_step dst emp out t)"
    using Cons.prems by (auto intro!: whole_step_ok)
  moreover have "\<forall>v \<in> set ts. t < v" using Cons.prems by (auto simp: less_le)
  then have "\<forall>u \<in> set (map fst (whole_step dst emp out t)). \<forall>v \<in> set ts. u < v"
    using subsetD [OF whole_step_sub] Cons.prems(5) by fastforce
  ultimately show ?case using Cons by simp
qed simp

lemma whole_datasets_ok:
  "wf_dict dst \<Longrightarrow> tops_ok dst (emptied dst removals) (whole_datasets dst removals)"
  unfolding whole_datasets_def Let_def
  by (rule whole_fold_ok)
     (auto simp: tops_ok_def emptied_def wf_dict_def dict_keys_def distinct_map intro: inj_on_subset)

lemma emptied_all_go:
  assumes "wf_dict dst" and "(rel, d) \<in> set dst" and "rel \<in> set (emptied dst removals)"
    and "removals = concat (map (removals_of c) (sort_key fst dst))"
    and "s \<in> set (d_snaps d)"
  shows "\<not> is_live rel d" and "\<exists>r \<in> set removals. rm_rel r = rel \<and> rm_name r = r_name s"
proof -
  have uniq: "d' = d" if "(rel, d') \<in> set dst" for d'
    using that assms(1,2) by (metis option.inject wf_dict_map_of)
  then show "\<not> is_live rel d" using assms(3) by (auto simp: emptied_def)
  have "distinct (map fst (sort_key fst dst))"
    using assms(1) by (simp add: wf_dict_def dict_keys_def distinct_map)
  then have "filter (\<lambda>r. rm_rel r = rel) removals = removals_of c (rel, d)"
    unfolding assms(4) by (rule filter_concat_keyed) (simp_all add: assms(2) removals_of_rel)
  moreover have "length (d_snaps d) = going removals rel"
    using assms(3) uniq by (auto simp: emptied_def)
  ultimately have "length (removals_of c (rel, d)) = length (d_snaps d)" by (simp add: going_def)
  from removals_of_all [OF this assms(5)] obtain why where "fate_of c rel d s = Goes why" by blast
  then have "\<lparr>rm_rel = rel, rm_name = r_name s, rm_reason = why\<rparr> \<in> set (removals_of c (rel, d))"
    unfolding removals_of_mem using assms(5) by blast
  then show "\<exists>r \<in> set removals. rm_rel r = rel \<and> rm_name r = r_name s"
    using assms(2) unfolding assms(4) by force
qed


lemma prune_whole_datasets_parts:
  assumes "plan_prune dst complete pol now whole pinned protected first = Inr pr" and "wf_dict dst"
  shows "sorted_wrt apart (map fst (pr_datasets pr))"
    and "(t, why) \<in> set (pr_datasets pr) \<Longrightarrow> \<exists>d. (t, d) \<in> set dst \<and> \<not> is_live t d"
    and "(t, why) \<in> set (pr_datasets pr) \<Longrightarrow> (rel, d) \<in> set dst \<Longrightarrow> under rel t \<Longrightarrow> s \<in> set (d_snaps d)
      \<Longrightarrow> \<exists>r \<in> set (pr_snapshots pr). rm_rel r = rel \<and> rm_name r = r_name s"
proof -
  have ok: "tops_ok dst (emptied dst (pr_snapshots pr)) (pr_datasets pr)"
  proof -
    have "pr_datasets pr = whole_datasets dst (pr_snapshots pr) \<or> pr_datasets pr = []"
      using plan_prune_cases [OF assms(1)] by blast
    then show ?thesis
      using whole_datasets_ok [OF assms(2), of "pr_snapshots pr"] by (elim disjE) (simp_all add: tops_ok_def)
  qed
  then show "sorted_wrt apart (map fst (pr_datasets pr))" by (simp add: tops_ok_def)
  show "\<exists>d. (t, d) \<in> set dst \<and> \<not> is_live t d" if "(t, why) \<in> set (pr_datasets pr)"
    using ok that by (fastforce simp: tops_ok_def emptied_def)
  show "\<exists>r \<in> set (pr_snapshots pr). rm_rel r = rel \<and> rm_name r = r_name s"
    if *: "(t, why) \<in> set (pr_datasets pr)" "(rel, d) \<in> set dst" "under rel t" "s \<in> set (d_snaps d)"
  proof -
    from * ok have "rel \<in> set (emptied dst (pr_snapshots pr))" by (fastforce simp: tops_ok_def)
    moreover obtain start where "pr_snapshots pr = concat (map (removals_of
        (prune_ctx_of dst complete pol now whole pinned protected start)) (sort_key fst dst))"
      using plan_prune_cases [OF assms(1)] *(1) by auto
    ultimately show ?thesis using emptied_all_go(2) [OF assms(2) *(2) _ _ *(4)] by blast
  qed
qed

text \<open>A dataset is destroyed whole only when nothing in it stays. Every subtree the pass
  destroys is an archived lineage or a kept orphan; every snapshot of every dataset at or below it
  is among the removals, and no destroyed subtree lies inside another.\<close>

lemma prune_whole_datasets:
  assumes "plan_prune dst complete pol now whole pinned protected first = Inr pr" and "wf_dict dst"
  shows "sorted_wrt apart (map fst (pr_datasets pr))
    \<and> (\<forall>(t, why) \<in> set (pr_datasets pr).
        (\<exists>d. (t, d) \<in> set dst \<and> \<not> is_live t d)
        \<and> (\<forall>(rel, d) \<in> set dst. under rel t \<longrightarrow> (\<forall>s \<in> set (d_snaps d).
             \<exists>r \<in> set (pr_snapshots pr). rm_rel r = rel \<and> rm_name r = r_name s)))"
  using prune_whole_datasets_parts [OF assms] by blast

definition ex_gone :: "(string, dest) dict" where
  "ex_gone = ex_drive @ [(''rpool/old.archived-1'', ex_dest ''rpool/old.archived-1''
     [ex_pt ''zark_2026-01-01_00:00:00Z'' ''e'' 1767225600])]"

lemma ex_gone_times: "point_times ex_gone = point_times ex_drive"
  unfolding ex_times by code_simp

definition ex_gone_prune :: prune where
  "ex_gone_prune = \<lparr>pr_snapshots = \<lparr>rm_rel = ''rpool/old.archived-1'', rm_name = ''zark_2026-01-01_00:00:00Z'',
       rm_reason = ''older than the window, not its month's newest complete point''\<rparr> # pr_snapshots ex_prune,
     pr_datasets = [(''rpool/old.archived-1'', ''archived lineage with nothing left that the policy keeps'')],
     pr_kept = []\<rparr>"

lemma ex_gone_ctx: "prune_ctx_of ex_gone ex_complete ex_policy 1775779200 None [] [] 1767225600 = ex_ctx"
  unfolding ex_ctx_eq [symmetric] by (simp add: prune_ctx_of_def ex_gone_times)

lemma ex_gone_removals: "concat (map (removals_of ex_ctx) (sort_key fst ex_gone)) = pr_snapshots ex_gone_prune"
  by code_simp

lemma ex_gone_reports: "concat (map (reports_of ex_ctx) (sort_key fst ex_gone)) = []"
  by code_simp

lemma ex_gone_whole: "whole_datasets ex_gone (pr_snapshots ex_gone_prune) = pr_datasets ex_gone_prune"
  by code_simp

lemma ex_gone_plan: "plan_prune ex_gone ex_complete ex_policy 1775779200 None [] [] '''' = Inr ex_gone_prune"
  by (simp add: plan_prune_def ex_first ex_gone_times ex_gone_ctx ex_gone_removals ex_gone_reports
      ex_gone_whole Let_def) (simp add: ex_gone_prune_def)

text \<open>The points a space plan offers.\<close>

lemma newest_complete_spec:
  assumes "map_of (point_times dst) name = Some ts" "name \<in> set complete"
  shows "\<exists>tm. newest_complete (point_times dst) complete whole \<in> set complete
    \<and> map_of (point_times dst) (newest_complete (point_times dst) complete whole) = Some tm
    \<and> (name \<in> set (whole_or complete whole), ts)
        \<le> (newest_complete (point_times dst) complete whole \<in> set (whole_or complete whole), tm)"
proof -
  let ?w = "whole_or complete whole"
  let ?cands = "map (\<lambda>(name, ts). (name \<in> set ?w, ts, name))
    (filter (\<lambda>(name, ts). name \<in> set complete) (point_times dst))"
  have mem: "(name \<in> set ?w, ts, name) \<in> set ?cands"
    using map_of_SomeD [OF assms(1)] assms(2) by (simp add: image_iff)
  from length_pos_if_in_set [OF this] have "?cands \<noteq> []" by (rule length_greater_0_conv [THEN iffD1])
  from max_by_exists [OF this] obtain b where b: "max_by (\<lambda>t. t) ?cands = Some b" by blast
  note best = max_by_Some [OF b]
  from best(1) obtain m tm where m: "b = (m \<in> set ?w, tm, m)" "(m, tm) \<in> set (point_times dst)" "m \<in> set complete"
    by auto
  have "newest_complete (point_times dst) complete whole = m"
    using b m(1) unfolding newest_complete_def Let_def by simp
  moreover have "(name \<in> set ?w, ts) \<le> (m \<in> set ?w, tm)"
    using best(2) [OF mem] m(1) by (auto simp: less_eq_prod_def)
  ultimately show ?thesis using m by (auto simp: wf_dict_map_of)
qed


lemma space_plan_bounds_parts:
  shows "n \<in> set (space_candidates dst complete pol now pr whole) \<Longrightarrow>
      n \<in> set complete \<and> dict_get_or (point_times dst) n 0 < now - window_days pol * DAY
      \<and> n \<noteq> newest_complete (point_times dst) complete whole \<and> n \<notin> rm_name ` set (pr_snapshots pr)"
    and "sorted (map (\<lambda>n. dict_get_or (point_times dst) n 0) (space_candidates dst complete pol now pr whole))"
    and "r \<in> set (point_removals dst name pinned protected) \<Longrightarrow>
      \<exists>d s. (rm_rel r, d) \<in> set dst \<and> s \<in> set (d_snaps d) \<and> rm_name r = name \<and> r_name s = name
        \<and> \<not> (is_live (rm_rel r) d \<and> (\<exists>n. newest d = Some n \<and> r_guid s = r_guid n))
        \<and> map_of pinned (target r) = None \<and> target r \<notin> set protected"
proof -
  show "n \<in> set complete \<and> dict_get_or (point_times dst) n 0 < now - window_days pol * DAY
      \<and> n \<noteq> newest_complete (point_times dst) complete whole \<and> n \<notin> rm_name ` set (pr_snapshots pr)"
    if "n \<in> set (space_candidates dst complete pol now pr whole)"
    using that monthly_points_complete [of n dst complete whole] by (simp add: space_candidates_def Let_def)
  show "sorted (map (\<lambda>n. dict_get_or (point_times dst) n 0) (space_candidates dst complete pol now pr whole))"
    by (simp add: space_candidates_def Let_def)
  show "\<exists>d s. (rm_rel r, d) \<in> set dst \<and> s \<in> set (d_snaps d) \<and> rm_name r = name \<and> r_name s = name
        \<and> \<not> (is_live (rm_rel r) d \<and> (\<exists>n. newest d = Some n \<and> r_guid s = r_guid n))
        \<and> map_of pinned (target r) = None \<and> target r \<notin> set protected"
    if r: "r \<in> set (point_removals dst name pinned protected)"
  proof -
    from r obtain rel d s where *: "(rel, d) \<in> set dst" "s \<in> set (d_snaps d)" "r_name s = name"
      "map_of pinned (rel @ ''@'' @ r_name s) = None" "rel @ ''@'' @ r_name s \<notin> set protected"
      "\<not> ((if is_live rel d then newest d else None) \<noteq> None
          \<and> r_guid s = r_guid (the (if is_live rel d then newest d else None)))"
      "rm_rel r = rel" "rm_name r = r_name s"
      unfolding point_removals_def Let_def by auto
    then have "\<not> (is_live (rm_rel r) d \<and> (\<exists>n. newest d = Some n \<and> r_guid s = r_guid n))" by auto
    with * show ?thesis by (intro exI [of _ d] exI [of _ s]) (simp add: target_def)
  qed
qed

text \<open>What a space plan may free beyond the policy. The points it offers are complete monthly
  points outside the window, oldest first, never the newest complete one and never one the policy
  already removes; removing an offered point keeps every live dataset's newest snapshot, what is
  pinned and what is protected, and removes only snapshots of that name.\<close>

lemma space_plan_bounds:
  "(\<forall>n \<in> set (space_candidates dst complete pol now pr whole).
      n \<in> set complete \<and> dict_get_or (point_times dst) n 0 < now - window_days pol * DAY
      \<and> n \<noteq> newest_complete (point_times dst) complete whole \<and> n \<notin> rm_name ` set (pr_snapshots pr))
   \<and> sorted (map (\<lambda>n. dict_get_or (point_times dst) n 0) (space_candidates dst complete pol now pr whole))
   \<and> (\<forall>r \<in> set (point_removals dst name pinned protected).
      \<exists>d s. (rm_rel r, d) \<in> set dst \<and> s \<in> set (d_snaps d) \<and> rm_name r = name \<and> r_name s = name
        \<and> \<not> (is_live (rm_rel r) d \<and> (\<exists>n. newest d = Some n \<and> r_guid s = r_guid n))
        \<and> map_of pinned (target r) = None \<and> target r \<notin> set protected)"
  by (intro conjI ballI space_plan_bounds_parts)

text \<open>Two months of the example drive: the April point is the newest, January's may be offered.\<close>

lemma ex_space: "''zark_2026-01-20_00:00:00Z'' \<in> set (space_candidates ex_drive ex_complete ex_policy 1775779200 ex_prune None)"
  by (simp add: space_candidates_def ex_monthly ex_keep Let_def ex_policy_def DAY_def ex_prune_def)
     (simp add: ex_times dict_get_or_def)

text \<open>The only failure of the pass is a recorded first point that has the shape of a point name
  but is no date; without a backup point anywhere the pass removes nothing.\<close>

lemma plan_prune_error:
  "plan_prune dst complete pol now whole pinned protected first = Inl e \<longleftrightarrow>
     e = ValueError \<and> POINT_RE first \<and> point_time first = None"
  by (auto simp: plan_prune_def first_point_time_def Let_def split: option.splits list.splits)

end
