(* ===== verification/Restore_Points.thy ===== *)
theory Restore_Points
  imports Retention "HOL-Library.Multiset"
begin

text \<open>
  \<open>lib/restore_points.py\<close>: the snapshots of a backup pool grouped into restore points, what each
  dataset gets for a chosen point, and which backup points are complete. A Python set of names is
  a list without repetitions, read by membership. A \<open>Point\<close> always has a member when the code asks
  for its end or its name; the partial operations return \<open>None\<close> where Python raises.
\<close>

section \<open>Snapshots and points\<close>

definition REPEAT_GAP :: int where
  "REPEAT_GAP = 300"

definition LEGACY_MARK :: string where
  "LEGACY_MARK = ''yes''"

text \<open>\<open>logical\<close>: every \<open>.archived-...\<close> suffix of a component is cut, up to the next slash.\<close>

function logical :: "string \<Rightarrow> string" where
  "logical [] = []"
| "logical (c # cs) =
     (if prefix ARCHIVE_MARK (c # cs) then logical (dropWhile (\<lambda>x. x \<noteq> CHR ''/'') cs)
      else c # logical cs)"
  by pat_completeness auto
termination
  by (relation "measure length") (simp_all add: le_imp_less_Suc length_dropWhile_le)

record snap =
  s_dataset :: string
  s_name :: string
  s_guid :: string
  s_createtxg :: int
  s_creation :: int
  s_source :: string
  s_mark :: string

definition stored :: "snap \<Rightarrow> string" where
  "stored s = (if s_source s \<noteq> '''' then s_source s else s_dataset s)"

definition family :: "snap \<Rightarrow> string" where
  "family s = (let cut = takeWhile (\<lambda>c. \<not> is_digit c) (s_name s)
               in if cut \<noteq> '''' then cut else s_name s)"

record point =
  pt_family :: string
  pt_members :: "(string, snap list) dict"
  pt_label :: int

definition Point :: "string \<Rightarrow> point" where
  "Point fam = \<lparr>pt_family = fam, pt_members = [], pt_label = 0\<rparr>"

definition pt_snaps :: "point \<Rightarrow> snap list" where
  "pt_snaps p = concat (dict_values (pt_members p))"

text \<open>\<open>Point.end\<close>: the latest creation of the run.\<close>

definition pt_end :: "point \<Rightarrow> int option" where
  "pt_end p = max_by (\<lambda>t. t) (map s_creation (pt_snaps p))"

definition label_utc :: "point \<Rightarrow> string" where
  "label_utc p = (let d = from_timestamp (pt_label p) in
     pad4 (nat (dt_year d)) @ ''-'' @ pad2 (dt_month d) @ ''-'' @ pad2 (dt_day d) @ '' '' @
     pad2 (dt_hour d) @ '':'' @ pad2 (dt_minute d) @ '':'' @ pad2 (dt_second d) @ '' UTC'')"

text \<open>One line of \<open>zfs list\<close>; \<open>None\<close> is a line the parser skips.\<close>

definition parse_snapshot :: "string \<Rightarrow> (string, string) dict \<Rightarrow> string \<Rightarrow> snap option" where
  "parse_snapshot pool marks line =
     (let fields = split_on (CHR 0x09) (rstrip_where (\<lambda>c. c = CHR 0x0A) line)
      in if length fields < 4 \<or> CHR ''@'' \<notin> set (fields ! 0) then None
         else (case partition_on (CHR ''@'') (fields ! 0) of (full, _, name) \<Rightarrow>
           if \<not> startswith full (pool @ ''/'') then None
           else (let rel = drop (length (pool @ ''/'')) full in
             case (py_int (fields ! 2), py_int (fields ! 3)) of
               (Some txg, Some at) \<Rightarrow>
                 Some \<lparr>s_dataset = logical rel, s_name = name, s_guid = fields ! 1,
                       s_createtxg = txg, s_creation = at,
                       s_source = (if logical rel \<noteq> rel then rel else ''''),
                       s_mark = dict_get_or marks (fields ! 0) ''''\<rparr>
             | _ \<Rightarrow> None)))"

definition parse_snapshots :: "string list \<Rightarrow> string \<Rightarrow> (string, string) dict \<Rightarrow> snap list" where
  "parse_snapshots lines pool marks = List.map_filter (parse_snapshot pool marks) lines"


section \<open>Runs\<close>

definition add_member :: "snap \<Rightarrow> point \<Rightarrow> point" where
  "add_member s p = p\<lparr>pt_members := dict_push (s_dataset s) s (pt_members p)\<rparr>"

text \<open>\<open>_by_name\<close>: one point per backup point name.\<close>

definition by_name_dict :: "snap list \<Rightarrow> (string, point) dict" where
  "by_name_dict snaps =
     foldl (\<lambda>pts s. dict_set (s_name s) (add_member s (dict_get_or pts (s_name s) (Point (family s)))) pts)
       [] snaps"

definition by_name :: "snap list \<Rightarrow> point list" where
  "by_name snaps = dict_values (by_name_dict snaps)"

text \<open>
  The loop of \<open>cluster\<close> over one family: the points closed so far, the current one, when each
  dataset was first seen in it and the creation of the snapshot before.
\<close>

record run_state =
  rs_done :: "point list"
  rs_current :: "point option"
  rs_first :: "(string, int) dict"
  rs_last :: int

definition close_current :: "run_state \<Rightarrow> point list" where
  "close_current st = rs_done st @ (case rs_current st of None \<Rightarrow> [] | Some p \<Rightarrow> [p])"

definition run_step :: "bool \<Rightarrow> string \<Rightarrow> run_state \<Rightarrow> snap \<Rightarrow> run_state" where
  "run_step sequential fam st s =
     (let repeated = (case map_of (rs_first st) (s_dataset s) of
                        None \<Rightarrow> False | Some t \<Rightarrow> s_creation s - t > REPEAT_GAP);
          gap = (\<not> sequential \<and> s_creation s - rs_last st > REPEAT_GAP)
      in case rs_current st of
           Some p \<Rightarrow>
             if repeated \<or> gap
             then \<lparr>rs_done = rs_done st @ [p], rs_current = Some (add_member s (Point fam)),
                   rs_first = dict_setdefault (s_dataset s) (s_creation s) [], rs_last = s_creation s\<rparr>
             else \<lparr>rs_done = rs_done st, rs_current = Some (add_member s p),
                   rs_first = dict_setdefault (s_dataset s) (s_creation s) (rs_first st),
                   rs_last = s_creation s\<rparr>
         | None \<Rightarrow>
             \<lparr>rs_done = rs_done st, rs_current = Some (add_member s (Point fam)),
              rs_first = dict_setdefault (s_dataset s) (s_creation s) [], rs_last = s_creation s\<rparr>)"

definition run_start :: run_state where
  "run_start = \<lparr>rs_done = [], rs_current = None, rs_first = [], rs_last = 0\<rparr>"

definition family_runs :: "string \<Rightarrow> snap list \<Rightarrow> point list" where
  "family_runs fam members =
     close_current (foldl (run_step (startswith fam ''syncoid_'') fam) run_start
       (sort_key (\<lambda>s. (s_creation s, s_dataset s, s_createtxg s)) members))"

definition family_points :: "string \<times> snap list \<Rightarrow> point list" where
  "family_points fm = (case fm of (fam, members) \<Rightarrow>
     by_name (filter (\<lambda>m. POINT_RE (s_name m)) members)
     @ family_runs fam (filter (\<lambda>m. \<not> POINT_RE (s_name m)) members))"

definition cluster :: "snap list \<Rightarrow> point list" where
  "cluster snaps = concat (map family_points (sort_key fst (group_by family snaps)))"

definition restore_points :: "snap list \<Rightarrow> string \<Rightarrow> point list" where
  "restore_points snaps be_root =
     sort_key (\<lambda>p. (pt_label p, pt_family p))
       (List.map_filter (\<lambda>p. case map_of (pt_members p) be_root of
            None \<Rightarrow> None
          | Some ss \<Rightarrow> map_option (\<lambda>l. p\<lparr>pt_label := l\<rparr>) (max_by (\<lambda>t. t) (map s_creation ss)))
         (cluster snaps))"


section \<open>What each dataset gets\<close>

definition newest_snap :: "snap list \<Rightarrow> snap option" where
  "newest_snap ss = max_by (\<lambda>s. (s_creation s, s_createtxg s)) ss"

definition point_name_of :: "point \<Rightarrow> string option" where
  "point_name_of p = (case pt_members p of (_, s # _) # _ \<Rightarrow> Some (s_name s) | _ \<Rightarrow> None)"

definition ended :: "snap list \<Rightarrow> (int \<times> string list) list \<Rightarrow> bool" where
  "ended mine backups =
     (case mine of [] \<Rightarrow> False
      | s # _ \<Rightarrow>
         (case max_by (\<lambda>t. t) (map s_creation mine) of None \<Rightarrow> False
          | Some latest \<Rightarrow> list_ex (\<lambda>(t, held). t \<ge> latest \<and> s_dataset s \<notin> set held) backups))"

definition backups_until :: "snap list \<Rightarrow> int \<Rightarrow> string list option \<Rightarrow> (int \<times> string list) list" where
  "backups_until snaps e complete =
     List.map_filter (\<lambda>bp. case pt_end bp of None \<Rightarrow> None
         | Some t \<Rightarrow> if t \<le> e \<and> (case complete of None \<Rightarrow> True
                                 | Some c \<Rightarrow> (case point_name_of bp of None \<Rightarrow> False | Some n \<Rightarrow> n \<in> set c))
                    then Some (t, dict_keys (pt_members bp)) else None)
       (by_name (filter (\<lambda>s. POINT_RE (s_name s)) snaps))"

definition resolve_one ::
    "point \<Rightarrow> snap list \<Rightarrow> int \<Rightarrow> (int \<times> string list) list \<Rightarrow> string \<Rightarrow> snap option" where
  "resolve_one point snaps e backups ds =
     (let own = dict_get_or (pt_members point) ds [];
          mine = filter (\<lambda>s. s_dataset s = ds) snaps
      in if own \<noteq> [] then newest_snap own
         else if ended mine backups then None
         else newest_snap (filter (\<lambda>s. s_creation s \<le> e) mine))"

text \<open>\<open>None\<close> for the whole is the \<open>ValueError\<close> of a point without members.\<close>

definition resolve ::
    "point \<Rightarrow> snap list \<Rightarrow> string list \<Rightarrow> string list option \<Rightarrow> (string, snap option) dict option" where
  "resolve point snaps datasets complete =
     (case pt_end point of None \<Rightarrow> None
      | Some e \<Rightarrow> Some (foldl (\<lambda>out ds. dict_set ds
            (resolve_one point snaps e (backups_until snaps e complete) ds) out) [] datasets))"


section \<open>Complete points\<close>

text \<open>\<open>skipped_points\<close>: the points some dataset has snapshots around but none of.\<close>

definition skips :: "snap list \<Rightarrow> string \<Rightarrow> snap list \<Rightarrow> bool" where
  "skips snaps name members =
     (case max_by (\<lambda>t. t) (map s_creation members) of None \<Rightarrow> False
      | Some when \<Rightarrow>
          list_ex (\<lambda>(ds, tms). ds \<notin> set (map s_dataset members) \<and> Min (set tms) < when \<and> when < Max (set tms))
            (map (\<lambda>(ds, ss). (ds, map s_creation ss)) (group_by s_dataset snaps)))"

definition skipped_points :: "snap list \<Rightarrow> string list" where
  "skipped_points snaps =
     map fst (filter (\<lambda>(name, members). skips snaps name members)
       (group_by s_name (filter (\<lambda>s. POINT_RE (s_name s)) snaps)))"

definition legacy_complete :: "snap list \<Rightarrow> string \<Rightarrow> string list" where
  "legacy_complete snaps last_point =
     (if last_point = '''' then []
      else filter (\<lambda>n. n \<notin> set (skipped_points snaps))
             (remdups (map s_name (filter (\<lambda>s. POINT_RE (s_name s) \<and> s_name s \<le> last_point) snaps))))"

definition point_marks :: "snap list \<Rightarrow> (string, snap list) dict" where
  "point_marks snaps =
     (let marked = map s_name (filter (\<lambda>s. s_mark s \<noteq> '''' \<and> POINT_RE (s_name s)) snaps)
      in group_by s_name (filter (\<lambda>s. s_name s \<in> set marked) snaps))"

definition is_complete :: "snap list \<Rightarrow> bool" where
  "is_complete members =
     (case remdups (map s_mark members) of
        [mark] \<Rightarrow> mark = LEGACY_MARK
          \<or> (isdigit mark \<and> dec_val mark = card (set (map s_dataset members)))
      | _ \<Rightarrow> False)"

record point_loss =
  pl_targets :: "string list"
  pl_lost :: "string list"
  pl_count :: int

definition snap_gone :: "string list \<Rightarrow> snap \<Rightarrow> bool" where
  "snap_gone tops s = list_ex (\<lambda>t. stored s = t \<or> startswith (stored s) (t @ ''/'')) tops"

definition point_loss_of :: "string \<Rightarrow> snap list \<Rightarrow> string list \<Rightarrow> string \<Rightarrow> point_loss option" where
  "point_loss_of pool snaps tops name =
     (let members = filter (\<lambda>s. s_name s = name) snaps;
          left = filter (\<lambda>s. \<not> snap_gone tops s) members;
          lost = filter (\<lambda>ds. ds \<notin> set (map s_dataset left)) (remdups (map s_dataset members))
      in case find (\<lambda>s. isdigit (s_mark s)) members of None \<Rightarrow> None
         | Some s \<Rightarrow>
             (let count = int (dec_val (s_mark s)) - int (length lost)
              in if lost = [] \<or> left = [] \<or> count \<le> 0 then None
                 else Some \<lparr>pl_targets = map (\<lambda>s. pool @ ''/'' @ stored s @ ''@'' @ name) left,
                            pl_lost = lost, pl_count = count\<rparr>))"

definition point_losses :: "string \<Rightarrow> snap list \<Rightarrow> string list \<Rightarrow> (string, point_loss) dict" where
  "point_losses pool snaps tops =
     List.map_filter (\<lambda>name. map_option (Pair name) (point_loss_of pool snaps tops name))
       (sort (remdups (map s_name (filter (\<lambda>s. snap_gone tops s \<and> isdigit (s_mark s)) snaps))))"

definition run_complete_points :: "snap list \<Rightarrow> string \<Rightarrow> string list" where
  "run_complete_points snaps last_point =
     (let marked = point_marks snaps
      in if marked \<noteq> [] then dict_keys marked else legacy_complete snaps last_point)"

record complete_set =
  cs_run :: "string list"
  cs_whole :: "string list"
  cs_first :: string

definition retention_points :: "snap list \<Rightarrow> string \<Rightarrow> complete_set" where
  "retention_points snaps last_point =
     (let run = run_complete_points snaps last_point
      in \<lparr>cs_run = run, cs_whole = filter (\<lambda>n. n \<notin> set (skipped_points snaps)) run, cs_first = ''''\<rparr>)"

definition complete_points :: "snap list \<Rightarrow> string \<Rightarrow> string list" where
  "complete_points snaps last_point =
     (let marked = point_marks snaps
      in if marked = [] then legacy_complete snaps last_point
         else map fst (filter (\<lambda>(name, members). is_complete members) marked))"



section \<open>Lemmas: names of archived lineages\<close>

lemma logical_id: "logical rel = rel \<longleftrightarrow> \<not> sublist ARCHIVE_MARK rel"
proof -
  have len: "length (logical rel) \<le> length rel" for rel
  proof (induction rel rule: logical.induct)
    case (2 c cs)
    then show ?case using length_dropWhile_le [of "\<lambda>x. x \<noteq> CHR ''/''" cs] by auto
  qed simp
  show ?thesis
  proof (induction rel rule: logical.induct)
    case 1
    then show ?case by (simp add: ARCHIVE_MARK_def)
  next
    case (2 c cs)
    show ?case
    proof (cases "prefix ARCHIVE_MARK (c # cs)")
      case True
      have "length (logical (dropWhile (\<lambda>x. x \<noteq> CHR ''/'') cs)) < length (c # cs)"
        using len [of "dropWhile (\<lambda>x. x \<noteq> CHR ''/'') cs"] length_dropWhile_le [of "\<lambda>x. x \<noteq> CHR ''/''" cs] by simp
      then have "logical (c # cs) \<noteq> c # cs" using True by (metis less_irrefl logical.simps(2))
      with True show ?thesis by (simp add: sublist_Cons_right del: logical.simps)
    next
      case False
      with 2 show ?thesis by (simp add: sublist_Cons_right)
    qed
  qed
qed

lemma prefix_at_sep: "prefix p r \<Longrightarrow> r = [] \<or> hd r = c \<Longrightarrow> c \<notin> set p \<Longrightarrow> p = []"
  by (cases p) (auto simp: prefix_def)

text \<open>A text without slashes that starts the cut name starts the whole name.\<close>

lemma prefix_logical:
  "prefix p (logical r) \<Longrightarrow> CHR ''/'' \<notin> set p \<Longrightarrow> prefix p r"
proof (induction r arbitrary: p rule: logical.induct)
  case (2 d ds)
  show ?case
  proof (cases "prefix ARCHIVE_MARK (d # ds)")
    case True
    let ?r = "dropWhile (\<lambda>x. x \<noteq> CHR ''/'') ds"
    have "prefix p ?r" using 2 True by simp
    moreover have "?r = [] \<or> hd ?r = CHR ''/''" using hd_dropWhile [of "\<lambda>x. x \<noteq> CHR ''/''" ds] by auto
    ultimately have "p = []" by (rule prefix_at_sep) (rule 2(4))
    then show ?thesis by simp
  next
    case False
    with 2 show ?thesis by (cases p) auto
  qed
qed simp

lemma logical_no_mark: "\<not> sublist ARCHIVE_MARK (logical rel)"
proof (induction rel rule: logical.induct)
  case 1
  then show ?case by (simp add: ARCHIVE_MARK_def)
next
  case (2 c cs)
  show ?case
  proof (cases "prefix ARCHIVE_MARK (c # cs)")
    case True
    with 2 show ?thesis by simp
  next
    case False
    have "CHR ''/'' \<notin> set ARCHIVE_MARK" by (simp add: ARCHIVE_MARK_def)
    with prefix_logical False have "\<not> prefix ARCHIVE_MARK (logical (c # cs))" by blast
    with False 2 show ?thesis by (simp add: sublist_Cons_right)
  qed
qed

lemma logical_idem [simp]: "logical (logical rel) = logical rel"
  by (simp add: logical_id logical_no_mark)

text \<open>The two readings of an archived name, here and in the planner, agree.\<close>

lemma sublist_split:
  assumes "c \<notin> set p" "p \<noteq> []"
  shows "list_ex (\<lambda>part. sublist p part) (split_on c s) \<longleftrightarrow> sublist p s"
proof -
  have pre: "c \<notin> set q \<Longrightarrow> prefix q (hd (split_on c r)) \<longleftrightarrow> prefix q r" for q r
  proof (induction r arbitrary: q)
    case (Cons x r)
    obtain w ws where w: "split_on c r = w # ws" by (meson list.exhaust split_on_nonempty)
    with Cons show ?case by (cases q) auto
  qed simp
  show ?thesis
  proof (induction s)
    case (Cons x s)
    obtain w ws where w: "split_on c s = w # ws" by (meson list.exhaust split_on_nonempty)
    have "\<not> prefix p (c # s)" using assms prefix_at_sep [of p "c # s" c] by auto
    moreover have "x \<noteq> c \<Longrightarrow> prefix p (x # w) \<longleftrightarrow> prefix p (x # s)" using pre [of p "x # s"] assms(1) w by simp
    ultimately show ?case using Cons w assms(2) by (auto simp: sublist_Cons_right)
  qed (simp add: assms(2))
qed

lemma is_archived_sublist: "is_archived rel \<longleftrightarrow> sublist ARCHIVE_MARK rel"
  unfolding is_archived_def contains_def by (rule sublist_split) (simp_all add: ARCHIVE_MARK_def)

lemma logical_archived: "logical rel \<noteq> rel \<longleftrightarrow> is_archived rel" "\<not> is_archived (logical rel)"
  by (simp_all add: logical_id is_archived_sublist logical_no_mark)



section \<open>Lemmas: grouping loses nothing\<close>

lemma mset_dict_set:
  "map_of m k = None \<Longrightarrow> mset (dict_values (dict_set k v m)) = add_mset v (mset (dict_values m))"
  "wf_dict m \<Longrightarrow> map_of m k = Some u \<Longrightarrow>
     add_mset u (mset (dict_values (dict_set k v m))) = add_mset v (mset (dict_values m))"
proof -
  show "map_of m k = None \<Longrightarrow> mset (dict_values (dict_set k v m)) = add_mset v (mset (dict_values m))"
    by (induction m) (auto simp: dict_set_def dict_values_def split: if_splits)
  show "wf_dict m \<Longrightarrow> map_of m k = Some u \<Longrightarrow>
     add_mset u (mset (dict_values (dict_set k v m))) = add_mset v (mset (dict_values m))"
  proof (induction m)
    case (Cons kv m)
    show ?case
    proof (cases "fst kv = k")
      case True
      with Cons show ?thesis by (cases kv) (auto simp: dict_set_def dict_values_def)
    next
      case False
      with Cons have "add_mset u (mset (dict_values (dict_set k v m))) = add_mset v (mset (dict_values m))"
        by (cases kv) (auto simp: wf_dict_def dict_keys_def)
      with False show ?thesis
        by (cases kv) (auto simp: dict_set_def dict_values_def add_mset_commute [of _ "snd kv"])
    qed
  qed simp
qed

text \<open>Replacing a value replaces its share in any sum over the values.\<close>

lemma sum_dict_set:
  assumes "wf_dict m" and "g (dict_get_or m k d) + delta = g v" and "map_of m k = None \<Longrightarrow> g d = {#}"
  shows "(\<Sum>x \<in># mset (dict_values (dict_set k v m)). g x) = (\<Sum>x \<in># mset (dict_values m). g x) + (delta :: 'b multiset)"
proof (cases "map_of m k")
  case None
  with assms mset_dict_set(1) [OF None, of v] show ?thesis by (simp add: dict_get_or_def)
next
  case (Some u)
  from arg_cong [OF mset_dict_set(2) [OF assms(1) Some, of v], of "\<lambda>M. \<Sum>x \<in># M. g x"]
  have "g u + (\<Sum>x \<in># mset (dict_values (dict_set k v m)). g x) = g v + (\<Sum>x \<in># mset (dict_values m). g x)"
    by simp
  with assms(2) Some have "g u + (\<Sum>x \<in># mset (dict_values (dict_set k v m)). g x)
      = g u + ((\<Sum>x \<in># mset (dict_values m). g x) + delta)" by (simp add: dict_get_or_def ac_simps)
  then show ?thesis by (simp only: add_left_cancel)
qed

lemma mset_concat_sum: "mset (concat xss) = (\<Sum>xs \<in># mset xss. mset xs)"
  by (induction xss) simp_all

lemma mset_dict_push:
  "wf_dict m \<Longrightarrow> mset (concat (dict_values (dict_push k x m))) = add_mset x (mset (concat (dict_values m)))"
  unfolding mset_concat_sum dict_push_def
  by (subst sum_dict_set [where d = "[]" and delta = "{#x#}"]) simp_all

lemma mset_group_by: "mset (concat (dict_values (group_by key xs))) = mset xs"
  by (induction xs rule: rev_induct) (simp_all add: group_by_snoc mset_dict_push dict_values_def [of "[]"])

text \<open>
  What every point of a pool satisfies: its members are keyed by their dataset, no dataset is empty,
  and there is at least one.
\<close>


definition members_ok :: "point \<Rightarrow> bool" where
  "members_ok p = (wf_dict (pt_members p)
     \<and> (\<forall>ds ss. map_of (pt_members p) ds = Some ss \<longrightarrow> ss \<noteq> [] \<and> (\<forall>s \<in> set ss. s_dataset s = ds)))"

definition point_ok :: "point \<Rightarrow> bool" where
  "point_ok p = (members_ok p \<and> pt_members p \<noteq> [])"

lemma members_ok_Point [simp]: "members_ok (Point fam)"
  by (simp add: members_ok_def Point_def)

lemma dict_push_nonempty [simp]: "dict_push k x m \<noteq> []"
  by (metis fun_upd_same map_of.simps(1) map_of_dict_push option.distinct(1))

lemma members_ok_add: "members_ok p \<Longrightarrow> point_ok (add_member s p)"
  by (cases "map_of (pt_members p) (s_dataset s)")
     (fastforce simp: point_ok_def members_ok_def add_member_def map_of_dict_push dict_get_or_def)+

lemma mset_add_member: "members_ok p \<Longrightarrow> mset (pt_snaps (add_member s p)) = add_mset s (mset (pt_snaps p))"
  by (simp add: pt_snaps_def add_member_def mset_dict_push members_ok_def)

lemma pt_snaps_Point [simp]: "pt_snaps (Point fam) = []"
  by (simp add: pt_snaps_def Point_def dict_values_def)

lemma set_pt_snaps:
  "members_ok p \<Longrightarrow> s \<in> set (pt_snaps p) \<longleftrightarrow> (\<exists>ss. map_of (pt_members p) (s_dataset s) = Some ss \<and> s \<in> set ss)"
  by (fastforce simp: pt_snaps_def members_ok_def set_dict_values)

lemma pt_end_Some:
  assumes "point_ok p"
  shows "\<exists>e. pt_end p = Some e \<and> (\<exists>s \<in> set (pt_snaps p). s_creation s = e) \<and> (\<forall>s \<in> set (pt_snaps p). s_creation s \<le> e)"
proof -
  from assms obtain ds ss where "map_of (pt_members p) ds = Some ss"
    by (metis list.exhaust map_of_Cons_code(2) point_ok_def surj_pair)
  with assms have "map s_creation (pt_snaps p) \<noteq> []"
    by (fastforce simp: point_ok_def members_ok_def pt_snaps_def set_dict_values)
  from max_by_exists [OF this, of "\<lambda>t. t"] obtain e where e: "pt_end p = Some e" unfolding pt_end_def by blast
  note best = max_by_Some [OF e [unfolded pt_end_def]]
  from best(1) have "\<exists>s \<in> set (pt_snaps p). s_creation s = e" by auto
  moreover have "\<forall>s \<in> set (pt_snaps p). s_creation s \<le> e" using best(2) by simp
  ultimately show ?thesis using e by blast
qed


text \<open>Backup points grouped by name.\<close>

definition points_ok :: "(string, point) dict \<Rightarrow> bool" where
  "points_ok m = (wf_dict m \<and> (\<forall>n p. map_of m n = Some p \<longrightarrow> point_ok p \<and> (\<forall>s \<in> set (pt_snaps p). s_name s = n)))"

lemma by_name_dict_snoc:
  "by_name_dict (snaps @ [s]) =
     dict_set (s_name s) (add_member s (dict_get_or (by_name_dict snaps) (s_name s) (Point (family s))))
       (by_name_dict snaps)"
  by (simp add: by_name_dict_def)

lemma by_name_ok: "points_ok (by_name_dict snaps)"
proof (induction snaps rule: rev_induct)
  case Nil
  then show ?case by (simp add: points_ok_def by_name_dict_def)
next
  case (snoc s snaps)
  let ?p = "dict_get_or (by_name_dict snaps) (s_name s) (Point (family s))"
  have ok: "members_ok ?p" and nm: "\<forall>t \<in> set (pt_snaps ?p). s_name t = s_name s"
    using snoc by (auto simp: points_ok_def dict_get_or_def point_ok_def split: option.splits)
  have "set (pt_snaps (add_member s ?p)) = insert s (set (pt_snaps ?p))"
    by (metis mset_add_member [OF ok] set_mset_add_mset_insert set_mset_mset)
  then show ?case using snoc members_ok_add [OF ok, of s] nm by (auto simp: points_ok_def by_name_dict_snoc)
qed

lemma mset_concat_map_sum: "mset (concat (map f xs)) = (\<Sum>x \<in># mset xs. mset (f x))"
  by (induction xs) simp_all

lemma by_name_mset: "mset (concat (map pt_snaps (by_name snaps))) = mset snaps"
proof (induction snaps rule: rev_induct)
  case Nil
  then show ?case by (simp add: by_name_def by_name_dict_def dict_values_def)
next
  case (snoc s snaps)
  let ?m = "by_name_dict snaps"
  let ?p = "dict_get_or ?m (s_name s) (Point (family s))"
  have ok: "members_ok ?p" "wf_dict ?m"
    using by_name_ok [of snaps] by (auto simp: points_ok_def dict_get_or_def point_ok_def split: option.splits)
  have "(\<Sum>x \<in># mset (dict_values (dict_set (s_name s) (add_member s ?p) ?m)). mset (pt_snaps x))
      = (\<Sum>x \<in># mset (dict_values ?m). mset (pt_snaps x)) + {#s#}"
    by (rule sum_dict_set [where d = "Point (family s)"]) (simp_all add: ok mset_add_member)
  with snoc show ?case unfolding by_name_def by_name_dict_snoc mset_concat_map_sum by simp
qed

text \<open>The runs of one family: sizes, times and gaps of the run being built.\<close>

definition run_bounded :: "point \<Rightarrow> bool" where
  "run_bounded p = (\<forall>ds ss. map_of (pt_members p) ds = Some ss \<longrightarrow>
     (\<forall>s \<in> set ss. \<forall>t \<in> set ss. s_creation t - s_creation s \<le> REPEAT_GAP))"

text \<open>The current run's snapshots lie within the gap after the first one of their dataset.\<close>

definition current_ok :: "(string, int) dict \<Rightarrow> point \<Rightarrow> bool" where
  "current_ok first p =
     ((\<forall>ds ss. map_of (pt_members p) ds = Some ss \<longrightarrow>
         (\<exists>t. map_of first ds = Some t \<and> (\<forall>s \<in> set ss. t \<le> s_creation s \<and> s_creation s - t \<le> REPEAT_GAP)))
      \<and> dom (map_of first) \<subseteq> dom (map_of (pt_members p)))"

lemma current_okD:
  "current_ok first p \<Longrightarrow> map_of (pt_members p) ds = Some ss \<Longrightarrow>
     \<exists>t. map_of first ds = Some t \<and> (\<forall>s \<in> set ss. t \<le> s_creation s \<and> s_creation s - t \<le> REPEAT_GAP)"
  unfolding current_ok_def by blast

lemma current_ok_bounded: "current_ok first p \<Longrightarrow> run_bounded p"
  unfolding run_bounded_def
proof (intro allI impI ballI)
  fix ds ss s t
  assume "current_ok first p" "map_of (pt_members p) ds = Some ss" "s \<in> set ss" "t \<in> set ss"
  then obtain t0 where "\<forall>s \<in> set ss. t0 \<le> s_creation s \<and> s_creation s - t0 \<le> REPEAT_GAP"
    using current_okD by blast
  with \<open>s \<in> set ss\<close> \<open>t \<in> set ss\<close> have "t0 \<le> s_creation s" "s_creation t - t0 \<le> REPEAT_GAP" by auto
  then show "s_creation t - s_creation s \<le> REPEAT_GAP" by simp
qed

lemma map_of_add_member:
  "map_of (pt_members (add_member s p)) =
     (map_of (pt_members p))(s_dataset s \<mapsto> dict_get_or (pt_members p) (s_dataset s) [] @ [s])"
  by (simp add: add_member_def map_of_dict_push)

lemma fresh_ok:
  "point_ok (add_member s (Point fam))" "pt_family (add_member s (Point fam)) = fam"
  "pt_snaps (add_member s (Point fam)) = [s]"
  "current_ok (dict_setdefault (s_dataset s) (s_creation s) []) (add_member s (Point fam))"
  by (simp_all add: members_ok_add)
     (auto simp: add_member_def Point_def pt_snaps_def dict_push_def dict_set_def dict_get_or_def
        dict_values_def current_ok_def dict_setdefault_def REPEAT_GAP_def)

lemma extend_ok:
  assumes p: "members_ok p" "current_ok first p"
    and later: "\<forall>u \<in> set (pt_snaps p). s_creation u \<le> s_creation s"
    and near: "\<not> (case map_of first (s_dataset s) of None \<Rightarrow> False | Some t \<Rightarrow> s_creation s - t > REPEAT_GAP)"
  shows "current_ok (dict_setdefault (s_dataset s) (s_creation s) first) (add_member s p)"
proof (cases "map_of first (s_dataset s)")
  case None
  with p(2) have "map_of (pt_members p) (s_dataset s) = None"
    by (metis current_ok_def not_None_eq option.distinct(1))
  with None p(2) show ?thesis
    by (auto simp: current_ok_def map_of_add_member map_of_setdefault dict_get_or_def REPEAT_GAP_def)
next
  case (Some t)
  with p(2) obtain ss where ss: "map_of (pt_members p) (s_dataset s) = Some ss" by (auto simp: current_ok_def)
  from current_okD [OF p(2) ss] Some have b: "\<forall>u \<in> set ss. t \<le> s_creation u \<and> s_creation u - t \<le> REPEAT_GAP"
    by auto
  from ss p(1) obtain u where "u \<in> set ss" by (fastforce simp: members_ok_def neq_Nil_conv)
  moreover have "s_dataset u = s_dataset s" using p(1) ss \<open>u \<in> set ss\<close> by (auto simp: members_ok_def)
  ultimately have "t \<le> s_creation s"
    using b later set_pt_snaps [OF p(1), of u] ss by fastforce
  with near Some b p(2) ss show ?thesis
    by (auto simp: current_ok_def map_of_add_member map_of_setdefault dict_get_or_def)
qed

definition run_inv :: "string \<Rightarrow> snap list \<Rightarrow> run_state \<Rightarrow> bool" where
  "run_inv fam seen st =
     ((\<forall>p \<in> set (close_current st). point_ok p \<and> run_bounded p \<and> pt_family p = fam)
      \<and> mset (concat (map pt_snaps (close_current st))) = mset seen

      \<and> (\<forall>p. rs_current st = Some p \<longrightarrow> current_ok (rs_first st) p))"


lemma run_step_inv:
  assumes inv: "run_inv fam seen st" and later: "\<forall>u \<in> set seen. s_creation u \<le> s_creation s"
  shows "run_inv fam (seen @ [s]) (run_step sq fam st s)"
proof -
  have fresh: "run_inv fam (seen @ [s]) \<lparr>rs_done = close_current st, rs_current = Some (add_member s (Point fam)),
       rs_first = dict_setdefault (s_dataset s) (s_creation s) [], rs_last = s_creation s\<rparr>"
    using inv fresh_ok [of s fam] current_ok_bounded [OF fresh_ok(4)]
    by (auto simp: run_inv_def close_current_def)
  show ?thesis
  proof (cases "rs_current st")
    case None
    with fresh show ?thesis by (simp add: run_step_def Let_def close_current_def)
  next
    case (Some p)
    let ?rep = "case map_of (rs_first st) (s_dataset s) of None \<Rightarrow> False | Some t \<Rightarrow> s_creation s - t > REPEAT_GAP"
    let ?gap = "\<not> sq \<and> s_creation s - rs_last st > REPEAT_GAP"
    show ?thesis
    proof (cases "?rep \<or> ?gap")
      case True
      with Some fresh show ?thesis by (simp add: run_step_def Let_def close_current_def)
    next
      case False
      from inv Some have p: "point_ok p" "pt_family p = fam" "current_ok (rs_first st) p"
        and m: "mset seen = mset (concat (map pt_snaps (rs_done st))) + mset (pt_snaps p)"
        by (auto simp: run_inv_def close_current_def)
      from m have "set seen = set (concat (map pt_snaps (rs_done st))) \<union> set (pt_snaps p)"
        by (metis set_mset_mset set_mset_union)
      with later have "\<forall>u \<in> set (pt_snaps p). s_creation u \<le> s_creation s" by auto
      from extend_ok [OF _ p(3) this] p(1) False
      have "current_ok (dict_setdefault (s_dataset s) (s_creation s) (rs_first st)) (add_member s p)"
        by (simp add: point_ok_def)
      moreover have "pt_family (add_member s p) = fam" using p(2) by (simp add: add_member_def)
      moreover have "members_ok p" using p(1) by (simp add: point_ok_def)
      moreover have "run_step sq fam st s = \<lparr>rs_done = rs_done st, rs_current = Some (add_member s p),
                   rs_first = dict_setdefault (s_dataset s) (s_creation s) (rs_first st),
                   rs_last = s_creation s\<rparr>" using False Some by (simp add: run_step_def Let_def)
      ultimately show ?thesis
        using inv Some m members_ok_add [of p s] current_ok_bounded
        by (auto simp: run_inv_def close_current_def mset_add_member)
    qed
  qed
qed

lemma family_runs_ok:
  "(\<forall>p \<in> set (family_runs fam ss). point_ok p \<and> run_bounded p \<and> pt_family p = fam)
   \<and> mset (concat (map pt_snaps (family_runs fam ss))) = mset ss"
proof -
  have "run_inv fam seen (foldl (run_step sq fam) run_start seen)"
    if "sorted (map s_creation seen)" for seen sq
    using that
  proof (induction seen rule: rev_induct)
    case Nil
    then show ?case by (simp add: run_inv_def run_start_def close_current_def)
  next
    case (snoc s seen)
    then show ?case by (simp add: sorted_append run_step_inv)
  qed
  moreover have "sorted (map s_creation (sort_key (\<lambda>s. (s_creation s, s_dataset s, s_createtxg s)) ss))"
  proof -
    have "sorted (map fst (map (\<lambda>s. (s_creation s, s_dataset s, s_createtxg s)) xs))"
      if "sorted (map (\<lambda>s. (s_creation s, s_dataset s, s_createtxg s)) xs)" for xs
      using that by (induction xs) (auto simp: less_eq_prod_def)
    from this [OF sorted_sort_key] show ?thesis by (simp add: comp_def)
  qed
  ultimately show ?thesis by (simp add: family_runs_def run_inv_def)
qed

lemma by_name_points_ok:
  assumes "p \<in> set (by_name snaps)"
  shows "point_ok p \<and> (\<exists>n. \<forall>s \<in> set (pt_snaps p). s_name s = n)"
  using assms by_name_ok [of snaps] by (auto simp: by_name_def points_ok_def set_dict_values)

lemma family_points_mset: "mset (concat (map pt_snaps (family_points (fam, ss)))) = mset ss"
  using family_runs_ok [of fam "filter (\<lambda>m. \<not> POINT_RE (s_name m)) ss"]
  by (simp add: family_points_def by_name_mset)


lemma by_name_groups:
  "map_option (\<lambda>p. mset (pt_snaps p)) (map_of (by_name_dict snaps) n) =
     (let ss = filter (\<lambda>s. s_name s = n) snaps in if ss = [] then None else Some (mset ss))"
proof (induction snaps rule: rev_induct)
  case Nil
  then show ?case by (simp add: by_name_dict_def)
next
  case (snoc s snaps)
  have "members_ok (dict_get_or (by_name_dict snaps) (s_name s) (Point (family s)))"
    using by_name_ok [of snaps] by (auto simp: points_ok_def dict_get_or_def point_ok_def split: option.splits)
  with snoc show ?case
    by (cases "map_of (by_name_dict snaps) n")
       (auto simp: by_name_dict_snoc Let_def dict_get_or_def mset_add_member filter_empty_conv split: if_splits)
qed

lemma by_name_dict_Some:
  assumes "map_of (by_name_dict snaps) n = Some p"
  shows "set (pt_snaps p) = {s \<in> set snaps. s_name s = n}"
proof -
  have "mset (pt_snaps p) = mset (filter (\<lambda>s. s_name s = n) snaps)"
    using by_name_groups [of snaps n] assms by (simp add: Let_def split: if_splits)
  from arg_cong [OF this, of set_mset] show ?thesis by simp
qed

lemma by_name_dict_exists: "s \<in> set snaps \<Longrightarrow> \<exists>p. map_of (by_name_dict snaps) (s_name s) = Some p"
  using by_name_groups [of snaps "s_name s"]
  by (cases "map_of (by_name_dict snaps) (s_name s)") (auto simp: Let_def filter_empty_conv split: if_splits)

lemma point_name_of_ok:
  assumes "point_ok p" "\<forall>s \<in> set (pt_snaps p). s_name s = n"
  shows "point_name_of p = Some n"
proof -
  from assms(1) obtain ds ss rest where m: "pt_members p = (ds, ss) # rest"
    by (metis list.exhaust point_ok_def surj_pair)
  moreover have "map_of (pt_members p) ds = Some ss" by (simp add: m)
  ultimately obtain s ss' where "ss = s # ss'"
    using assms(1) unfolding point_ok_def members_ok_def by (meson list.exhaust)
  with m assms(2) show ?thesis by (simp add: point_name_of_def pt_snaps_def dict_values_def)
qed

lemma points_okD:
  assumes "points_ok m" "map_of m n = Some p"
  shows "point_ok p" and "point_name_of p = Some n"
proof -
  show "point_ok p" using assms unfolding points_ok_def by blast
  moreover have "\<forall>s \<in> set (pt_snaps p). s_name s = n" using assms unfolding points_ok_def by blast
  ultimately show "point_name_of p = Some n" by (rule point_name_of_ok)
qed

lemma point_keys: "members_ok p \<Longrightarrow> ds \<in> set (dict_keys (pt_members p)) \<longleftrightarrow> (\<exists>s \<in> set (pt_snaps p). s_dataset s = ds)"
proof
  assume ok: "members_ok p" and "ds \<in> set (dict_keys (pt_members p))"
  then obtain ss where ss: "map_of (pt_members p) ds = Some ss" by auto
  with ok obtain s where "s \<in> set ss" "s_dataset s = ds" by (fastforce simp: members_ok_def neq_Nil_conv)
  with ss ok show "\<exists>s \<in> set (pt_snaps p). s_dataset s = ds" by (auto simp: set_pt_snaps)
qed (auto simp: set_pt_snaps)

lemma set_map_filter: "y \<in> set (List.map_filter f xs) \<longleftrightarrow> (\<exists>x \<in> set xs. f x = Some y)"
  by (induction xs) (auto split: option.splits simp: List.map_filter_simps)

text \<open>The backup points that count as evidence, read off the snapshots.\<close>

definition counted :: "string list option \<Rightarrow> string \<Rightarrow> bool" where
  "counted complete n = (case complete of None \<Rightarrow> True | Some c \<Rightarrow> n \<in> set c)"

lemma backups_until_mem:
  "(t, held) \<in> set (backups_until snaps e complete) \<longleftrightarrow>
     (\<exists>n p. POINT_RE n \<and> counted complete n
        \<and> map_of (by_name_dict (filter (\<lambda>s. POINT_RE (s_name s)) snaps)) n = Some p
        \<and> pt_end p = Some t \<and> t \<le> e \<and> held = dict_keys (pt_members p))"
proof -
  let ?pts = "filter (\<lambda>s. POINT_RE (s_name s)) snaps"
  let ?m = "by_name_dict ?pts"
  have wf: "wf_dict ?m" using by_name_ok [of ?pts] unfolding points_ok_def by (rule conjunct1)
  note ok = wf points_okD [OF by_name_ok [of ?pts]]
  have "POINT_RE n" if "map_of ?m n = Some p" for n p
  proof -
    from pt_end_Some [OF ok(2) [OF that]] obtain s where "s \<in> set (pt_snaps p)" by blast
    then show ?thesis using by_name_dict_Some [OF that] by auto
  qed
  moreover have "(t, held) \<in> set (backups_until snaps e complete) \<longleftrightarrow>
     (\<exists>n p. map_of ?m n = Some p \<and> pt_end p = Some t \<and> t \<le> e \<and> counted complete n
        \<and> held = dict_keys (pt_members p))"
  proof -
    let ?f = "\<lambda>bp. case pt_end bp of None \<Rightarrow> None
         | Some t \<Rightarrow> if t \<le> e \<and> (case complete of None \<Rightarrow> True
                                 | Some c \<Rightarrow> (case point_name_of bp of None \<Rightarrow> False | Some n \<Rightarrow> n \<in> set c))
                    then Some (t, dict_keys (pt_members bp)) else None"
    have "?f p = Some (t, held) \<longleftrightarrow> pt_end p = Some t \<and> t \<le> e \<and> counted complete n \<and> held = dict_keys (pt_members p)"
      if "map_of ?m n = Some p" for n p
      using ok(3) [OF that] by (cases "pt_end p"; cases complete) (auto simp: counted_def)
    moreover have "(t, held) \<in> set (backups_until snaps e complete) \<longleftrightarrow> (\<exists>n p. map_of ?m n = Some p \<and> ?f p = Some (t, held))"
      unfolding backups_until_def by_name_def set_map_filter using set_dict_values [OF wf] by fast
    ultimately show ?thesis by blast
  qed
  ultimately show ?thesis by blast
qed

lemma ended_iff:
  assumes "\<forall>s \<in> set mine. s_dataset s = ds"
  shows "ended mine backups \<longleftrightarrow> mine \<noteq> [] \<and> (\<exists>t held. (t, held) \<in> set backups \<and> ds \<notin> set held
    \<and> (\<forall>s \<in> set mine. s_creation s \<le> t))"
proof (cases mine)
  case (Cons s rest)
  then obtain l where l: "max_by (\<lambda>t. t) (map s_creation mine) = Some l"
    using max_by_exists [of "map s_creation mine" "\<lambda>t. t"] by auto
  from max_by_Some [OF l] have "l \<in> s_creation ` set mine" "\<forall>s \<in> set mine. s_creation s \<le> l" by auto
  then have "l \<le> t \<longleftrightarrow> (\<forall>s \<in> set mine. s_creation s \<le> t)" for t by force
  with Cons l assms show ?thesis by (auto simp: ended_def list_ex_iff)
qed (simp add: ended_def)



section \<open>Properties: restore points\<close>

lemma cluster_point_ok:
  assumes "p \<in> set (cluster snaps)"
  shows "point_ok p \<and> (run_bounded p \<or> (\<exists>n. \<forall>s \<in> set (pt_snaps p). s_name s = n))"
proof -
  from assms obtain fam ss where "p \<in> set (family_points (fam, ss))" by (auto simp: cluster_def)
  then have "p \<in> set (by_name (filter (\<lambda>m. POINT_RE (s_name m)) ss))
      \<or> p \<in> set (family_runs fam (filter (\<lambda>m. \<not> POINT_RE (s_name m)) ss))"
    by (simp add: family_points_def)
  then show ?thesis using by_name_points_ok family_runs_ok by blast
qed

lemma cluster_mset: "mset (concat (map pt_snaps (cluster snaps))) = mset snaps"
proof -
  have "mset (concat (map pt_snaps (concat (map family_points rows)))) = mset (concat (map snd rows))" for rows
    by (induction rows) (use family_points_mset in auto)
  then have "mset (concat (map pt_snaps (cluster snaps))) = mset (concat (map snd (sort_key fst (group_by family snaps))))"
    by (simp add: cluster_def)
  also have "\<dots> = mset (concat (dict_values (group_by family snaps)))"
    unfolding mset_concat_map_sum dict_values_def mset_concat_sum by simp
  finally show ?thesis by (simp add: mset_group_by)
qed


definition ex_sn :: "string \<Rightarrow> string \<Rightarrow> int \<Rightarrow> snap" where
  "ex_sn ds name at = \<lparr>s_dataset = ds, s_name = name, s_guid = name, s_createtxg = at, s_creation = at,
     s_source = '''', s_mark = ''2''\<rparr>"

definition ex_pool :: "snap list" where
  "ex_pool = [ex_sn ''rpool/ROOT/u'' ''autosnap_1_hourly'' 1000, ex_sn ''rpool/var'' ''autosnap_1_hourly'' 1010,
     ex_sn ''rpool/ROOT/u'' ''autosnap_2_hourly'' 2000, ex_sn ''rpool/var'' ''zark_2026-01-01_00:00:00Z'' 3000,
     ex_sn ''rpool/ROOT/u'' ''zark_2026-01-01_00:00:00Z'' 3000, ex_sn ''rpool/old'' ''autosnap_1_hourly'' 1020]"


lemma map_of_fold_set: "map_of (foldl (\<lambda>out k. dict_set k (f k) out) out ks) k = (if k \<in> set ks then Some (f k) else map_of out k)"
  by (induction ks arbitrary: out) (auto simp: fun_upd_def)

lemma map_of_resolve:
  assumes "resolve pt snaps dss complete = Some out"
  obtains e where "pt_end pt = Some e"
    "map_of out = (\<lambda>ds. if ds \<in> set dss then Some (resolve_one pt snaps e (backups_until snaps e complete) ds) else None)"
  using assms by (auto simp: resolve_def map_of_fold_set fun_eq_iff split: option.splits)

lemma newest_snap_Some:
  assumes "newest_snap ss = Some s"
  shows "s \<in> set ss" and "t \<in> set ss \<Longrightarrow> s_creation t \<le> s_creation s"
  using max_by_Some [OF assms [unfolded newest_snap_def]] by (simp, fastforce simp: less_eq_prod_def)

lemma newest_snap_None [simp]: "newest_snap ss = None \<longleftrightarrow> ss = []"
  by (simp add: newest_snap_def)

text \<open>C20: a restore never comes from the future. For a chosen point every dataset asked for gets an
  answer; the snapshot it gets is one of its own, taken at or before the end of the point's run,
  from the run itself whenever the run holds the dataset, and no eligible snapshot is newer.\<close>

theorem resolve_never_future:
  assumes "point_ok pt" and "resolve pt snaps dss complete = Some out" and "map_of out ds = Some (Some s)"
  shows "\<exists>e. pt_end pt = Some e \<and> s_dataset s = ds \<and> s_creation s \<le> e
    \<and> (case map_of (pt_members pt) ds of
         Some own \<Rightarrow> s \<in> set own \<and> (\<forall>t \<in> set own. s_creation t \<le> s_creation s)
       | None \<Rightarrow> s \<in> set snaps
           \<and> (\<forall>t \<in> set snaps. s_dataset t = ds \<and> s_creation t \<le> e \<longrightarrow> s_creation t \<le> s_creation s))"
proof -
  obtain e where e: "pt_end pt = Some e" and m: "map_of out =
    (\<lambda>ds. if ds \<in> set dss then Some (resolve_one pt snaps e (backups_until snaps e complete) ds) else None)"
    by (rule map_of_resolve [OF assms(2)])
  have one: "resolve_one pt snaps e (backups_until snaps e complete) ds = Some s"
    using assms(3) unfolding m by (simp split: if_splits)
  show ?thesis
  proof (cases "map_of (pt_members pt) ds")
    case None
    with one have "newest_snap (filter (\<lambda>s. s_creation s \<le> e) (filter (\<lambda>s. s_dataset s = ds) snaps)) = Some s"
      by (simp add: resolve_one_def Let_def dict_get_or_def split: if_splits)
    from newest_snap_Some [OF this] None e show ?thesis by auto
  next
    case (Some own)
    with assms(1) have own: "own \<noteq> []" "\<forall>t \<in> set own. s_dataset t = ds" by (auto simp: point_ok_def members_ok_def)
    with Some one have "newest_snap own = Some s" by (simp add: resolve_one_def Let_def dict_get_or_def)
    note best = newest_snap_Some [OF this]
    have ok: "members_ok pt" using assms(1) by (simp add: point_ok_def)
    have "s \<in> set (pt_snaps pt)"
      unfolding set_pt_snaps [OF ok] using best(1) own(2) Some by (intro exI [of _ own]) simp
    then have "s_creation s \<le> e" using pt_end_Some [OF assms(1)] e by auto
    then show ?thesis using best own(2) Some e by simp
  qed
qed


theorem resolve_never_future_witness:
  "\<exists>out s e. resolve (hd (cluster ex_pool)) ex_pool [''rpool/old''] None = Some out
     \<and> map_of out ''rpool/old'' = Some (Some s) \<and> pt_end (hd (cluster ex_pool)) = Some e \<and> s_creation s \<le> e"
proof -
  have "point_ok (hd (cluster ex_pool))"
  proof -
    have "cluster ex_pool \<noteq> []" by code_simp
    then show ?thesis using cluster_point_ok hd_in_set by blast
  qed
  moreover obtain out where out: "resolve (hd (cluster ex_pool)) ex_pool [''rpool/old''] None = Some out"
    "map_of out ''rpool/old'' = Some (Some (ex_sn ''rpool/old'' ''autosnap_1_hourly'' 1020))"
  proof -
    have "map_option (\<lambda>out. map_of out ''rpool/old'') (resolve (hd (cluster ex_pool)) ex_pool [''rpool/old''] None)
      = Some (Some (Some (ex_sn ''rpool/old'' ''autosnap_1_hourly'' 1020)))" by code_simp
    then show ?thesis using that by auto
  qed
  ultimately show ?thesis using resolve_never_future [of "hd (cluster ex_pool)"] by blast
qed

lemma point_evidence:
  assumes "POINT_RE n"
  shows "(\<exists>p. map_of (by_name_dict (filter (\<lambda>s. POINT_RE (s_name s)) snaps)) n = Some p \<and> pt_end p = Some t
          \<and> ds \<notin> set (dict_keys (pt_members p)))
        \<longleftrightarrow> (\<exists>b \<in> set snaps. s_name b = n \<and> s_creation b = t)
          \<and> (\<forall>b \<in> set snaps. s_name b = n \<longrightarrow> s_creation b \<le> t \<and> s_dataset b \<noteq> ds)"
    (is "?L \<longleftrightarrow> ?R")
proof -
  let ?pts = "filter (\<lambda>s. POINT_RE (s_name s)) snaps"
  have mem: "(\<exists>b \<in> set (pt_snaps p). Q b) \<longleftrightarrow> (\<exists>b \<in> set snaps. s_name b = n \<and> Q b)"
    if "map_of (by_name_dict ?pts) n = Some p" for p Q
    using by_name_dict_Some [OF that] assms by auto
  have e: "pt_end p = Some t \<longleftrightarrow> (\<exists>b \<in> set snaps. s_name b = n \<and> s_creation b = t)
        \<and> (\<forall>b \<in> set snaps. s_name b = n \<longrightarrow> s_creation b \<le> t)"
    if p: "map_of (by_name_dict ?pts) n = Some p" for p
  proof -
    from pt_end_Some [OF points_okD(1) [OF by_name_ok p]] obtain t' where "pt_end p = Some t'"
      "\<exists>b \<in> set (pt_snaps p). s_creation b = t'" "\<not> (\<exists>b \<in> set (pt_snaps p). \<not> s_creation b \<le> t')" by blast
    then show ?thesis unfolding mem [OF p] by (auto intro: antisym)
  qed
  have k: "ds \<in> set (dict_keys (pt_members p)) \<longleftrightarrow> (\<exists>b \<in> set snaps. s_name b = n \<and> s_dataset b = ds)"
    if p: "map_of (by_name_dict ?pts) n = Some p" for p
    using points_okD(1) [OF by_name_ok p] point_keys [of p ds] mem [OF p] by (simp add: point_ok_def)
  show ?thesis
  proof
    assume ?L
    then show ?R using e k by blast
  next
    assume R: ?R
    then obtain b where "b \<in> set ?pts" "s_name b = n" using assms by auto
    with by_name_dict_exists [of b ?pts] obtain p where "map_of (by_name_dict ?pts) n = Some p" by auto
    with R e k show ?L by blast
  qed
qed

lemma backup_evidence:
  "(\<exists>t held. (t, held) \<in> set (backups_until snaps e complete) \<and> ds \<notin> set held \<and> P t) \<longleftrightarrow>
     (\<exists>n t. POINT_RE n \<and> counted complete n \<and> t \<le> e \<and> (\<exists>b \<in> set snaps. s_name b = n \<and> s_creation b = t)
        \<and> (\<forall>b \<in> set snaps. s_name b = n \<longrightarrow> s_creation b \<le> t \<and> s_dataset b \<noteq> ds) \<and> P t)"
proof -
  have "(\<exists>t held. (t, held) \<in> set (backups_until snaps e complete) \<and> ds \<notin> set held \<and> P t) \<longleftrightarrow>
     (\<exists>n t. POINT_RE n \<and> counted complete n \<and> t \<le> e
        \<and> (\<exists>p. map_of (by_name_dict (filter (\<lambda>s. POINT_RE (s_name s)) snaps)) n = Some p \<and> pt_end p = Some t
             \<and> ds \<notin> set (dict_keys (pt_members p))) \<and> P t)"
    unfolding backups_until_mem by (auto simp del: set_dict_keys)
  then show ?thesis by (simp add: point_evidence del: set_dict_keys cong: conj_cong)
qed

text \<open>A dataset destroyed in origin is not brought back, and only such a one is left out. A
  dataset the point's run does not hold gets nothing exactly when it has no snapshot at or before
  the end of the run, or some counted backup point at or before it lacks the dataset while nothing
  of the dataset is later than that backup point.\<close>

lemma resolve_left_out_iff:
  assumes "resolve pt snaps dss complete = Some out" and "pt_end pt = Some e"
    and "ds \<in> set dss" and "map_of (pt_members pt) ds = None"
  shows "map_of out ds = Some None \<longleftrightarrow>
     (\<forall>s \<in> set snaps. s_dataset s = ds \<longrightarrow> e < s_creation s)
     \<or> (\<exists>n t. POINT_RE n \<and> counted complete n \<and> t \<le> e
          \<and> (\<exists>b \<in> set snaps. s_name b = n \<and> s_creation b = t)
          \<and> (\<forall>b \<in> set snaps. s_name b = n \<longrightarrow> s_creation b \<le> t \<and> s_dataset b \<noteq> ds)
          \<and> (\<forall>s \<in> set snaps. s_dataset s = ds \<longrightarrow> s_creation s \<le> t))"
    (is "_ \<longleftrightarrow> _ \<or> ?E")
proof -
  let ?mine = "filter (\<lambda>s. s_dataset s = ds) snaps"
  obtain e' where e': "pt_end pt = Some e'" and m: "map_of out =
    (\<lambda>ds. if ds \<in> set dss then Some (resolve_one pt snaps e' (backups_until snaps e' complete) ds) else None)"
    by (rule map_of_resolve [OF assms(1)])
  have "map_of out ds = Some None \<longleftrightarrow> ended ?mine (backups_until snaps e complete)
      \<or> filter (\<lambda>s. s_creation s \<le> e) ?mine = []"
    using assms(2-4) e' by (simp add: m resolve_one_def Let_def dict_get_or_def)
  also have "ended ?mine (backups_until snaps e complete) \<longleftrightarrow> ?mine \<noteq> [] \<and>
      (\<exists>t held. (t, held) \<in> set (backups_until snaps e complete) \<and> ds \<notin> set held
        \<and> (\<forall>s \<in> set ?mine. s_creation s \<le> t))"
    by (rule ended_iff) simp
  finally have iff0: "map_of out ds = Some None \<longleftrightarrow> ?mine \<noteq> [] \<and>
      (\<exists>t held. (t, held) \<in> set (backups_until snaps e complete) \<and> ds \<notin> set held
        \<and> (\<forall>s \<in> set ?mine. s_creation s \<le> t)) \<or> filter (\<lambda>s. s_creation s \<le> e) ?mine = []" .
  have "(\<forall>s \<in> set ?mine. s_creation s \<le> t) \<longleftrightarrow> (\<forall>s \<in> set snaps. s_dataset s = ds \<longrightarrow> s_creation s \<le> t)" for t
    by auto
  then have iff: "map_of out ds = Some None \<longleftrightarrow> ?mine \<noteq> [] \<and> ?E \<or> filter (\<lambda>s. s_creation s \<le> e) ?mine = []"
    unfolding iff0 backup_evidence by (simp only:)
  have "filter (\<lambda>s. s_creation s \<le> e) ?mine = [] \<longleftrightarrow> (\<forall>s \<in> set snaps. s_dataset s = ds \<longrightarrow> e < s_creation s)"
    by (auto simp: filter_empty_conv)
  moreover have "?mine = [] \<Longrightarrow> filter (\<lambda>s. s_creation s \<le> e) ?mine = []" by simp
  ultimately show ?thesis using iff by blast
qed

definition ex_last :: point where
  "ex_last = (Point ''autosnap_'')\<lparr>pt_members := [(''rpool/var'', [ex_sn ''rpool/var'' ''autosnap_9_hourly'' 4000])]\<rparr>"

section \<open>Properties: complete points\<close>

lemma remdups_single: "remdups xs = [x] \<longleftrightarrow> xs \<noteq> [] \<and> set xs = {x}"
proof
  assume "remdups xs = [x]"
  then have "set (remdups xs) = {x}" by (simp del: set_remdups)
  then show "xs \<noteq> [] \<and> set xs = {x}" by auto
next
  assume "xs \<noteq> [] \<and> set xs = {x}"
  then have s: "set (remdups xs) = {x}" by simp
  with distinct_card [OF distinct_remdups, of xs] have "length (remdups xs) = Suc 0" by simp
  then obtain y where "remdups xs = [y]" by (auto simp: length_Suc_conv)
  with s show "remdups xs = [x]" by (simp del: set_remdups)
qed

lemma is_complete_iff:
  "is_complete members \<longleftrightarrow> members \<noteq> [] \<and> (\<exists>mark. (\<forall>s \<in> set members. s_mark s = mark)
     \<and> (mark = LEGACY_MARK \<or> isdigit mark \<and> dec_val mark = card (s_dataset ` set members)))"
proof (cases "\<exists>mark. remdups (map s_mark members) = [mark]")
  case True
  then obtain mark where m: "remdups (map s_mark members) = [mark]" by blast
  then have all: "members \<noteq> []" "s_mark ` set members = {mark}" by (auto simp: remdups_single)
  then have "(\<forall>s \<in> set members. s_mark s = k) \<longleftrightarrow> k = mark" for k by (auto simp: image_iff set_eq_iff)
  with all(1) m show ?thesis by (simp add: is_complete_def)
next
  case False
  then have "\<not> is_complete members" by (auto simp: is_complete_def split: list.splits)
  moreover have "\<not> (members \<noteq> [] \<and> (\<forall>s \<in> set members. s_mark s = mark))" for mark
  proof
    assume all: "members \<noteq> [] \<and> (\<forall>s \<in> set members. s_mark s = mark)"
    then have "set (map s_mark members) = {mark}" by (cases members) auto
    with all have "remdups (map s_mark members) = [mark]" by (simp add: remdups_single)
    with False show False by blast
  qed
  ultimately show ?thesis by blast
qed


text \<open>A destroy keeps what it left complete. When a complete backup point loses part of its
  datasets to the destroy of some trees and the rest of its snapshots are marked with the lowered
  count, the point is complete again; the targets listed are exactly the snapshots left.\<close>

lemma point_losses_keep_complete:
  assumes "(name, pl) \<in> set (point_losses pool snaps tops)"
    and "is_complete (filter (\<lambda>s. s_name s = name) snaps)"
  shows "is_complete (map (\<lambda>s. s\<lparr>s_mark := py_str (pl_count pl)\<rparr>)
           (filter (\<lambda>s. s_name s = name \<and> \<not> snap_gone tops s) snaps))
    \<and> pl_targets pl = map (\<lambda>s. pool @ ''/'' @ stored s @ ''@'' @ name)
           (filter (\<lambda>s. s_name s = name \<and> \<not> snap_gone tops s) snaps)"
proof -
  let ?members = "filter (\<lambda>s. s_name s = name) snaps"
  let ?left = "filter (\<lambda>s. \<not> snap_gone tops s) ?members"
  let ?lost = "filter (\<lambda>ds. ds \<notin> set (map s_dataset ?left)) (remdups (map s_dataset ?members))"
  from assms(1) have "point_loss_of pool snaps tops name = Some pl"
    by (auto simp: point_losses_def set_map_filter)
  then obtain s where s: "find (\<lambda>s. isdigit (s_mark s)) ?members = Some s" and
    pl: "?left \<noteq> []" "0 < int (dec_val (s_mark s)) - int (length ?lost)"
      "pl = \<lparr>pl_targets = map (\<lambda>s. pool @ ''/'' @ stored s @ ''@'' @ name) ?left, pl_lost = ?lost,
         pl_count = int (dec_val (s_mark s)) - int (length ?lost)\<rparr>"
    unfolding point_loss_of_def Let_def by (auto split: option.splits if_splits)
  from find_SomeD [OF s] have sm: "s \<in> set ?members" "isdigit (s_mark s)" by auto
  have "s_mark s \<noteq> LEGACY_MARK" using sm(2) by (auto simp: LEGACY_MARK_def isdigit_def is_digit_def)
  moreover from assms(2) obtain mark where "\<forall>s \<in> set ?members. s_mark s = mark"
    "mark = LEGACY_MARK \<or> isdigit mark \<and> dec_val mark = card (s_dataset ` set ?members)"
    unfolding is_complete_iff by blast
  moreover from this(1) have "s_mark s = mark" using sm(1) by (rule bspec)
  ultimately have total: "dec_val (s_mark s) = card (s_dataset ` set ?members)" by (simp only: simp_thms)
  have "length ?lost = card (set ?lost)" by (simp only: distinct_card distinct_filter distinct_remdups)
  moreover have "set ?lost = s_dataset ` set ?members - s_dataset ` set ?left" by auto
  moreover have "s_dataset ` set ?left \<subseteq> s_dataset ` set ?members" by auto
  ultimately have left: "length ?lost = card (s_dataset ` set ?members) - card (s_dataset ` set ?left)"
    by (simp only: card_Diff_subset finite_imageI finite_set)
  have "card (s_dataset ` set ?left) \<le> card (s_dataset ` set ?members)" by (intro card_mono) auto
  with left total pl(3) have count: "pl_count pl = int (card (s_dataset ` set ?left))" by simp
  let ?n = "card (s_dataset ` set ?left)"
  have "is_complete (map (\<lambda>s. s\<lparr>s_mark := dec_of_nat ?n\<rparr>) ?left)"
    unfolding is_complete_iff using pl(1)
    by (intro conjI exI [of _ "dec_of_nat ?n"] disjI2) (auto simp: image_image)
  moreover have "py_str (pl_count pl) = dec_of_nat ?n" using count by (simp add: py_str_def)
  moreover have "?left = filter (\<lambda>s. s_name s = name \<and> \<not> snap_gone tops s) snaps" by (simp add: conj_commute)
  ultimately show ?thesis using pl(3) by simp
qed


text \<open>A point of two datasets; the destroy of \<open>rpool/var\<close> leaves one.\<close>

definition ex_two :: "snap list" where
  "ex_two = [ex_sn ''rpool/ROOT/u'' ''zark_2026-01-01_00:00:00Z'' 3000, ex_sn ''rpool/var'' ''zark_2026-01-01_00:00:00Z'' 3000]"

text \<open>What a dataset that skipped a point looks like.\<close>

lemma bex_group_by:
  "(\<exists>x \<in> set (group_by key xs). P x) \<longleftrightarrow> (\<exists>a \<in> set xs. P (key a, filter (\<lambda>x. key x = key a) xs))"
proof
  assume "\<exists>x \<in> set (group_by key xs). P x"
  then obtain k ys where "(k, ys) \<in> set (group_by key xs)" "P (k, ys)" by auto
  moreover from this(1) obtain a where "a \<in> set xs" "key a = k" "ys = filter (\<lambda>x. key x = k) xs"
    by (auto simp: group_by_member filter_empty_conv)
  ultimately show "\<exists>a \<in> set xs. P (key a, filter (\<lambda>x. key x = key a) xs)" by blast
next
  assume "\<exists>a \<in> set xs. P (key a, filter (\<lambda>x. key x = key a) xs)"
  then obtain a where "a \<in> set xs" "P (key a, filter (\<lambda>x. key x = key a) xs)" by blast
  moreover from this(1) have "(key a, filter (\<lambda>x. key x = key a) xs) \<in> set (group_by key xs)"
    unfolding group_by_member filter_empty_conv by blast
  ultimately show "\<exists>x \<in> set (group_by key xs). P x" by blast
qed

lemma same_group:
  "(\<exists>c \<in> S. Q (d c) \<and> (\<exists>a \<in> S. d a = d c \<and> A a) \<and> (\<exists>b \<in> S. d b = d c \<and> B b)) \<longleftrightarrow>
     (\<exists>a b. a \<in> S \<and> b \<in> S \<and> d a = d b \<and> A a \<and> B b \<and> Q (d a))"
proof
  assume "\<exists>c \<in> S. Q (d c) \<and> (\<exists>a \<in> S. d a = d c \<and> A a) \<and> (\<exists>b \<in> S. d b = d c \<and> B b)"
  then obtain c a b where "Q (d c)" "a \<in> S" "d a = d c" "A a" "b \<in> S" "d b = d c" "B b" by blast
  then have "a \<in> S \<and> b \<in> S \<and> d a = d b \<and> A a \<and> B b \<and> Q (d a)" by simp
  then show "\<exists>a b. a \<in> S \<and> b \<in> S \<and> d a = d b \<and> A a \<and> B b \<and> Q (d a)" by blast
next
  assume "\<exists>a b. a \<in> S \<and> b \<in> S \<and> d a = d b \<and> A a \<and> B b \<and> Q (d a)"
  then obtain a b where "a \<in> S" "b \<in> S" "d b = d a" "A a" "B b" "Q (d a)" by auto
  then show "\<exists>c \<in> S. Q (d c) \<and> (\<exists>a \<in> S. d a = d c \<and> A a) \<and> (\<exists>b \<in> S. d b = d c \<and> B b)" by blast
qed

lemma skipped_points_iff:
  "n \<in> set (skipped_points snaps) \<longleftrightarrow> POINT_RE n \<and>
     (\<exists>m a b. m \<in> set snaps \<and> s_name m = n \<and> (\<forall>m' \<in> set snaps. s_name m' = n \<longrightarrow> s_creation m' \<le> s_creation m)
        \<and> a \<in> set snaps \<and> b \<in> set snaps \<and> s_dataset a = s_dataset b
        \<and> s_creation a < s_creation m \<and> s_creation m < s_creation b
        \<and> (\<forall>m' \<in> set snaps. s_name m' = n \<longrightarrow> s_dataset m' \<noteq> s_dataset a))"
    (is "_ \<longleftrightarrow> _ \<and> ?R")
proof (cases "POINT_RE n \<and> (\<exists>m \<in> set snaps. s_name m = n)")
  case False
  then show ?thesis by (auto simp: skipped_points_def group_by_member filter_empty_conv)
next
  case True
  let ?ms = "filter (\<lambda>s. s_name s = n) snaps"
  from True have ne: "map s_creation ?ms \<noteq> []" by (auto simp: filter_empty_conv)
  then obtain t where t: "max_by (\<lambda>t. t) (map s_creation ?ms) = Some t"
    using max_by_exists [of "map s_creation ?ms" "\<lambda>t. t"] by blast
  have "filter (\<lambda>x. s_name x = n) (filter (\<lambda>s. POINT_RE (s_name s)) snaps) = ?ms"
    using True by (auto intro: filter_cong)
  then have "n \<in> set (skipped_points snaps) \<longleftrightarrow> skips snaps n ?ms"
    using ne by (auto simp: skipped_points_def group_by_member image_iff)
  also have "\<dots> \<longleftrightarrow> (\<exists>a \<in> set snaps. s_dataset a \<notin> s_dataset ` set ?ms
      \<and> Min (s_creation ` {s \<in> set snaps. s_dataset s = s_dataset a}) < t
      \<and> t < Max (s_creation ` {s \<in> set snaps. s_dataset s = s_dataset a}))"
    by (simp add: skips_def t list_ex_iff bex_group_by)
  also have "\<dots> \<longleftrightarrow> (\<exists>a b. a \<in> set snaps \<and> b \<in> set snaps \<and> s_dataset a = s_dataset b
      \<and> s_creation a < t \<and> t < s_creation b \<and> (\<forall>m' \<in> set snaps. s_name m' = n \<longrightarrow> s_dataset m' \<noteq> s_dataset a))"
  proof -
    have mm: "Min (s_creation ` {s \<in> set snaps. s_dataset s = ds}) < t \<longleftrightarrow> (\<exists>a \<in> set snaps. s_dataset a = ds \<and> s_creation a < t)"
      "t < Max (s_creation ` {s \<in> set snaps. s_dataset s = ds}) \<longleftrightarrow> (\<exists>b \<in> set snaps. s_dataset b = ds \<and> t < s_creation b)"
      if "\<exists>a \<in> set snaps. s_dataset a = ds" for ds
    proof -
      let ?S = "s_creation ` {s \<in> set snaps. s_dataset s = ds}"
      have S: "finite ?S" "?S \<noteq> {}" using that by auto
      show "Min ?S < t \<longleftrightarrow> (\<exists>a \<in> set snaps. s_dataset a = ds \<and> s_creation a < t)"
        unfolding Min_less_iff [OF S] by auto
      show "t < Max ?S \<longleftrightarrow> (\<exists>b \<in> set snaps. s_dataset b = ds \<and> t < s_creation b)"
        unfolding Max_gr_iff [OF S] by auto
    qed
    have "(\<exists>a \<in> set snaps. s_dataset a \<notin> s_dataset ` set ?ms
      \<and> Min (s_creation ` {s \<in> set snaps. s_dataset s = s_dataset a}) < t
      \<and> t < Max (s_creation ` {s \<in> set snaps. s_dataset s = s_dataset a}))
      \<longleftrightarrow> (\<exists>c \<in> set snaps. s_dataset c \<notin> s_dataset ` set ?ms
        \<and> (\<exists>a \<in> set snaps. s_dataset a = s_dataset c \<and> s_creation a < t)
        \<and> (\<exists>b \<in> set snaps. s_dataset b = s_dataset c \<and> t < s_creation b))"
    proof (intro bex_cong refl)
      fix a assume "a \<in> set snaps"
      then have "\<exists>a' \<in> set snaps. s_dataset a' = s_dataset a" by blast
      from mm [OF this] show "(s_dataset a \<notin> s_dataset ` set ?ms
        \<and> Min (s_creation ` {s \<in> set snaps. s_dataset s = s_dataset a}) < t
        \<and> t < Max (s_creation ` {s \<in> set snaps. s_dataset s = s_dataset a}))
        \<longleftrightarrow> (s_dataset a \<notin> s_dataset ` set ?ms
          \<and> (\<exists>a' \<in> set snaps. s_dataset a' = s_dataset a \<and> s_creation a' < t)
          \<and> (\<exists>b \<in> set snaps. s_dataset b = s_dataset a \<and> t < s_creation b))" by (simp only:)
    qed
    also have "\<dots> \<longleftrightarrow> (\<exists>a b. a \<in> set snaps \<and> b \<in> set snaps \<and> s_dataset a = s_dataset b
      \<and> s_creation a < t \<and> t < s_creation b \<and> s_dataset a \<notin> s_dataset ` set ?ms)" by (rule same_group)
    also have "\<dots> \<longleftrightarrow> (\<exists>a b. a \<in> set snaps \<and> b \<in> set snaps \<and> s_dataset a = s_dataset b
      \<and> s_creation a < t \<and> t < s_creation b \<and> (\<forall>m' \<in> set snaps. s_name m' = n \<longrightarrow> s_dataset m' \<noteq> s_dataset a))"
    proof -
      have nm: "s_dataset a \<notin> s_dataset ` set ?ms \<longleftrightarrow> (\<forall>m' \<in> set snaps. s_name m' = n \<longrightarrow> s_dataset m' \<noteq> s_dataset a)" for a
        by (simp add: image_iff) metis
      show ?thesis by (intro iff_exI conj_cong refl nm)
    qed
    finally show ?thesis .
  qed
  also have "\<dots> \<longleftrightarrow> ?R"
  proof -
    from max_by_Some [OF t] obtain m0 where m0: "m0 \<in> set snaps" "s_name m0 = n" "s_creation m0 = t"
      and mx: "\<forall>m \<in> set snaps. s_name m = n \<longrightarrow> s_creation m \<le> t" by auto
    define top_of where "top_of m = (m \<in> set snaps \<and> s_name m = n
      \<and> (\<forall>m' \<in> set snaps. s_name m' = n \<longrightarrow> s_creation m' \<le> s_creation m))" for m
    define W where "W t = (\<exists>a b. a \<in> set snaps \<and> b \<in> set snaps \<and> s_dataset a = s_dataset b
      \<and> s_creation a < t \<and> t < s_creation b \<and> (\<forall>m' \<in> set snaps. s_name m' = n \<longrightarrow> s_dataset m' \<noteq> s_dataset a))" for t
    have "top_of m0" using m0 mx by (simp add: top_of_def)
    moreover have "s_creation m = t" if "top_of m" for m
    proof (rule antisym)
      show "s_creation m \<le> t" using that mx unfolding top_of_def by blast
      show "t \<le> s_creation m" using that m0 unfolding top_of_def by blast
    qed
    ultimately have "W t \<longleftrightarrow> (\<exists>m. top_of m \<and> W (s_creation m))" using m0(3) by metis
    then show ?thesis unfolding W_def top_of_def by (simp only: ex_simps conj_assoc)
  qed
  finally show ?thesis using True by blast
qed


text \<open>Completeness of a drive written before completion was recorded on it. A backup point
  counts exactly when it is on the drive, is not newer than the last point a complete run recorded,
  and no dataset continues across it without it (a snapshot before the point and one after it, none
  of the point).\<close>

lemma legacy_complete_iff:
  "n \<in> set (legacy_complete snaps last_point) \<longleftrightarrow>
     last_point \<noteq> '''' \<and> POINT_RE n \<and> n \<le> last_point \<and> (\<exists>m \<in> set snaps. s_name m = n)
     \<and> \<not> (\<exists>m a b. m \<in> set snaps \<and> s_name m = n \<and> (\<forall>m' \<in> set snaps. s_name m' = n \<longrightarrow> s_creation m' \<le> s_creation m)
        \<and> a \<in> set snaps \<and> b \<in> set snaps \<and> s_dataset a = s_dataset b
        \<and> s_creation a < s_creation m \<and> s_creation m < s_creation b
        \<and> (\<forall>m' \<in> set snaps. s_name m' = n \<longrightarrow> s_dataset m' \<noteq> s_dataset a))"
proof -
  have "n \<in> set (legacy_complete snaps last_point) \<longleftrightarrow> last_point \<noteq> '''' \<and> POINT_RE n \<and> n \<le> last_point
      \<and> (\<exists>m \<in> set snaps. s_name m = n) \<and> n \<notin> set (skipped_points snaps)"
    by (auto simp: legacy_complete_def image_iff)
  then show ?thesis unfolding skipped_points_iff by blast
qed

lemma point_marks_mem:
  "(n, ms) \<in> set (point_marks snaps) \<longleftrightarrow>
     ms = filter (\<lambda>s. s_name s = n) snaps \<and> POINT_RE n \<and> (\<exists>s \<in> set snaps. s_name s = n \<and> s_mark s \<noteq> '''')"
proof -
  let ?marked = "map s_name (filter (\<lambda>s. s_mark s \<noteq> '''' \<and> POINT_RE (s_name s)) snaps)"
  have "filter (\<lambda>s. s_name s = n) (filter (\<lambda>s. s_name s \<in> set ?marked) snaps)
      = (if n \<in> set ?marked then filter (\<lambda>s. s_name s = n) snaps else [])"
    by (cases "n \<in> set ?marked") (auto simp del: set_map simp: filter_empty_conv intro!: filter_cong)
  then show ?thesis
    unfolding point_marks_def Let_def group_by_member by (auto simp: filter_empty_conv split: if_splits)
qed

text \<open>What recover trusts is within what retention keeps. Every complete point is run-complete,
  the whole points are among the run-complete ones, and on a drive that records completion a point
  stays run-complete for as long as one of its marked snapshots is left, whatever else of the drive
  is removed.\<close>

lemma complete_points_sound:
  "set (complete_points snaps last_point) \<subseteq> set (run_complete_points snaps last_point)
   \<and> set (cs_whole (retention_points snaps last_point)) \<subseteq> set (cs_run (retention_points snaps last_point))
   \<and> (\<forall>s \<in> set snaps. POINT_RE (s_name s) \<and> s_mark s \<noteq> '''' \<longrightarrow>
        s_name s \<in> set (run_complete_points snaps last_point))"
proof -
  have "s_name s \<in> fst ` set (point_marks snaps)" if "s \<in> set snaps" "POINT_RE (s_name s)" "s_mark s \<noteq> ''''" for s
    using that point_marks_mem [of "s_name s" "filter (\<lambda>t. s_name t = s_name s) snaps" snaps] by force
  then have "s_name s \<in> set (run_complete_points snaps last_point)"
    if "s \<in> set snaps" "POINT_RE (s_name s)" "s_mark s \<noteq> ''''" for s
    using that by (force simp: run_complete_points_def Let_def dict_keys_def simp del: set_dict_keys)
  moreover have "set (complete_points snaps last_point) \<subseteq> set (run_complete_points snaps last_point)"
    by (auto simp: complete_points_def run_complete_points_def Let_def dict_keys_def simp del: set_dict_keys)
  ultimately show ?thesis by (auto simp: retention_points_def Let_def)
qed

end
