(* ===== verification/Shell.thy ===== *)
theory Shell
  imports Py_Text "HOL-Library.State_Monad"
begin

text \<open>
  \<open>lib/sh.py\<close>: how every command of the program reaches the system. What a command does (ZFS, the
  kernel, systemd) is a parameter \<open>exec\<close>: it maps the command and the world before it to the result
  and the world after it. The machine also keeps the commands issued so far, oldest first, so that
  a component can state what it may run and in which order; each component extends the machine
  with its own state. Log lines are output and are not modelled.
\<close>

named_theorems issues_rules "which commands an action may issue"

named_theorems keeps_rules "what an action keeps of the state"

section \<open>Commands and results\<close>

text \<open>A command is one line for the shell or, given as a list, its words.\<close>

datatype cmd = Line string | Argv "string list"

record run_result =
  rr_returncode :: int
  rr_stdout :: string
  rr_stderr :: string

definition ok :: "run_result \<Rightarrow> bool" where
  "ok r = (rr_returncode r = 0)"

definition rr_output :: "run_result \<Rightarrow> string" where
  "rr_output r = strip (rr_stdout r)"

text \<open>\<open>splitlines\<close> breaks at these; a \<open>\r\n\<close> leaves an empty line, which \<open>lines\<close> drops.\<close>

definition is_linebreak :: "char \<Rightarrow> bool" where
  "is_linebreak c = (c \<in> {CHR 0x0A, CHR 0x0D, CHR 0x0B, CHR 0x0C, CHR 0x1C, CHR 0x1D, CHR 0x1E})"

fun split_lines :: "string \<Rightarrow> string list" where
  "split_lines [] = [[]]"
| "split_lines (x # xs) =
     (if is_linebreak x then [] # split_lines xs
      else (case split_lines xs of [] \<Rightarrow> [[x]] | w # ws \<Rightarrow> (x # w) # ws))"

definition result_lines :: "run_result \<Rightarrow> string list" where
  "result_lines r = filter (\<lambda>l. strip l \<noteq> '''') (split_lines (rr_output r))"

text \<open>\<open>shlex.quote\<close>.\<close>

definition is_safe_char :: "char \<Rightarrow> bool" where
  "is_safe_char c = (c \<in> set ''ABCDEFGHIJKLMNOPQRSTUVWXYZabcdefghijklmnopqrstuvwxyz0123456789_@%+=:,./-'')"

definition quote :: "string \<Rightarrow> string" where
  "quote s =
     (if s = '''' then [CHR 0x27, CHR 0x27]
      else if list_all is_safe_char s then s
      else CHR 0x27 # concat (map (\<lambda>c. if c = CHR 0x27 then [CHR 0x27, CHR 0x22, CHR 0x27, CHR 0x22, CHR 0x27] else [c]) s)
             @ [CHR 0x27])"

definition lower :: "string \<Rightarrow> string" where
  "lower s = map (\<lambda>c. let n = of_char c :: nat in if 65 \<le> n \<and> n \<le> 90 then char_of (n + 32) else c) s"

definition ENOSPC_MARKERS :: "string list" where
  "ENOSPC_MARKERS = [''no space left on device'', ''out of space'', ''enospc'', ''disk quota exceeded'']"

definition is_enospc :: "string \<Rightarrow> bool" where
  "is_enospc text = (text \<noteq> '''' \<and> list_ex (\<lambda>m. contains (lower text) m) ENOSPC_MARKERS)"

text \<open>\<open>part\<close>; an empty disk path is an \<open>IndexError\<close>.\<close>

definition part_path :: "string \<Rightarrow> int \<Rightarrow> py_error + string" where
  "part_path disk num =
     (if disk = '''' then Inl IndexError
      else Inr (if is_digit (last disk) then disk @ ''p'' @ py_str num else disk @ py_str num))"


section \<open>The machine\<close>

record 'w machine =
  m_world :: 'w
  m_issued :: "cmd list"

type_synonym 'w shell = "cmd \<Rightarrow> 'w \<Rightarrow> run_result \<times> 'w"

type_synonym ('m, 'a) action = "('m, 'a) State_Monad.state"

definition run :: "'w shell \<Rightarrow> cmd \<Rightarrow> (('w, 'z) machine_scheme, run_result) action" where
  "run exec c = State (\<lambda>m. case exec c (m_world m) of
     (r, w) \<Rightarrow> (r, m\<lparr>m_world := w, m_issued := m_issued m @ [c]\<rparr>))"

definition is_live_usb :: "'w shell \<Rightarrow> (('w, 'z) machine_scheme, bool) action" where
  "is_live_usb exec = do {
     r \<leftarrow> run exec (Line ''cat /proc/cmdline'');
     if ok r \<and> list_ex (\<lambda>k. contains (rr_output r) k) [''boot=casper'', ''boot=live'', ''live-media'']
     then State_Monad.return True
     else do {
       rofs \<leftarrow> run exec (Line ''test -d /rofs'');
       if ok rofs then State_Monad.return True
       else do { cow \<leftarrow> run exec (Line ''test -d /cow''); State_Monad.return (ok cow) }
     }
   }"


section \<open>Which commands an action issues\<close>

text \<open>The action issues only commands that are allowed, and changes nothing of the machine but the
  world and the list of issued commands.\<close>

definition issues :: "(cmd \<Rightarrow> bool) \<Rightarrow> (('w, 'z) machine_scheme, 'a) action \<Rightarrow> bool" where
  "issues allowed act = (\<forall>m. \<exists>w cs. list_all allowed cs
     \<and> snd (run_state act m) = m\<lparr>m_world := w, m_issued := m_issued m @ cs\<rparr>)"

lemma issues_return [issues_rules]: "issues P (State_Monad.return x)"
  unfolding issues_def
proof
  fix m :: "('a, 'b) machine_scheme"
  show "\<exists>w cs. list_all P cs \<and> snd (run_state (State_Monad.return x) m) = m\<lparr>m_world := w, m_issued := m_issued m @ cs\<rparr>"
    by (intro exI [of _ "m_world m"] exI [of _ "[]"]) simp
qed

lemma issues_run [issues_rules]: "P c \<Longrightarrow> issues P (run exec c)"
  by (auto simp: issues_def run_def split: prod.splits intro!: exI [of _ "[c]"])

lemma issues_bind [issues_rules]:
  assumes "issues P c" and "\<And>x. issues P (f x)"
  shows "issues P (State_Monad.bind c f)"
  unfolding issues_def
proof
  fix m
  obtain x m' where x: "run_state c m = (x, m')" by fastforce
  obtain w cs where cs: "list_all P cs" "m' = m\<lparr>m_world := w, m_issued := m_issued m @ cs\<rparr>"
    using assms(1) x unfolding issues_def by (metis snd_conv)
  obtain w' cs' where "list_all P cs'"
    "snd (run_state (f x) m') = m'\<lparr>m_world := w', m_issued := m_issued m' @ cs'\<rparr>"
    using assms(2) unfolding issues_def by blast
  with cs x show "\<exists>w ds. list_all P ds
      \<and> snd (run_state (State_Monad.bind c f) m) = m\<lparr>m_world := w, m_issued := m_issued m @ ds\<rparr>"
    by (intro exI [of _ w'] exI [of _ "cs @ cs'"]) simp
qed

lemma issues_if [issues_rules]: "(b \<Longrightarrow> issues P c) \<Longrightarrow> (\<not> b \<Longrightarrow> issues P d) \<Longrightarrow> issues P (if b then c else d)"
  by simp

lemma issues_case_option [issues_rules]:
  "issues P f \<Longrightarrow> (\<And>a. issues P (g a)) \<Longrightarrow> issues P (case x of None \<Rightarrow> f | Some a \<Rightarrow> g a)"
  by (cases x) simp_all

lemma issues_case_sum [issues_rules]:
  "(\<And>e. issues P (f e)) \<Longrightarrow> (\<And>a. issues P (g a)) \<Longrightarrow> issues P (case x of Inl e \<Rightarrow> f e | Inr a \<Rightarrow> g a)"
  by (cases x) simp_all

lemma issues_case_prod [issues_rules]: "(\<And>a b. issues P (f a b)) \<Longrightarrow> issues P (case x of (a, b) \<Rightarrow> f a b)"
  by (cases x) simp_all

lemma issues_Let [issues_rules]: "issues P (f x) \<Longrightarrow> issues P (let y = x in f y)"
  by simp

lemma issues_get [issues_rules]: "issues P State_Monad.get"
  unfolding issues_def
proof
  fix m :: "('a, 'b) machine_scheme"
  show "\<exists>w cs. list_all P cs \<and> snd (run_state State_Monad.get m) = m\<lparr>m_world := w, m_issued := m_issued m @ cs\<rparr>"
    by (intro exI [of _ "m_world m"] exI [of _ "[]"]) (simp add: State_Monad.get_def)
qed

lemma issues_mono: "issues P c \<Longrightarrow> (\<And>x. P x \<Longrightarrow> Q x) \<Longrightarrow> issues Q c"
  unfolding issues_def by (meson list.pred_mono_strong)

lemma issuesD:
  assumes "issues P c" "run_state c m = (x, m')"
  obtains w cs where "m' = m\<lparr>m_world := w, m_issued := m_issued m @ cs\<rparr>" "list_all P cs"
  using assms unfolding issues_def by (metis snd_conv)

lemma run_state_run:
  "run_state (run exec c) m = (fst (exec c (m_world m)),
     m\<lparr>m_world := snd (exec c (m_world m)), m_issued := m_issued m @ [c]\<rparr>)"
  by (simp add: run_def split: prod.split)


section \<open>What an action keeps\<close>

definition keeps :: "('m \<Rightarrow> bool) \<Rightarrow> ('m, 'a) action \<Rightarrow> bool" where
  "keeps I act = (\<forall>m. I m \<longrightarrow> I (snd (run_state act m)))"

lemma keepsD: "keeps I act \<Longrightarrow> I m \<Longrightarrow> run_state act m = (x, m') \<Longrightarrow> I m'"
  unfolding keeps_def by (metis snd_conv)

lemma keeps_return [keeps_rules]: "keeps I (State_Monad.return x)"
  by (simp add: keeps_def)

lemma keeps_bind [keeps_rules]:
  assumes "keeps I act" and "\<And>x. keeps I (f x)"
  shows "keeps I (State_Monad.bind act f)"
  using assms by (auto simp: keeps_def split: prod.split)

lemma keeps_if [keeps_rules]: "(b \<Longrightarrow> keeps I c) \<Longrightarrow> (\<not> b \<Longrightarrow> keeps I d) \<Longrightarrow> keeps I (if b then c else d)"
  by simp

lemma keeps_case_option [keeps_rules]:
  "keeps I f \<Longrightarrow> (\<And>a. keeps I (g a)) \<Longrightarrow> keeps I (case x of None \<Rightarrow> f | Some a \<Rightarrow> g a)"
  by (cases x) simp_all

lemma keeps_case_sum [keeps_rules]:
  "(\<And>e. keeps I (f e)) \<Longrightarrow> (\<And>a. keeps I (g a)) \<Longrightarrow> keeps I (case x of Inl e \<Rightarrow> f e | Inr a \<Rightarrow> g a)"
  by (cases x) simp_all

lemma keeps_case_prod [keeps_rules]: "(\<And>a b. keeps I (f a b)) \<Longrightarrow> keeps I (case x of (a, b) \<Rightarrow> f a b)"
  by (cases x) simp_all

lemma keeps_Let [keeps_rules]: "keeps I (f x) \<Longrightarrow> keeps I (let y = x in f y)"
  by simp

lemma keeps_update [keeps_rules]: "(\<And>m. I m \<Longrightarrow> I (f m)) \<Longrightarrow> keeps I (State_Monad.update f)"
  by (simp add: keeps_def State_Monad.update_def State_Monad.get_def State_Monad.set_def)

text \<open>From a state with \<open>I\<close>, the action returns a value and a state with \<open>Q\<close>.\<close>

definition ensures :: "('m \<Rightarrow> bool) \<Rightarrow> ('m, 'a) action \<Rightarrow> ('a \<Rightarrow> 'm \<Rightarrow> bool) \<Rightarrow> bool" where
  "ensures I act Q = (\<forall>m. I m \<longrightarrow> Q (fst (run_state act m)) (snd (run_state act m)))"

lemma ensuresD: "ensures I act Q \<Longrightarrow> I m \<Longrightarrow> run_state act m = (x, m') \<Longrightarrow> Q x m'"
  unfolding ensures_def by (metis fst_conv snd_conv)

lemma ensures_return: "(\<And>m. I m \<Longrightarrow> Q x m) \<Longrightarrow> ensures I (State_Monad.return x) Q"
  by (simp add: ensures_def)

lemma ensures_bind: "ensures I act R \<Longrightarrow> (\<And>x. ensures (R x) (f x) Q) \<Longrightarrow> ensures I (State_Monad.bind act f) Q"
  by (auto simp: ensures_def split: prod.split)

lemma ensures_post: "ensures I act R \<Longrightarrow> (\<And>x m. R x m \<Longrightarrow> Q x m) \<Longrightarrow> ensures I act Q"
  by (auto simp: ensures_def)

lemma ensures_pre: "ensures J act Q \<Longrightarrow> (\<And>m. I m \<Longrightarrow> J m) \<Longrightarrow> ensures I act Q"
  by (auto simp: ensures_def)

lemma ensures_if: "(b \<Longrightarrow> ensures I c Q) \<Longrightarrow> (\<not> b \<Longrightarrow> ensures I d Q) \<Longrightarrow> ensures I (if b then c else d) Q"
  by simp

lemma ensures_keeps: "keeps I act \<Longrightarrow> ensures I act (\<lambda>_. I)"
  by (simp add: keeps_def ensures_def)

lemma ensures_both: "ensures I act Q \<Longrightarrow> ensures J act R \<Longrightarrow> ensures (\<lambda>m. I m \<and> J m) act (\<lambda>x m. Q x m \<and> R x m)"
  by (auto simp: ensures_def)

text \<open>Whatever the state, the action returns a value with \<open>P\<close>.\<close>

definition returns :: "('m, 'a) action \<Rightarrow> ('a \<Rightarrow> bool) \<Rightarrow> bool" where
  "returns act P = (\<forall>m. P (fst (run_state act m)))"

lemma returns_return: "P x \<Longrightarrow> returns (State_Monad.return x) P"
  by (simp add: returns_def)

lemma returns_bind: "returns act R \<Longrightarrow> (\<And>x. R x \<Longrightarrow> returns (f x) P) \<Longrightarrow> returns (State_Monad.bind act f) P"
  by (auto simp: returns_def split: prod.split) (metis fst_conv)

lemma returns_bind_any: "(\<And>x. returns (f x) P) \<Longrightarrow> returns (State_Monad.bind act f) P"
  by (auto simp: returns_def split: prod.split)

lemma returns_if: "(b \<Longrightarrow> returns c P) \<Longrightarrow> (\<not> b \<Longrightarrow> returns d P) \<Longrightarrow> returns (if b then c else d) P"
  by simp

lemma returns_ensures: "returns act P \<Longrightarrow> keeps I act \<Longrightarrow> ensures I act (\<lambda>x m. P x \<and> I m)"
  by (simp add: returns_def keeps_def ensures_def)

lemma returns_post: "returns act P \<Longrightarrow> (\<And>x. P x \<Longrightarrow> Q x) \<Longrightarrow> returns act Q"
  by (simp add: returns_def)

lemma returns_both: "returns act P \<Longrightarrow> returns act Q \<Longrightarrow> returns act (\<lambda>x. P x \<and> Q x)"
  by (simp add: returns_def)

lemma returns_run: "returns act P \<Longrightarrow> run_state act m = (x, m') \<Longrightarrow> P x"
  unfolding returns_def by (metis fst_conv)

lemmas returns_rules = returns_return returns_bind_any returns_if

text \<open>
  An invariant of a component's state that commands of a kind respect: whatever the system does with
  them, it still holds. Every action that issues only such commands then keeps it.
\<close>

locale run_invariant =
  fixes I :: "('w, 'z) machine_scheme \<Rightarrow> bool"
    and allowed :: "cmd \<Rightarrow> bool"
  assumes commands_keep: "I m \<Longrightarrow> list_all allowed cs \<Longrightarrow> I (m\<lparr>m_world := w, m_issued := m_issued m @ cs\<rparr>)"
begin

lemma keeps_issues:
  assumes "issues P act" and "\<And>c. P c \<Longrightarrow> allowed c"
  shows "keeps I act"
proof -
  from issues_mono [OF assms] have "issues allowed act" .
  then show ?thesis unfolding keeps_def issues_def using commands_keep by metis
qed

lemma keeps_run: "allowed c \<Longrightarrow> keeps I (run exec c)"
  by (rule keeps_issues [of "\<lambda>d. d = c"]) (auto intro: issues_rules)

end

end
