(* ===== verification/Dependents.thy ===== *)
theory Dependents
  imports Restore_Points Shell
begin

text \<open>
  \<open>lib/dependents.py\<close>: what a destroy on a backup drive must take first, and in which order. The
  two loops (the walk over clones of clones and the topological order) are total functions; the
  order is checked against what \<open>zfs destroy -r\<close> itself accepts.
\<close>

section \<open>Dependents of a tree\<close>

definition dataset_of :: "string \<Rightarrow> string" where
  "dataset_of snapshot = fst (partition_on (CHR ''@'') snapshot)"

record dependent =
  dp_rel :: string
  dp_origin :: string
  dp_archived :: bool
  dp_depth :: nat

datatype why_blocked = Live | Inside | Cycle | Newer

record blocker =
  bk_rel :: string
  bk_origin :: string
  bk_why :: why_blocked

definition blocker_text :: "string \<Rightarrow> blocker \<Rightarrow> string" where
  "blocker_text pool b =
     (let clone = pool @ ''/'' @ bk_rel b; src = pool @ ''/'' @ bk_origin b
      in case bk_why b of
           Inside \<Rightarrow> clone @ '', inside it, is a clone of '' @ src @ '', which would have to go first''
         | Newer \<Rightarrow> clone @ '' is a clone of '' @ src @ '', a snapshot the rollback would destroy''
         | Cycle \<Rightarrow> clone @ '' is a clone of '' @ src @ '', in a loop of clones no order can destroy''
         | Live \<Rightarrow> clone @ '' is a clone of '' @ src @ '', not an archived lineage of it'')"

record destroyplan =
  dpl_top :: string
  dpl_order :: "dependent list"
  dpl_blockers :: "blocker list"

definition plan_ok :: "destroyplan \<Rightarrow> bool" where
  "plan_ok p = (dpl_blockers p = [])"

text \<open>One round of \<open>_trees\<close>: the datasets outside what is gone, cloned from what is gone.\<close>

definition new_clones :: "(string, dest) dict \<Rightarrow> string list \<Rightarrow> (string, string) dict" where
  "new_clones dst gone =
     map (\<lambda>(rel, d). (rel, d_clone_of d))
       (filter (\<lambda>(rel, d). d_clone_of d \<noteq> '''' \<and> \<not> under_any rel gone
                   \<and> under_any (dataset_of (d_clone_of d)) gone) dst)"

definition found_dependent :: "string \<Rightarrow> nat \<Rightarrow> string \<times> string \<Rightarrow> dependent" where
  "found_dependent t depth ro =
     \<lparr>dp_rel = fst ro, dp_origin = snd ro,
      dp_archived = (is_archived (fst ro) \<and> under (logical (fst ro)) t), dp_depth = depth\<rparr>"

lemma new_clones_shrinks:
  assumes "new_clones dst gone \<noteq> []"
  shows "card {rel \<in> fst ` set dst. \<not> under_any rel (gone @ map fst (new_clones dst gone))}
       < card {rel \<in> fst ` set dst. \<not> under_any rel gone}"
proof (rule psubset_card_mono)
  from assms obtain ro where ro: "ro \<in> set (new_clones dst gone)" by (meson last_in_set)
  then obtain rel d where r: "(rel, d) \<in> set dst" "\<not> under_any rel gone"
    "rel \<in> set (map fst (new_clones dst gone))" by (force simp: new_clones_def)
  from r(3) have "under_any rel (gone @ map fst (new_clones dst gone))"
    unfolding under_any_iff by (intro bexI [of _ rel]) auto
  then have "rel \<notin> {rel \<in> fst ` set dst. \<not> under_any rel (gone @ map fst (new_clones dst gone))}" by simp
  moreover have "rel \<in> {rel \<in> fst ` set dst. \<not> under_any rel gone}" using r(1,2) by force
  moreover have "under_any u gone \<Longrightarrow> under_any u (gone @ more)" for u more by (auto simp: under_any_def)
  then have "{rel \<in> fst ` set dst. \<not> under_any rel (gone @ map fst (new_clones dst gone))}
      \<subseteq> {rel \<in> fst ` set dst. \<not> under_any rel gone}" by blast
  ultimately show "{rel \<in> fst ` set dst. \<not> under_any rel (gone @ map fst (new_clones dst gone))}
      \<subset> {rel \<in> fst ` set dst. \<not> under_any rel gone}" by blast
qed simp

function walk_clones ::
    "(string, dest) dict \<Rightarrow> string \<Rightarrow> string list \<Rightarrow> (string, dependent) dict \<Rightarrow> nat
      \<Rightarrow> (string, dependent) dict" where
  "walk_clones dst t gone found depth =
     (let new = new_clones dst gone in
      if new = [] then found
      else walk_clones dst t (gone @ map fst new)
             (foldl (\<lambda>f ro. dict_set (fst ro) (found_dependent t (depth + 1) ro) f) found new)
             (depth + 1))"
  by pat_completeness auto
termination
  by (relation "measure (\<lambda>(dst, _, gone, _, _). card {rel \<in> fst ` set dst. \<not> under_any rel gone})")
     (simp_all add: new_clones_shrinks)

declare walk_clones.simps [simp del]

definition dep_trees :: "(string, dest) dict \<Rightarrow> string \<Rightarrow> (string, dependent) dict" where
  "dep_trees dst t =
     (let found = walk_clones dst t [t] [] 0
      in filter (\<lambda>(rel, x). \<not> under_any rel (filter (\<lambda>f. f \<noteq> rel) (dict_keys found)))
           found)"

definition tree_of :: "string list \<Rightarrow> string \<Rightarrow> string" where
  "tree_of trees rel = (case find (under rel) trees of None \<Rightarrow> '''' | Some t \<Rightarrow> t)"

text \<open>
  \<open>_topological\<close>: what is left shrinks by one tree a round. The comprehension over \<open>edges[t]\<close> reads
  a key that every tree has, and \<open>del\<close> a key that is left: every tree is filed under its own name
  (\<open>dep_trees_ok\<close> below), so neither raises; the guard in the definition stands for the latter.
\<close>

definition needed :: "string list \<Rightarrow> (string, (string \<times> string) list) dict \<Rightarrow> string list \<Rightarrow> string list" where
  "needed trees edges left =
     concat (map (\<lambda>t. map (\<lambda>(_, og). tree_of trees (dataset_of og)) (dict_get_or edges t [])) left)"

definition ready_trees ::
    "string list \<Rightarrow> (string, (string \<times> string) list) dict \<Rightarrow> (string, dependent) dict \<Rightarrow> dependent list" where
  "ready_trees trees edges left =
     sort_key (\<lambda>x. (- int (dp_depth x), dp_rel x))
       (map snd (filter (\<lambda>(t, x). t \<notin> set (needed trees edges (dict_keys left))) left))"

function topological ::
    "string list \<Rightarrow> (string, (string \<times> string) list) dict \<Rightarrow> (string, dependent) dict \<Rightarrow> dependent list
      \<Rightarrow> dependent list \<times> string list" where
  "topological trees edges left order =
     (if left = [] then (order, [])
      else case ready_trees trees edges left of
             [] \<Rightarrow> (order, sort (dict_keys left))
           | x # _ \<Rightarrow>
               if map_of left (dp_rel x) = None then (order, sort (dict_keys left))
               else topological trees edges (dict_del (dp_rel x) left) (order @ [x]))"
  by pat_completeness auto
termination
proof (relation "measure (\<lambda>(_, _, left, _). length left)", simp)
  fix left :: "(string, dependent) dict" and x :: dependent and trees edges order xs
  assume "map_of left (dp_rel x) \<noteq> None"
  then have "\<exists>kv \<in> set left. fst kv = dp_rel x" by (force dest: map_of_SomeD)
  then have "length (dict_del (dp_rel x) left) < length left"
    unfolding dict_del_def by (elim bexE, intro length_filter_less) auto
  then show "((trees, edges, dict_del (dp_rel x) left, order @ [x]), trees, edges, left, order)
      \<in> measure (\<lambda>(_, _, left, _). length left)" by simp
qed

declare topological.simps [simp del]

definition tree_edges ::
    "(string, dest) dict \<Rightarrow> string \<Rightarrow> string list \<Rightarrow> (string, (string \<times> string) list) dict" where
  "tree_edges dst t trees =
     foldl (\<lambda>edges (rel, d).
        let src = (if d_clone_of d \<noteq> '''' then tree_of trees (dataset_of (d_clone_of d)) else '''');
            mine = tree_of trees rel
        in if src = '''' \<or> under rel t \<or> mine = '''' \<or> mine = src then edges
           else dict_push mine (rel, d_clone_of d) edges)
       (map (\<lambda>k. (k, [])) trees) (sort_key fst dst)"

definition inside_blockers :: "(string, dest) dict \<Rightarrow> string \<Rightarrow> string list \<Rightarrow> blocker list" where
  "inside_blockers dst t trees =
     map (\<lambda>(rel, d). \<lparr>bk_rel = rel, bk_origin = d_clone_of d, bk_why = Inside\<rparr>)
       (filter (\<lambda>(rel, d). d_clone_of d \<noteq> '''' \<and> tree_of trees (dataset_of (d_clone_of d)) \<noteq> ''''
                  \<and> under rel t) (sort_key fst dst))"

definition destroy_plan :: "(string, dest) dict \<Rightarrow> string \<Rightarrow> destroyplan" where
  "destroy_plan dst t =
     (let trees = dep_trees dst t;
          names = dict_keys trees;
          live = map (\<lambda>x. \<lparr>bk_rel = dp_rel x, bk_origin = dp_origin x, bk_why = Live\<rparr>)
                   (filter (\<lambda>x. \<not> dp_archived x) (dict_values trees));
          edges = tree_edges dst t names
      in case topological names edges trees [] of (order, stuck) \<Rightarrow>
           \<lparr>dpl_top = t, dpl_order = order,
            dpl_blockers = live @ inside_blockers dst t names
              @ concat (map (\<lambda>s. map (\<lambda>(rel, og). \<lparr>bk_rel = rel, bk_origin = og, bk_why = Cycle\<rparr>)
                               (dict_get_or edges s [])) stuck)\<rparr>)"

definition rollback_blockers :: "(string, dest) dict \<Rightarrow> string \<Rightarrow> string list \<Rightarrow> blocker list" where
  "rollback_blockers dst rel newer =
     map (\<lambda>(r, d). \<lparr>bk_rel = r, bk_origin = d_clone_of d, bk_why = Newer\<rparr>)
       (filter (\<lambda>(r, d). d_clone_of d \<in> set (map (\<lambda>n. rel @ n) newer)) (sort_key fst dst))"


section \<open>The destroys\<close>

definition destroy_line :: "string \<Rightarrow> string \<Rightarrow> cmd" where
  "destroy_line pool rel = Line (''zfs destroy -r '' @ quote (pool @ ''/'' @ rel))"

fun destroy_each ::
    "'w shell \<Rightarrow> string \<Rightarrow> dependent list \<Rightarrow> string list
      \<Rightarrow> (('w, 'z) machine_scheme, string list \<times> bool) action" where
  "destroy_each exec pool [] gone = State_Monad.return (gone, True)"
| "destroy_each exec pool (dep # deps) gone = do {
     r \<leftarrow> run exec (destroy_line pool (dp_rel dep));
     if \<not> ok r then State_Monad.return (gone, False)
     else destroy_each exec pool deps (gone @ [dp_rel dep])
   }"

definition destroy_dependents ::
    "'w shell \<Rightarrow> string \<Rightarrow> destroyplan \<Rightarrow> (('w, 'z) machine_scheme, string list \<times> bool) action" where
  "destroy_dependents exec pool p =
     (if \<not> plan_ok p then State_Monad.return ([], False)
      else destroy_each exec pool (dpl_order p) [])"

definition takes_lines :: "destroyplan \<Rightarrow> string list" where
  "takes_lines p = (if dpl_order p \<noteq> [] then [''    and what was cloned from its snapshots:''] else [])"

definition also_text :: "destroyplan \<Rightarrow> string" where
  "also_text p = (if length (dpl_order p) \<noteq> 0
     then '', and '' @ dec_of_nat (length (dpl_order p)) @ '' archived lineage(s) cloned from it'' else '''')"



section \<open>Lemmas: the walk over clones\<close>

text \<open>What the walk keeps true of the dependents found so far and of what counts as gone.\<close>

definition walk_inv :: "(string, dest) dict \<Rightarrow> string \<Rightarrow> string list \<Rightarrow> (string, dependent) dict \<Rightarrow> bool" where
  "walk_inv dst t gone found =
     (set gone = insert t (dom (map_of found)) \<and> wf_dict found
      \<and> (\<forall>rel x. map_of found rel = Some x \<longrightarrow>
           dp_rel x = rel \<and> dp_archived x = (is_archived rel \<and> under (logical rel) t) \<and> \<not> under rel t
           \<and> (\<exists>d. (rel, d) \<in> set dst \<and> dp_origin x = d_clone_of d \<and> d_clone_of d \<noteq> '''')))"

lemma map_of_fold_found:
  "map_of (foldl (\<lambda>f ro. dict_set (fst ro) (g ro) f) found new) rel =
     (case find (\<lambda>ro. fst ro = rel) (rev new) of Some ro \<Rightarrow> Some (g ro) | None \<Rightarrow> map_of found rel)"
  by (induction new arbitrary: found rule: rev_induct) (auto split: option.splits)

lemma wf_fold_found: "wf_dict found \<Longrightarrow> wf_dict (foldl (\<lambda>f ro. dict_set (fst ro) (g ro) f) found new)"
  by (induction new arbitrary: found) auto

lemma new_clones_mem:
  "(rel, og) \<in> set (new_clones dst gone) \<longleftrightarrow>
     (\<exists>d. (rel, d) \<in> set dst \<and> og = d_clone_of d \<and> og \<noteq> '''' \<and> \<not> under_any rel gone
        \<and> under_any (dataset_of og) gone)"
  by (auto simp: new_clones_def image_iff)

lemma walk_step_inv:
  assumes "walk_inv dst t gone found"
  defines "new \<equiv> new_clones dst gone"
  shows "walk_inv dst t (gone @ map fst new)
    (foldl (\<lambda>f ro. dict_set (fst ro) (found_dependent t depth ro) f) found new)"
proof -
  let ?f = "foldl (\<lambda>f ro. dict_set (fst ro) (found_dependent t depth ro) f) found new"
  have m: "map_of ?f rel = (case find (\<lambda>ro. fst ro = rel) (rev new) of
      Some ro \<Rightarrow> Some (found_dependent t depth ro) | None \<Rightarrow> map_of found rel)" for rel
    by (rule map_of_fold_found)
  have t: "t \<in> set gone" using assms(1) by (auto simp: walk_inv_def)
  have new: "\<not> under rel t \<and> (\<exists>d. (rel, d) \<in> set dst \<and> og = d_clone_of d \<and> d_clone_of d \<noteq> '''')"
    if "(rel, og) \<in> set new" for rel og
    using that t unfolding new_def new_clones_mem under_any_iff by blast
  have dom: "dom (map_of ?f) = dom (map_of found) \<union> fst ` set new"
    by (auto simp: m dom_def find_None_iff split: option.splits dest!: find_SomeD) force
  have ok: "dp_rel x = rel \<and> dp_archived x = (is_archived rel \<and> under (logical rel) t) \<and> \<not> under rel t
           \<and> (\<exists>d. (rel, d) \<in> set dst \<and> dp_origin x = d_clone_of d \<and> d_clone_of d \<noteq> '''')"
    if "map_of ?f rel = Some x" for rel x
  proof (cases "find (\<lambda>ro. fst ro = rel) (rev new)")
    case None
    with that m have "map_of found rel = Some x" by simp
    with assms(1) show ?thesis unfolding walk_inv_def by blast
  next
    case (Some ro)
    with find_SomeD [OF Some] that m new [of rel "snd ro"] show ?thesis
      by (cases ro) (auto simp: found_dependent_def)
  qed
  show ?thesis
    unfolding walk_inv_def using assms(1) ok dom wf_fold_found by (auto simp: walk_inv_def)
qed

lemma walk_clones_result:
  assumes "walk_inv dst t gone found"
  shows "\<exists>gone'. walk_inv dst t gone' (walk_clones dst t gone found depth) \<and> new_clones dst gone' = []"
  using assms
proof (induction dst t gone found depth rule: walk_clones.induct)
  case (1 dst t gone found depth)
  show ?case
  proof (cases "new_clones dst gone = []")
    case True
    with "1.prems" show ?thesis by (subst walk_clones.simps) (auto simp: Let_def)
  next
    case False
    from "1.IH" [OF refl False walk_step_inv [OF "1.prems"]] False show ?thesis
      by (subst walk_clones.simps) (simp add: Let_def)
  qed
qed


text \<open>The trees: filed under their own names, apart from each other and from the tree itself, and
  closed under cloning.\<close>

lemma walk_start: "walk_inv dst t [t] []"
  by (simp add: walk_inv_def)

lemma map_of_dep_trees:
  "map_of (dep_trees dst t) rel = (if (\<forall>f \<in> dom (map_of (walk_clones dst t [t] [] 0)). under rel f \<longrightarrow> f = rel)
     then map_of (walk_clones dst t [t] [] 0) rel else None)"
  unfolding dep_trees_def Let_def map_of_filter_keys by (auto simp: under_any_iff)

lemma wf_dep_trees: "wf_dict (dep_trees dst t)"
  using walk_clones_result [OF walk_start, of dst t 0]
  by (auto simp: dep_trees_def Let_def walk_inv_def wf_dict_def dict_keys_def distinct_map intro: inj_on_subset)

lemma dep_trees_ok:
  assumes "map_of (dep_trees dst t) rel = Some x"
  shows "dp_rel x = rel" and "dp_archived x = (is_archived rel \<and> under (logical rel) t)" and "\<not> under rel t"
    and "\<exists>d. (rel, d) \<in> set dst \<and> dp_origin x = d_clone_of d \<and> d_clone_of d \<noteq> ''''"
proof -
  from walk_clones_result [OF walk_start, of dst t 0] obtain gone' where
    "walk_inv dst t gone' (walk_clones dst t [t] [] 0)" by blast
  moreover have "map_of (walk_clones dst t [t] [] 0) rel = Some x"
    using assms by (simp add: map_of_dep_trees split: if_splits)
  ultimately show "dp_rel x = rel" "dp_archived x = (is_archived rel \<and> under (logical rel) t)" "\<not> under rel t"
    "\<exists>d. (rel, d) \<in> set dst \<and> dp_origin x = d_clone_of d \<and> d_clone_of d \<noteq> ''''"
    unfolding walk_inv_def by blast+
qed

lemma dep_trees_tops:
  "dom (map_of (dep_trees dst t)) = {rel. ds.is_top (dom (map_of (walk_clones dst t [t] [] 0))) rel}"
  by (auto simp: map_of_dep_trees ds.is_top_def dom_def split: if_splits)

lemma dep_trees_apart:
  assumes "u \<in> dom (map_of (dep_trees dst t))" "v \<in> dom (map_of (dep_trees dst t))" "under x u" "under x v"
  shows "u = v"
  using assms ds.tops_unique unfolding dep_trees_tops by blast

lemma dep_trees_closed:
  assumes "(rel, d) \<in> set dst" "d_clone_of d \<noteq> ''''"
    and "under_any (dataset_of (d_clone_of d)) (t # dict_keys (dep_trees dst t))"
  shows "under_any rel (t # dict_keys (dep_trees dst t))"
proof -
  let ?found = "walk_clones dst t [t] [] 0"
  from walk_clones_result [OF walk_start, of dst t 0] obtain gone' where
    g: "set gone' = insert t (dom (map_of ?found))" and fin: "new_clones dst gone' = []"
    by (auto simp: walk_inv_def)
  have top: "\<exists>u \<in> insert t (dom (map_of (dep_trees dst t))). under a u" if "under_any a gone'" for a
  proof -
    from that g obtain f where "f = t \<or> f \<in> dom (map_of ?found)" "under a f" by (auto simp: under_any_iff)
    moreover have "\<exists>u \<in> dom (map_of (dep_trees dst t)). under f u" if "f \<in> dom (map_of ?found)"
      using ds.exists_top [OF finite_dom_map_of that] unfolding dep_trees_tops by blast
    ultimately show ?thesis by (meson insert_iff under_trans)
  qed
  have "under_any (dataset_of (d_clone_of d)) gone'"
    using assms(3) g dep_trees_tops by (fastforce simp: under_any_iff ds.is_top_def)
  then have "under_any rel gone'"
    using fin assms(1,2) new_clones_mem [of rel "d_clone_of d" dst gone'] by auto
  from top [OF this] show ?thesis by (auto simp: under_any_iff)
qed

lemma tree_of_under:
  assumes "u \<in> dom (map_of (dep_trees dst t))" "under rel u"
  shows "tree_of (dict_keys (dep_trees dst t)) rel = u"
proof -
  obtain v where v: "find (under rel) (dict_keys (dep_trees dst t)) = Some v"
    using assms by (metis domIff find_None_iff option.exhaust set_dict_keys)
  with find_SomeD [OF v] dep_trees_apart [OF assms(1) _ assms(2), of v] show ?thesis
    by (simp add: tree_of_def)
qed

text \<open>The edges hold every clone between two trees.\<close>

definition edge_step ::
    "string \<Rightarrow> string list \<Rightarrow> (string, (string \<times> string) list) dict \<Rightarrow> string \<times> dest
      \<Rightarrow> (string, (string \<times> string) list) dict" where
  "edge_step t trees edges rd = (case rd of (rel, d) \<Rightarrow>
     let src = (if d_clone_of d \<noteq> '''' then tree_of trees (dataset_of (d_clone_of d)) else '''');
         mine = tree_of trees rel
     in if src = '''' \<or> under rel t \<or> mine = '''' \<or> mine = src then edges
        else dict_push mine (rel, d_clone_of d) edges)"

lemma tree_edges_fold: "tree_edges dst t trees = foldl (edge_step t trees) (map (\<lambda>k. (k, [])) trees) (sort_key fst dst)"
  unfolding tree_edges_def edge_step_def by (rule arg_cong [where f = "\<lambda>f. foldl f _ _"]) (auto simp: fun_eq_iff)

lemma edge_step_keeps: "e \<in> set (dict_get_or edges k []) \<Longrightarrow> e \<in> set (dict_get_or (edge_step t trees edges rd) k [])"
  by (auto simp: edge_step_def Let_def dict_get_or_def map_of_dict_push split: prod.splits option.splits)

lemma edge_fold_keeps: "e \<in> set (dict_get_or edges k []) \<Longrightarrow> e \<in> set (dict_get_or (foldl (edge_step t trees) edges rds) k [])"
  by (induction rds arbitrary: edges) (auto intro: edge_step_keeps)

lemma tree_edges_mem:
  assumes "(rel, d) \<in> set dst" "d_clone_of d \<noteq> ''''" "\<not> under rel t"
    and "tree_of trees (dataset_of (d_clone_of d)) = v" "tree_of trees rel = u" "u \<noteq> ''''" "v \<noteq> ''''" "u \<noteq> v"
  shows "(rel, d_clone_of d) \<in> set (dict_get_or (tree_edges dst t trees) u [])"
proof -
  from assms(1) have "(rel, d) \<in> set (sort_key fst dst)" by simp
  then obtain xs ys where xs: "sort_key fst dst = xs @ (rel, d) # ys" by (meson split_list)
  let ?e = "foldl (edge_step t trees) (map (\<lambda>k. (k, [])) trees) xs"
  have "edge_step t trees ?e (rel, d) = dict_push u (rel, d_clone_of d) ?e"
    using assms by (simp add: edge_step_def Let_def)
  then have "(rel, d_clone_of d) \<in> set (dict_get_or (edge_step t trees ?e (rel, d)) u [])"
    by (simp add: dict_get_or_def map_of_dict_push)
  then show ?thesis unfolding tree_edges_fold xs by (simp add: edge_fold_keeps)
qed



section \<open>Lemmas: the order\<close>

text \<open>No tree in the list is cloned from one before it.\<close>

definition cloned_from :: "string list \<Rightarrow> (string, (string \<times> string) list) dict \<Rightarrow> string \<Rightarrow> string \<Rightarrow> bool" where
  "cloned_from trees edges u v = (\<exists>(rel, og) \<in> set (dict_get_or edges u []). tree_of trees (dataset_of og) = v)"

definition in_order :: "string list \<Rightarrow> (string, (string \<times> string) list) dict \<Rightarrow> string list \<Rightarrow> bool" where
  "in_order trees edges us = sorted_wrt (\<lambda>u v. \<not> cloned_from trees edges v u) us"

lemma needed_iff: "v \<in> set (needed trees edges left) \<longleftrightarrow> (\<exists>u \<in> set left. cloned_from trees edges u v)"
  by (fastforce simp: needed_def cloned_from_def)

lemma ready_mem:
  assumes "ready_trees trees edges left = x # xs"
  shows "\<exists>t. (t, x) \<in> set left \<and> (\<forall>u \<in> set (dict_keys left). \<not> cloned_from trees edges u t)"
proof -
  have "x \<in> set (ready_trees trees edges left)" by (simp add: assms)
  then show ?thesis by (auto simp: ready_trees_def needed_iff simp del: set_dict_keys)
qed

lemma topological_spec:
  assumes "wf_dict left" and "\<forall>t x. map_of left t = Some x \<longrightarrow> dp_rel x = t"
  shows "\<exists>ext. fst (topological trees edges left order) = order @ ext
    \<and> distinct (map dp_rel ext) \<and> (\<forall>x \<in> set ext. map_of left (dp_rel x) = Some x)
    \<and> set (snd (topological trees edges left order)) = dom (map_of left) - set (map dp_rel ext)
    \<and> in_order trees edges (map dp_rel ext)
    \<and> (snd (topological trees edges left order) \<noteq> [] \<longrightarrow>
        (\<exists>u \<in> set (snd (topological trees edges left order)). dict_get_or edges u [] \<noteq> []))"
  using assms
proof (induction trees edges left order rule: topological.induct)
  case (1 trees edges left order)
  show ?case
  proof (cases "left = [] \<or> ready_trees trees edges left = []")
    case True
    then have eq: "topological trees edges left order = (order, sort (dict_keys left))"
      by (subst topological.simps) (auto simp: dict_keys_def)
    moreover have "sort (dict_keys left) \<noteq> [] \<Longrightarrow> left \<noteq> []"
      by (metis dict_keys_def list.simps(8) sort_key_simps(1))
    moreover have "\<exists>u \<in> set (dict_keys left). dict_get_or edges u [] \<noteq> []" if "left \<noteq> []"
    proof -
      from that True obtain kv where kv: "kv \<in> set left" "ready_trees trees edges left = []"
        by (meson last_in_set)
      have "fst kv \<in> set (needed trees edges (dict_keys left))"
      proof (rule ccontr)
        assume "\<not> ?thesis"
        with kv(1) have "kv \<in> set (filter (\<lambda>(t, x). t \<notin> set (needed trees edges (dict_keys left))) left)"
          by (simp add: case_prod_beta)
        then have "snd kv \<in> set (ready_trees trees edges left)" unfolding ready_trees_def by auto
        with kv(2) show False by simp
      qed
      then obtain u where "u \<in> set (dict_keys left)" "cloned_from trees edges u (fst kv)"
        unfolding needed_iff by blast
      then show ?thesis unfolding cloned_from_def by (intro bexI [of _ u]) auto
    qed
    ultimately show ?thesis unfolding eq
      by (intro exI [of _ "[]"]) (auto simp: in_order_def)
  next
    case False
    then obtain x xs where r: "left \<noteq> []" "ready_trees trees edges left = x # xs"
      by (meson list.exhaust)
    from ready_mem [OF r(2)] "1.prems" obtain t where t: "map_of left t = Some x" "dp_rel x = t"
      "\<forall>u \<in> dom (map_of left). \<not> cloned_from trees edges u t" by (auto simp: wf_dict_map_of)
    let ?rest = "dict_del (dp_rel x) left"
    have eq: "topological trees edges left order = topological trees edges ?rest (order @ [x])"
      using r t by (subst topological.simps) simp
    have IH: "\<exists>ext. fst (topological trees edges ?rest (order @ [x])) = (order @ [x]) @ ext
      \<and> distinct (map dp_rel ext) \<and> (\<forall>x \<in> set ext. map_of ?rest (dp_rel x) = Some x)
      \<and> set (snd (topological trees edges ?rest (order @ [x]))) = dom (map_of ?rest) - set (map dp_rel ext)
      \<and> in_order trees edges (map dp_rel ext)
      \<and> (snd (topological trees edges ?rest (order @ [x])) \<noteq> [] \<longrightarrow>
          (\<exists>u \<in> set (snd (topological trees edges ?rest (order @ [x]))). dict_get_or edges u [] \<noteq> []))"
      by (rule "1.IH" [OF r(1) r(2)])
         (use t "1.prems" in \<open>auto simp: map_of_dict_del split: if_splits\<close>)
    then obtain ext where ext: "fst (topological trees edges ?rest (order @ [x])) = (order @ [x]) @ ext"
      "distinct (map dp_rel ext)" "\<forall>x \<in> set ext. map_of ?rest (dp_rel x) = Some x"
      "set (snd (topological trees edges ?rest (order @ [x]))) = dom (map_of ?rest) - set (map dp_rel ext)"
      "in_order trees edges (map dp_rel ext)"
      "snd (topological trees edges ?rest (order @ [x])) \<noteq> [] \<longrightarrow>
        (\<exists>u \<in> set (snd (topological trees edges ?rest (order @ [x]))). dict_get_or edges u [] \<noteq> [])" by blast
    have sub: "dp_rel y \<noteq> t \<and> map_of left (dp_rel y) = Some y" if "y \<in> set ext" for y
      using bspec [OF ext(3) that] t(2) by (simp add: map_of_dict_del split: if_splits)
    have "distinct (map dp_rel (x # ext))" using ext(2) sub t(2) by (simp add: image_iff) metis
    moreover have "\<forall>y \<in> set (x # ext). map_of left (dp_rel y) = Some y" using sub t by auto
    moreover have "in_order trees edges (map dp_rel (x # ext))"
      using ext(5) t sub by (fastforce simp: in_order_def)
    moreover have "set (snd (topological trees edges left order)) = dom (map_of left) - set (map dp_rel (x # ext))"
      unfolding eq ext(4) by (auto simp: map_of_dict_del)
    ultimately show ?thesis using ext(6) unfolding eq ext(1) by (intro exI [of _ "x # ext"]) simp
  qed
qed


text \<open>
  What \<open>zfs destroy -r\<close> itself does with the datasets of a drive: it refuses while a dataset outside
  the tree is a clone of a snapshot inside it, and removes the tree otherwise.
\<close>

definition zfs_refuses :: "(string, dest) dict \<Rightarrow> string \<Rightarrow> bool" where
  "zfs_refuses live t =
     list_ex (\<lambda>(rel, d). d_clone_of d \<noteq> '''' \<and> under (dataset_of (d_clone_of d)) t \<and> \<not> under rel t) live"

fun zfs_destroys :: "(string, dest) dict \<Rightarrow> string list \<Rightarrow> (string, dest) dict option" where
  "zfs_destroys live [] = Some live"
| "zfs_destroys live (t # ts) =
     (if zfs_refuses live t then None
      else zfs_destroys (filter (\<lambda>(rel, _). \<not> under rel t) live) ts)"

lemma destroy_plan_parts:
  assumes "plan_ok (destroy_plan dst t)"
  defines "trees \<equiv> dep_trees dst t"
  defines "order \<equiv> map dp_rel (dpl_order (destroy_plan dst t))"
  shows "\<forall>x \<in> set (dpl_order (destroy_plan dst t)). map_of trees (dp_rel x) = Some x \<and> dp_archived x"
    and "in_order (dict_keys trees) (tree_edges dst t (dict_keys trees)) order"
    and "dom (map_of trees) = set order"
    and "inside_blockers dst t (dict_keys trees) = []"
    and "distinct order"
proof -
  let ?e = "tree_edges dst t (dict_keys trees)"
  let ?top = "topological (dict_keys trees) ?e trees []"
  have spec: "\<exists>ext. fst ?top = [] @ ext \<and> distinct (map dp_rel ext)
    \<and> (\<forall>x \<in> set ext. map_of trees (dp_rel x) = Some x)
    \<and> set (snd ?top) = dom (map_of trees) - set (map dp_rel ext) \<and> in_order (dict_keys trees) ?e (map dp_rel ext)
    \<and> (snd ?top \<noteq> [] \<longrightarrow> (\<exists>u \<in> set (snd ?top). dict_get_or ?e u [] \<noteq> []))"
    unfolding trees_def by (rule topological_spec) (use wf_dep_trees dep_trees_ok(1) in auto)
  have pl: "dpl_order (destroy_plan dst t) = fst ?top"
    "dpl_blockers (destroy_plan dst t) =
       map (\<lambda>x. \<lparr>bk_rel = dp_rel x, bk_origin = dp_origin x, bk_why = Live\<rparr>)
          (filter (\<lambda>x. \<not> dp_archived x) (dict_values trees))
       @ inside_blockers dst t (dict_keys trees)
       @ concat (map (\<lambda>s. map (\<lambda>(rel, og). \<lparr>bk_rel = rel, bk_origin = og, bk_why = Cycle\<rparr>)
                        (dict_get_or ?e s [])) (snd ?top))"
    by (simp_all add: destroy_plan_def trees_def Let_def split: prod.split)
  from assms(1) have none: "filter (\<lambda>x. \<not> dp_archived x) (dict_values trees) = []"
    "inside_blockers dst t (dict_keys trees) = []" "\<forall>s \<in> set (snd ?top). dict_get_or ?e s [] = []"
    by (auto simp: plan_ok_def pl)
  have arch: "dp_archived x" if "map_of trees k = Some x" for k x
    using none(1) that set_dict_values [OF wf_dep_trees, of x dst t]
    by (auto simp: filter_empty_conv trees_def)
  from none(3) spec have "snd ?top = []" by blast
  with spec have "\<exists>ext. fst ?top = [] @ ext \<and> distinct (map dp_rel ext)
    \<and> (\<forall>x \<in> set ext. map_of trees (dp_rel x) = Some x)
    \<and> dom (map_of trees) \<subseteq> set (map dp_rel ext) \<and> in_order (dict_keys trees) ?e (map dp_rel ext)" by auto
  with pl(1) arch none show
    "\<forall>x \<in> set (dpl_order (destroy_plan dst t)). map_of trees (dp_rel x) = Some x \<and> dp_archived x"
    "in_order (dict_keys trees) ?e order"
    "dom (map_of trees) = set order"
    "inside_blockers dst t (dict_keys trees) = []" "distinct order"
    unfolding order_def by auto
qed


lemma in_order_first:
  assumes "in_order trees edges (pre @ x # post)" "cloned_from trees edges u x" "u \<in> set (pre @ x # post)" "u \<noteq> x"
  shows "u \<in> set pre"
  using assms by (auto simp: in_order_def sorted_wrt_append)

text \<open>With no blocker, ZFS refuses none of the destroys: what is cloned from a tree is gone before it.\<close>

lemma plan_never_refused:
  assumes ok: "plan_ok (destroy_plan dst t)" and names: "'''' \<notin> fst ` set dst"
    and split: "map dp_rel (dpl_order (destroy_plan dst t)) = pre @ x # post"
  shows "\<not> zfs_refuses (filter (\<lambda>(rel, _). \<not> under_any rel pre) dst) x"
proof
  let ?keys = "dict_keys (dep_trees dst t)"
  note parts = destroy_plan_parts [OF ok]
  assume "zfs_refuses (filter (\<lambda>(rel, _). \<not> under_any rel pre) dst) x"
  then obtain rel d where c: "(rel, d) \<in> set dst" "\<not> under_any rel pre" "d_clone_of d \<noteq> ''''"
    "under (dataset_of (d_clone_of d)) x" "\<not> under rel x"
    by (auto simp: zfs_refuses_def list_ex_iff)
  have x: "x \<in> dom (map_of (dep_trees dst t))" using parts(3) split by auto
  have ne: "u \<noteq> ''''" if "u \<in> dom (map_of (dep_trees dst t))" for u
    using that dep_trees_ok(4) [of dst t u] names by force
  have src: "tree_of ?keys (dataset_of (d_clone_of d)) = x" using tree_of_under [OF x c(4)] .
  show False
  proof (cases "under rel t")
    case True
    with c(1,3) src ne [OF x] have "\<exists>b. b \<in> set (inside_blockers dst t ?keys)"
      by (auto simp: inside_blockers_def simp del: set_dict_keys intro!: exI)
    with parts(4) show False by simp
  next
    case False
    have "under_any (dataset_of (d_clone_of d)) (t # ?keys)" using x c(4) by (auto simp: under_any_iff)
    from dep_trees_closed [OF c(1,3) this] False obtain u where
      u: "u \<in> dom (map_of (dep_trees dst t))" "under rel u" by (auto simp: under_any_iff)
    have "u \<noteq> x" using u(2) c(5) by blast
    have "tree_of ?keys rel = u" using tree_of_under [OF u] .
    then have "(rel, d_clone_of d) \<in> set (dict_get_or (tree_edges dst t ?keys) u [])"
      using tree_edges_mem [OF c(1,3) False src] ne [OF u(1)] ne [OF x] \<open>u \<noteq> x\<close> by blast
    then have "cloned_from ?keys (tree_edges dst t ?keys) u x" using src by (auto simp: cloned_from_def)
    then have "u \<in> set pre"
      using in_order_first [OF parts(2) [unfolded split]] u(1) parts(3) split \<open>u \<noteq> x\<close> by auto
    with c(2) u(2) show False by (auto simp: under_any_iff)
  qed
qed


lemma plan_run_accepted:
  assumes ok: "plan_ok (destroy_plan dst t)" and names: "'''' \<notin> fst ` set dst"
    and split: "map dp_rel (dpl_order (destroy_plan dst t)) = pre @ post"
  shows "zfs_destroys (filter (\<lambda>(rel, _). \<not> under_any rel pre) dst) (post @ [t]) =
    Some (filter (\<lambda>(rel, _). \<not> under_any rel (pre @ post @ [t])) dst)"
  using split
proof (induction post arbitrary: pre)
  case Nil
  have "\<not> zfs_refuses (filter (\<lambda>(rel, _). \<not> under_any rel pre) dst) t"
  proof
    assume "zfs_refuses (filter (\<lambda>(rel, _). \<not> under_any rel pre) dst) t"
    then obtain rel d where c: "(rel, d) \<in> set dst" "\<not> under_any rel pre" "d_clone_of d \<noteq> ''''"
      "under (dataset_of (d_clone_of d)) t" "\<not> under rel t"
      by (auto simp: zfs_refuses_def list_ex_iff)
    then have "under_any (dataset_of (d_clone_of d)) (t # dict_keys (dep_trees dst t))"
      by (auto simp: under_any_iff)
    from dep_trees_closed [OF c(1,3) this] c(5) have "under_any rel pre"
      using destroy_plan_parts(3) [OF ok] Nil by (auto simp: under_any_iff)
    with c(2) show False ..
  qed
  then show ?case by (auto simp: under_any_def intro: filter_cong)
next
  case (Cons x post)
  have "\<not> zfs_refuses (filter (\<lambda>(rel, _). \<not> under_any rel pre) dst) x"
    using plan_never_refused [OF ok names Cons.prems] .
  moreover have "filter (\<lambda>(rel, _). \<not> under rel x) (filter (\<lambda>(rel, _). \<not> under_any rel pre) dst)
      = filter (\<lambda>(rel, _). \<not> under_any rel (pre @ [x])) dst"
    by (auto simp: under_any_def intro: filter_cong)
  ultimately show ?case using Cons.IH [of "pre @ [x]"] Cons.prems by simp
qed


section \<open>Properties: the destroy ZFS accepts\<close>

text \<open>C17: a destroy that is offered goes through. When the plan has no blocker, ZFS accepts the
  destroy of every dependent in the plan's order and then of the tree itself, in spite of clones
  between them; what is left is the drive without those trees, and everything taken besides the
  tree is an archived lineage of a dataset in it.\<close>

theorem destroy_plan_accepted:
  assumes "plan_ok (destroy_plan dst t)" and "'''' \<notin> fst ` set dst"
  shows "zfs_destroys dst (map dp_rel (dpl_order (destroy_plan dst t)) @ [t]) =
      Some (filter (\<lambda>(rel, _). \<not> under_any rel (map dp_rel (dpl_order (destroy_plan dst t)) @ [t])) dst)
    \<and> (\<forall>x \<in> set (dpl_order (destroy_plan dst t)). is_archived (dp_rel x) \<and> under (logical (dp_rel x)) t)"
proof
  have "filter (\<lambda>(rel, _). \<not> under_any rel []) dst = dst" by (simp add: under_any_def case_prod_beta)
  with plan_run_accepted [OF assms, of "[]"]
  show "zfs_destroys dst (map dp_rel (dpl_order (destroy_plan dst t)) @ [t]) =
      Some (filter (\<lambda>(rel, _). \<not> under_any rel (map dp_rel (dpl_order (destroy_plan dst t)) @ [t])) dst)" by simp
  show "\<forall>x \<in> set (dpl_order (destroy_plan dst t)). is_archived (dp_rel x) \<and> under (logical (dp_rel x)) t"
    using destroy_plan_parts(1) [OF assms(1)] dep_trees_ok(2) by blast
qed

text \<open>A lineage archived twice: each archive is a clone of the one after it.\<close>

definition ex_clone :: "string \<Rightarrow> string \<Rightarrow> dest" where
  "ex_clone rel src = (ex_dest rel [])\<lparr>d_clone_of := src\<rparr>"

definition ex_lineage :: "(string, dest) dict" where
  "ex_lineage = [(''rpool/a'', ex_clone ''rpool/a'' ''''),
     (''rpool/a.archived-1'', ex_clone ''rpool/a.archived-1'' ''rpool/a@x''),
     (''rpool/a.archived-0'', ex_clone ''rpool/a.archived-0'' ''rpool/a.archived-1@y''),
     (''rpool/b'', ex_clone ''rpool/b'' '''')]"

theorem destroy_plan_accepted_witness:
  "map dp_rel (dpl_order (destroy_plan ex_lineage ''rpool/a'')) = [''rpool/a.archived-0'', ''rpool/a.archived-1'']
   \<and> map_option (map fst) (zfs_destroys ex_lineage [''rpool/a.archived-0'', ''rpool/a.archived-1'', ''rpool/a''])
     = Some [''rpool/b'']"
proof -
  have o: "map dp_rel (dpl_order (destroy_plan ex_lineage ''rpool/a'')) = [''rpool/a.archived-0'', ''rpool/a.archived-1'']"
    by code_simp
  have "plan_ok (destroy_plan ex_lineage ''rpool/a'')" by code_simp
  from destroy_plan_accepted [OF this] o show ?thesis
    by (simp add: ex_lineage_def under_any_def under_def)
qed


lemma destroy_each_run:
  assumes "run_state (destroy_each exec pool deps gone0) m = ((gone, all), m')"
  shows "\<exists>k \<le> length deps. gone = gone0 @ map dp_rel (take k deps)
    \<and> m_issued m' = m_issued m @ map (\<lambda>x. destroy_line pool (dp_rel x)) (take (if all then k else Suc k) deps)
    \<and> all = (k = length deps)"
  using assms
proof (induction deps arbitrary: gone0 m)
  case Nil
  then show ?case by auto
next
  case (Cons x deps)
  let ?m = "m\<lparr>m_world := snd (exec (destroy_line pool (dp_rel x)) (m_world m)),
    m_issued := m_issued m @ [destroy_line pool (dp_rel x)]\<rparr>"
  show ?case
  proof (cases "ok (fst (exec (destroy_line pool (dp_rel x)) (m_world m)))")
    case True
    with Cons.prems have "run_state (destroy_each exec pool deps (gone0 @ [dp_rel x])) ?m = ((gone, all), m')"
      by (simp add: run_state_run)
    from Cons.IH [OF this] obtain k where "k \<le> length deps" "gone = (gone0 @ [dp_rel x]) @ map dp_rel (take k deps)"
      "m_issued m' = m_issued ?m @ map (\<lambda>x. destroy_line pool (dp_rel x)) (take (if all then k else Suc k) deps)"
      "all = (k = length deps)" by blast
    then show ?thesis by (intro exI [of _ "Suc k"]) simp
  next
    case False
    with Cons.prems show ?thesis by (intro exI [of _ 0]) (auto simp: run_state_run)
  qed
qed

text \<open>The destroys of a plan, one by one and no further than a failure. Nothing is run for a
  plan with a blocker; otherwise the commands are \<open>zfs destroy -r\<close> of the first dependents in the
  plan's order, what is reported gone is exactly what was destroyed, and the run reports success
  exactly when it destroyed them all; after a failure no other command is run.\<close>

lemma destroy_dependents_exact:
  assumes "run_state (destroy_dependents exec pool p) m = ((gone, all), m')"
  shows "if plan_ok p
    then \<exists>k \<le> length (dpl_order p). gone = map dp_rel (take k (dpl_order p))
      \<and> m_issued m' = m_issued m
          @ map (\<lambda>x. destroy_line pool (dp_rel x)) (take (if all then k else Suc k) (dpl_order p))
      \<and> all = (k = length (dpl_order p))
    else gone = [] \<and> \<not> all \<and> m' = m"
  using assms destroy_each_run [of exec pool "dpl_order p" "[]" m gone all m']
  by (auto simp: destroy_dependents_def split: if_splits)

lemma rollback_blockers_iff:
  "rollback_blockers dst rel newer = [] \<longleftrightarrow> (\<forall>(r, d) \<in> set dst. \<forall>n \<in> set newer. d_clone_of d \<noteq> rel @ n)"
  by (auto simp: rollback_blockers_def filter_empty_conv)

end
