(* ===== verification/Reclaim.thy ===== *)
theory Reclaim
  imports Dependents
begin

text \<open>
  \<open>lib/reclaim.py\<close>: snapshots removed from a backup drive: what they would free, and their destroy
  by exact name, grouped per dataset. The shell is the parameter \<open>exec\<close>; \<open>late\<close> is the reading of
  the clock against a deadline. The wait for a pool to finish freeing (\<open>wait_freed\<close>) only sleeps and
  reads, and is left out.
\<close>

section \<open>What removals would free\<close>

definition DESTROY_GROUP :: nat where
  "DESTROY_GROUP = 100"

text \<open>\<open>dict.fromkeys\<close>: the first of each, in order.\<close>

definition first_of_each :: "string list \<Rightarrow> string list" where
  "first_of_each xs = foldl (\<lambda>out x. if x \<in> set out then out else out @ [x]) [] xs"

definition dry_run_command :: "string \<Rightarrow> string list \<Rightarrow> cmd" where
  "dry_run_command ds snaps =
     Line (''zfs destroy -nvp '' @ quote (ds @ ''@'' @ join_on '','' (first_of_each snaps)))"

fun reclaim_line :: "string list \<Rightarrow> int option" where
  "reclaim_line [] = None"
| "reclaim_line (l # ls) =
     (case split_on (CHR 0x09) l of
        [a, b] \<Rightarrow> if a = ''reclaim'' \<and> isdigit b then Some (int (dec_val b)) else reclaim_line ls
      | _ \<Rightarrow> reclaim_line ls)"

definition dry_run :: "'w shell \<Rightarrow> string \<Rightarrow> string list \<Rightarrow> (('w, 'z) machine_scheme, int option) action" where
  "dry_run exec ds snaps = do {
     r \<leftarrow> run exec (dry_run_command ds snaps);
     State_Monad.return (if ok r then reclaim_line (result_lines r) else None)
   }"

definition by_dataset :: "string list \<Rightarrow> (string, string list) dict" where
  "by_dataset names =
     foldl (\<lambda>m full. case partition_on (CHR ''@'') full of (ds, _, sn) \<Rightarrow> dict_push ds sn m) [] names"

definition freeing :: "'w shell \<Rightarrow> string \<Rightarrow> (('w, 'z) machine_scheme, int) action" where
  "freeing exec pool = do {
     r \<leftarrow> run exec (Line (''zpool get -Hp -o value freeing '' @ pool));
     State_Monad.return (if ok r \<and> isdigit (rr_output r) then int (dec_val (rr_output r)) else 0)
   }"

fun sum_dry_runs :: "'w shell \<Rightarrow> (string \<times> string list) list \<Rightarrow> int \<Rightarrow> (('w, 'z) machine_scheme, int) action" where
  "sum_dry_runs exec [] tot = State_Monad.return tot"
| "sum_dry_runs exec ((ds, snaps) # rows) tot = do {
     got \<leftarrow> dry_run exec ds snaps;
     sum_dry_runs exec rows (tot + (case got of None \<Rightarrow> 0 | Some n \<Rightarrow> n))
   }"

definition reclaim_names :: "'w shell \<Rightarrow> string list \<Rightarrow> (('w, 'z) machine_scheme, int) action" where
  "reclaim_names exec names = sum_dry_runs exec (sort_key fst (by_dataset names)) 0"

definition used_bytes :: "'w shell \<Rightarrow> string \<Rightarrow> (('w, 'z) machine_scheme, int option) action" where
  "used_bytes exec name = do {
     r \<leftarrow> run exec (Line (''zfs list -Hp -o used '' @ quote name));
     State_Monad.return (if ok r \<and> isdigit (rr_output r) then Some (int (dec_val (rr_output r))) else None)
   }"

fun sum_used :: "'w shell \<Rightarrow> string \<Rightarrow> string list \<Rightarrow> int \<Rightarrow> (('w, 'z) machine_scheme, int) action" where
  "sum_used exec pool [] tot = State_Monad.return tot"
| "sum_used exec pool (t # ts) tot = do {
     got \<leftarrow> used_bytes exec (pool @ ''/'' @ t);
     sum_used exec pool ts (tot + (case got of None \<Rightarrow> 0 | Some n \<Rightarrow> n))
   }"

definition removal_names :: "string \<Rightarrow> removal list \<Rightarrow> string list \<Rightarrow> string list" where
  "removal_names pool removals tops =
     map (\<lambda>r. pool @ ''/'' @ target r) (filter (\<lambda>r. \<not> under_any (rm_rel r) tops) removals)"

definition reclaim :: "'w shell \<Rightarrow> string \<Rightarrow> removal list \<Rightarrow> string list \<Rightarrow> (('w, 'z) machine_scheme, int) action" where
  "reclaim exec pool removals tops = do {
     tot \<leftarrow> reclaim_names exec (removal_names pool removals tops);
     sum_used exec pool tops tot
   }"

text \<open>\<open>measure\<close>: exactly or not at all; the second component counts the dry runs (\<open>tally\<close>).\<close>

fun measure_rows ::
    "'w shell \<Rightarrow> ('w \<Rightarrow> bool) \<Rightarrow> (string \<times> string list) list \<Rightarrow> int \<Rightarrow> nat
      \<Rightarrow> (('w, 'z) machine_scheme, int option \<times> nat) action" where
  "measure_rows exec late [] tot tally = State_Monad.return (Some tot, tally)"
| "measure_rows exec late ((ds, snaps) # rows) tot tally = do {
     m \<leftarrow> State_Monad.get;
     if late (m_world m) then State_Monad.return (None, tally)
     else do {
       got \<leftarrow> dry_run exec ds snaps;
       case got of None \<Rightarrow> State_Monad.return (None, tally + 1)
       | Some n \<Rightarrow> measure_rows exec late rows (tot + n) (tally + 1)
     }
   }"

fun measure_used ::
    "'w shell \<Rightarrow> string \<Rightarrow> string list \<Rightarrow> int \<Rightarrow> (('w, 'z) machine_scheme, int option) action" where
  "measure_used exec pool [] tot = State_Monad.return (Some tot)"
| "measure_used exec pool (t # ts) tot = do {
     got \<leftarrow> used_bytes exec (pool @ ''/'' @ t);
     case got of None \<Rightarrow> State_Monad.return None | Some n \<Rightarrow> measure_used exec pool ts (tot + n)
   }"

definition measure_removals ::
    "'w shell \<Rightarrow> ('w \<Rightarrow> bool) \<Rightarrow> string \<Rightarrow> removal list \<Rightarrow> string list
      \<Rightarrow> (('w, 'z) machine_scheme, int option \<times> nat) action" where
  "measure_removals exec late pool removals tops = do {
     rows \<leftarrow> measure_rows exec late (sort_key fst (by_dataset (removal_names pool removals tops))) 0 0;
     case rows of
       (None, tally) \<Rightarrow> State_Monad.return (None, tally)
     | (Some tot, tally) \<Rightarrow> do {
         got \<leftarrow> measure_used exec pool tops tot;
         State_Monad.return (got, tally)
       }
   }"


section \<open>Destroys by exact name\<close>

fun chunks :: "nat \<Rightarrow> nat \<Rightarrow> 'a list \<Rightarrow> 'a list list" where
  "chunks k 0 xs = []"
| "chunks k (Suc n) xs = (if xs = [] then [] else take k xs # chunks k n (drop k xs))"

definition destroy_names :: "string \<Rightarrow> string list \<Rightarrow> cmd" where
  "destroy_names ds names = Line (''zfs destroy '' @ quote (ds @ ''@'' @ join_on '','' names))"

definition destroy_one :: "string \<Rightarrow> cmd" where
  "destroy_one t = Line (''zfs destroy '' @ quote t)"

text \<open>The targets grouped by dataset; bookmarks and malformed names go one by one.\<close>

definition grouped :: "(string \<times> string) list \<Rightarrow> (string, (string \<times> string) list) dict" where
  "grouped targets =
     foldl (\<lambda>m (tgt, reason). case partition_on (CHR ''@'') tgt of (ds, sep, name) \<Rightarrow>
         if sep \<and> CHR ''#'' \<notin> set tgt then dict_push ds (name, reason) m else m) [] targets"

definition lone :: "(string \<times> string) list \<Rightarrow> (string \<times> string) list" where
  "lone targets = filter (\<lambda>(tgt, reason). \<not> (CHR ''@'' \<in> set tgt \<and> CHR ''#'' \<notin> set tgt)) targets"

fun destroy_chunks ::
    "'w shell \<Rightarrow> string \<Rightarrow> (string \<times> string) list list \<Rightarrow> nat \<Rightarrow> (string \<times> string) list
      \<Rightarrow> (('w, 'z) machine_scheme, nat \<times> (string \<times> string) list) action" where
  "destroy_chunks exec ds [] cnt singles = State_Monad.return (cnt, singles)"
| "destroy_chunks exec ds (chunk # rest) cnt singles =
     (if length chunk = 1
      then destroy_chunks exec ds rest cnt
             (singles @ map (\<lambda>(name, reason). (ds @ ''@'' @ name, reason)) chunk)
      else do {
        r \<leftarrow> run exec (destroy_names ds (map fst chunk));
        if ok r then destroy_chunks exec ds rest (cnt + length chunk) singles
        else destroy_chunks exec ds rest cnt
               (singles @ map (\<lambda>(name, reason). (ds @ ''@'' @ name, reason)) chunk)
      })"

fun destroy_groups ::
    "'w shell \<Rightarrow> (string \<times> (string \<times> string) list) list \<Rightarrow> nat \<Rightarrow> (string \<times> string) list
      \<Rightarrow> (('w, 'z) machine_scheme, nat \<times> (string \<times> string) list) action" where
  "destroy_groups exec [] cnt singles = State_Monad.return (cnt, singles)"
| "destroy_groups exec ((ds, items) # rest) cnt singles = do {
     cs \<leftarrow> destroy_chunks exec ds (chunks DESTROY_GROUP (length items) items) cnt singles;
     destroy_groups exec rest (fst cs) (snd cs)
   }"

fun destroy_singles ::
    "'w shell \<Rightarrow> (string \<times> string) list \<Rightarrow> nat \<Rightarrow> string list
      \<Rightarrow> (('w, 'z) machine_scheme, nat \<times> string list) action" where
  "destroy_singles exec [] cnt failed = State_Monad.return (cnt, failed)"
| "destroy_singles exec ((tgt, reason) # rest) cnt failed = do {
     r \<leftarrow> run exec (destroy_one tgt);
     if ok r then destroy_singles exec rest (cnt + 1) failed
     else destroy_singles exec rest cnt (failed @ [tgt])
   }"

definition destroy_snapshots ::
    "'w shell \<Rightarrow> (string \<times> string) list \<Rightarrow> (('w, 'z) machine_scheme, nat \<times> string list) action" where
  "destroy_snapshots exec targets = do {
     cs \<leftarrow> destroy_groups exec (grouped targets) 0 (lone targets);
     destroy_singles exec (snd cs) (fst cs) []
   }"

definition subtree_datasets ::
    "'w shell \<Rightarrow> string \<Rightarrow> (('w, 'z) machine_scheme, (string \<times> bool) list option) action" where
  "subtree_datasets exec t = do {
     r \<leftarrow> run exec (Line (''zfs list -H -o name,receive_resume_token -t filesystem,volume -r '' @ quote t));
     State_Monad.return (if \<not> ok r then None
       else Some (List.map_filter (\<lambda>l. case split_on (CHR 0x09) l of
           [a, b] \<Rightarrow> Some (a, b \<notin> {'''', ''-''}) | _ \<Rightarrow> None) (result_lines r)))
   }"

fun destroy_tops ::
    "'w shell \<Rightarrow> string \<Rightarrow> removal list \<Rightarrow> (string \<times> string) list \<Rightarrow> nat \<Rightarrow> string list
      \<Rightarrow> (('w, 'z) machine_scheme, nat \<times> string list) action" where
  "destroy_tops exec pool snaps [] cnt failed = State_Monad.return (cnt, failed)"
| "destroy_tops exec pool snaps ((t, why) # rest) cnt failed = do {
     below \<leftarrow> subtree_datasets exec (pool @ ''/'' @ t);
     case below of
       None \<Rightarrow> destroy_tops exec pool snaps rest cnt (failed @ [pool @ ''/'' @ t])
     | Some _ \<Rightarrow> do {
         r \<leftarrow> run exec (Line (''zfs destroy -r '' @ quote (pool @ ''/'' @ t)));
         if ok r
         then destroy_tops exec pool snaps rest
                (cnt + length (filter (\<lambda>r. under_any (rm_rel r) [t]) snaps)) failed
         else destroy_tops exec pool snaps rest cnt (failed @ [pool @ ''/'' @ t])
       }
   }"

definition apply_prune ::
    "'w shell \<Rightarrow> string \<Rightarrow> prune \<Rightarrow> (('w, 'z) machine_scheme, nat \<times> string list) action" where
  "apply_prune exec pool p = do {
     cf \<leftarrow> destroy_snapshots exec
            (map (\<lambda>r. (pool @ ''/'' @ target r, rm_reason r))
              (filter (\<lambda>r. \<not> under_any (rm_rel r) (map fst (pr_datasets p))) (pr_snapshots p)));
     destroy_tops exec pool (pr_snapshots p) (pr_datasets p) (fst cf) (snd cf)
   }"



section \<open>Lemmas: every target is destroyed or kept\<close>

lemma run_pair:
  obtains a b m' where "run_state act m = ((a, b), m')"
  by (cases "run_state act m") auto

text \<open>
  What the code relies on of ZFS: a destroy by name removes exactly the named snapshots when it
  succeeds and nothing when it fails, one name or a comma-separated group alike
  (dsl_destroy.c checks a group as one). \<open>view\<close> reads the existing snapshots off the world.
\<close>

definition destroy_law :: "'w shell \<Rightarrow> ('w \<Rightarrow> string set) \<Rightarrow> bool" where
  "destroy_law exec view =
     ((\<forall>t w. CHR '','' \<notin> set t \<longrightarrow>
         view (snd (exec (destroy_one t) w))
           = (if ok (fst (exec (destroy_one t) w)) then view w - {t} else view w))
      \<and> (\<forall>ds names w. names \<noteq> [] \<and> CHR '','' \<notin> set ds \<and> (\<forall>n \<in> set names. CHR '','' \<notin> set n) \<longrightarrow>
         view (snd (exec (destroy_names ds names) w))
           = (if ok (fst (exec (destroy_names ds names) w))
              then view w - (\<lambda>n. ds @ ''@'' @ n) ` set names else view w)))"

lemma destroy_lawD:
  assumes "destroy_law exec view"
  shows "CHR '','' \<notin> set t \<Longrightarrow> view (snd (exec (destroy_one t) w))
      = (if ok (fst (exec (destroy_one t) w)) then view w - {t} else view w)"
    and "names \<noteq> [] \<Longrightarrow> CHR '','' \<notin> set ds \<Longrightarrow> \<forall>n \<in> set names. CHR '','' \<notin> set n \<Longrightarrow>
      view (snd (exec (destroy_names ds names) w))
        = (if ok (fst (exec (destroy_names ds names) w))
           then view w - (\<lambda>n. ds @ ''@'' @ n) ` set names else view w)"
  using assms unfolding destroy_law_def by blast+

definition full :: "string \<Rightarrow> (string \<times> string) list \<Rightarrow> (string \<times> string) list" where
  "full ds items = map (\<lambda>(name, reason). (ds @ ''@'' @ name, reason)) items"

lemma full_simps [simp]: "full ds [] = []" "full ds (xs @ ys) = full ds xs @ full ds ys" "length (full ds xs) = length xs"
  "fst ` set (full ds xs) = (\<lambda>n. ds @ ''@'' @ n) ` fst ` set xs"
  by (auto simp: full_def image_iff) force+

text \<open>How an action splits its targets: \<open>gone\<close> went and left the view, \<open>kept\<close> did not.\<close>

definition splits ::
    "('w \<Rightarrow> string set) \<Rightarrow> (string \<times> string) list \<Rightarrow> ('w, 'z) machine_scheme \<Rightarrow> ('w, 'z) machine_scheme
      \<Rightarrow> (string \<times> string) list \<Rightarrow> (string \<times> string) list \<Rightarrow> bool" where
  "splits view targets m m' gone kept =
     (mset targets = mset gone + mset kept \<and> view (m_world m') = view (m_world m) - fst ` set gone)"

lemma splits_trans:
  "splits view t1 m m1 g1 k1 \<Longrightarrow> splits view t2 m1 m2 g2 k2 \<Longrightarrow> splits view (t1 @ t2) m m2 (g1 @ g2) (k1 @ k2)"
  by (auto simp: splits_def)

lemma splits_gone: "splits view ts m m' gone kept \<Longrightarrow> fst ` set gone \<subseteq> fst ` set ts"
  unfolding splits_def by (metis image_mono Un_upper1 set_mset_mset set_mset_union)

lemma splits_kept: "splits view ts m m [] ts"
  by (simp add: splits_def)

lemma destroy_chunks_splits:
  assumes law: "destroy_law exec view" and ds: "CHR '','' \<notin> set ds"
    and names: "\<forall>(n, _) \<in> set (concat cks). CHR '','' \<notin> set n" and ne: "[] \<notin> set cks"
    and r: "run_state (destroy_chunks exec ds cks c0 s0) m = ((c, s), m')"
  shows "\<exists>gone kept. splits view (full ds (concat cks)) m m' gone kept \<and> c = c0 + length gone \<and> s = s0 @ kept"
  using names ne r
proof (induction cks arbitrary: c0 s0 m)
  case Nil
  then show ?case by (auto simp: splits_def)
next
  case (Cons ck cks)
  have keep: "\<exists>gone kept. splits view (full ds (concat (ck # cks))) m m' gone kept \<and> c = c0 + length gone \<and> s = s0 @ kept"
    if run: "run_state (destroy_chunks exec ds cks c0 (s0 @ full ds ck)) m1 = ((c, s), m')"
      and v: "view (m_world m1) = view (m_world m)" for m1 :: "('a, 'b) machine_scheme"
  proof -
    from Cons.IH [OF _ _ run] Cons.prems obtain gone kept where
      "splits view (full ds (concat cks)) m1 m' gone kept" "c = c0 + length gone" "s = (s0 @ full ds ck) @ kept" by auto
    moreover have "splits view (full ds ck) m m1 [] (full ds ck)" by (simp add: splits_def v)
    ultimately show ?thesis using splits_trans by (intro exI [of _ gone] exI [of _ "full ds ck @ kept"]) fastforce
  qed
  show ?case
  proof (cases "length ck = 1")
    case True
    with Cons.prems(3) keep [of m] show ?thesis by (simp add: full_def)
  next
    case False
    let ?cmd = "destroy_names ds (map fst ck)"
    let ?m = "m\<lparr>m_world := snd (exec ?cmd (m_world m)), m_issued := m_issued m @ [?cmd]\<rparr>"
    have v: "view (m_world ?m) = (if ok (fst (exec ?cmd (m_world m)))
        then view (m_world m) - fst ` set (full ds ck) else view (m_world m))"
    proof -
      have "map fst ck \<noteq> []" "\<forall>n \<in> set (map fst ck). CHR '','' \<notin> set n" using Cons.prems(1,2) by auto
      from destroy_lawD(2) [OF law this(1) ds this(2), of "m_world m"] show ?thesis by simp
    qed
    show ?thesis
    proof (cases "ok (fst (exec ?cmd (m_world m)))")
      case True
      with Cons.prems(3) \<open>length ck \<noteq> 1\<close> have run:
        "run_state (destroy_chunks exec ds cks (c0 + length ck) s0) ?m = ((c, s), m')" by (simp add: run_state_run)
      from Cons.IH [OF _ _ run] Cons.prems obtain gone kept where
        "splits view (full ds (concat cks)) ?m m' gone kept" "c = c0 + length ck + length gone" "s = s0 @ kept" by auto
      moreover have "splits view (full ds ck) m ?m (full ds ck) []" using v True by (simp add: splits_def)
      ultimately show ?thesis using splits_trans by (intro exI [of _ "full ds ck @ gone"] exI [of _ kept]) fastforce
    next
      case f: False
      with Cons.prems(3) False have
        "run_state (destroy_chunks exec ds cks c0 (s0 @ full ds ck)) ?m = ((c, s), m')" by (simp add: run_state_run full_def)
      from keep [OF this] v f show ?thesis by simp
    qed
  qed
qed


lemma chunks_concat: "0 < k \<Longrightarrow> length xs \<le> n \<Longrightarrow> concat (chunks k n xs) = xs"
  by (induction k n xs rule: chunks.induct) auto

lemma chunks_nonempty: "0 < k \<Longrightarrow> [] \<notin> set (chunks k n xs)"
  by (induction k n xs rule: chunks.induct) auto

definition flat :: "(string, (string \<times> string) list) dict \<Rightarrow> (string \<times> string) list" where
  "flat groups = concat (map (\<lambda>(ds, items). full ds items) groups)"

lemma destroy_groups_splits:
  assumes law: "destroy_law exec view"
    and names: "\<forall>(ds, items) \<in> set groups. CHR '','' \<notin> set ds \<and> (\<forall>(n, _) \<in> set items. CHR '','' \<notin> set n)"
    and r: "run_state (destroy_groups exec groups c0 s0) m = ((c, s), m')"
  shows "\<exists>gone kept. splits view (flat groups) m m' gone kept \<and> c = c0 + length gone \<and> s = s0 @ kept"
  using names r
proof (induction groups arbitrary: c0 s0 m)
  case Nil
  then show ?case by (auto simp: splits_def flat_def)
next
  case (Cons g groups)
  obtain ds items where g: "g = (ds, items)" by fastforce
  let ?cks = "chunks DESTROY_GROUP (length items) items"
  have cks: "concat ?cks = items" "[] \<notin> set ?cks"
    by (simp_all add: chunks_concat chunks_nonempty DESTROY_GROUP_def)
  obtain c1 s1 m1 where one: "run_state (destroy_chunks exec ds ?cks c0 s0) m = ((c1, s1), m1)"
    by (metis surj_pair)
  with Cons.prems(2) g have two: "run_state (destroy_groups exec groups c1 s1) m1 = ((c, s), m')" by simp
  have "CHR '','' \<notin> set ds" "\<forall>(n, _) \<in> set (concat ?cks). CHR '','' \<notin> set n"
    using Cons.prems(1) g cks(1) by auto
  from destroy_chunks_splits [OF law this cks(2) one] obtain g1 k1 where
    "splits view (full ds items) m m1 g1 k1" "c1 = c0 + length g1" "s1 = s0 @ k1" unfolding cks(1) by blast
  moreover from Cons.IH [OF _ two] Cons.prems(1) obtain g2 k2 where
    "splits view (flat groups) m1 m' g2 k2" "c = c1 + length g2" "s = s1 @ k2" by auto
  moreover have "flat (g # groups) = full ds items @ flat groups" by (simp add: flat_def g)
  ultimately show ?case
    using splits_trans by (intro exI [of _ "g1 @ g2"] exI [of _ "k1 @ k2"]) (fastforce simp del: full_simps)
qed

lemma destroy_singles_splits:
  assumes law: "destroy_law exec view" and names: "\<forall>(t, _) \<in> set ss. CHR '','' \<notin> set t"
    and r: "run_state (destroy_singles exec ss c0 f0) m = ((c, f), m')"
  shows "\<exists>gone kept. splits view ss m m' gone kept \<and> c = c0 + length gone \<and> f = f0 @ map fst kept"
  using names r
proof (induction ss arbitrary: c0 f0 m)
  case Nil
  then show ?case by (auto simp: splits_def)
next
  case (Cons tr ss)
  obtain t reason where tr: "tr = (t, reason)" by fastforce
  let ?m = "m\<lparr>m_world := snd (exec (destroy_one t) (m_world m)), m_issued := m_issued m @ [destroy_one t]\<rparr>"
  have v: "view (m_world ?m) = (if ok (fst (exec (destroy_one t) (m_world m)))
      then view (m_world m) - {t} else view (m_world m))"
    using destroy_lawD(1) [OF law, of t "m_world m"] Cons.prems(1) tr by auto
  show ?case
  proof (cases "ok (fst (exec (destroy_one t) (m_world m)))")
    case True
    with Cons.prems(2) tr have "run_state (destroy_singles exec ss (c0 + 1) f0) ?m = ((c, f), m')"
      by (simp add: run_state_run)
    from Cons.IH [OF _ this] Cons.prems(1) obtain gone kept where
      "splits view ss ?m m' gone kept" "c = c0 + 1 + length gone" "f = f0 @ map fst kept" by auto
    moreover have "splits view [tr] m ?m [tr] []" using v True by (simp add: splits_def tr)
    ultimately show ?thesis
      using splits_trans [of view "[tr]" m ?m "[tr]" "[]" ss m' gone kept]
      by (intro exI [of _ "tr # gone"] exI [of _ kept]) simp
  next
    case False
    with Cons.prems(2) tr have "run_state (destroy_singles exec ss c0 (f0 @ [t])) ?m = ((c, f), m')"
      by (simp add: run_state_run)
    from Cons.IH [OF _ this] Cons.prems(1) obtain gone kept where
      "splits view ss ?m m' gone kept" "c = c0 + length gone" "f = (f0 @ [t]) @ map fst kept" by auto
    moreover have "splits view [tr] m ?m [] [tr]" using v False by (simp add: splits_def tr)
    ultimately show ?thesis
      using splits_trans [of view "[tr]" m ?m "[]" "[tr]" ss m' gone kept]
      by (intro exI [of _ gone] exI [of _ "tr # kept"]) (simp add: tr)
  qed
qed

text \<open>Grouping by dataset keeps every target.\<close>

lemma partition_on_join: "c \<in> set s \<Longrightarrow> partition_on c s = (a, b, d) \<Longrightarrow> s = a @ [c] @ d \<and> b"
proof -
  assume c: "c \<in> set s" and p: "partition_on c s = (a, b, d)"
  from c obtain u v where uv: "s = u @ c # v" "c \<notin> set u" by (meson split_list_first)
  with p show ?thesis by (simp add: partition_on_sep)
qed

lemma partition_on_none: "c \<notin> set s \<Longrightarrow> partition_on c s = (a, b, d) \<Longrightarrow> \<not> b"
  by (auto simp: partition_on_def Let_def dropWhile_eq_Nil_conv)

lemma flat_push:
  "wf_dict m \<Longrightarrow> mset (flat (dict_push ds x m)) = mset (flat m) + mset (full ds [x])"
proof (induction m)
  case Nil
  then show ?case by (simp add: flat_def dict_push_def dict_set_def dict_get_or_def)
next
  case (Cons kv m)
  obtain k v where kv: "kv = (k, v)" by fastforce
  show ?case
  proof (cases "k = ds")
    case True
    then show ?thesis by (simp add: kv flat_def dict_push_def dict_set_def dict_get_or_def)
  next
    case False
    then have "dict_push ds x (kv # m) = kv # dict_push ds x m"
      by (simp add: kv dict_push_def dict_set_def dict_get_or_def)
    moreover have "wf_dict m" using Cons.prems by (simp add: wf_dict_def dict_keys_def)
    ultimately show ?thesis using Cons.IH by (simp add: flat_def)
  qed
qed

lemma grouped_snoc:
  "grouped (targets @ [(tgt, reason)]) =
     (case partition_on (CHR ''@'') tgt of (ds, sep, name) \<Rightarrow>
        if sep \<and> CHR ''#'' \<notin> set tgt then dict_push ds (name, reason) (grouped targets) else grouped targets)"
  unfolding grouped_def foldl_append by simp

lemma grouped_ok:
  "wf_dict (grouped targets) \<and> mset (flat (grouped targets)) + mset (lone targets) = mset targets"
proof (induction targets rule: rev_induct)
  case Nil
  then show ?case by (simp add: grouped_def lone_def flat_def)
next
  case (snoc tr targets)
  obtain tgt reason where tr: "tr = (tgt, reason)" by fastforce
  obtain ds sep name where p: "partition_on (CHR ''@'') tgt = (ds, sep, name)" by (metis surj_pair)
  show ?case
  proof (cases "CHR ''@'' \<in> set tgt \<and> CHR ''#'' \<notin> set tgt")
    case True
    then have t: "tgt = ds @ ''@'' @ name" "sep" using partition_on_join [OF _ p] by auto
    have "grouped (targets @ [tr]) = dict_push ds (name, reason) (grouped targets)"
      unfolding tr grouped_snoc p using True t(2) by simp
    with snoc True t show ?thesis by (simp add: tr flat_push full_def lone_def)
  next
    case False
    then have "\<not> (sep \<and> CHR ''#'' \<notin> set tgt)" using partition_on_none [OF _ p] by blast
    then have "grouped (targets @ [tr]) = grouped targets" by (auto simp: tr grouped_snoc p)
    with snoc False show ?thesis by (auto simp: tr lone_def)
  qed
qed



section \<open>Properties: what is removed and what is reported\<close>

lemma flat_names:
  assumes "(ds, items) \<in> set groups" "(n, reason) \<in> set items"
  shows "ds @ ''@'' @ n \<in> fst ` set (flat groups)"
  using assms by (force simp: flat_def full_def)

lemma destroy_snapshots_splits:
  assumes law: "destroy_law exec view" and names: "\<forall>(t, _) \<in> set targets. CHR '','' \<notin> set t"
    and items: "[] \<notin> snd ` set (grouped targets)"
    and r: "run_state (destroy_snapshots exec targets) m = ((c, failed), m')"
  shows "\<exists>gone kept. splits view targets m m' gone kept \<and> c = length gone \<and> mset failed = mset (map fst kept)"
proof -
  let ?g = "grouped targets"
  have perm: "mset targets = mset (flat ?g) + mset (lone targets)" using grouped_ok [of targets] by simp
  then have set: "set (flat ?g) \<subseteq> set targets" "set (lone targets) \<subseteq> set targets"
    by (metis Un_upper1 Un_upper2 set_mset_mset set_mset_union)+
  obtain c1 s1 m1 where one: "run_state (destroy_groups exec ?g 0 (lone targets)) m = ((c1, s1), m1)"
    by (metis surj_pair)
  with r have two: "run_state (destroy_singles exec s1 c1 []) m1 = ((c, failed), m')"
    by (simp add: destroy_snapshots_def)
  have "CHR '','' \<notin> set ds \<and> (\<forall>(n, _) \<in> set items. CHR '','' \<notin> set n)" if g: "(ds, items) \<in> set ?g" for ds items
  proof -
    have "CHR '','' \<notin> set (ds @ ''@'' @ n)" if "(n, reason) \<in> set items" for n reason
      using flat_names [OF g that] set(1) names by fastforce
    moreover have "items \<noteq> []" using g assms(3) by force
    ultimately show ?thesis by (cases items) auto
  qed
  then have "\<forall>(ds, items) \<in> set ?g. CHR '','' \<notin> set ds \<and> (\<forall>(n, _) \<in> set items. CHR '','' \<notin> set n)" by blast
  from destroy_groups_splits [OF law this one] obtain g1 k1 where
    g1: "splits view (flat ?g) m m1 g1 k1" "c1 = length g1" "s1 = lone targets @ k1" by auto
  have "set k1 \<subseteq> set (flat ?g)"
    using g1(1) unfolding splits_def by (metis Un_upper2 set_mset_mset set_mset_union)
  with set g1(3) have "set s1 \<subseteq> set targets" by auto
  with names have "\<forall>(t, _) \<in> set s1. CHR '','' \<notin> set t" by blast
  from destroy_singles_splits [OF law this two] obtain g2 k2 where
    g2: "splits view s1 m1 m' g2 k2" "c = c1 + length g2" "failed = map fst k2" by auto
  have "mset targets = mset (g1 @ g2) + mset k2"
    using perm g1(1,3) g2(1) by (auto simp: splits_def ac_simps)
  moreover have "view (m_world m') = view (m_world m) - fst ` set (g1 @ g2)"
    using g1(1) g2(1) by (auto simp: splits_def)
  ultimately show ?thesis
    using g1(2) g2(2,3) by (intro exI [of _ "g1 @ g2"] exI [of _ k2]) (simp add: splits_def)
qed

lemma grouped_items: "[] \<notin> snd ` set (grouped targets)"
proof (induction targets rule: rev_induct)
  case Nil
  then show ?case by (simp add: grouped_def)
next
  case (snoc tr targets)
  have push: "[] \<notin> snd ` set (dict_push k x m)" if "[] \<notin> snd ` set m" for k :: string and x :: "string \<times> string" and m
    using that by (induction m) (auto simp: dict_push_def dict_set_def dict_get_or_def split: if_splits option.splits)
  obtain tgt reason where tr: "tr = (tgt, reason)" by fastforce
  obtain ds sep name where p: "partition_on (CHR ''@'') tgt = (ds, sep, name)" by (metis surj_pair)
  show ?case using snoc push by (simp add: tr grouped_snoc p)
qed

text \<open>What the program reports as removed is what went. For distinct targets the snapshots left
  on the drive are those before it without the targets that are not reported as failed, every
  target is either counted or reported, and nothing else is touched: a group that ZFS refuses as
  one is retried name by name.\<close>

lemma destroy_snapshots_exact:
  assumes "destroy_law exec view" and "\<forall>(t, _) \<in> set targets. CHR '','' \<notin> set t"
    and "distinct (map fst targets)"
    and "run_state (destroy_snapshots exec targets) m = ((c, failed), m')"
  shows "view (m_world m') = view (m_world m) - (fst ` set targets - set failed)
    \<and> set failed \<subseteq> fst ` set targets \<and> c + length failed = length targets"
proof -
  from destroy_snapshots_splits [OF assms(1,2) grouped_items assms(4)] obtain gone kept where
    s: "splits view targets m m' gone kept" "c = length gone" "mset failed = mset (map fst kept)" by blast
  have f: "set failed = fst ` set kept" by (metis s(3) set_map set_mset_mset)
  have p: "mset targets = mset (gone @ kept)" using s(1) by (simp add: splits_def)
  from arg_cong [OF p, of "image_mset fst"] have "mset (map fst targets) = mset (map fst (gone @ kept))" by simp
  from mset_eq_imp_distinct_iff [OF this] assms(3) have "fst ` set gone \<inter> fst ` set kept = {}" by auto
  moreover have "set targets = set gone \<union> set kept" by (metis p set_append set_mset_mset)
  moreover have "view (m_world m') = view (m_world m) - fst ` set gone" using s(1) by (simp add: splits_def)
  moreover have "length targets = length gone + length kept" by (metis length_append mset_eq_length p)
  moreover have "length failed = length kept" by (metis length_map mset_eq_length s(3))
  ultimately show ?thesis using f s(2) by auto
qed


text \<open>A drive on which only \<open>p/a@x\<close> can be destroyed.\<close>

definition ex_shell :: "string list shell" where
  "ex_shell c w = (if c = destroy_one ''p/a@x''
     then (\<lparr>rr_returncode = 0, rr_stdout = '''', rr_stderr = ''''\<rparr>, removeAll ''p/a@x'' w)
     else (\<lparr>rr_returncode = 1, rr_stdout = '''', rr_stderr = ''busy''\<rparr>, w))"

lemma quote_safe: "list_all is_safe_char s \<Longrightarrow> s \<noteq> '''' \<Longrightarrow> quote t = s \<longleftrightarrow> t = s"
proof
  assume s: "list_all is_safe_char s" "s \<noteq> ''''" and q: "quote t = s"
  have "\<not> is_safe_char (CHR 0x27)" by code_simp
  with s(1) have "CHR 0x27 \<notin> set s" by (auto simp: list_all_iff)
  moreover have "\<not> (t \<noteq> '''' \<and> list_all is_safe_char t) \<Longrightarrow> CHR 0x27 \<in> set (quote t)"
    by (auto simp: quote_def)
  ultimately have "t \<noteq> '''' \<and> list_all is_safe_char t" using q by blast
  with q show "t = s" by (simp add: quote_def)
qed (simp add: quote_def)

lemma destroy_one_eq: "destroy_one t = destroy_one ''p/a@x'' \<longleftrightarrow> t = ''p/a@x''"
proof -
  have "list_all is_safe_char ''p/a@x''" by code_simp
  then have "quote ''p/a@x'' = ''p/a@x''" "quote t = ''p/a@x'' \<longleftrightarrow> t = ''p/a@x''"
    by (simp_all add: quote_safe)
  then show ?thesis by (simp add: destroy_one_def)
qed

lemma destroy_names_one: "destroy_names ds names = destroy_one (ds @ ''@'' @ join_on '','' names)"
  by (simp add: destroy_names_def destroy_one_def)

lemma join_comma: "length (names :: string list) \<ge> 2 \<Longrightarrow> CHR '','' \<in> set (join_on '','' names)"
proof -
  assume "length names \<ge> 2"
  then obtain a b rest where "names = a # b # rest" by (cases names; cases "tl names") auto
  then show ?thesis by simp
qed

lemma ex_shell_law: "destroy_law ex_shell set"
proof -

  have "set (snd (ex_shell (destroy_names ds names) w)) = (if ok (fst (ex_shell (destroy_names ds names) w))
      then set w - (\<lambda>n. ds @ ''@'' @ n) ` set names else set w)" if "names \<noteq> []" for ds names w
  proof (cases "ds @ ''@'' @ join_on '','' names = ''p/a@x''")
    case True
    have "CHR '','' \<notin> set ''p/a@x''" by simp
    then have "CHR '','' \<notin> set (ds @ ''@'' @ join_on '','' names)" unfolding True .
    then have "CHR '','' \<notin> set (join_on '','' names)" by simp
    then have "length names < 2" using join_comma [of names] by linarith
    with that obtain n where "names = [n]" by (cases names) auto
    with True show ?thesis by (simp add: ex_shell_def destroy_names_one ok_def)
  next
    case False
    then show ?thesis by (simp add: ex_shell_def destroy_names_one destroy_one_eq ok_def)
  qed
  then show ?thesis by (simp add: destroy_law_def ex_shell_def destroy_one_eq ok_def)
qed

section \<open>Properties: a retention pass carried out\<close>

text \<open>
  The other two commands of a pass: the recursive destroy takes everything at and below the named
  dataset or nothing, and a listing changes nothing.
\<close>

definition list_line :: "string \<Rightarrow> cmd" where
  "list_line t = Line (''zfs list -H -o name,receive_resume_token -t filesystem,volume -r '' @ quote t)"

definition destroy_r_line :: "string \<Rightarrow> cmd" where
  "destroy_r_line t = Line (''zfs destroy -r '' @ quote t)"

definition pass_law :: "'w shell \<Rightarrow> ('w \<Rightarrow> string set) \<Rightarrow> bool" where
  "pass_law exec view =
     (destroy_law exec view
      \<and> (\<forall>t w. view (snd (exec (list_line t) w)) = view w)
      \<and> (\<forall>t w. view (snd (exec (destroy_r_line t) w))
           = (if ok (fst (exec (destroy_r_line t) w))
              then {s \<in> view w. \<not> under (dataset_of s) t} else view w)))"

text \<open>What the drive holds: the full names of the snapshots that were read.\<close>

definition held :: "string \<Rightarrow> (string, dest) dict \<Rightarrow> string set" where
  "held pool dst =
     set (concat (map (\<lambda>(rel, d). map (\<lambda>s. pool @ ''/'' @ rel @ ''@'' @ r_name s) (d_snaps d)) dst))"

lemma destroy_tops_view:
  assumes law: "pass_law exec view"
    and r: "run_state (destroy_tops exec pool snaps tops c0 f0) m = ((c, f), m')"
  shows "view (m_world m') \<subseteq> view (m_world m)
    \<and> (\<forall>s \<in> view (m_world m) - view (m_world m'). \<exists>t \<in> fst ` set tops. under (dataset_of s) (pool @ ''/'' @ t))"
  using r
proof (induction tops arbitrary: c0 f0 m)
  case Nil
  then show ?case by simp
next
  case (Cons tw tops)
  obtain t why where tw: "tw = (t, why)" by fastforce
  let ?p = "pool @ ''/'' @ t"
  obtain b m1 where sub: "run_state (subtree_datasets exec ?p) m = (b, m1)" by fastforce
  have m1: "view (m_world m1) = view (m_world m)"
    using sub law unfolding subtree_datasets_def pass_law_def list_line_def by (auto simp: run_state_run)
  have step: ?case
    if "run_state (destroy_tops exec pool snaps tops c1 f1) m2 = ((c, f), m')"
      and "view (m_world m2) \<subseteq> view (m_world m)"
      and "\<forall>s \<in> view (m_world m) - view (m_world m2). under (dataset_of s) ?p" for c1 f1 m2
    using Cons.IH [OF that(1)] that(2,3) unfolding tw by (simp, blast)
  show ?case
  proof (cases b)
    case None
    with Cons.prems sub tw have "run_state (destroy_tops exec pool snaps tops c0 (f0 @ [?p])) m1 = ((c, f), m')" by simp
    from step [OF this] m1 show ?thesis by simp
  next
    case (Some l)
    let ?m2 = "m1\<lparr>m_world := snd (exec (destroy_r_line ?p) (m_world m1)), m_issued := m_issued m1 @ [destroy_r_line ?p]\<rparr>"
    obtain c1 f1 where run: "run_state (destroy_tops exec pool snaps tops c1 f1) ?m2 = ((c, f), m')"
      using Cons.prems sub tw Some by (auto simp: run_state_run destroy_r_line_def split: if_splits)
    have "view (m_world ?m2) = (if ok (fst (exec (destroy_r_line ?p) (m_world m1)))
        then {s \<in> view (m_world m1). \<not> under (dataset_of s) ?p} else view (m_world m1))"
      using law unfolding pass_law_def by simp
    with m1 show ?thesis by (intro step [OF run]) (auto split: if_splits)
  qed
qed

lemma dataset_of_full:
  "CHR ''@'' \<notin> set pool \<Longrightarrow> CHR ''@'' \<notin> set rel \<Longrightarrow> dataset_of (pool @ ''/'' @ rel @ ''@'' @ n) = pool @ ''/'' @ rel"
  using partition_on_sep [of "CHR ''@''" "pool @ ''/'' @ rel" n] by (simp add: dataset_of_def)

lemma under_pool: "under (pool @ ''/'' @ rel) (pool @ ''/'' @ t) \<longleftrightarrow> under rel t"
  by (auto simp: under_def)



lemma ex_shell_pass: "pass_law ex_shell set"
proof -
  have "quote ''p/a@x'' = ''p/a@x''" by code_simp
  then have "list_line t \<noteq> destroy_one ''p/a@x''" "destroy_r_line t \<noteq> destroy_one ''p/a@x''" for t
    by (simp_all add: list_line_def destroy_r_line_def destroy_one_def)
  then show ?thesis using ex_shell_law by (simp add: pass_law_def ex_shell_def ok_def)
qed

definition ex_held :: "string list" where
  "ex_held = [''b/rpool/var@zark_2026-01-01_00:00:00Z'', ''b/rpool/var@autosnap_1_daily'',
     ''b/rpool/var@zark_2026-01-20_00:00:00Z'', ''b/rpool/var@zark_2026-04-01_00:00:00Z'']"


end
