(* ===== verification/Survey.thy ===== *)
theory Survey
  imports Reclaim
begin

text \<open>
  The reads a run plans from. \<open>lib/survey.py\<close>: the listings of origin and of a backup drive, strict
  when asked. \<open>lib/drive_marks.py\<close>: what zark records on a drive and reads back. A \<open>ReadError\<close> is
  the left side of a sum and carries its message; the listings themselves are commands of the
  shell, so every read is an action of the machine. Pool names hold no \<open>@\<close> and no \<open>#\<close>.
\<close>

section \<open>Reads that may fail\<close>

type_synonym ('m, 'a) reading = "('m, string + 'a) action"

definition on_read ::
    "('m, 'a) reading \<Rightarrow> ('a \<Rightarrow> ('m, 'b) reading) \<Rightarrow> ('m, 'b) reading" where
  "on_read act f = do { r \<leftarrow> act; case r of Inl e \<Rightarrow> State_Monad.return (Inl e) | Inr a \<Rightarrow> f a }"

definition cmd_text :: "cmd \<Rightarrow> string" where
  "cmd_text c = (case c of Line l \<Rightarrow> l | Argv ws \<Rightarrow> join_on '' '' ws)"

definition checked :: "'w shell \<Rightarrow> cmd \<Rightarrow> bool \<Rightarrow> (('w, 'z) machine_scheme, run_result) reading" where
  "checked exec c strict = do {
     r \<leftarrow> run exec c;
     State_Monad.return (if strict \<and> \<not> ok r then Inl (''could not read: '' @ cmd_text c) else Inr r)
   }"

definition ok_lines :: "run_result \<Rightarrow> string list" where
  "ok_lines r = (if ok r then result_lines r else [])"

definition tabs :: "string \<Rightarrow> string list" where
  "tabs line = split_on (CHR 0x09) line"


section \<open>Listings of snapshots and bookmarks\<close>

definition parse_ref :: "string \<Rightarrow> string \<Rightarrow> (string \<times> bool \<times> ref) option" where
  "parse_ref pre line =
     (let f = tabs line in
      if length f < 4 then None
      else (let full = f ! 0;
                snap = (CHR ''@'' \<in> set full)
            in if \<not> (snap \<or> CHR ''#'' \<in> set full) \<or> \<not> startswith full pre then None
               else (case partition_on (if snap then CHR ''@'' else CHR ''#'') (drop (length pre) full) of
                 (ds, _, name) \<Rightarrow>
                   (case (py_int (f ! 2), py_int (f ! 3)) of
                      (Some txg, Some at) \<Rightarrow>
                        Some (ds, snap, \<lparr>r_name = name, r_guid = f ! 1, r_createtxg = txg, r_creation = at\<rparr>)
                    | _ \<Rightarrow> None))))"

definition add_ref ::
    "(string, ref list \<times> ref list) dict \<Rightarrow> string \<times> bool \<times> ref \<Rightarrow> (string, ref list \<times> ref list) dict" where
  "add_ref out row = (case row of (ds, snap, r) \<Rightarrow>
     (case dict_get_or out ds ([], []) of (snaps, bms) \<Rightarrow>
        dict_set ds (if snap then (snaps @ [r], bms) else (snaps, bms @ [r])) out))"

definition parse_refs :: "string list \<Rightarrow> string \<Rightarrow> (string, ref list \<times> ref list) dict" where
  "parse_refs lines pre =
     map (\<lambda>(ds, snaps, bms). (ds, sort_key r_createtxg snaps, sort_key r_createtxg bms))
       (foldl add_ref [] (List.map_filter (parse_ref pre) lines))"


section \<open>Origin\<close>

definition source_pools :: "'w shell \<Rightarrow> (('w, 'z) machine_scheme, string list) action" where
  "source_pools exec = do {
     r \<leftarrow> run exec (Line ''zpool list -H -o name rpool'');
     b \<leftarrow> run exec (Line ''zpool list -H -o name bpool'');
     State_Monad.return ((if ok r then [''rpool''] else []) @ (if ok b then [''bpool''] else []))
   }"

definition origin_row :: "(string, origin) dict \<Rightarrow> string \<Rightarrow> (string, origin) dict" where
  "origin_row ori line =
     (let f = tabs line in
      if length f \<ge> 6
      then dict_set (f ! 0)
             \<lparr>o_rel = f ! 0, o_kind = f ! 1, o_canmount = f ! 2, o_mountpoint = f ! 3,
              o_referenced = (if isdigit (f ! 4) then int (dec_val (f ! 4)) else 0),
              o_snaps = [], o_bookmarks = [],
              o_clone_of = (if f ! 5 = ''-'' \<or> f ! 5 = '''' then '''' else f ! 5)\<rparr> ori
      else ori)"

definition origin_refs ::
    "(string, origin) dict \<Rightarrow> string \<times> ref list \<times> ref list \<Rightarrow> (string, origin) dict" where
  "origin_refs ori row = (case row of (rel, snaps, bms) \<Rightarrow>
     (case map_of ori rel of None \<Rightarrow> ori
      | Some x \<Rightarrow> dict_set rel (x\<lparr>o_snaps := snaps, o_bookmarks := bms\<rparr>) ori))"

definition origin_list :: "string \<Rightarrow> cmd" where
  "origin_list pool = Line (''zfs list -Hp -t filesystem,volume -o name,type,canmount,mountpoint,referenced,origin -r '' @ pool)"

definition origin_refs_list :: "string \<Rightarrow> cmd" where
  "origin_refs_list pool = Line (''zfs list -Hp -t snapshot,bookmark -o name,guid,createtxg,creation -r '' @ pool)"

fun read_pools ::
    "'w shell \<Rightarrow> bool \<Rightarrow> string list \<Rightarrow> (string, origin) dict
      \<Rightarrow> (('w, 'z) machine_scheme, (string, origin) dict) reading" where
  "read_pools exec strict [] ori = State_Monad.return (Inr ori)"
| "read_pools exec strict (pool # pools) ori =
     on_read (checked exec (origin_list pool) strict) (\<lambda>r.
     on_read (checked exec (origin_refs_list pool) strict) (\<lambda>s.
       read_pools exec strict pools
         (foldl origin_refs (foldl origin_row ori (ok_lines r)) (parse_refs (ok_lines s) ''''))))"

definition read_origin ::
    "'w shell \<Rightarrow> string list \<Rightarrow> bool \<Rightarrow> (('w, 'z) machine_scheme, (string, origin) dict) reading" where
  "read_origin exec pools strict = read_pools exec strict pools []"


section \<open>The drive\<close>

definition ORPHAN_PROP :: string where
  "ORPHAN_PROP = ''org.zark:orphan''"

definition EXCLUDED_KEPT_PROP :: string where
  "EXCLUDED_KEPT_PROP = ''org.zark:excluded-kept''"

definition row_text :: "string list \<Rightarrow> nat \<Rightarrow> string" where
  "row_text f i = (if length f \<le> i \<or> f ! i \<in> {''-'', ''''} then '''' else f ! i)"

definition row_number :: "string list \<Rightarrow> nat \<Rightarrow> int" where
  "row_number f i = (if length f > i \<and> isdigit (f ! i) then int (dec_val (f ! i)) else 0)"

definition dest_row :: "string \<Rightarrow> string list \<Rightarrow> dest" where
  "dest_row rel f =
     \<lparr>d_rel = rel, d_kind = f ! 1, d_token = row_text f 2, d_orphan = row_text f 3,
      d_excluded_kept = '''', d_used = row_number f 4, d_written = row_number f 5,
      d_snaps = [], d_clone_of = ''''\<rparr>"

definition dest_line :: "string \<Rightarrow> (string, dest) dict \<Rightarrow> string \<Rightarrow> (string, dest) dict" where
  "dest_line pre dst line =
     (let f = tabs line in
      if length f \<ge> 6 \<and> startswith (f ! 0) pre
      then (let rel = drop (length pre) (f ! 0);
                from_ds = (if length f > 6 then f ! 6 else ''-'')
            in dict_set rel
                 ((dest_row rel f)\<lparr>d_clone_of := (if startswith from_ds pre then drop (length pre) from_ds else '''')\<rparr>)
                 dst)
      else dst)"

definition kept_line :: "string \<Rightarrow> (string, dest) dict \<Rightarrow> string \<Rightarrow> (string, dest) dict" where
  "kept_line pre dst line =
     (let f = tabs line;
          rel = (if startswith (f ! 0) pre then drop (length pre) (f ! 0) else '''')
      in if length f = 2 \<and> f ! 1 \<notin> {'''', ''-''}
         then (case map_of dst rel of None \<Rightarrow> dst
               | Some d \<Rightarrow> dict_set rel (d\<lparr>d_excluded_kept := f ! 1\<rparr>) dst)
         else dst)"

definition dest_refs :: "(string, dest) dict \<Rightarrow> string \<times> ref list \<times> ref list \<Rightarrow> (string, dest) dict" where
  "dest_refs dst row = (case row of (rel, snaps, _) \<Rightarrow>
     (case map_of dst rel of None \<Rightarrow> dst | Some d \<Rightarrow> dict_set rel (d\<lparr>d_snaps := snaps\<rparr>) dst))"

definition dest_list :: "string \<Rightarrow> cmd" where
  "dest_list root = Line (''zfs list -Hp -t filesystem,volume -o name,type,receive_resume_token,'' @ ORPHAN_PROP
     @ '',used,written,origin -r '' @ root)"

definition kept_list :: "string \<Rightarrow> cmd" where
  "kept_list root = Line (''zfs get -H -s local -t filesystem,volume -o name,value '' @ EXCLUDED_KEPT_PROP
     @ '' -r '' @ root)"

definition snap_list :: "string \<Rightarrow> cmd" where
  "snap_list root = Line (''zfs list -Hp -t snapshot -o name,guid,createtxg,creation -r '' @ root)"

definition children_list :: "string \<Rightarrow> cmd" where
  "children_list pool = Line (''zfs list -H -o name -d 1 '' @ quote pool)"

definition roots :: "string \<Rightarrow> string list" where
  "roots pool = [pool @ ''/rpool'', pool @ ''/bpool'']"

definition read_root ::
    "'w shell \<Rightarrow> bool \<Rightarrow> string \<Rightarrow> string \<Rightarrow> (string, dest) dict
      \<Rightarrow> (('w, 'z) machine_scheme, (string, dest) dict) reading" where
  "read_root exec strict pool root dst =
     (let pre = pool @ ''/'' in
      on_read (checked exec (dest_list root) strict) (\<lambda>r.
      on_read (checked exec (kept_list root) strict) (\<lambda>k.
      on_read (checked exec (snap_list root) strict) (\<lambda>s.
        State_Monad.return (Inr (foldl dest_refs
          (foldl (kept_line pre) (foldl (dest_line pre) dst (ok_lines r)) (ok_lines k))
          (parse_refs (ok_lines s) pre)))))))"

fun read_roots ::
    "'w shell \<Rightarrow> bool \<Rightarrow> string \<Rightarrow> string list option \<Rightarrow> string list \<Rightarrow> (string, dest) dict
      \<Rightarrow> (('w, 'z) machine_scheme, (string, dest) dict) reading" where
  "read_roots exec strict pool children [] dst = State_Monad.return (Inr dst)"
| "read_roots exec strict pool children (root # rest) dst =
     (case children of
        Some cs \<Rightarrow>
          if root \<notin> set cs then read_roots exec strict pool children rest dst
          else on_read (read_root exec strict pool root dst) (read_roots exec strict pool children rest)
      | None \<Rightarrow> do {
          there \<leftarrow> run exec (Line (''zfs list -H -o name '' @ root));
          if \<not> ok there then read_roots exec strict pool children rest dst
          else on_read (read_root exec strict pool root dst) (read_roots exec strict pool children rest)
        })"

definition read_dest ::
    "'w shell \<Rightarrow> string \<Rightarrow> bool \<Rightarrow> (('w, 'z) machine_scheme, (string, dest) dict) reading" where
  "read_dest exec pool strict =
     (if strict
      then on_read (checked exec (children_list pool) strict) (\<lambda>c.
             read_roots exec strict pool (Some (result_lines c)) (roots pool) [])
      else read_roots exec strict pool None (roots pool) [])"

definition used_line :: "string \<Rightarrow> (string, int) dict \<Rightarrow> string \<Rightarrow> (string, int) dict" where
  "used_line pre out line =
     (let f = tabs line in
      if length f = 2 \<and> startswith (f ! 0) pre \<and> CHR ''@'' \<in> set (f ! 0) \<and> isdigit (f ! 1)
      then dict_set (drop (length pre) (f ! 0)) (int (dec_val (f ! 1))) out else out)"

fun read_used ::
    "'w shell \<Rightarrow> string \<Rightarrow> string list \<Rightarrow> string list \<Rightarrow> (string, int) dict
      \<Rightarrow> (('w, 'z) machine_scheme, (string, int) dict) reading" where
  "read_used exec pool children [] out = State_Monad.return (Inr out)"
| "read_used exec pool children (root # rest) out =
     (if root \<notin> set children then read_used exec pool children rest out
      else on_read (checked exec (Line (''zfs list -Hp -t snapshot -o name,used -r '' @ quote root)) True) (\<lambda>r.
             read_used exec pool children rest (foldl (used_line (pool @ ''/'')) out (result_lines r))))"

definition read_dest_used ::
    "'w shell \<Rightarrow> string \<Rightarrow> (('w, 'z) machine_scheme, (string, int) dict) reading" where
  "read_dest_used exec pool =
     on_read (checked exec (children_list pool) True) (\<lambda>c.
       read_used exec pool (result_lines c) (roots pool) [])"

definition bookmark_feature :: "'w shell \<Rightarrow> string \<Rightarrow> (('w, 'z) machine_scheme, string) action" where
  "bookmark_feature exec pool = do {
     r \<leftarrow> run exec (Line (''zpool get -H -o value feature@bookmark_v2 '' @ pool));
     State_Monad.return (if ok r then rr_output r else '''')
   }"

text \<open>\<open>require_bookmark_v2\<close>: \<open>False\<close> is the refusal (\<open>log.fatal\<close>).\<close>

definition require_bookmark_v2 :: "'w shell \<Rightarrow> (('w, 'z) machine_scheme, bool) action" where
  "require_bookmark_v2 exec = do {
     st \<leftarrow> bookmark_feature exec ''rpool'';
     State_Monad.return (st \<in> {''enabled'', ''active''})
   }"



section \<open>Lemmas: reads issue listings only\<close>

definition is_read :: "cmd \<Rightarrow> bool" where
  "is_read c = (case c of
      Line l \<Rightarrow> list_ex (startswith l) [''zfs list '', ''zfs get '', ''zpool list '', ''zpool get '']
    | _ \<Rightarrow> False)"


lemma is_read_append: "is_read (Line a) \<Longrightarrow> is_read (Line (a @ b))"
  by (auto simp: is_read_def startswith_def)

lemma is_read_lines [simp]:
  "is_read (origin_list pool)" "is_read (origin_refs_list pool)" "is_read (dest_list root)"
  "is_read (kept_list root)" "is_read (snap_list root)" "is_read (children_list pool)"
  by (simp_all add: is_read_def startswith_def origin_list_def origin_refs_list_def dest_list_def
      kept_list_def snap_list_def children_list_def)

lemma issues_on_read [issues_rules]:
  "issues P act \<Longrightarrow> (\<And>a. issues P (f a)) \<Longrightarrow> issues P (on_read act f)"
  unfolding on_read_def by (intro issues_rules)

lemma issues_checked [issues_rules]: "P c \<Longrightarrow> issues P (checked exec c strict)"
  unfolding checked_def by (intro issues_rules)

lemma read_line [simp]:
  "is_read (Line (''zfs list '' @ s))" "is_read (Line (''zfs get '' @ s))"
  "is_read (Line (''zpool list '' @ s))" "is_read (Line (''zpool get '' @ s))"
  by (simp_all add: is_read_def startswith_def)

lemma issues_read_origin [issues_rules]: "issues is_read (read_origin exec pools strict)"
proof -
  have "issues is_read (read_pools exec strict pools ori)" for ori
    by (induction pools arbitrary: ori) (auto intro!: issues_rules)
  then show ?thesis by (simp add: read_origin_def)
qed

lemma issues_read_dest [issues_rules]: "issues is_read (read_dest exec pool strict)"
proof -
  have root: "issues is_read (read_root exec strict pool root dst)" for root dst
    unfolding read_root_def by (auto intro!: issues_rules)
  have "issues is_read (read_roots exec strict pool children rs dst)" for children rs dst
  proof (induction rs arbitrary: dst)
    case (Cons r rs)
    have "is_read (Line (''zfs list -H -o name '' @ r))" by (simp add: is_read_def startswith_def)
    with Cons root show ?case by (cases children) (auto intro!: issues_rules)
  qed (auto intro!: issues_rules)
  then show ?thesis unfolding read_dest_def by (auto intro!: issues_rules)
qed

lemma issues_source_pools [issues_rules]: "issues is_read (source_pools exec)"
  unfolding source_pools_def by (intro issues_rules) (simp_all add: is_read_def startswith_def)


section \<open>Lemmas: what the readers return\<close>

text \<open>The readers file each dataset under its own name, with its snapshots by \<open>createtxg\<close>.\<close>

definition sorted_origin :: "(string, origin) dict \<Rightarrow> bool" where
  "sorted_origin ori = (wf_origin ori \<and> (\<forall>x \<in> set (dict_values ori).
     sorted (map r_createtxg (o_snaps x)) \<and> sorted (map r_createtxg (o_bookmarks x))))"

definition sorted_dest :: "(string, dest) dict \<Rightarrow> bool" where
  "sorted_dest dst = (wf_dict dst \<and> (\<forall>(rel, d) \<in> set dst. d_rel d = rel \<and> sorted (map r_createtxg (d_snaps d))))"

lemma list_all_dict_set:
  "list_all P m \<Longrightarrow> P (k, v) \<Longrightarrow> list_all P (dict_set k v m)"
  by (induction m) (auto simp: dict_set_def)

lemma sorted_origin_list:
  "sorted_origin ori \<longleftrightarrow> wf_dict ori \<and> list_all (\<lambda>(rel, x). o_rel x = rel
     \<and> sorted (map r_createtxg (o_snaps x)) \<and> sorted (map r_createtxg (o_bookmarks x))) ori"
  by (auto simp: sorted_origin_def wf_origin_def list_all_iff dict_values_def)

lemma sorted_dest_list:
  "sorted_dest dst \<longleftrightarrow> wf_dict dst \<and> list_all (\<lambda>(rel, d). d_rel d = rel \<and> sorted (map r_createtxg (d_snaps d))) dst"
  by (simp add: sorted_dest_def list_all_iff)

lemma origin_row_ok: "sorted_origin ori \<Longrightarrow> sorted_origin (origin_row ori line)"
  by (auto simp: sorted_origin_list origin_row_def Let_def intro!: list_all_dict_set)

lemma fold_invariant: "P s \<Longrightarrow> (\<And>s x. P s \<Longrightarrow> x \<in> set xs \<Longrightarrow> P (f s x)) \<Longrightarrow> P (foldl f s xs)"
  by (induction xs arbitrary: s) auto

lemma parse_refs_sorted:
  "(ds, snaps, bms) \<in> set (parse_refs lines pre) \<Longrightarrow> sorted (map r_createtxg snaps) \<and> sorted (map r_createtxg bms)"
  by (auto simp: parse_refs_def)

lemma list_all_map_of: "list_all P m \<Longrightarrow> map_of m k = Some v \<Longrightarrow> P (k, v)"
  by (auto simp: list_all_iff dest: map_of_SomeD)

lemma origin_refs_ok:
  assumes "sorted_origin ori" "row \<in> set (parse_refs lines pre)"
  shows "sorted_origin (origin_refs ori row)"
proof -
  obtain rel snaps bms where row: "row = (rel, snaps, bms)" by (metis surj_pair)
  show ?thesis
    using assms parse_refs_sorted [of rel snaps bms lines pre] list_all_map_of
    by (fastforce simp: row sorted_origin_list origin_refs_def split: option.splits intro!: list_all_dict_set)
qed

lemma read_pools_ok:
  assumes "sorted_origin ori" "run_state (read_pools exec strict pools ori) m = (Inr ori', m')"
  shows "sorted_origin ori'"
  using assms
proof (induction pools arbitrary: ori m)
  case (Cons pool pools)
  from Cons.prems(2) obtain r s m1 where
    "run_state (read_pools exec strict pools
       (foldl origin_refs (foldl origin_row ori (ok_lines r)) (parse_refs (ok_lines s) ''''))) m1 = (Inr ori', m')"
    by (auto simp: on_read_def checked_def run_state_run split: sum.splits if_splits)
  moreover have "sorted_origin (foldl origin_refs (foldl origin_row ori (ok_lines r)) (parse_refs (ok_lines s) ''''))"
    using Cons.prems(1) by (intro fold_invariant [where P = sorted_origin] origin_row_ok origin_refs_ok)
  ultimately show ?case using Cons.IH by blast
qed simp


lemma on_read_Inr:
  assumes "run_state (on_read act f) m = (Inr b, m')"
  obtains a m1 where "run_state act m = (Inr a, m1)" "run_state (f a) m1 = (Inr b, m')"
proof -
  obtain r m1 where r: "run_state act m = (r, m1)" by fastforce
  with assms that show thesis by (cases r) (auto simp: on_read_def)
qed

lemma checked_Inr:
  assumes "run_state (checked exec c strict) m = (Inr r, m')"
  shows "r = fst (exec c (m_world m))" and "m_world m' = snd (exec c (m_world m))"
    and "m_issued m' = m_issued m @ [c]" and "strict \<Longrightarrow> ok r"
  using assms by (auto simp: checked_def run_state_run split: if_splits)

lemma dest_line_ok: "sorted_dest dst \<Longrightarrow> sorted_dest (dest_line pre dst line)"
  by (auto simp: sorted_dest_list dest_line_def dest_row_def Let_def intro!: list_all_dict_set)

lemma kept_line_ok: "sorted_dest dst \<Longrightarrow> sorted_dest (kept_line pre dst line)"
  using list_all_map_of
  by (fastforce simp: sorted_dest_list kept_line_def Let_def split: option.splits intro!: list_all_dict_set)

lemma dest_refs_ok:
  assumes "sorted_dest dst" "row \<in> set (parse_refs lines pre)"
  shows "sorted_dest (dest_refs dst row)"
proof -
  obtain rel snaps bms where row: "row = (rel, snaps, bms)" by (metis surj_pair)
  show ?thesis
    using assms parse_refs_sorted [of rel snaps bms lines pre] list_all_map_of
    by (fastforce simp: row sorted_dest_list dest_refs_def split: option.splits intro!: list_all_dict_set)
qed

lemma read_root_ok:
  assumes "sorted_dest dst" "run_state (read_root exec strict pool root dst) m = (Inr dst', m')"
  shows "sorted_dest dst'"
proof -
  let ?pre = "pool @ ''/''"
  from assms(2) obtain r k s where "dst' = foldl dest_refs
      (foldl (kept_line ?pre) (foldl (dest_line ?pre) dst (ok_lines r)) (ok_lines k)) (parse_refs (ok_lines s) ?pre)"
    unfolding read_root_def Let_def by (elim on_read_Inr) auto
  moreover have "sorted_dest \<dots>"
    using assms(1)
    by (intro fold_invariant [where P = sorted_dest] dest_line_ok kept_line_ok dest_refs_ok)
  ultimately show ?thesis by simp
qed

lemma read_roots_ok:
  assumes "sorted_dest dst" "run_state (read_roots exec strict pool children rs dst) m = (Inr dst', m')"
  shows "sorted_dest dst'"
  using assms
proof (induction rs arbitrary: dst m)
  case (Cons r rs)
  have next_root: "sorted_dest dst'"
    if "run_state (on_read (read_root exec strict pool r dst) (read_roots exec strict pool children rs)) m1 = (Inr dst', m')" for m1
    using that read_root_ok [OF Cons.prems(1)] Cons.IH by (elim on_read_Inr) blast
  show ?case
    using Cons.prems Cons.IH next_root by (cases children) (auto simp: run_state_run split: if_splits)
qed simp


section \<open>Properties: reads\<close>

lemma read_origin_sorted:
  "run_state (read_origin exec pools strict) m = (Inr ori, m') \<Longrightarrow> sorted_origin ori"
  unfolding read_origin_def by (rule read_pools_ok) (simp_all add: sorted_origin_list)

lemma read_dest_sorted:
  assumes "run_state (read_dest exec pool strict) m = (Inr dst, m')"
  shows "sorted_dest dst"
proof -
  have "sorted_dest []" by (simp add: sorted_dest_list)
  with assms read_roots_ok show "sorted_dest dst"
    unfolding read_dest_def by (cases strict) (simp_all, (elim on_read_Inr, blast)?)
qed

text \<open>C21: what the planner is given is well formed. Whatever the listings print, every dataset of
  origin and of the drive is filed once, under its own name, with its snapshots and bookmarks in
  creation order, which is what the planner's answers rest on.\<close>

theorem reads_well_formed:
  "(run_state (read_origin exec pools strict) m = (Inr ori, m') \<longrightarrow> sorted_origin ori)
   \<and> (run_state (read_dest exec pool strict) m = (Inr dst, m') \<longrightarrow> sorted_dest dst)"
  by (blast intro: read_origin_sorted read_dest_sorted)

definition ex_listing :: "unit shell" where
  "ex_listing c w = (\<lparr>rr_returncode = 0,
     rr_stdout = (if c = origin_list ''rpool'' then
         ''rpool/var'' @ [CHR 0x09] @ ''filesystem'' @ [CHR 0x09] @ ''on'' @ [CHR 0x09] @ ''/var'' @ [CHR 0x09] @ ''7'' @ [CHR 0x09] @ ''-''
       else if c = origin_refs_list ''rpool'' then
         ''rpool/var@b'' @ [CHR 0x09] @ ''g2'' @ [CHR 0x09] @ ''20'' @ [CHR 0x09] @ ''5'' @ [CHR 0x0A]
         @ ''rpool/var@a'' @ [CHR 0x09] @ ''g1'' @ [CHR 0x09] @ ''10'' @ [CHR 0x09] @ ''4''
       else ''''), rr_stderr = ''''\<rparr>, w)"

definition ex_m0 :: "unit machine" where
  "ex_m0 = \<lparr>m_world = (), m_issued = []\<rparr>"

definition ex_read :: "(string, origin) dict" where
  "ex_read = [(''rpool/var'', \<lparr>o_rel = ''rpool/var'', o_kind = ''filesystem'', o_canmount = ''on'',
     o_mountpoint = ''/var'', o_referenced = 7,
     o_snaps = [\<lparr>r_name = ''a'', r_guid = ''g1'', r_createtxg = 10, r_creation = 4\<rparr>,
                \<lparr>r_name = ''b'', r_guid = ''g2'', r_createtxg = 20, r_creation = 5\<rparr>],
     o_bookmarks = [], o_clone_of = ''''\<rparr>)]"

lemma ex_read_run: "fst (run_state (read_origin ex_listing [''rpool''] True) ex_m0) = Inr ex_read"
  by code_simp

theorem reads_well_formed_witness: "sorted_origin ex_read"
  using reads_well_formed [of ex_listing "[''rpool'']" True ex_m0 ex_read
      "snd (run_state (read_origin ex_listing [''rpool''] True) ex_m0)"] ex_read_run
  by (metis prod.collapse)


text \<open>A run of commands, and whether each one succeeded.\<close>

fun world_after :: "'w shell \<Rightarrow> cmd list \<Rightarrow> 'w \<Rightarrow> 'w" where
  "world_after exec [] w = w"
| "world_after exec (c # cs) w = world_after exec cs (snd (exec c w))"

fun all_ok :: "'w shell \<Rightarrow> cmd list \<Rightarrow> 'w \<Rightarrow> bool" where
  "all_ok exec [] w = True"
| "all_ok exec (c # cs) w = (ok (fst (exec c w)) \<and> all_ok exec cs (snd (exec c w)))"

lemma world_after_append [simp]: "world_after exec (cs @ ds) w = world_after exec ds (world_after exec cs w)"
  by (induction cs arbitrary: w) simp_all

lemma all_ok_append [simp]: "all_ok exec (cs @ ds) w \<longleftrightarrow> all_ok exec cs w \<and> all_ok exec ds (world_after exec cs w)"
  by (induction cs arbitrary: w) simp_all

text \<open>A strict reading returns after commands that all succeeded, or at the first that failed.\<close>


definition read_outcome :: "'w shell \<Rightarrow> 'w \<Rightarrow> bool \<Rightarrow> 'w \<Rightarrow> cmd list \<Rightarrow> bool" where
  "read_outcome exec w failed w' cs =
     (w' = world_after exec cs w
      \<and> (if failed then \<exists>ds c. cs = ds @ [c] \<and> all_ok exec ds w \<and> \<not> ok (fst (exec c (world_after exec ds w)))
         else all_ok exec cs w))"

definition stops_at_failure :: "'w shell \<Rightarrow> (('w, 'z) machine_scheme, 'a) reading \<Rightarrow> bool" where
  "stops_at_failure exec act = (\<forall>m r m'. run_state act m = (r, m') \<longrightarrow>
     (\<exists>cs. m_issued m' = m_issued m @ cs \<and> read_outcome exec (m_world m) (isl r) (m_world m') cs))"

lemma stops_return: "stops_at_failure exec (State_Monad.return (Inr x))"
  by (auto simp: stops_at_failure_def read_outcome_def)

lemma stops_checked: "stops_at_failure exec (checked exec c True)"
proof -
  have out: "read_outcome exec w (\<not> ok (fst (exec c w))) (snd (exec c w)) [c]" for w
    by (auto simp: read_outcome_def intro: exI [of _ "[]"])
  show ?thesis
    unfolding stops_at_failure_def
  proof (intro allI impI)
    fix m r m'
    assume "run_state (checked exec c True) m = (r, m')"
    then have "m_issued m' = m_issued m @ [c]" "m_world m' = snd (exec c (m_world m))"
      "isl r = (\<not> ok (fst (exec c (m_world m))))"
      by (auto simp: checked_def run_state_run split: if_splits)
    with out [of "m_world m"] show "\<exists>cs. m_issued m' = m_issued m @ cs
      \<and> read_outcome exec (m_world m) (isl r) (m_world m') cs"
      by (intro exI [of _ "[c]"]) simp
  qed
qed

lemma read_outcome_append:
  "read_outcome exec w False w1 cs \<Longrightarrow> read_outcome exec w1 b w2 ds \<Longrightarrow> read_outcome exec w b w2 (cs @ ds)"
  by (cases b) (fastforce simp: read_outcome_def intro: exI [of _ "cs @ _"])+

lemma stops_on_read:
  assumes "stops_at_failure exec act" "\<And>a. stops_at_failure exec (f a)"
  shows "stops_at_failure exec (on_read act f)"
  unfolding stops_at_failure_def
proof (intro allI impI)
  fix m r2 m2
  assume run: "run_state (on_read act f) m = (r2, m2)"
  obtain r m1 where r: "run_state act m = (r, m1)" by fastforce
  with assms(1) obtain cs where cs: "m_issued m1 = m_issued m @ cs"
    "read_outcome exec (m_world m) (isl r) (m_world m1) cs" unfolding stops_at_failure_def by blast
  show "\<exists>cs. m_issued m2 = m_issued m @ cs \<and> read_outcome exec (m_world m) (isl r2) (m_world m2) cs"
  proof (cases r)
    case (Inl e)
    with r run have "r2 = Inl e" "m2 = m1" by (simp_all add: on_read_def)
    with cs Inl show ?thesis by auto
  next
    case (Inr a)
    with r run have "run_state (f a) m1 = (r2, m2)" by (simp add: on_read_def)
    with assms(2) [of a] obtain ds where "m_issued m2 = m_issued m1 @ ds"
      "read_outcome exec (m_world m1) (isl r2) (m_world m2) ds" unfolding stops_at_failure_def by blast
    with cs Inr show ?thesis using read_outcome_append by (intro exI [of _ "cs @ ds"]) fastforce
  qed
qed

lemmas stops_rules = stops_return stops_checked stops_on_read

lemma stops_read_origin: "stops_at_failure exec (read_origin exec pools True)"
proof -
  have "stops_at_failure exec (read_pools exec True pools ori)" for ori
    by (induction pools arbitrary: ori) (auto intro!: stops_rules)
  then show ?thesis by (simp add: read_origin_def)
qed

lemma stops_read_dest: "stops_at_failure exec (read_dest exec pool True)"
proof -
  have root: "stops_at_failure exec (read_root exec True pool root dst)" for root dst
    unfolding read_root_def Let_def by (intro stops_rules)
  have "stops_at_failure exec (read_roots exec True pool (Some children) rs dst)" for children rs dst
    using root by (induction rs arbitrary: dst) (auto intro!: stops_rules)
  then show ?thesis unfolding read_dest_def by (auto intro!: stops_rules)
qed

text \<open>C22: a strict read is all or nothing. When a strict read of origin or of the drive returns, each
  command it ran succeeded; otherwise it stopped at the first command that failed and returned no
  datasets at all, so a listing that fails never shows a side as smaller than it is. Neither read
  runs anything but listings.\<close>

theorem strict_reads_complete:
  "stops_at_failure exec (read_origin exec pools True) \<and> stops_at_failure exec (read_dest exec pool True)
   \<and> issues is_read (read_origin exec pools strict) \<and> issues is_read (read_dest exec pool strict)"
  by (intro conjI stops_read_origin stops_read_dest issues_read_origin issues_read_dest)


section \<open>Properties: a listing read back\<close>

text \<open>How \<open>zfs list -Hp -o name,guid,createtxg,creation\<close> prints a snapshot or a bookmark.\<close>

definition ref_line :: "string \<Rightarrow> string \<times> bool \<times> ref \<Rightarrow> string" where
  "ref_line pre row = (case row of (ds, snap, r) \<Rightarrow>
     join_on [CHR 0x09] [pre @ ds @ (if snap then ''@'' else ''#'') @ r_name r, r_guid r,
       py_str (r_createtxg r), py_str (r_creation r)])"

definition plain :: "string \<Rightarrow> bool" where
  "plain s = (\<forall>c \<in> set s. c \<notin> {CHR 0x09, CHR ''@'', CHR ''#''})"

definition row_ok :: "string \<times> bool \<times> ref \<Rightarrow> bool" where
  "row_ok row = (case row of (ds, snap, r) \<Rightarrow> plain ds \<and> plain (r_name r) \<and> CHR 0x09 \<notin> set (r_guid r)
     \<and> 0 \<le> r_createtxg r \<and> 0 \<le> r_creation r)"


definition rows_of :: "bool \<Rightarrow> string \<Rightarrow> (string \<times> bool \<times> ref) list \<Rightarrow> ref list" where
  "rows_of kind ds rows = map (\<lambda>(_, _, r). r) (filter (\<lambda>(d, k, _). d = ds \<and> k = kind) rows)"

lemma plain_no_sep: "plain s \<Longrightarrow> CHR 0x09 \<notin> set s \<and> CHR ''@'' \<notin> set s \<and> CHR ''#'' \<notin> set s"
  by (auto simp: plain_def)

lemma py_str_nat: "0 \<le> i \<Longrightarrow> py_str i = dec_of_nat (nat i)"
  by (simp add: py_str_def)

lemma tab_not_digit: "CHR 0x09 \<notin> set (dec_of_nat n)"
proof
  assume "CHR 0x09 \<in> set (dec_of_nat n)"
  with dec_of_nat_digits [of n] have "is_digit (CHR 0x09)" by (auto simp: list_all_iff)
  then show False by (simp add: is_digit_def)
qed

lemma split_join: "ws \<noteq> [] \<Longrightarrow> \<forall>w \<in> set ws. c \<notin> set w \<Longrightarrow> split_on c (join_on [c] ws) = ws"
  by (induction "[c]" ws rule: join_on.induct) (simp_all add: split_on_id split_on_append)

lemma parse_ref_line:
  assumes "plain pre" "row_ok row"
  shows "parse_ref pre (ref_line pre row) = Some row"
proof -
  obtain ds snap r where row: "row = (ds, snap, r)" by (cases row) auto
  note ok = assms(2) [unfolded row row_ok_def, simplified]
  note no = plain_no_sep [OF assms(1)] plain_no_sep [of ds] plain_no_sep [of "r_name r"]
  let ?full = "pre @ ds @ (if snap then ''@'' else ''#'') @ r_name r"
  have "tabs (ref_line pre row) = [?full, r_guid r, py_str (r_createtxg r), py_str (r_creation r)]"
    unfolding tabs_def ref_line_def row prod.case
    by (intro split_join) (use ok no in \<open>auto simp: py_str_nat tab_not_digit\<close>)
  moreover have "partition_on (CHR ''@'') (ds @ CHR ''@'' # r_name r) = (ds, True, r_name r)"
    "partition_on (CHR ''#'') (ds @ CHR ''#'' # r_name r) = (ds, True, r_name r)"
    using ok no by (simp_all add: partition_on_sep)
  ultimately show ?thesis
    using ok no by (cases snap) (simp_all add: parse_ref_def row startswith_def py_str_nat)
qed

lemma parse_ref_lines:
  "plain pre \<Longrightarrow> list_all row_ok rows \<Longrightarrow> List.map_filter (parse_ref pre) (map (ref_line pre) rows) = rows"
  by (induction rows) (simp_all add: List.map_filter_simps parse_ref_line)

lemma rows_of_snoc: "rows_of k ds (rows @ [(d, k', r)]) = rows_of k ds rows @ (if d = ds \<and> k' = k then [r] else [])"
  by (simp add: rows_of_def)

lemma map_of_add_refs:
  "map_of (foldl add_ref [] rows) ds =
     (if ds \<in> fst ` set rows then Some (rows_of True ds rows, rows_of False ds rows) else None)"
proof (induction rows rule: rev_induct)
  case Nil
  then show ?case by simp
next
  case (snoc row rows)
  obtain d k r where row: "row = (d, k, r)" by (cases row) auto
  have empty: "rows_of b d rows = []" if "d \<notin> fst ` set rows" for b
    using that by (force simp: rows_of_def filter_empty_conv)
  show ?case
    using snoc empty by (auto simp: row add_ref_def dict_get_or_def rows_of_snoc split: prod.splits)
qed

text \<open>C23: what \<open>zfs list\<close> prints is read back whole. The listing of any snapshots and bookmarks,
  under any pool prefix, parses to a dictionary that gives each dataset exactly its own snapshots
  and its own bookmarks, in order of creation, and knows no other dataset.\<close>

theorem listing_round_trip:
  assumes "plain pre" "list_all row_ok rows"
  shows "map_of (parse_refs (map (ref_line pre) rows) pre) ds =
    (if ds \<in> fst ` set rows
     then Some (sort_key r_createtxg (rows_of True ds rows), sort_key r_createtxg (rows_of False ds rows))
     else None)"
proof -
  have "map_of (map (\<lambda>(ds, snaps, bms). (ds, sort_key r_createtxg snaps, sort_key r_createtxg bms)) m) ds =
    map_option (\<lambda>(snaps, bms). (sort_key r_createtxg snaps, sort_key r_createtxg bms)) (map_of m ds)"
    for m :: "(string, ref list \<times> ref list) dict"
    by (induction m) auto
  then show ?thesis
    by (simp add: parse_refs_def parse_ref_lines [OF assms] map_of_add_refs)
qed

theorem listing_round_trip_witness:
  "plain ''d1/'' \<and> list_all row_ok [(''rpool'', True, \<lparr>r_name = ''b'', r_guid = ''8'', r_createtxg = 9, r_creation = 20\<rparr>),
      (''rpool'', True, \<lparr>r_name = ''a'', r_guid = ''7'', r_createtxg = 5, r_creation = 10\<rparr>)]
   \<and> map_of (parse_refs (map (ref_line ''d1/'')
       [(''rpool'', True, \<lparr>r_name = ''b'', r_guid = ''8'', r_createtxg = 9, r_creation = 20\<rparr>),
        (''rpool'', True, \<lparr>r_name = ''a'', r_guid = ''7'', r_createtxg = 5, r_creation = 10\<rparr>)]) ''d1/'') ''rpool'' =
     Some ([\<lparr>r_name = ''a'', r_guid = ''7'', r_createtxg = 5, r_creation = 10\<rparr>,
            \<lparr>r_name = ''b'', r_guid = ''8'', r_createtxg = 9, r_creation = 20\<rparr>], [])"
proof -
  let ?rows = "[(''rpool'', True, \<lparr>r_name = ''b'', r_guid = ''8'', r_createtxg = 9, r_creation = 20\<rparr>),
      (''rpool'', True, \<lparr>r_name = ''a'', r_guid = ''7'', r_createtxg = 5, r_creation = 10\<rparr>)]"
  have ok: "plain ''d1/''" "list_all row_ok ?rows" by (simp_all add: plain_def row_ok_def)
  from listing_round_trip [OF ok, of "''rpool''"] ok show ?thesis by (simp add: rows_of_def)
qed

end
