(* ===== verification/Drive_Marks.thy ===== *)
theory Drive_Marks
  imports Survey
begin

text \<open>
  \<open>lib/drive_marks.py\<close>: what zark records on a backup drive and reads back. \<open>log.fatal\<close> ends the
  command: the owner check returns whether the drive is accepted.
\<close>

section \<open>Metadata\<close>

definition write_metadata ::
    "'w shell \<Rightarrow> string \<Rightarrow> (string, string) dict \<Rightarrow> (('w, 'z) machine_scheme, bool) action" where
  "write_metadata exec pool flds = do {
     r \<leftarrow> run exec (Line (''zfs set '' @ join_on '' '' (map (\<lambda>(k, v). quote (''org.zark:'' @ k @ ''='' @ v))
            (filter (\<lambda>(k, v). v \<noteq> '''') (sort_key fst flds))) @ '' '' @ quote pool));
     State_Monad.return (ok r)
   }"

definition meta_line :: "(string, string) dict \<Rightarrow> string \<Rightarrow> (string, string) dict" where
  "meta_line out line =
     (case tabs line of
        [a, b] \<Rightarrow> if startswith a ''org.zark:'' then dict_set (drop 9 a) b out else out
      | _ \<Rightarrow> out)"

definition read_metadata ::
    "'w shell \<Rightarrow> string \<Rightarrow> bool \<Rightarrow> (('w, 'z) machine_scheme, (string, string) dict) reading" where
  "read_metadata exec pool strict =
     on_read (checked exec (Line (''zfs get -H -s local -o property,value all '' @ quote pool)) strict) (\<lambda>r.
       State_Monad.return (Inr (foldl meta_line [] (ok_lines r))))"

definition first_min :: "(string, int) dict \<Rightarrow> string option" where
  "first_min tms = map_option fst (max_by (\<lambda>kt. - snd kt) tms)"

definition record_first_point :: "'w shell \<Rightarrow> string \<Rightarrow> (('w, 'z) machine_scheme, unit) action" where
  "record_first_point exec pool = do {
     meta \<leftarrow> read_metadata exec pool True;
     case meta of Inl e \<Rightarrow> State_Monad.return ()
     | Inr flds \<Rightarrow>
         if dict_get_or flds ''first-point'' '''' \<noteq> '''' then State_Monad.return ()
         else do {
           dst \<leftarrow> read_dest exec pool True;
           case dst of Inl e \<Rightarrow> State_Monad.return ()
           | Inr d \<Rightarrow> (case first_min (point_times d) of
               None \<Rightarrow> State_Monad.return ()
             | Some n \<Rightarrow> do { _ \<leftarrow> write_metadata exec pool [(''first-point'', n)]; State_Monad.return () })
         }
   }"


section \<open>Whose drive it is\<close>

definition SHARED_STATES :: "Replication.state list" where
  "SHARED_STATES = [AT_POINT, RESUME, INCREMENTAL, VIA_BOOKMARK, ROLLBACK, MODIFIED]"

definition shares_something :: "(string, origin) dict \<Rightarrow> (string, dest) dict \<Rightarrow> bool" where
  "shares_something ori dst = list_ex (\<lambda>p. p_state p \<in> set SHARED_STATES) (plan ori dst '''' [])"

definition accept_unowned :: "'w shell \<Rightarrow> string \<Rightarrow> (('w, 'z) machine_scheme, bool) action" where
  "accept_unowned exec pool = do {
     pools \<leftarrow> source_pools exec;
     ori \<leftarrow> read_origin exec pools True;
     case ori of Inl e \<Rightarrow> State_Monad.return False
     | Inr os \<Rightarrow> do {
         dst \<leftarrow> read_dest exec pool True;
         case dst of Inl e \<Rightarrow> State_Monad.return False
         | Inr d \<Rightarrow> State_Monad.return (shares_something os d)
       }
   }"

text \<open>\<open>mine\<close> is the text of \<open>/etc/machine-id\<close>, empty when it cannot be read.\<close>

definition check_drive_owner :: "'w shell \<Rightarrow> string \<Rightarrow> string \<Rightarrow> (('w, 'z) machine_scheme, bool) action" where
  "check_drive_owner exec mine pool = do {
     meta \<leftarrow> read_metadata exec pool True;
     case meta of Inl e \<Rightarrow> State_Monad.return False
     | Inr flds \<Rightarrow>
         (let theirs = dict_get_or flds ''origin-machine-id'' '''' in
          if theirs = '''' then accept_unowned exec pool
          else State_Monad.return (mine \<noteq> '''' \<and> mine = theirs))
   }"


section \<open>Marks of complete points\<close>

definition COMPLETE_PROP :: string where
  "COMPLETE_PROP = ''org.zark:point-complete''"

definition mark_line :: "(string, string) dict \<Rightarrow> string \<Rightarrow> (string, string) dict" where
  "mark_line out line =
     (case tabs line of [a, b] \<Rightarrow> if CHR ''@'' \<in> set a then dict_set a b out else out | _ \<Rightarrow> out)"

definition snapshot_marks ::
    "'w shell \<Rightarrow> string \<Rightarrow> bool \<Rightarrow> string \<Rightarrow> (('w, 'z) machine_scheme, (string, string) dict) reading" where
  "snapshot_marks exec root strict prop =
     on_read (checked exec (Line (''zfs get -H -p -r -s local -t snapshot -o name,value '' @ prop @ '' '' @ quote root)) strict) (\<lambda>r.
       State_Monad.return (Inr (foldl mark_line [] (ok_lines r))))"

definition root_snapshots ::
    "'w shell \<Rightarrow> string \<Rightarrow> bool \<Rightarrow> string \<Rightarrow> (('w, 'z) machine_scheme, snap list) reading" where
  "root_snapshots exec pool strict root =
     on_read (checked exec (snap_list root) strict) (\<lambda>r.
       if \<not> ok r then State_Monad.return (Inr [])
       else on_read (snapshot_marks exec root strict COMPLETE_PROP) (\<lambda>marks.
              State_Monad.return (Inr (parse_snapshots (result_lines r) pool marks))))"

fun roots_snapshots ::
    "'w shell \<Rightarrow> string \<Rightarrow> bool \<Rightarrow> string list \<Rightarrow> snap list \<Rightarrow> (('w, 'z) machine_scheme, snap list) reading" where
  "roots_snapshots exec pool strict [] snaps = State_Monad.return (Inr snaps)"
| "roots_snapshots exec pool strict (root # rest) snaps =
     (if strict then do {
        there \<leftarrow> run exec (Line (''zfs list -H -o name '' @ quote root));
        if \<not> ok there then roots_snapshots exec pool strict rest snaps
        else on_read (root_snapshots exec pool strict root) (\<lambda>ss.
               roots_snapshots exec pool strict rest (snaps @ ss))
      }
      else on_read (root_snapshots exec pool strict root) (\<lambda>ss.
             roots_snapshots exec pool strict rest (snaps @ ss)))"

definition drive_snapshots :: "'w shell \<Rightarrow> string \<Rightarrow> bool \<Rightarrow> (('w, 'z) machine_scheme, snap list) reading" where
  "drive_snapshots exec pool strict = roots_snapshots exec pool strict (roots pool) []"

definition old_marks :: "snap list \<Rightarrow> string \<Rightarrow> string \<Rightarrow> string list" where
  "old_marks snaps last_point point =
     (let marked = point_marks snaps;
          old = (if marked \<noteq> []
                 then map fst (filter (\<lambda>(n, ms). list_all (\<lambda>s. s_mark s = LEGACY_MARK) ms) marked)
                 else legacy_complete snaps last_point)
      in sort (filter (\<lambda>n. n \<noteq> point) old))"

definition dict_extend :: "'k \<Rightarrow> 'a list \<Rightarrow> ('k, 'a list) dict \<Rightarrow> ('k, 'a list) dict" where
  "dict_extend k xs m = dict_set k (dict_get_or m k [] @ xs) m"

definition counts_of :: "string \<Rightarrow> snap list \<Rightarrow> string list \<Rightarrow> (string, string list) dict" where
  "counts_of pool snaps names =
     foldl (\<lambda>out name.
        let members = filter (\<lambda>s. s_name s = name) snaps;
            n = dec_of_nat (card (set (map s_dataset members)))
        in dict_extend n (map (\<lambda>s. pool @ ''/'' @ stored s @ ''@'' @ s_name s) members) out) [] names"

text \<open>The second reading is only needed on a drive without marks (\<open>read_metadata\<close> is not strict and
  cannot fail).\<close>

definition counts_for_old_marks ::
    "'w shell \<Rightarrow> string \<Rightarrow> string \<Rightarrow> (('w, 'z) machine_scheme, (string, string list) dict) action" where
  "counts_for_old_marks exec pool point = do {
     ss \<leftarrow> drive_snapshots exec pool False;
     case ss of Inl e \<Rightarrow> State_Monad.return []
     | Inr snaps \<Rightarrow>
         if point_marks snaps \<noteq> [] then State_Monad.return (counts_of pool snaps (old_marks snaps '''' point))
         else do {
           meta \<leftarrow> read_metadata exec pool False;
           State_Monad.return (counts_of pool snaps (old_marks snaps
             (case meta of Inl e \<Rightarrow> '''' | Inr flds \<Rightarrow> dict_get_or flds ''last-point'' '''') point))
         }
   }"

fun set_marks ::
    "'w shell \<Rightarrow> (string \<times> string list) list \<Rightarrow> bool \<Rightarrow> (('w, 'z) machine_scheme, bool) action" where
  "set_marks exec [] good = State_Monad.return good"
| "set_marks exec ((v, targets) # rest) good =
     (if targets = [] then set_marks exec rest good
      else do {
        r \<leftarrow> run exec (Line (''zfs set '' @ COMPLETE_PROP @ ''='' @ v @ '' ''
               @ join_on '' '' (map quote (first_of_each targets))));
        set_marks exec rest (good \<and> ok r)
      })"

definition record_complete ::
    "'w shell \<Rightarrow> string \<Rightarrow> string \<Rightarrow> string list \<Rightarrow> (('w, 'z) machine_scheme, bool) action" where
  "record_complete exec pool point rels = do {
     old \<leftarrow> counts_for_old_marks exec pool point;
     set_marks exec
       (sort_key fst (foldl (\<lambda>m (v, ts). dict_extend v ts m)
          [(dec_of_nat (length rels), map (\<lambda>rel. pool @ ''/'' @ rel @ ''@'' @ point) rels)] old)) True
   }"

definition drive_complete :: "'w shell \<Rightarrow> string \<Rightarrow> (('w, 'z) machine_scheme, complete_set) reading" where
  "drive_complete exec pool =
     on_read (read_metadata exec pool True) (\<lambda>meta.
     on_read (drive_snapshots exec pool True) (\<lambda>snaps.
       State_Monad.return (Inr ((retention_points snaps (dict_get_or meta ''last-point'' ''''))
         \<lparr>cs_first := dict_get_or meta ''first-point'' ''''\<rparr>))))"

definition pin_line :: "string \<Rightarrow> (string, string) dict \<Rightarrow> string \<Rightarrow> (string, string) dict" where
  "pin_line pre out line =
     (let f = tabs line in
      if length f < 3 \<or> \<not> startswith (f ! 0) pre then out
      else (let rel = drop (length pre) (f ! 0) in
            if f ! 1 \<notin> {'''', ''-''} then dict_set rel (''origin of a clone on the drive ('' @ f ! 1 @ '')'') out
            else if isdigit (f ! 2) \<and> dec_val (f ! 2) > 0 then dict_set rel ''held (zfs hold)'' out
            else out))"

fun roots_pins ::
    "'w shell \<Rightarrow> string \<Rightarrow> bool \<Rightarrow> string list \<Rightarrow> (string, string) dict
      \<Rightarrow> (('w, 'z) machine_scheme, (string, string) dict) reading" where
  "roots_pins exec pool strict [] out = State_Monad.return (Inr out)"
| "roots_pins exec pool strict (root # rest) out =
     (let act = on_read (checked exec (Line (''zfs list -Hp -t snapshot -o name,clones,userrefs -r '' @ quote root)) strict)
                  (\<lambda>r. roots_pins exec pool strict rest (foldl (pin_line (pool @ ''/'')) out (ok_lines r)))
      in if strict then do {
           there \<leftarrow> run exec (Line (''zfs list -H -o name '' @ quote root));
           if \<not> ok there then roots_pins exec pool strict rest out else act
         } else act)"

definition drive_pins ::
    "'w shell \<Rightarrow> string \<Rightarrow> bool \<Rightarrow> (('w, 'z) machine_scheme, (string, string) dict) reading" where
  "drive_pins exec pool strict = roots_pins exec pool strict (roots pool) []"



section \<open>Lemmas\<close>

lemma issues_read_metadata [issues_rules]: "issues is_read (read_metadata exec pool strict)"
  unfolding read_metadata_def by (intro issues_rules issues_checked) (simp add: is_read_def startswith_def)

lemma issues_accept_unowned [issues_rules]: "issues is_read (accept_unowned exec pool)"
  unfolding accept_unowned_def by (intro issues_rules)

lemma issues_check_drive_owner: "issues is_read (check_drive_owner exec mine pool)"
  unfolding check_drive_owner_def by (intro issues_rules)

lemma plan_unshared_DIVERGED:
  assumes "d_token d = ''''" "\<forall>s \<in> set (d_snaps d). \<not> recoverable x s"
  shows "p_state (plan_dataset x (Some d) point) = DIVERGED"
proof -
  have "p_state (plan_dataset_raw x (Some d) point) = DIVERGED"
  proof (cases "newest d")
    case None
    with assms(1) show ?thesis by (simp add: plan_dataset_raw_def)
  next
    case (Some n)
    then have "n \<in> set (d_snaps d)" by (auto simp: newest_def split: if_splits)
    with assms(2) have n: "\<not> newest_usable x n" by (auto simp: newest_usable_def recoverable_iff)
    have "older_common x d (length (d_snaps d) - 1) = None"
      using assms(2) by (auto simp: older_common_None)
    then show ?thesis
      using raw_fallback [OF Some n assms(1)] by (simp add: rollback_or_diverged_def)
  qed
  then show ?thesis
    using plan_written [of d x point] by (cases "d_written d > 0") (simp_all add: plan_unwritten Let_def)
qed

text \<open>The drive and this system hold something in common: a snapshot that origin can continue
  from, or the partial receive of one.\<close>

definition in_common :: "(string, origin) dict \<Rightarrow> (string, dest) dict \<Rightarrow> bool" where
  "in_common ori dst = (\<exists>rel x d. map_of ori rel = Some x \<and> map_of dst rel = Some d
     \<and> (d_token d \<noteq> '''' \<or> (\<exists>s \<in> set (d_snaps d). recoverable x s)))"

lemma shares_in_common:
  assumes "shares_something ori dst" "wf_dict ori"
  shows "in_common ori dst"
proof -
  from assms(1) obtain p where p: "p \<in> set (plan ori dst '''' [])" "p_state p \<in> set SHARED_STATES"
    by (auto simp: shares_something_def list_ex_iff)
  then have "p \<in> set (filter (\<lambda>p. p_state p \<notin> {ORPHAN, EXCLUDED}) (plan ori dst '''' []))"
    by (auto simp: SHARED_STATES_def)
  then have "p \<in> set (expected_rows ori (live_of dst) '''' [])" by (simp only: planned_rows)
  then obtain rel where rel: "rel \<in> set (expected ori [])"
    and p': "p = (let p = plan_dataset (the (map_of ori rel)) (map_of (live_of dst) rel) ''''
          in if p_state p = NEW then clone_base p ori (live_of dst) else p)"
    by (auto simp: expected_rows_def)
  obtain x where x: "map_of ori rel = Some x"
    using expected_in_origin [OF assms(2) rel] by blast
  have live: "map_of (live_of dst) rel = map_of dst rel"
    using expected_not_archived [OF rel] by (simp add: map_of_live)
  show ?thesis
  proof (cases "map_of dst rel")
    case None
    with p(2) p' live x show ?thesis by (simp add: SHARED_STATES_def)
  next
    case (Some d)
    with p(2) p' live x have "p_state (plan_dataset x (Some d) '''') \<noteq> DIVERGED"
      by (auto simp: SHARED_STATES_def Let_def)
    then have "d_token d \<noteq> '''' \<or> (\<exists>s \<in> set (d_snaps d). recoverable x s)"
      using plan_unshared_DIVERGED by blast
    with x Some show ?thesis by (auto simp: in_common_def)
  qed
qed

lemma accept_unownedD:
  assumes "run_state (accept_unowned exec pool) m = (True, m')"
  shows "\<exists>pools m1 ori m2 dst. run_state (source_pools exec) m = (pools, m1)
    \<and> run_state (read_origin exec pools True) m1 = (Inr ori, m2)
    \<and> run_state (read_dest exec pool True) m2 = (Inr dst, m') \<and> shares_something ori dst"
  using assms by (auto simp: accept_unowned_def split: prod.splits sum.splits)


section \<open>Properties\<close>

text \<open>A run only touches a drive of this system. The owner check runs nothing but listings; when
  it accepts the drive, the drive's metadata were read and name this machine, or they name no owner
  and both sides were listed completely and hold something in common: a snapshot of the drive that
  origin can continue from, or a partial receive. Another machine's drive, a drive that cannot be
  read and one that shares nothing are refused.\<close>

lemma drive_owner_accepted:
  "issues is_read (check_drive_owner exec mine pool)
   \<and> (run_state (check_drive_owner exec mine pool) m = (True, m') \<longrightarrow>
      (\<exists>flds m1. run_state (read_metadata exec pool True) m = (Inr flds, m1)
        \<and> (if dict_get_or flds ''origin-machine-id'' '''' \<noteq> ''''
           then mine = dict_get_or flds ''origin-machine-id'' ''''
           else \<exists>pools m2 ori m3 dst. run_state (source_pools exec) m1 = (pools, m2)
             \<and> run_state (read_origin exec pools True) m2 = (Inr ori, m3)
             \<and> run_state (read_dest exec pool True) m3 = (Inr dst, m') \<and> in_common ori dst)))"
proof (intro conjI impI)
  show "issues is_read (check_drive_owner exec mine pool)" by (rule issues_check_drive_owner)
  assume acc: "run_state (check_drive_owner exec mine pool) m = (True, m')"
  obtain r m1 where r: "run_state (read_metadata exec pool True) m = (r, m1)" by fastforce
  with acc obtain flds where flds: "r = Inr flds"
    by (cases r) (simp_all add: check_drive_owner_def)
  show "\<exists>flds m1. run_state (read_metadata exec pool True) m = (Inr flds, m1)
        \<and> (if dict_get_or flds ''origin-machine-id'' '''' \<noteq> ''''
           then mine = dict_get_or flds ''origin-machine-id'' ''''
           else \<exists>pools m2 ori m3 dst. run_state (source_pools exec) m1 = (pools, m2)
             \<and> run_state (read_origin exec pools True) m2 = (Inr ori, m3)
             \<and> run_state (read_dest exec pool True) m3 = (Inr dst, m') \<and> in_common ori dst)"
  proof (cases "dict_get_or flds ''origin-machine-id'' '''' = ''''")
    case True
    with acc r flds have "run_state (accept_unowned exec pool) m1 = (True, m')"
      by (simp add: check_drive_owner_def)
    from accept_unownedD [OF this] obtain pools m2 ori m3 dst
      where *: "run_state (source_pools exec) m1 = (pools, m2)"
        "run_state (read_origin exec pools True) m2 = (Inr ori, m3)"
        "run_state (read_dest exec pool True) m3 = (Inr dst, m')" "shares_something ori dst" by blast
    from read_origin_sorted [OF *(2)] have "wf_dict ori" by (simp add: sorted_origin_list)
    from shares_in_common [OF *(4) this] True r flds * show ?thesis by auto
  next
    case False
    with acc r flds show ?thesis by (auto simp: check_drive_owner_def)
  qed
qed

definition ex_owned :: "unit shell" where
  "ex_owned c w = (\<lparr>rr_returncode = 0,
     rr_stdout = ''org.zark:origin-machine-id'' @ [CHR 0x09] @ ''m1'' @ [CHR 0x0A], rr_stderr = ''''\<rparr>, w)"

end
