(* ===== verification/Anchors.thy ===== *)
theory Anchors
  imports Drive_Marks
begin

text \<open>
  \<open>lib/anchors.py\<close>: a drive's anchors in origin (a bookmark per rpool dataset, a renamed snapshot
  on bpool), the points that runs left in origin and the drive each one names, and their removal.
  Messages to the log are not modelled; the texts that a function returns are.
\<close>

definition POINT_FOR :: string where
  "POINT_FOR = ''org.zark:point-for''"

definition at_snap :: "string \<Rightarrow> string \<Rightarrow> string" where
  "at_snap rel name = rel @ ''@'' @ name"

definition at_bookmark :: "string \<Rightarrow> string \<Rightarrow> string" where
  "at_bookmark rel name = rel @ ''#'' @ name"

definition rename_cmd :: "string \<Rightarrow> string \<Rightarrow> cmd" where
  "rename_cmd a b = Line (''zfs rename '' @ quote a @ '' '' @ quote b)"

definition bookmark_cmd :: "string \<Rightarrow> string \<Rightarrow> cmd" where
  "bookmark_cmd a b = Line (''zfs bookmark '' @ quote a @ '' '' @ quote b)"

definition destroy_cmd :: "string \<Rightarrow> cmd" where
  "destroy_cmd a = Line (''zfs destroy '' @ quote a)"

definition guids_cmd :: "string \<Rightarrow> string \<Rightarrow> cmd" where
  "guids_cmd a b = Line (''zfs get -Hp -o value guid '' @ quote a @ '' '' @ quote b)"

definition same_two :: "run_result \<Rightarrow> bool" where
  "same_two r = (ok r \<and> length (result_lines r) = 2 \<and> result_lines r ! 0 = result_lines r ! 1)"

definition anchor_point ::
    "'w shell \<Rightarrow> string \<Rightarrow> string \<Rightarrow> string \<Rightarrow> (('w, 'z) machine_scheme, bool) action" where
  "anchor_point exec rel point disk_guid =
     (let keep = anchor_name disk_guid point in
      if is_bpool rel then do {
        r \<leftarrow> run exec (rename_cmd (at_snap rel point) (at_snap rel keep));
        State_Monad.return (ok r)
      } else do {
        r \<leftarrow> run exec (bookmark_cmd (at_snap rel point) (at_bookmark rel keep));
        if ok r then State_Monad.return True
        else do {
          g \<leftarrow> run exec (guids_cmd (at_snap rel point) (at_bookmark rel keep));
          State_Monad.return (same_two g)
        }
      })"

definition owner_rows :: "(string, string) dict \<Rightarrow> (string, string) dict \<Rightarrow> (string, string) dict" where
  "owner_rows out marks =
     foldl (\<lambda>out (name, v). case partition_on (CHR ''@'') name of (_, _, snap) \<Rightarrow>
              if isdigit v \<and> POINT_RE snap then dict_set name v out else out) out marks"

fun owners_of ::
    "'w shell \<Rightarrow> string list \<Rightarrow> (string, string) dict \<Rightarrow> (('w, 'z) machine_scheme, (string, string) dict) reading" where
  "owners_of exec [] out = State_Monad.return (Inr out)"
| "owners_of exec (pool # pools) out =
     on_read (snapshot_marks exec pool True POINT_FOR) (\<lambda>marks. owners_of exec pools (owner_rows out marks))"

definition point_owners ::
    "'w shell \<Rightarrow> string list \<Rightarrow> (('w, 'z) machine_scheme, (string, string) dict) reading" where
  "point_owners exec pools = owners_of exec pools []"

definition release_point ::
    "'w shell \<Rightarrow> string \<Rightarrow> string \<Rightarrow> (('w, 'z) machine_scheme, bool) action" where
  "release_point exec tgt owner =
     (case partition_on (CHR ''@'') tgt of (rel, _, point) \<Rightarrow> do {
        anchored \<leftarrow> anchor_point exec rel point owner;
        if \<not> anchored then State_Monad.return False
        else if is_bpool rel then State_Monad.return True
        else do { r \<leftarrow> run exec (destroy_cmd tgt); State_Monad.return (ok r) }
      })"

definition anchored_disks :: "(string, origin) dict \<Rightarrow> string list" where
  "anchored_disks ori =
     filter (\<lambda>g. g \<noteq> '''') (map (\<lambda>r. anchor_disk (r_name r))
       (concat (map (\<lambda>(rel, x). o_bookmarks x @ o_snaps x) ori)))"

definition anchors_in :: "string \<Rightarrow> string \<times> origin \<Rightarrow> string list" where
  "anchors_in disk_guid row = (case row of (rel, x) \<Rightarrow>
     map (\<lambda>b. at_bookmark rel (r_name b)) (filter (\<lambda>b. anchor_disk (r_name b) = disk_guid) (o_bookmarks x))
     @ map (\<lambda>s. at_snap rel (r_name s)) (filter (\<lambda>s. anchor_disk (r_name s) = disk_guid) (o_snaps x)))"

definition disk_anchors :: "(string, origin) dict \<Rightarrow> string \<Rightarrow> string list" where
  "disk_anchors ori disk_guid = concat (map (anchors_in disk_guid) (sort_key fst ori))"

fun destroy_all ::
    "'w shell \<Rightarrow> string list \<Rightarrow> nat \<times> string list \<Rightarrow> (('w, 'z) machine_scheme, nat \<times> string list) action" where
  "destroy_all exec [] acc = State_Monad.return acc"
| "destroy_all exec (name # names) (n, failed) = do {
     r \<leftarrow> run exec (destroy_cmd name);
     destroy_all exec names (if ok r then (Suc n, failed) else (n, failed @ [name]))
   }"

text \<open>A lenient read cannot fail.\<close>

definition drop_disk_anchors ::
    "'w shell \<Rightarrow> string \<Rightarrow> string list \<Rightarrow> (('w, 'z) machine_scheme, nat \<times> string list) action" where
  "drop_disk_anchors exec disk_guid pools = do {
     ori \<leftarrow> read_origin exec pools False;
     case ori of Inl e \<Rightarrow> State_Monad.return (0, [])
     | Inr os \<Rightarrow> destroy_all exec (disk_anchors os disk_guid) (0, [])
   }"

text \<open>\<open>zark\<close> is \<open>zark_command()\<close>: the command the user typed.\<close>

definition drop_anchors_of ::
    "'w shell \<Rightarrow> string \<Rightarrow> string \<Rightarrow> (('w, 'z) machine_scheme, string) action" where
  "drop_anchors_of exec zark disk_guid = do {
     pools \<leftarrow> source_pools exec;
     let retry = zark @ '' registry forget '' @ disk_guid;
     if ''rpool'' \<notin> set pools
     then State_Monad.return (''Its anchors stay in origin: on the installed system run '' @ retry)
     else do {
       res \<leftarrow> drop_disk_anchors exec disk_guid pools;
       State_Monad.return (case res of (n, failed) \<Rightarrow>
         if failed \<noteq> [] then dec_of_nat (length failed) @ '' anchor(s) of drive '' @ disk_guid
           @ '' could not be dropped: '' @ retry
         else '''')
     }
   }"

definition is_point :: "string \<Rightarrow> bool" where
  "is_point name = POINT_RE name"

definition leftover_points :: "(string, origin) dict \<Rightarrow> string list" where
  "leftover_points ori =
     concat (map (\<lambda>(rel, x). map (\<lambda>s. at_snap rel (r_name s)) (filter (\<lambda>s. is_point (r_name s)) (o_snaps x)))
       (sort_key fst ori))"

definition restored_anchor :: "origin \<Rightarrow> ref \<Rightarrow> ref option" where
  "restored_anchor x s = find (\<lambda>b. let g = anchor_disk (r_name b) in
     g \<noteq> '''' \<and> r_guid b = r_guid s \<and> r_name b = anchor_name g (r_name s)) (o_bookmarks x)"

definition restored_row :: "string list \<Rightarrow> (string, string) dict \<Rightarrow> string \<times> origin \<Rightarrow> (string, string) dict" where
  "restored_row owned out row = (case row of (rel, x) \<Rightarrow>
     foldl (\<lambda>out s.
        let tgt = at_snap rel (r_name s) in
        if \<not> is_point (r_name s) \<or> tgt \<in> set owned then out
        else (case restored_anchor x s of None \<Rightarrow> out
              | Some b \<Rightarrow> dict_set tgt (anchor_disk (r_name b)) out))
       out (o_snaps x))"

definition restored_points :: "(string, origin) dict \<Rightarrow> string list \<Rightarrow> (string, string) dict" where
  "restored_points ori owned = foldl (restored_row owned) [] (sort_key fst ori)"


section \<open>Lemmas\<close>

lemmas cmd_defs = rename_cmd_def bookmark_cmd_def destroy_cmd_def guids_cmd_def at_snap_def at_bookmark_def

lemma disk_anchors_set:
  "name \<in> set (disk_anchors ori g) \<longleftrightarrow> (\<exists>rel x. (rel, x) \<in> set ori
     \<and> ((\<exists>b \<in> set (o_bookmarks x). anchor_disk (r_name b) = g \<and> name = at_bookmark rel (r_name b))
        \<or> (\<exists>s \<in> set (o_snaps x). anchor_disk (r_name s) = g \<and> name = at_snap rel (r_name s))))"
  by (fastforce simp: disk_anchors_def anchors_in_def)

lemma issues_destroy_all:
  "(\<And>n. n \<in> set names \<Longrightarrow> P (destroy_cmd n)) \<Longrightarrow> issues P (destroy_all exec names acc)"
  by (induction exec names acc rule: destroy_all.induct) (auto intro!: issues_rules)

text \<open>The command removes an anchor of this disk.\<close>

definition drops_anchor_of :: "string \<Rightarrow> cmd \<Rightarrow> bool" where
  "drops_anchor_of g c = (\<exists>rel name. anchor_disk name = g
     \<and> (c = destroy_cmd (at_snap rel name) \<or> c = destroy_cmd (at_bookmark rel name)))"

lemma issues_drop_disk_anchors:
  "issues (\<lambda>c. is_read c \<or> drops_anchor_of g c) (drop_disk_anchors exec g pools)"
proof -
  have "issues (\<lambda>c. is_read c \<or> drops_anchor_of g c) (destroy_all exec (disk_anchors os g) (0, []))" for os
    by (rule issues_destroy_all) (auto simp: disk_anchors_set drops_anchor_of_def)
  moreover have "issues (\<lambda>c. is_read c \<or> drops_anchor_of g c) (read_origin exec pools False)"
    using issues_read_origin by (rule issues_mono) simp
  ultimately show ?thesis unfolding drop_disk_anchors_def by (intro issues_rules)
qed



section \<open>Properties\<close>

text \<open>C24: a point left in origin is anchored before it goes. \<open>release_point\<close> on rpool destroys the
  point only after a bookmark of it for the drive that owns it was made, or after the two guids were
  read and are the same; on bpool it runs a single rename and destroys nothing; when the anchor
  cannot be made it returns False and destroys nothing.\<close>

theorem release_point_anchors_first:
  assumes "CHR ''@'' \<notin> set rel"
    and "run_state (release_point exec (at_snap rel point) owner) m = (r, m')"
  shows "let keep = anchor_name owner point; w = m_world m;
      bm = bookmark_cmd (at_snap rel point) (at_bookmark rel keep);
      same = guids_cmd (at_snap rel point) (at_bookmark rel keep);
      mv = rename_cmd (at_snap rel point) (at_snap rel keep);
      del = destroy_cmd (at_snap rel point) in
    \<exists>cs. m_issued m' = m_issued m @ cs
      \<and> (if is_bpool rel then cs = [mv] \<and> r = ok (fst (exec mv w))
         else if ok (fst (exec bm w)) then cs = [bm, del] \<and> r = ok (fst (exec del (snd (exec bm w))))
         else if same_two (fst (exec same (snd (exec bm w))))
           then cs = [bm, same, del] \<and> r = ok (fst (exec del (snd (exec same (snd (exec bm w))))))
         else cs = [bm, same] \<and> \<not> r)"
proof -
  have "partition_on (CHR ''@'') (at_snap rel point) = (rel, True, point)"
    using assms(1) by (simp add: at_snap_def partition_on_sep)
  with assms(2) show ?thesis
    by (auto simp: release_point_def anchor_point_def Let_def run_state_run split: if_splits)
qed

theorem release_point_anchors_first_witness:
  "CHR ''@'' \<notin> set ''rpool/var'' \<and>
   (\<exists>cs. m_issued (snd (run_state (release_point ex_owned (at_snap ''rpool/var'' ''p'') ''7'') ex_m0)) = [] @ cs
     \<and> cs = [bookmark_cmd (at_snap ''rpool/var'' ''p'') (at_bookmark ''rpool/var'' (anchor_name ''7'' ''p'')),
             destroy_cmd (at_snap ''rpool/var'' ''p'')])"
proof -
  have "\<not> is_bpool ''rpool/var''" by code_simp
  with release_point_anchors_first [of "''rpool/var''" ex_owned "''p''" "''7''" ex_m0
      "fst (run_state (release_point ex_owned (at_snap ''rpool/var'' ''p'') ''7'') ex_m0)"
      "snd (run_state (release_point ex_owned (at_snap ''rpool/var'' ''p'') ''7'') ex_m0)"]
  show ?thesis by (simp add: ex_owned_def ex_m0_def ok_def Let_def)
qed

text \<open>A drive leaves the registry without touching another drive. The anchors of a disk are
  exactly the bookmarks and snapshots of origin whose name carries that disk's GUID, and dropping
  them runs only listings and destroys of such names; the anchor that any run made for another disk
  is never among them.\<close>

lemma disk_anchors_exact:
  "(name \<in> set (disk_anchors ori g) \<longleftrightarrow> (\<exists>rel x. (rel, x) \<in> set ori
      \<and> ((\<exists>b \<in> set (o_bookmarks x). anchor_disk (r_name b) = g \<and> name = at_bookmark rel (r_name b))
         \<or> (\<exists>s \<in> set (o_snaps x). anchor_disk (r_name s) = g \<and> name = at_snap rel (r_name s)))))
   \<and> issues (\<lambda>c. is_read c \<or> drops_anchor_of g c) (drop_disk_anchors exec g pools)
   \<and> (isdigit other \<and> other \<noteq> g \<longrightarrow> anchor_disk (anchor_name other (point_name now)) \<noteq> g)"
  using disk_anchors_set issues_drop_disk_anchors by (auto simp: anchor_disk_of_point_name)

end
