(* ===== verification/Engine.thy ===== *)
theory Engine
  imports Anchors
begin

text \<open>
  \<open>lib/engine.py\<close>: one replication run of origin into a backup pool. What the run was given is the
  record \<open>cfg\<close>; what it keeps between its steps extends the machine of \<open>Shell\<close> (\<open>eng\<close>); the system
  around it is the record \<open>os\<close>: the shell, the two sides of a pipe, the marker file of a stopped
  timer, and sleeping. \<open>ReadError\<close> is the left side of a reading. The questions to the user and what
  the caller does before the point are actions that the run is given. Log lines, the meter of a pipe
  and the observer's messages are output; whether there is an observer decides whether the sizes are
  asked for (\<open>c_observed\<close>). A lookup \<open>self.origin[rel]\<close> or \<open>self.dest[rel]\<close> is made for a dataset
  of the last survey, which holds it.
\<close>

section \<open>Layout\<close>

definition SANOID_UNITS :: "string list" where
  "SANOID_UNITS = [''sanoid.service'', ''sanoid-prune.service'']"

definition SANOID_WAIT_SECONDS :: nat where
  "SANOID_WAIT_SECONDS = 600"

record outcome =
  out_rel :: string
  out_ok :: bool
  out_error :: string
  out_enospc :: bool

definition Outcome :: "string \<Rightarrow> bool \<Rightarrow> string \<Rightarrow> bool \<Rightarrow> outcome" where
  "Outcome rel good err entire = \<lparr>out_rel = rel, out_ok = good, out_error = err, out_enospc = entire\<rparr>"

record verdict =
  v_target :: string
  v_drop :: bool
  v_reason :: string
  v_owner :: string

definition Verdict :: "string \<Rightarrow> bool \<Rightarrow> string \<Rightarrow> string \<Rightarrow> verdict" where
  "Verdict t dr why own = \<lparr>v_target = t, v_drop = dr, v_reason = why, v_owner = own\<rparr>"

record pipe_result =
  pr_left :: int
  pr_right :: int
  pr_stdout :: string
  pr_err_left :: string
  pr_err_right :: string

record 'w os =
  os_exec :: "'w shell"
  os_pipe :: "string \<Rightarrow> string \<Rightarrow> 'w \<Rightarrow> pipe_result \<times> 'w"
  os_marker :: "'w \<Rightarrow> bool"
  os_write_marker :: "string \<Rightarrow> 'w \<Rightarrow> 'w"
  os_remove_marker :: "'w \<Rightarrow> 'w"
  os_sleep :: "nat \<Rightarrow> 'w \<Rightarrow> 'w"

record cfg =
  c_pool :: string
  c_guid :: string
  c_point :: string
  c_pools :: "string list"
  c_exclusions :: "string list"
  c_layout :: string
  c_observed :: bool

text \<open>What the cleanup at exit would run: the two undo actions a run tracks.\<close>

datatype undo = Resume_sanoid | Undo_point

record 'w eng = "'w machine" +
  e_origin :: "(string, origin) dict"
  e_dest :: "(string, dest) dict"
  e_started :: "string list"
  e_timer :: bool
  e_estimates :: "(string, int) dict"
  e_tracked :: "undo list"

type_synonym ('w, 'a) eng_action = "('w eng, 'a) action"

definition sh :: "'w os \<Rightarrow> cmd \<Rightarrow> (('w, 'z) machine_scheme, run_result) action" where
  "sh env c = run (os_exec env) c"

definition sh_line :: "'w os \<Rightarrow> string \<Rightarrow> (('w, 'z) machine_scheme, run_result) action" where
  "sh_line env l = sh env (Line l)"

definition on_world :: "('w \<Rightarrow> 'w) \<Rightarrow> (('w, 'z) machine_scheme, unit) action" where
  "on_world f = State_Monad.update (\<lambda>m. m\<lparr>m_world := f (m_world m)\<rparr>)"

definition look :: "('m \<Rightarrow> 'a) \<Rightarrow> ('m, 'a) action" where
  "look f = State (\<lambda>m. (f m, m))"


section \<open>\<open>sh.run_pipe\<close>\<close>

definition rstrip :: "string \<Rightarrow> string" where
  "rstrip s = rstrip_where is_space s"

definition pipe_rc :: "pipe_result \<Rightarrow> int" where
  "pipe_rc r = (if pr_right r \<noteq> 0 then pr_right r else if pr_left r \<noteq> 0 then pr_left r else 0)"

definition pipe_stderr :: "pipe_result \<Rightarrow> string" where
  "pipe_stderr r =
     (if pr_err_left r \<noteq> '''' \<and> pr_err_right r \<noteq> ''''
      then rstrip (pr_err_left r) @ [CHR 0x0A] @ pr_err_right r
      else if pr_err_left r \<noteq> '''' then pr_err_left r else pr_err_right r)"

definition run_pipe :: "'w os \<Rightarrow> string \<Rightarrow> string \<Rightarrow> (('w, 'z) machine_scheme, pipe_result) action" where
  "run_pipe env a b = State (\<lambda>m. case os_pipe env a b (m_world m) of
     (r, w) \<Rightarrow> (r, m\<lparr>m_world := w, m_issued := m_issued m @ [Line (a @ '' | '' @ b)]\<rparr>))"


section \<open>sanoid\<close>

fun sanoid_busy :: "'w os \<Rightarrow> string list \<Rightarrow> (('w, 'z) machine_scheme, bool) action" where
  "sanoid_busy env [] = State_Monad.return False"
| "sanoid_busy env (u # us) = do {
     r \<leftarrow> sh_line env (''systemctl is-active '' @ u);
     if rr_output r \<in> {''active'', ''activating''} then State_Monad.return True else sanoid_busy env us
   }"

text \<open>The wait, by the rounds of five seconds that are left.\<close>

fun wait_sanoid :: "'w os \<Rightarrow> nat \<Rightarrow> (('w, 'z) machine_scheme, bool) action" where
  "wait_sanoid env 0 = do { busy \<leftarrow> sanoid_busy env SANOID_UNITS; State_Monad.return (\<not> busy) }"
| "wait_sanoid env (Suc n) = do {
     busy \<leftarrow> sanoid_busy env SANOID_UNITS;
     if \<not> busy then State_Monad.return True
     else do { _ \<leftarrow> on_world (os_sleep env 5); wait_sanoid env n }
   }"

definition set_timer :: "bool \<Rightarrow> ('w, unit) eng_action" where
  "set_timer b = State_Monad.update (\<lambda>e. e\<lparr>e_timer := b\<rparr>)"

definition pause_sanoid :: "'w os \<Rightarrow> cfg \<Rightarrow> ('w, bool) eng_action" where
  "pause_sanoid env c = do {
     r \<leftarrow> sh_line env ''systemctl is-active sanoid.timer'';
     let active = (rr_output r = ''active'');
     there \<leftarrow> look (\<lambda>e. os_marker env (m_world e));
     _ \<leftarrow> set_timer (active \<or> (\<not> active \<and> there));
     _ \<leftarrow> (if active then do {
            _ \<leftarrow> on_world (os_write_marker env (c_point c @ [CHR 0x0A]));
            _ \<leftarrow> sh_line env ''systemctl stop sanoid.timer'';
            State_Monad.return ()
          } else State_Monad.return ());
     wait_sanoid env (SANOID_WAIT_SECONDS div 5)
   }"

definition resume_sanoid :: "'w os \<Rightarrow> ('w, unit) eng_action" where
  "resume_sanoid env = do {
     was \<leftarrow> look e_timer;
     if \<not> was then State_Monad.return ()
     else do {
       _ \<leftarrow> set_timer False;
       r \<leftarrow> sh_line env ''systemctl start sanoid.timer'';
       if ok r then on_world (os_remove_marker env) else State_Monad.return ()
     }
   }"


section \<open>The point and the survey\<close>

fun snapshot_pools :: "'w os \<Rightarrow> cfg \<Rightarrow> string list \<Rightarrow> string list \<Rightarrow> (('w, 'z) machine_scheme, bool) action" where
  "snapshot_pools env c wanted [] = State_Monad.return True"
| "snapshot_pools env c wanted (pool # pools) =
     (let names = filter (\<lambda>rel. rel = pool \<or> startswith rel (pool @ ''/'')) wanted in
      if names = [] then snapshot_pools env c wanted pools
      else do {
        r \<leftarrow> sh_line env (''zfs snapshot -o '' @ POINT_FOR @ ''='' @ quote (c_guid c) @ '' ''
               @ join_on '' '' (map (\<lambda>n. quote (at_snap n (c_point c))) names));
        if ok r then snapshot_pools env c wanted pools else State_Monad.return False
      })"

definition take_point :: "'w os \<Rightarrow> cfg \<Rightarrow> ('w, bool) eng_action" where
  "take_point env c = do {
     ori \<leftarrow> read_origin (os_exec env) (c_pools c) True;
     case ori of Inl e \<Rightarrow> State_Monad.return False
     | Inr os \<Rightarrow> do {
         _ \<leftarrow> State_Monad.update (\<lambda>e. e\<lparr>e_origin := os\<rparr>);
         snapshot_pools env c (expected os (c_exclusions c)) (c_pools c)
       }
   }"

definition not_imported :: "cfg \<Rightarrow> (string, dest) dict \<Rightarrow> string option" where
  "not_imported c dst = find (\<lambda>pool. list_ex (\<lambda>rel. rel = pool \<or> startswith rel (pool @ ''/'')) (dict_keys dst)
     \<and> pool \<notin> set (c_pools c) \<and> \<not> (pool = ''bpool'' \<and> c_layout c = ''ext4'')) [''rpool'', ''bpool'']"

definition survey :: "'w os \<Rightarrow> cfg \<Rightarrow> ('w eng, dataset_plan list) reading" where
  "survey env c =
     on_read (read_origin (os_exec env) (c_pools c) True) (\<lambda>ori. do {
       _ \<leftarrow> State_Monad.update (\<lambda>e. e\<lparr>e_origin := ori\<rparr>);
       on_read (read_dest (os_exec env) (c_pool c) True) (\<lambda>dst. do {
         _ \<leftarrow> State_Monad.update (\<lambda>e. e\<lparr>e_dest := dst\<rparr>);
         State_Monad.return (case not_imported c dst of
             Some pool \<Rightarrow> Inl (pool @ '' is not imported, and '' @ c_pool c @ '' holds its backup '' @ ''(import it first: sudo zpool import '' @ pool @ '')'')
           | None \<Rightarrow> Inr (plan ori dst (c_point c) (c_exclusions c)))
       })
     })"


section \<open>Sizes\<close>

definition blank_origin :: "string \<Rightarrow> origin" where
  "blank_origin rel = \<lparr>o_rel = rel, o_kind = ''filesystem'', o_canmount = '''', o_mountpoint = '''',
     o_referenced = 0, o_snaps = [], o_bookmarks = [], o_clone_of = ''''\<rparr>"

definition blank_dest :: "string \<Rightarrow> dest" where
  "blank_dest rel = \<lparr>d_rel = rel, d_kind = ''filesystem'', d_token = '''', d_orphan = '''',
     d_excluded_kept = '''', d_used = 0, d_written = 0, d_snaps = [], d_clone_of = ''''\<rparr>"

definition origin_at :: "(string, origin) dict \<Rightarrow> string \<Rightarrow> origin" where
  "origin_at ori rel = dict_get_or ori rel (blank_origin rel)"

definition raw_flag :: "string \<Rightarrow> string" where
  "raw_flag rel = (if is_bpool rel then '''' else ''-w '')"

definition after_bookmark :: "(string, origin) dict \<Rightarrow> string \<Rightarrow> string \<Rightarrow> string \<Rightarrow> string" where
  "after_bookmark ori point rel bookmark =
     (let x = origin_at ori rel;
          bm = find (\<lambda>b. r_name b = bookmark) (o_bookmarks x);
          later = filter (\<lambda>s. case bm of None \<Rightarrow> True | Some b \<Rightarrow> r_createtxg s > r_createtxg b) (o_snaps x)
      in case later of s # _ \<Rightarrow> at_snap rel (r_name s) | [] \<Rightarrow> at_snap rel point)"

definition send_args ::
    "cfg \<Rightarrow> (string, origin) dict \<Rightarrow> (string, dest) dict \<Rightarrow> dataset_plan \<Rightarrow> bool \<Rightarrow> string list" where
  "send_args c ori dst p entire =
     (let rel = p_rel p; pt = at_snap rel (c_point c); raw = raw_flag rel in
      if p_state p = RESUME then [''-t '' @ quote (d_token (dict_get_or dst rel (blank_dest rel)))]
      else if p_state p = NEW \<and> p_clone_from p \<noteq> '''' \<and> \<not> entire
        then [raw @ ''-I '' @ quote (p_base p) @ '' '' @ quote pt]
      else if entire \<or> p_state p \<in> {NEW, DIVERGED} then [raw @ quote pt]
      else if p_state p = VIA_BOOKMARK \<or> startswith (p_base p) ''#'' then
        (let fst_snap = (if p_first p \<noteq> '''' then rel @ p_first p
                         else after_bookmark ori (c_point c) rel (drop 1 (p_base p)))
         in [''-w -i '' @ quote (rel @ p_base p) @ '' '' @ quote fst_snap]
            @ (if fst_snap \<noteq> pt then [''-w -I '' @ quote fst_snap @ '' '' @ quote pt] else []))
      else if p_state p \<in> {INCREMENTAL, ROLLBACK, MODIFIED}
        then (if p_base p \<noteq> '''' then [raw @ ''-I '' @ quote (rel @ p_base p) @ '' '' @ quote pt] else [])
      else [])"

definition size_line :: "string \<Rightarrow> int" where
  "size_line line = (case tabs line of
       [a, b] \<Rightarrow> if a = ''size'' \<and> isdigit b then int (dec_val b) else 0
     | _ \<Rightarrow> 0)"

fun estimate_args :: "'w os \<Rightarrow> string list \<Rightarrow> int \<Rightarrow> ('w, int) eng_action" where
  "estimate_args env [] tot = State_Monad.return tot"
| "estimate_args env (args # rest) tot = do {
     known \<leftarrow> look (\<lambda>e. map_of (e_estimates e) args);
     size \<leftarrow> (case known of Some n \<Rightarrow> State_Monad.return n
             | None \<Rightarrow> do {
                 r \<leftarrow> sh_line env (''zfs send -nvP '' @ args);
                 let n = sum_list (map size_line (split_lines (rr_stdout r @ [CHR 0x0A] @ rr_stderr r)));
                 _ \<leftarrow> State_Monad.update (\<lambda>e. e\<lparr>e_estimates := dict_set args n (e_estimates e)\<rparr>);
                 State_Monad.return n
               });
     estimate_args env rest (tot + size)
   }"

definition estimate :: "'w os \<Rightarrow> cfg \<Rightarrow> dataset_plan \<Rightarrow> bool \<Rightarrow> ('w, int) eng_action" where
  "estimate env c p entire = do {
     ori \<leftarrow> look e_origin;
     dst \<leftarrow> look e_dest;
     estimate_args env
       (if p_state p = NEW \<and> p_clone_from p \<noteq> '''' \<and> \<not> entire
        then [raw_flag (p_rel p) @ ''-i '' @ quote (p_base p) @ '' '' @ quote (at_snap (p_rel p) (c_point c))]
        else send_args c ori dst p entire) 0
   }"


section \<open>Decisions\<close>

definition dst_name :: "cfg \<Rightarrow> string \<Rightarrow> string" where
  "dst_name c rel = c_pool c @ ''/'' @ rel"

definition line_ok :: "'w os \<Rightarrow> string \<Rightarrow> (('w, 'z) machine_scheme, bool) action" where
  "line_ok env l = do { r \<leftarrow> sh_line env l; State_Monad.return (ok r) }"

definition rollback :: "'w os \<Rightarrow> cfg \<Rightarrow> dataset_plan \<Rightarrow> ('w, bool) eng_action" where
  "rollback env c p = line_ok env (''zfs rollback -r '' @ quote (dst_name c (p_rel p) @ p_common p))"

definition abort_partial :: "'w os \<Rightarrow> cfg \<Rightarrow> string \<Rightarrow> ('w, bool) eng_action" where
  "abort_partial env c rel = line_ok env (''zfs receive -A '' @ quote (dst_name c rel))"

definition discard_changes :: "'w os \<Rightarrow> cfg \<Rightarrow> dataset_plan \<Rightarrow> ('w, bool) eng_action" where
  "discard_changes env c p = do {
     cleared \<leftarrow> (if p_partial p then abort_partial env c (p_rel p) else State_Monad.return True);
     if \<not> cleared then State_Monad.return False
     else line_ok env (''zfs rollback '' @ quote (dst_name c (p_rel p) @ p_common p))
   }"

definition rename_line :: "cfg \<Rightarrow> string \<Rightarrow> string \<Rightarrow> string" where
  "rename_line c a b = ''zfs rename '' @ quote (dst_name c a) @ '' '' @ quote (dst_name c b)"

definition archive :: "'w os \<Rightarrow> cfg \<Rightarrow> int \<Rightarrow> dataset_plan \<Rightarrow> ('w, string) eng_action" where
  "archive env c now p = do {
     dst \<leftarrow> look e_dest;
     let new = archive_name (p_rel p) (dict_keys dst) now;
     good \<leftarrow> line_ok env (rename_line c (p_rel p) new);
     if good then do {
       _ \<leftarrow> State_Monad.update (\<lambda>e. e\<lparr>e_dest :=
             dict_set new (dict_get_or dst (p_rel p) (blank_dest new)) (dict_del (p_rel p) dst)\<rparr>);
       State_Monad.return new
     } else State_Monad.return ''''
   }"

fun lines_ok :: "'w os \<Rightarrow> string list \<Rightarrow> (('w, 'z) machine_scheme, bool) action" where
  "lines_ok env [] = State_Monad.return True"
| "lines_ok env (l # ls) = do { good \<leftarrow> line_ok env l; if good then lines_ok env ls else State_Monad.return False }"

definition branch :: "'w os \<Rightarrow> cfg \<Rightarrow> int \<Rightarrow> dataset_plan \<Rightarrow> ('w, bool) eng_action" where
  "branch env c now p = do {
     dst \<leftarrow> look e_dest;
     let children = sort (filter (\<lambda>rel. parent rel = p_rel p) (dict_keys dst));
     new \<leftarrow> archive env c now p;
     if new = '''' then State_Monad.return False
     else do {
       ori \<leftarrow> look e_origin;
       let x = origin_at ori (p_rel p);
       let live = dst_name c (p_rel p);
       lines_ok env
         ([''zfs clone -o canmount=noauto -o org.zark:canmount='' @ quote (o_canmount x) @ '' -o org.zark:mountpoint=''
             @ quote (o_mountpoint x) @ '' '' @ quote (dst_name c new @ p_common p) @ '' '' @ quote live,
           ''zfs promote '' @ quote live]
          @ map (\<lambda>child. rename_line c (new @ drop (length (p_rel p)) child) child) children)
     }
   }"

definition destroy :: "'w os \<Rightarrow> cfg \<Rightarrow> dataset_plan \<Rightarrow> destroyplan option \<Rightarrow> ('w, bool) eng_action" where
  "destroy env c p deps = do {
     good \<leftarrow> (case deps of None \<Rightarrow> State_Monad.return True
             | Some d \<Rightarrow> do { r \<leftarrow> destroy_dependents (os_exec env) (c_pool c) d; State_Monad.return (snd r) });
     if \<not> good then State_Monad.return False
     else line_ok env (''zfs destroy -r '' @ quote (dst_name c (p_rel p)))
   }"

fun set_losses :: "'w os \<Rightarrow> (string \<times> point_loss) list \<Rightarrow> (('w, 'z) machine_scheme, unit) action" where
  "set_losses env [] = State_Monad.return ()"
| "set_losses env ((name, loss) # rest) = do {
     _ \<leftarrow> sh env (Argv ([''zfs'', ''set'', COMPLETE_PROP @ ''='' @ py_str (pl_count loss)] @ pl_targets loss));
     set_losses env rest
   }"

definition destroy_orphan :: "'w os \<Rightarrow> cfg \<Rightarrow> dataset_plan \<Rightarrow> destroyplan \<Rightarrow> ('w, bool) eng_action" where
  "destroy_orphan env c p deps = do {
     ss \<leftarrow> drive_snapshots (os_exec env) (c_pool c) True;
     case ss of Inl e \<Rightarrow> State_Monad.return False
     | Inr snaps \<Rightarrow> do {
         res \<leftarrow> destroy_dependents (os_exec env) (c_pool c) deps;
         good \<leftarrow> (if snd res then destroy env c p None else State_Monad.return False);
         _ \<leftarrow> set_losses env (point_losses (c_pool c) snaps (fst res @ (if good then [p_rel p] else [])));
         State_Monad.return good
       }
   }"

definition keep_orphan :: "'w os \<Rightarrow> cfg \<Rightarrow> dataset_plan \<Rightarrow> string \<Rightarrow> ('w, bool) eng_action" where
  "keep_orphan env c p stamp =
     line_ok env (''zfs set '' @ ORPHAN_PROP @ ''='' @ quote (''kept@'' @ stamp) @ '' '' @ quote (dst_name c (p_rel p)))"

fun clear_marks ::
    "'w os \<Rightarrow> cfg \<Rightarrow> string \<Rightarrow> (dest \<Rightarrow> dest) \<Rightarrow> string list \<Rightarrow> string list \<Rightarrow> ('w, string list) eng_action" where
  "clear_marks env c prop f [] cleared = State_Monad.return cleared"
| "clear_marks env c prop f (rel # rels) cleared = do {
     good \<leftarrow> line_ok env (''zfs inherit '' @ prop @ '' '' @ quote (dst_name c rel));
     _ \<leftarrow> State_Monad.update (\<lambda>e. if good then e\<lparr>e_dest := map (\<lambda>(r, d). (r, if r = rel then f d else d)) (e_dest e)\<rparr> else e);
     clear_marks env c prop f rels (if good then cleared @ [rel] else cleared)
   }"

definition clear_orphan_marks :: "'w os \<Rightarrow> cfg \<Rightarrow> ('w, string list) eng_action" where
  "clear_orphan_marks env c = do {
     dst \<leftarrow> look e_dest;
     ori \<leftarrow> look e_origin;
     clear_marks env c ORPHAN_PROP (\<lambda>d. d\<lparr>d_orphan := ''''\<rparr>)
       (map fst (filter (\<lambda>(rel, d). d_orphan d \<noteq> '''' \<and> map_of ori rel \<noteq> None) (sort_key fst dst))) []
   }"

definition clear_excluded_kept :: "'w os \<Rightarrow> cfg \<Rightarrow> ('w, string list) eng_action" where
  "clear_excluded_kept env c = do {
     dst \<leftarrow> look e_dest;
     clear_marks env c EXCLUDED_KEPT_PROP (\<lambda>d. d\<lparr>d_excluded_kept := ''''\<rparr>)
       (map fst (filter (\<lambda>(rel, d). d_excluded_kept d \<noteq> '''' \<and> \<not> is_excluded rel (c_exclusions c)) (sort_key fst dst))) []
   }"

definition follow_rename :: "'w os \<Rightarrow> cfg \<Rightarrow> dataset_plan \<Rightarrow> ('w, bool) eng_action" where
  "follow_rename env c p = line_ok env (rename_line c (p_rel p) (p_rename_to p))"

fun create_containers :: "'w os \<Rightarrow> cfg \<Rightarrow> string list \<Rightarrow> string list \<Rightarrow> ('w, string list) eng_action" where
  "create_containers env c [] failed = State_Monad.return failed"
| "create_containers env c (rel # rels) failed = do {
     ori \<leftarrow> look e_origin;
     dst \<leftarrow> look e_dest;
     if map_of ori rel = None \<or> map_of dst rel \<noteq> None then create_containers env c rels failed
     else if parent rel \<noteq> '''' \<and> map_of dst (parent rel) = None then create_containers env c rels (failed @ [rel])
     else do {
       good \<leftarrow> line_ok env (''zfs create -o canmount=off -o mountpoint=none '' @ quote (dst_name c rel));
       _ \<leftarrow> State_Monad.update (\<lambda>e. if good then e\<lparr>e_dest := dict_set rel (blank_dest rel) dst\<rparr> else e);
       create_containers env c rels (if good then failed else failed @ [rel])
     }
   }"

definition ensure_containers :: "'w os \<Rightarrow> cfg \<Rightarrow> ('w, string list) eng_action" where
  "ensure_containers env c = create_containers env c STRUCTURAL []"


section \<open>Transfers\<close>

text \<open>\<open>last_message\<close>: from the last line that starts with \<open>cannot\<close> to the end, or the last line.\<close>

definition message_lines :: "string \<Rightarrow> string list" where
  "message_lines err = filter (\<lambda>l. l \<noteq> '''') (map strip (split_lines err))"

definition last_message :: "string \<Rightarrow> string" where
  "last_message err =
     (let ls = message_lines err;
          starts = filter (\<lambda>i. startswith (ls ! i) ''cannot '') [0..<length ls]
      in if starts \<noteq> [] then join_on '' '' (drop (last starts) ls)
         else if ls \<noteq> [] then last ls else '''')"

definition pipe_message :: "pipe_result \<Rightarrow> string" where
  "pipe_message r =
     (if pr_err_left r = '''' \<and> pr_err_right r = '''' then last_message (pipe_stderr r)
      else join_on ''; '' (filter (\<lambda>m. m \<noteq> '''') [last_message (pr_err_left r), last_message (pr_err_right r)]))"

definition recv_line :: "cfg \<Rightarrow> (string, origin) dict \<Rightarrow> string \<Rightarrow> bool \<Rightarrow> string \<Rightarrow> string" where
  "recv_line c ori rel resume clone_from =
     (let dst = quote (dst_name c rel) in
      if resume then ''zfs receive -s -u '' @ dst
      else let x = origin_at ori rel;
               props = (if clone_from \<noteq> '''' then [''-o origin='' @ quote (dst_name c clone_from)] else [])
                 @ [''-o canmount=noauto'', ''-x mountpoint'', ''-o org.zark:canmount='' @ quote (o_canmount x),
                    ''-o org.zark:mountpoint='' @ quote (o_mountpoint x)]
           in ''zfs receive -s -u '' @ join_on '' '' props @ '' '' @ dst)"

fun send_all :: "'w os \<Rightarrow> string \<Rightarrow> string \<Rightarrow> string list \<Rightarrow> (('w, 'z) machine_scheme, outcome) action" where
  "send_all env rel recv [] = State_Monad.return (Outcome rel True '''' False)"
| "send_all env rel recv (args # rest) = do {
     r \<leftarrow> run_pipe env (''zfs send '' @ args) recv;
     if pipe_rc r \<noteq> 0
     then State_Monad.return (Outcome rel False
            (if pipe_message r \<noteq> '''' then pipe_message r else ''rc='' @ py_str (pipe_rc r))
            (is_enospc (pipe_stderr r) \<or> is_enospc (pr_stdout r)))
     else send_all env rel recv rest
   }"

text \<open>\<open>str(p.state)\<close>: the values of the enumeration.\<close>

fun state_text :: "Replication.state \<Rightarrow> string" where
  "state_text AT_POINT = ''at point''"
| "state_text RESUME = ''resume''"
| "state_text NEW = ''new''"
| "state_text INCREMENTAL = ''incremental''"
| "state_text VIA_BOOKMARK = ''via bookmark''"
| "state_text ROLLBACK = ''rollback''"
| "state_text DIVERGED = ''diverged''"
| "state_text MODIFIED = ''modified on backup''"
| "state_text ORPHAN = ''only on backup''"
| "state_text EXCLUDED = ''excluded''"

definition transfer :: "'w os \<Rightarrow> cfg \<Rightarrow> dataset_plan \<Rightarrow> ('w, outcome) eng_action" where
  "transfer env c p =
     (if p_state p = AT_POINT then State_Monad.return (Outcome (p_rel p) True '''' False)
      else if p_state p \<notin> set TRANSFERABLE
        then State_Monad.return (Outcome (p_rel p) False (''not transferable ('' @ state_text (p_state p) @ '')'') False)
      else do {
        _ \<leftarrow> State_Monad.update (\<lambda>e. e\<lparr>e_started := List.insert (p_rel p) (e_started e)\<rparr>);
        ori \<leftarrow> look e_origin;
        dst \<leftarrow> look e_dest;
        send_all env (p_rel p)
          (recv_line c ori (p_rel p) (p_state p = RESUME) (if p_state p = NEW then p_clone_from p else ''''))
          (send_args c ori dst p False)
      })"

definition resume_impossible :: "'w os \<Rightarrow> string \<Rightarrow> ('w, string) eng_action" where
  "resume_impossible env rel = do {
     d \<leftarrow> look (\<lambda>e. map_of (e_dest e) rel);
     case d of None \<Rightarrow> State_Monad.return ''''
     | Some x \<Rightarrow>
         if d_token x = '''' then State_Monad.return ''''
         else do {
           r \<leftarrow> sh_line env (''env LC_ALL=C zfs send -nvP -t '' @ quote (d_token x));
           let msg = last_message (rr_stderr r);
           State_Monad.return (if ok r then ''''
             else if list_ex (contains msg) [''no longer exists'', ''is no longer the same snapshot''] then msg
             else '''')
         }
   }"

fun discard_stale_partials :: "'w os \<Rightarrow> cfg \<Rightarrow> dataset_plan list \<Rightarrow> ('w, string list) eng_action" where
  "discard_stale_partials env c [] = State_Monad.return []"
| "discard_stale_partials env c (p # ps) =
     (if p_state p \<noteq> RESUME then discard_stale_partials env c ps
      else do {
        why \<leftarrow> resume_impossible env (p_rel p);
        gone \<leftarrow> (if why \<noteq> '''' then abort_partial env c (p_rel p) else State_Monad.return False);
        rest \<leftarrow> discard_stale_partials env c ps;
        State_Monad.return (if gone then p_rel p # rest else rest)
      })"



section \<open>After the transfers\<close>

definition ANCHOR_RETRY_SECONDS :: nat where
  "ANCHOR_RETRY_SECONDS = 2"

fun anchor :: "'w os \<Rightarrow> cfg \<Rightarrow> string list \<Rightarrow> string list \<Rightarrow> ('w, string list) eng_action" where
  "anchor env c [] failed = State_Monad.return failed"
| "anchor env c (rel # rels) failed = do {
     here \<leftarrow> look (\<lambda>e. map_of (e_origin e) rel \<noteq> None);
     if \<not> here then anchor env c rels failed
     else do {
       once \<leftarrow> anchor_point (os_exec env) rel (c_point c) (c_guid c);
       if once then anchor env c rels failed
       else do {
         _ \<leftarrow> on_world (os_sleep env ANCHOR_RETRY_SECONDS);
         again \<leftarrow> anchor_point (os_exec env) rel (c_point c) (c_guid c);
         anchor env c rels (if again then failed else failed @ [rel])
       }
     }
   }"

text \<open>What \<open>anchor_held\<close> bookmarks in a dataset: the snapshot and the name of the bookmark.\<close>

definition held_anchor :: "cfg \<Rightarrow> (string, origin) dict \<Rightarrow> (string, dest) dict \<Rightarrow> string \<Rightarrow> (string \<times> string) option" where
  "held_anchor c ori dst rel =
     (let x = origin_at ori rel in
      case (if is_bpool rel then None else case map_of dst rel of None \<Rightarrow> None | Some d \<Rightarrow> newest d) of
        None \<Rightarrow> None
      | Some n \<Rightarrow> (case snap_by_guid x (r_guid n) of
          None \<Rightarrow> None
        | Some s \<Rightarrow>
            (let name = anchor_name (c_guid c) (point_name (r_creation s));
                 mine = filter (\<lambda>b. anchor_disk (r_name b) = c_guid c) (o_bookmarks x)
             in if list_ex (\<lambda>b. r_guid b = r_guid n) mine \<or> list_ex (\<lambda>b. r_name b = name) mine then None
                else Some (r_name s, name))))"

fun anchor_rest ::
    "'w os \<Rightarrow> cfg \<Rightarrow> (string, origin) dict \<Rightarrow> (string, dest) dict \<Rightarrow> string list \<Rightarrow> string list
      \<Rightarrow> (('w, 'z) machine_scheme, string list) action" where
  "anchor_rest env c ori dst [] acc = State_Monad.return acc"
| "anchor_rest env c ori dst (rel # rels) acc =
     (case held_anchor c ori dst rel of
        None \<Rightarrow> anchor_rest env c ori dst rels acc
      | Some (snap, name) \<Rightarrow> do {
          r \<leftarrow> sh env (bookmark_cmd (at_snap rel snap) (at_bookmark rel name));
          anchor_rest env c ori dst rels (if ok r then acc @ [rel] else acc)
        })"

text \<open>\<open>read_origin\<close> then \<open>read_dest\<close>, both strict.\<close>

definition both_sides ::
    "'w os \<Rightarrow> cfg \<Rightarrow> (('w, 'z) machine_scheme, (string, origin) dict \<times> (string, dest) dict) reading" where
  "both_sides env c =
     on_read (read_origin (os_exec env) (c_pools c) True) (\<lambda>ori.
     on_read (read_dest (os_exec env) (c_pool c) True) (\<lambda>dst. State_Monad.return (Inr (ori, dst))))"

definition anchor_held :: "'w os \<Rightarrow> cfg \<Rightarrow> (('w, 'z) machine_scheme, string list) action" where
  "anchor_held env c = do {
     sides \<leftarrow> both_sides env c;
     case sides of Inl e \<Rightarrow> State_Monad.return []
     | Inr (ori, dst) \<Rightarrow> anchor_rest env c ori dst (expected ori (c_exclusions c)) []
   }"

definition shared_with_origin ::
    "'w os \<Rightarrow> cfg \<Rightarrow> (('w, 'z) machine_scheme, (string, ref list) dict option) action" where
  "shared_with_origin env c = do {
     sides \<leftarrow> both_sides env c;
     State_Monad.return (case sides of Inl e \<Rightarrow> None
       | Inr (ori, dst) \<Rightarrow> Some (shared_snapshots ori dst (c_exclusions c)))
   }"


section \<open>What may go from origin\<close>

text \<open>The view of one dataset that the verdicts rest on.\<close>

record drop_view =
  dv_wanted :: bool
  dv_partial :: bool
  dv_on_backup :: "string list"
  dv_verified :: bool
  dv_point :: "ref option"

definition own_anchors :: "string \<Rightarrow> origin \<Rightarrow> ref list" where
  "own_anchors rel x = (if is_bpool rel then o_snaps x else o_bookmarks x)"

definition drop_view_of ::
    "cfg \<Rightarrow> string list \<Rightarrow> (string, dest) dict \<Rightarrow> string \<Rightarrow> origin \<Rightarrow> drop_view" where
  "drop_view_of c wanted dst rel x =
     (let d = map_of dst rel;
          on_backup = (case d of None \<Rightarrow> [] | Some y \<Rightarrow> map r_guid (d_snaps y));
          keep = anchor_name (c_guid c) (c_point c);
          anc = find (\<lambda>a. r_name a = keep) (own_anchors rel x)
      in \<lparr>dv_wanted = (rel \<in> set wanted),
          dv_partial = (case d of None \<Rightarrow> False | Some y \<Rightarrow> d_token y \<noteq> ''''),
          dv_on_backup = on_backup,
          dv_verified = (case anc of None \<Rightarrow> False | Some a \<Rightarrow> r_guid a \<in> set on_backup),
          dv_point = find (\<lambda>s. r_name s = c_point c) (o_snaps x)\<rparr>)"

definition point_verdict ::
    "cfg \<Rightarrow> (string, string) dict \<Rightarrow> drop_view \<Rightarrow> string \<Rightarrow> ref \<Rightarrow> verdict" where
  "point_verdict c owners v rel s =
     (let tgt = at_snap rel (r_name s);
          own = dict_get_or owners tgt '''';
          this = (dv_point v = Some s);
          held = (r_guid s \<in> set (dv_on_backup v));
          keep = anchor_name (c_guid c) (c_point c)
      in if \<not> dv_wanted v then Verdict tgt True ''dataset not replicated'' (if \<not> this then own else '''')
         else if dv_partial v then Verdict tgt False ''partial receive to resume'' ''''
         else if this \<and> \<not> held then Verdict tgt True ''not on the backup, nothing to resume'' ''''
         else if dv_verified v then
           (let other = (if own \<noteq> c_guid c \<and> \<not> this then own else '''') in
            Verdict tgt True
              (if \<not> this \<and> \<not> held then ''not on '' @ c_pool c @ (if other \<noteq> '''' then '''' else ''; it names no drive'')
               else ''on the backup, anchored as '' @ keep) other)
         else Verdict tgt False ''may be the base of the next run'' '''')"

definition anchor_verdict :: "cfg \<Rightarrow> drop_view \<Rightarrow> string \<Rightarrow> string \<Rightarrow> verdict" where
  "anchor_verdict c v rel name =
     (let tgt = rel @ (if is_bpool rel then ''@'' else ''#'') @ name in
      if \<not> dv_wanted v \<and> is_excluded rel (c_exclusions c)
        then Verdict tgt False (''the base if '' @ rel @ '' is included again'') ''''
      else if dv_verified v then Verdict tgt True (''superseded by '' @ anchor_name (c_guid c) (c_point c)) ''''
      else Verdict tgt False ''new anchor not verified'' '''')"

definition dataset_verdicts ::
    "cfg \<Rightarrow> string list \<Rightarrow> (string, dest) dict \<Rightarrow> (string, string) dict \<Rightarrow> string \<times> origin \<Rightarrow> verdict list" where
  "dataset_verdicts c wanted dst owners row = (case row of (rel, x) \<Rightarrow>
     (let v = drop_view_of c wanted dst rel x in
      map (point_verdict c owners v rel) (filter (\<lambda>s. POINT_RE (r_name s)) (o_snaps x))
      @ map (anchor_verdict c v rel)
          (old_anchors (map r_name (own_anchors rel x)) (c_guid c) (anchor_name (c_guid c) (c_point c)))))"

definition verdicts_of ::
    "cfg \<Rightarrow> (string, origin) dict \<Rightarrow> (string, dest) dict \<Rightarrow> (string, string) dict \<Rightarrow> verdict list" where
  "verdicts_of c ori dst owners =
     concat (map (dataset_verdicts c (expected ori (c_exclusions c)) dst owners) (sort_key fst ori))"

definition gone_from :: "(string, dest) dict \<Rightarrow> (string, dest) dict \<Rightarrow> string" where
  "gone_from before dst =
     (case find (\<lambda>rel. map_of dst rel = None) (sort (dict_keys before)) of None \<Rightarrow> '''' | Some rel \<Rightarrow> rel)"

definition drop_check :: "'w os \<Rightarrow> cfg \<Rightarrow> ('w, verdict list) eng_action" where
  "drop_check env c = do {
     sides \<leftarrow> both_sides env c;
     case sides of Inl e \<Rightarrow> State_Monad.return []
     | Inr (ori, dst) \<Rightarrow> do {
         own \<leftarrow> point_owners (os_exec env) (c_pools c);
         case own of Inl e \<Rightarrow> State_Monad.return []
         | Inr owners \<Rightarrow> do {
             before \<leftarrow> look e_dest;
             State_Monad.return (if gone_from before dst \<noteq> '''' then [] else verdicts_of c ori dst owners)
           }
       }
   }"

fun drop_allowed :: "'w os \<Rightarrow> verdict list \<Rightarrow> nat \<Rightarrow> (('w, 'z) machine_scheme, nat) action" where
  "drop_allowed env [] n = State_Monad.return n"
| "drop_allowed env (v # vs) n =
     (if \<not> v_drop v then drop_allowed env vs n
      else do {
        gone \<leftarrow> (if v_owner v \<noteq> '''' then release_point (os_exec env) (v_target v) (v_owner v)
                else do { r \<leftarrow> sh env (destroy_cmd (v_target v)); State_Monad.return (ok r) });
        drop_allowed env vs (if gone then Suc n else n)
      })"



section \<open>A run that did not end normally\<close>

text \<open>The datasets whose point stays because a receive is to be resumed, and those that the drive
  holds at the point.\<close>

definition partial_rels :: "cfg \<Rightarrow> (string, origin) dict \<Rightarrow> (string, dest) dict \<Rightarrow> string list" where
  "partial_rels c ori dst = filter (\<lambda>rel. case map_of dst rel of None \<Rightarrow> False | Some d \<Rightarrow> d_token d \<noteq> '''')
     (expected ori (c_exclusions c))"

definition holds_point :: "cfg \<Rightarrow> (string, origin) dict \<Rightarrow> (string, dest) dict \<Rightarrow> string \<Rightarrow> bool" where
  "holds_point c ori dst rel =
     (case (map_of dst rel, find (\<lambda>s. r_name s = c_point c) (o_snaps (origin_at ori rel))) of
        (Some d, Some own) \<Rightarrow> list_ex (\<lambda>x. r_guid x = r_guid own) (d_snaps d)
      | _ \<Rightarrow> False)"

definition held_rels :: "cfg \<Rightarrow> (string, origin) dict \<Rightarrow> (string, dest) dict \<Rightarrow> string list" where
  "held_rels c ori dst = filter (\<lambda>rel. rel \<notin> set (partial_rels c ori dst) \<and> holds_point c ori dst rel)
     (expected ori (c_exclusions c))"

definition with_point :: "cfg \<Rightarrow> (string, origin) dict \<Rightarrow> string list" where
  "with_point c ori = map fst (filter (\<lambda>(rel, x). list_ex (\<lambda>s. r_name s = c_point c) (o_snaps x)) ori)"

fun destroy_points :: "'w os \<Rightarrow> string list \<Rightarrow> (('w, 'z) machine_scheme, unit) action" where
  "destroy_points env [] = State_Monad.return ()"
| "destroy_points env (t # ts) = do { _ \<leftarrow> sh env (destroy_cmd t); destroy_points env ts }"

text \<open>The datasets whose point stays, and those whose point was renamed to an anchor.\<close>

definition kept_by_drive ::
    "'w os \<Rightarrow> cfg \<Rightarrow> (string, origin) dict \<Rightarrow> string list \<Rightarrow> string + (string, dest) dict
      \<Rightarrow> ('w, string list \<times> string list) eng_action" where
  "kept_by_drive env c ori started rd = (case rd of
       Inr dst \<Rightarrow> (let at_point = held_rels c ori dst in do {
         failed \<leftarrow> anchor env c at_point [];
         _ \<leftarrow> anchor_held env c;
         State_Monad.return (partial_rels c ori dst @ failed,
           filter (\<lambda>rel. is_bpool rel \<and> rel \<notin> set failed) at_point)
       })
     | Inl e \<Rightarrow> State_Monad.return (started, []))"

definition undo_with ::
    "'w os \<Rightarrow> cfg \<Rightarrow> (string, origin) dict \<Rightarrow> string list \<Rightarrow> string + (string, dest) dict \<Rightarrow> ('w, unit) eng_action" where
  "undo_with env c ori started rd = do {
     kept_gone \<leftarrow> kept_by_drive env c ori started rd;
     ro \<leftarrow> read_origin (os_exec env) (c_pools c) True;
     _ \<leftarrow> destroy_points env (map (\<lambda>rel. at_snap rel (c_point c))
           (filter (\<lambda>rel. rel \<notin> set (snd kept_gone)
                \<and> (case ro of Inl e \<Rightarrow> True | Inr now \<Rightarrow> rel \<in> set (with_point c now))
                \<and> rel \<notin> set (fst kept_gone))
              (expected ori (c_exclusions c))));
     resume_sanoid env
   }"

definition undo_point :: "'w os \<Rightarrow> cfg \<Rightarrow> ('w, unit) eng_action" where
  "undo_point env c = do {
     rd \<leftarrow> read_dest (os_exec env) (c_pool c) True;
     ori \<leftarrow> look e_origin;
     started \<leftarrow> look e_started;
     undo_with env c ori started rd
   }"


section \<open>The run\<close>

definition depth_order :: "dataset_plan list \<Rightarrow> dataset_plan list" where
  "depth_order plans = sort_key (\<lambda>p. (length (filter (\<lambda>ch. ch = CHR ''/'') (p_rel p)), p_rel p)) plans"

lemma parent_shorter: "parent rel \<noteq> '''' \<Longrightarrow> length (parent rel) < length rel"
proof -
  assume "parent rel \<noteq> ''''"
  then have "CHR ''/'' \<in> set rel" and p: "parent rel = fst (rsplit_last CHR ''/'' rel)"
    by (auto simp: parent_def split: if_splits)
  from rsplit_last_join [OF this(1)] show ?thesis unfolding p by (metis append_Cons length_append length_Cons less_add_Suc1 add_Suc_right)
qed

function blocked_by_parent :: "string \<Rightarrow> string list \<Rightarrow> bool" where
  "blocked_by_parent rel failed =
     (let up = parent rel in
      if up = '''' then False else if up \<in> set failed then True else blocked_by_parent up failed)"
  by pat_completeness auto
termination
  by (relation "measure (length \<circ> fst)") (auto simp: parent_shorter)

declare blocked_by_parent.simps [simp del]

record result =
  res_plans :: "dataset_plan list"
  res_outcomes :: "(string, outcome) dict"
  res_anchor_failed :: "string list"
  res_aborted :: bool
  res_enospc :: bool
  res_error :: string
  res_unverified :: string
  res_stale :: string

definition Result :: result where
  "Result = \<lparr>res_plans = [], res_outcomes = [], res_anchor_failed = [], res_aborted = False,
     res_enospc = False, res_error = '''', res_unverified = '''', res_stale = ''''\<rparr>"

definition res_ok :: "result \<Rightarrow> bool" where
  "res_ok r = (\<not> res_aborted r \<and> res_unverified r = '''' \<and> res_stale r = '''' \<and> res_plans r \<noteq> []
     \<and> reached (res_plans r))"

definition MAX_ROUNDS :: nat where
  "MAX_ROUNDS = 3"

fun announce :: "'w os \<Rightarrow> cfg \<Rightarrow> dataset_plan list \<Rightarrow> ('w, unit) eng_action" where
  "announce env c [] = State_Monad.return ()"
| "announce env c (p # ps) =
     (if \<not> c_observed c then State_Monad.return ()
      else do { _ \<leftarrow> estimate env c p False; announce env c ps })"

definition put_outcome :: "string \<Rightarrow> outcome \<Rightarrow> result \<Rightarrow> result" where
  "put_outcome rel out res = res\<lparr>res_outcomes := dict_set rel out (res_outcomes res)\<rparr>"

text \<open>The inner loop of a round: the datasets to send, those that failed, whether another round is
  needed, and the result so far.\<close>

fun send_round ::
    "'w os \<Rightarrow> cfg \<Rightarrow> dataset_plan list \<Rightarrow> string list \<Rightarrow> bool \<Rightarrow> result \<Rightarrow> ('w, bool \<times> result) eng_action" where
  "send_round env c [] failed again res = State_Monad.return (again, res)"
| "send_round env c (p # ps) failed again res =
     (let rel = p_rel p in
      if p_state p = NEW \<and> blocked_by_parent rel failed
      then send_round env c ps (List.insert rel failed) again
             (put_outcome rel (Outcome rel False ''parent did not reach the point'' False) res)
      else do {
        out \<leftarrow> transfer env c p;
        let res1 = put_outcome rel out res;
        if out_ok out then send_round env c ps failed (again \<or> p_state p = RESUME) res1
        else if out_enospc out then State_Monad.return (again, res1\<lparr>res_enospc := True\<rparr>)
        else if p_state p \<noteq> RESUME then send_round env c ps (List.insert rel failed) again res1
        else do {
          why \<leftarrow> resume_impossible env rel;
          if why = ''''
          then send_round env c ps (List.insert rel failed) again
                 (put_outcome rel (out\<lparr>out_error := out_error out @ ''; partial receive kept, run backup again''\<rparr>) res1)
          else do {
            gone \<leftarrow> abort_partial env c rel;
            send_round env c ps (List.insert rel failed) (again \<or> gone) res1
          }
        }
      })"

text \<open>A \<open>ReadError\<close> leaves the loops: the result so far and its message.\<close>

fun rounds_left :: "'w os \<Rightarrow> cfg \<Rightarrow> nat \<Rightarrow> result \<Rightarrow> ('w, string option \<times> result) eng_action" where
  "rounds_left env c 0 res = State_Monad.return (None, res)"
| "rounds_left env c (Suc n) res = do {
     s \<leftarrow> survey env c;
     case s of Inl e \<Rightarrow> State_Monad.return (Some e, res)
     | Inr plans \<Rightarrow>
         (let res1 = res\<lparr>res_plans := plans\<rparr>;
              todo = filter (\<lambda>p. p_state p \<in> set TRANSFERABLE \<and> p_state p \<noteq> AT_POINT) (depth_order plans)
          in if todo = [] then State_Monad.return (None, res1)
             else do {
               _ \<leftarrow> announce env c todo;
               ar \<leftarrow> send_round env c todo [] False res1;
               if res_enospc (snd ar) \<or> \<not> fst ar then State_Monad.return (None, snd ar)
               else rounds_left env c n (snd ar)
             })
   }"

definition rounds :: "'w os \<Rightarrow> cfg \<Rightarrow> result \<Rightarrow> ('w, string option \<times> result) eng_action" where
  "rounds env c res = do {
     s \<leftarrow> survey env c;
     case s of Inl e \<Rightarrow> State_Monad.return (Some e, res)
     | Inr plans \<Rightarrow> do {
         _ \<leftarrow> clear_orphan_marks env c;
         _ \<leftarrow> clear_excluded_kept env c;
         _ \<leftarrow> ensure_containers env c;
         rounds_left env c MAX_ROUNDS (res\<lparr>res_plans := plans\<rparr>)
       }
   }"

type_synonym 'w decide = "dataset_plan list \<Rightarrow> ('w, bool) eng_action"

definition first_survey :: "'w os \<Rightarrow> cfg \<Rightarrow> ('w eng, dataset_plan list) reading" where
  "first_survey env c =
     on_read (survey env c) (\<lambda>plans. do {
       gone \<leftarrow> discard_stale_partials env c plans;
       if gone \<noteq> [] then survey env c else State_Monad.return (Inr plans)
     })"

definition finish :: "'w os \<Rightarrow> cfg \<Rightarrow> result \<Rightarrow> ('w, result) eng_action" where
  "finish env c res = do {
     failed \<leftarrow> anchor env c (map p_rel (filter (\<lambda>p. p_state p = AT_POINT) (res_plans res))) [];
     _ \<leftarrow> anchor_held env c;
     vs \<leftarrow> drop_check env c;
     _ \<leftarrow> drop_allowed env vs 0;
     State_Monad.return (res\<lparr>res_anchor_failed := failed\<rparr>)
   }"

text \<open>The survey after the transfers, and what follows it.\<close>

definition settle :: "'w os \<Rightarrow> cfg \<Rightarrow> string option \<times> result \<Rightarrow> ('w, result) eng_action" where
  "settle env c er = (case fst er of
       Some e \<Rightarrow> State_Monad.return ((snd er)\<lparr>res_unverified := e\<rparr>)
     | None \<Rightarrow> do {
         final \<leftarrow> survey env c;
         case final of
           Inl e \<Rightarrow> State_Monad.return ((snd er)\<lparr>res_unverified := e\<rparr>)
         | Inr fin \<Rightarrow> finish env c ((snd er)\<lparr>res_plans := fin\<rparr>)
       })"

definition replicate :: "'w os \<Rightarrow> cfg \<Rightarrow> 'w decide \<Rightarrow> ('w, result) eng_action" where
  "replicate env c decide = do {
     s \<leftarrow> first_survey env c;
     case s of Inl e \<Rightarrow> State_Monad.return (Result\<lparr>res_aborted := True, res_error := e\<rparr>)
     | Inr plans \<Rightarrow> do {
         go \<leftarrow> decide plans;
         if \<not> go then State_Monad.return (Result\<lparr>res_aborted := True\<rparr>)
         else do { er \<leftarrow> rounds env c Result; settle env c er }
       }
   }"

definition track :: "undo \<Rightarrow> ('w, unit) eng_action" where
  "track u = State_Monad.update (\<lambda>e. if u \<in> set (e_tracked e) then e else e\<lparr>e_tracked := e_tracked e @ [u]\<rparr>)"

definition untrack :: "undo \<Rightarrow> ('w, unit) eng_action" where
  "untrack u = State_Monad.update (\<lambda>e. e\<lparr>e_tracked := remove1 u (e_tracked e)\<rparr>)"

text \<open>A run whose point could not be taken, or one that was taken and replicated.\<close>

definition replicate_point :: "'w os \<Rightarrow> cfg \<Rightarrow> 'w decide \<Rightarrow> ('w, result) eng_action" where
  "replicate_point env c decide = do {
     _ \<leftarrow> track Undo_point;
     taken \<leftarrow> take_point env c;
     if \<not> taken then do {
       _ \<leftarrow> untrack Undo_point;
       _ \<leftarrow> undo_point env c;
       State_Monad.return (Result\<lparr>res_aborted := True, res_error := ''could not take '' @ c_point c\<rparr>)
     } else do {
       res \<leftarrow> replicate env c decide;
       _ \<leftarrow> untrack Undo_point;
       _ \<leftarrow> (if res_aborted res then undo_point env c else State_Monad.return ());
       State_Monad.return res
     }
   }"

definition run_body ::
    "'w os \<Rightarrow> cfg \<Rightarrow> ('w, bool) eng_action option \<Rightarrow> 'w decide \<Rightarrow> ('w, result) eng_action" where
  "run_body env c before decide = do {
     paused \<leftarrow> pause_sanoid env c;
     if \<not> paused then State_Monad.return (Result\<lparr>res_aborted := True, res_error := ''sanoid is still running after the wait''\<rparr>)
     else do {
       ready \<leftarrow> (case before of None \<Rightarrow> State_Monad.return True | Some act \<Rightarrow> act);
       if \<not> ready then State_Monad.return (Result\<lparr>res_aborted := True, res_error := ''could not copy /boot before the point''\<rparr>)
       else replicate_point env c decide
     }
   }"

definition execute ::
    "'w os \<Rightarrow> cfg \<Rightarrow> ('w, bool) eng_action option \<Rightarrow> 'w decide \<Rightarrow> ('w, result) eng_action" where
  "execute env c before decide = do {
     _ \<leftarrow> track Resume_sanoid;
     res \<leftarrow> run_body env c before decide;
     _ \<leftarrow> untrack Resume_sanoid;
     _ \<leftarrow> resume_sanoid env;
     State_Monad.return res
   }"

end
