(* ===== verification/Engine_Drop.thy ===== *)
theory Engine_Drop
  imports Engine
begin

text \<open>
  What a run may remove from origin (\<open>Run.drop_check\<close>), and why the next run still has a base. The
  verdicts are taken against the planner of \<open>Replication\<close>: after everything that was allowed to go is
  gone and the next point is taken, no dataset that could be continued has become DIVERGED.
\<close>

section \<open>Lemmas: names\<close>

lemma point_not_anchor:
  assumes "isdigit g"
  shows "\<not> POINT_RE (anchor_name g (point_name now))"
proof -
  let ?s = "anchor_name g (point_name now)"
  have "length (stamp_text (from_timestamp now) @ ''Z'') = 20"
    using matches_length [OF matches_STAMP_text] by simp
  moreover have "g \<noteq> []" using assms by (simp add: isdigit_def)
  ultimately have long: "length ?s \<ge> length POINT_PREFIX + 22"
    by (cases g) (simp_all add: anchor_name_def point_name_def)
  have chop: "length (chop_newline ?s) \<ge> length ?s - 1" by (simp add: chop_newline_def)
  show ?thesis
  proof
    assume "POINT_RE ?s"
    then have "length ?s = length POINT_PREFIX + 20 \<or> length (chop_newline ?s) = length POINT_PREFIX + 20"
      unfolding POINT_RE_def ends_matching_def
      by (elim disjE) (drule matches_length, simp)+
    with long chop show False by linarith
  qed
qed

lemma sep_split:
  assumes "\<forall>x \<in> set a. x \<notin> {CHR ''@'', CHR ''#''}" "\<forall>x \<in> set b. x \<notin> {CHR ''@'', CHR ''#''}"
    and "u \<in> {CHR ''@'', CHR ''#''}" "v \<in> {CHR ''@'', CHR ''#''}"
  shows "a @ u # n = b @ v # k \<longleftrightarrow> a = b \<and> u = v \<and> n = k"
  using assms
proof (induction a arbitrary: b)
  case Nil
  then show ?case by (cases b) auto
next
  case (Cons x a)
  then show ?case by (cases b) auto
qed

lemma verdict_sel [simp]:
  "v_target (Verdict t dr why own) = t" "v_drop (Verdict t dr why own) = dr"
  "v_owner (Verdict t dr why own) = own" "v_reason (Verdict t dr why own) = why"
  by (simp_all add: Verdict_def)

lemma point_verdict_target [simp]: "v_target (point_verdict c owners v rel s) = at_snap rel (r_name s)"
  by (simp add: point_verdict_def Let_def)

lemma anchor_verdict_target [simp]:
  "v_target (anchor_verdict c v rel name) = (if is_bpool rel then at_snap rel name else at_bookmark rel name)"
  by (simp add: anchor_verdict_def Let_def at_snap_def at_bookmark_def)


section \<open>Lemmas: a dataset that can be continued is not diverged\<close>

lemma plan_not_diverged:
  assumes "t \<in> set (d_snaps d)" "recoverable x t" "\<forall>bm \<in> set (o_bookmarks x). later_snaps x bm \<noteq> []"
  shows "p_state (plan_dataset x (Some d) point) \<noteq> DIVERGED"
proof (cases "d_token d = ''''")
  case False
  then have "p_state (plan_dataset_raw x (Some d) point) = RESUME" by (simp add: raw_RESUME)
  then show ?thesis using plan_state_cases [of x d point] by auto
next
  case tok: True
  from assms(1) have n: "newest d = Some (last (d_snaps d))" by (auto simp: newest_def)
  have "p_state (plan_dataset_raw x (Some d) point) \<noteq> DIVERGED"
  proof (cases "newest_usable x (last (d_snaps d))")
    case True
    then show ?thesis using raw_usable_state [OF n _ tok, of x point] by auto
  next
    case False
    have "t \<noteq> last (d_snaps d)"
    proof
      assume "t = last (d_snaps d)"
      with assms(2,3) False show False
        by (auto simp: newest_usable_def recoverable_iff dest: bookmark_by_guid_Some)
    qed
    with assms(1) have "t \<in> set (butlast (d_snaps d))"
      by (metis append_butlast_last_id empty_iff list.set(1) rotate1.simps(2) set_ConsD set_rotate1)
    then obtain j where "j < length (d_snaps d) - 1" "d_snaps d ! j = t"
      by (metis in_set_conv_nth length_butlast nth_butlast)
    with assms(2) obtain p where p: "older_common x d (length (d_snaps d) - 1) = Some p"
      by (metis older_common_None not_Some_eq)
    from older_common_Some [OF p] have "p_state p = ROLLBACK" by (auto simp: rollback_at_def)
    with p raw_fallback [OF n False tok, of point] show ?thesis by (simp add: rollback_or_diverged_def)
  qed
  then show ?thesis using plan_state_cases [of x d point] by auto
qed



section \<open>Lemmas: what the verdicts let go\<close>

text \<open>What is left of a dataset of origin when these names are gone.\<close>

definition left_of :: "string list \<Rightarrow> string \<Rightarrow> origin \<Rightarrow> origin" where
  "left_of gone rel x = x\<lparr>o_snaps := filter (\<lambda>s. at_snap rel (r_name s) \<notin> set gone) (o_snaps x),
     o_bookmarks := filter (\<lambda>b. at_bookmark rel (r_name b) \<notin> set gone) (o_bookmarks x)\<rparr>"

definition dropped :: "verdict list \<Rightarrow> string list" where
  "dropped vs = map v_target (filter v_drop vs)"

text \<open>Names as ZFS gives them: a dataset has no separator in its name, and its snapshots have
  different names.\<close>

definition zfs_names :: "(string, origin) dict \<Rightarrow> bool" where
  "zfs_names ori = (wf_dict ori \<and> (\<forall>(rel, x) \<in> set ori. o_rel x = rel
     \<and> (\<forall>ch \<in> set rel. ch \<notin> {CHR ''@'', CHR ''#''}) \<and> distinct (map r_name (o_snaps x))))"

lemma zfs_namesD:
  assumes "zfs_names ori" "(rel, x) \<in> set ori"
  shows "o_rel x = rel" "\<forall>ch \<in> set rel. ch \<notin> {CHR ''@'', CHR ''#''}" "distinct (map r_name (o_snaps x))"
    "map_of ori rel = Some x"
proof -
  from assms(1) have wf: "wf_dict ori" and all: "\<forall>(rel, x) \<in> set ori. o_rel x = rel
     \<and> (\<forall>ch \<in> set rel. ch \<notin> {CHR ''@'', CHR ''#''}) \<and> distinct (map r_name (o_snaps x))"
    unfolding zfs_names_def by blast+
  from bspec [OF all assms(2)] show "o_rel x = rel" "\<forall>ch \<in> set rel. ch \<notin> {CHR ''@'', CHR ''#''}"
    "distinct (map r_name (o_snaps x))" unfolding prod.case by blast+
  from wf assms(2) show "map_of ori rel = Some x" by (simp add: wf_dict_map_of)
qed

abbreviation view :: "cfg \<Rightarrow> (string, origin) dict \<Rightarrow> (string, dest) dict \<Rightarrow> string \<Rightarrow> origin \<Rightarrow> drop_view" where
  "view c ori dst rel x \<equiv> drop_view_of c (expected ori (c_exclusions c)) dst rel x"

abbreviation older :: "cfg \<Rightarrow> string \<Rightarrow> origin \<Rightarrow> string list" where
  "older c rel x \<equiv> old_anchors (map r_name (own_anchors rel x)) (c_guid c) (anchor_name (c_guid c) (c_point c))"

lemma verdicts_of_set:
  "v \<in> set (verdicts_of c ori dst owners) \<longleftrightarrow> (\<exists>(rel, x) \<in> set ori.
     (\<exists>s \<in> set (o_snaps x). POINT_RE (r_name s) \<and> v = point_verdict c owners (view c ori dst rel x) rel s)
     \<or> (\<exists>name \<in> set (older c rel x). v = anchor_verdict c (view c ori dst rel x) rel name))"
proof -
  have "v \<in> set (dataset_verdicts c wanted dst owners (rel, x)) \<longleftrightarrow>
     (\<exists>s \<in> set (o_snaps x). POINT_RE (r_name s) \<and> v = point_verdict c owners (drop_view_of c wanted dst rel x) rel s)
     \<or> (\<exists>name \<in> set (older c rel x). v = anchor_verdict c (drop_view_of c wanted dst rel x) rel name)"
    for wanted rel x unfolding dataset_verdicts_def prod.case Let_def set_append set_map set_filter by blast
  then show ?thesis by (simp add: verdicts_of_def Bex_def split_paired_Ex split_beta)
qed

lemma dropped_in:
  assumes "zfs_names ori" "(rel, x) \<in> set ori" "u \<in> {CHR ''@'', CHR ''#''}"
    and "rel @ u # n \<in> set (dropped (verdicts_of c ori dst owners))"
  shows "(u = CHR ''@'' \<and> (\<exists>s \<in> set (o_snaps x). POINT_RE (r_name s) \<and> r_name s = n
            \<and> v_drop (point_verdict c owners (view c ori dst rel x) rel s)))
    \<or> (u = (if is_bpool rel then CHR ''@'' else CHR ''#'') \<and> n \<in> set (older c rel x)
        \<and> v_drop (anchor_verdict c (view c ori dst rel x) rel n))"
proof -
  from assms(4) obtain v where v: "v \<in> set (verdicts_of c ori dst owners)" "v_drop v" "v_target v = rel @ u # n"
    by (auto simp: dropped_def)
  from v(1) obtain rel2 x2 where r2: "(rel2, x2) \<in> set ori" and
    cases: "(\<exists>s \<in> set (o_snaps x2). POINT_RE (r_name s) \<and> v = point_verdict c owners (view c ori dst rel2 x2) rel2 s)
     \<or> (\<exists>name \<in> set (older c rel2 x2). v = anchor_verdict c (view c ori dst rel2 x2) rel2 name)"
    unfolding verdicts_of_set by blast
  note names = zfs_namesD(2) [OF assms(1,2)] zfs_namesD(2) [OF assms(1) r2]
  note same = sep_split [OF names(2) names(1) _ assms(3)]
  have eq: "x2 = x" if "rel2 = rel"
    using zfs_namesD(4) [OF assms(1,2)] zfs_namesD(4) [OF assms(1) r2] that by simp
  from cases v(2,3) eq same show ?thesis
    by (auto simp: at_snap_def at_bookmark_def split: if_splits)
qed

lemma view_sel [simp]:
  "dv_wanted (drop_view_of c wanted dst rel x) = (rel \<in> set wanted)"
  "dv_point (drop_view_of c wanted dst rel x) = find (\<lambda>s. r_name s = c_point c) (o_snaps x)"
  by (simp_all add: drop_view_of_def Let_def)

lemma view_on_backup: "map_of dst rel = Some d \<Longrightarrow> dv_on_backup (drop_view_of c wanted dst rel x) = map r_guid (d_snaps d)"
  by (simp add: drop_view_of_def Let_def)

lemma view_verified:
  "dv_verified (drop_view_of c wanted dst rel x) \<longleftrightarrow> (\<exists>a d. find (\<lambda>a. r_name a = anchor_name (c_guid c) (c_point c))
      (own_anchors rel x) = Some a \<and> map_of dst rel = Some d \<and> r_guid a \<in> set (map r_guid (d_snaps d)))"
  by (cases "map_of dst rel") (auto simp: drop_view_of_def Let_def split: option.splits)

lemma point_dropD:
  assumes "v_drop (point_verdict c owners v rel s)" "dv_wanted v" "\<not> dv_verified v"
  shows "dv_point v = Some s \<and> r_guid s \<notin> set (dv_on_backup v)"
  using assms by (auto simp: point_verdict_def Let_def split: if_splits)

lemma anchor_dropD: "v_drop (anchor_verdict c v rel name) \<Longrightarrow> dv_verified v"
  by (auto simp: anchor_verdict_def Let_def split: if_splits)

lemma anchor_verdict_owner: "v_owner (anchor_verdict c v rel name) = ''''"
  by (simp add: anchor_verdict_def Let_def)

text \<open>The new anchor stays, whatever goes.\<close>

lemma new_anchor_stays:
  assumes "zfs_names ori" "(rel, x) \<in> set ori" "isdigit (c_guid c)" "c_point c = point_name now"
    and "u \<in> {CHR ''@'', CHR ''#''}"
  shows "rel @ u # anchor_name (c_guid c) (c_point c) \<notin> set (dropped (verdicts_of c ori dst owners))"
proof
  assume "rel @ u # anchor_name (c_guid c) (c_point c) \<in> set (dropped (verdicts_of c ori dst owners))"
  from dropped_in [OF assms(1,2,5) this] point_not_anchor [OF assms(3), of now] assms(4) show False
    by (auto simp: old_anchors_def)
qed

lemma base_stays:
  assumes "zfs_names ori" "(rel, x) \<in> set ori" "isdigit (c_guid c)" "c_point c = point_name now"
    and rel: "rel \<in> set (expected ori (c_exclusions c))" and d: "map_of dst rel = Some d"
    and s: "s \<in> set (d_snaps d)" "recoverable x s"
  shows "\<exists>t \<in> set (d_snaps d). recoverable (left_of (dropped (verdicts_of c ori dst owners)) rel x) t"
proof (cases "dv_verified (view c ori dst rel x)")
  case True
  then obtain a where a: "a \<in> set (own_anchors rel x)" "r_name a = anchor_name (c_guid c) (c_point c)"
    "r_guid a \<in> set (map r_guid (d_snaps d))"
    using d by (auto simp: view_verified dest: find_SomeD)
  then obtain t where t: "t \<in> set (d_snaps d)" "r_guid a = r_guid t" by auto
  note stays = new_anchor_stays [OF assms(1-4), where dst = dst and owners = owners]
  have "recoverable (left_of (dropped (verdicts_of c ori dst owners)) rel x) t"
    using a t(2) stays [of "CHR ''@''"] stays [of "CHR ''#''"] zfs_namesD(1) [OF assms(1,2)]
    by (auto simp: recoverable_def left_of_def own_anchors_def at_snap_def at_bookmark_def split: if_splits)
  with t(1) show ?thesis by blast
next
  case False
  have snap: "at_snap rel (r_name t) \<notin> set (dropped (verdicts_of c ori dst owners))"
    if t: "t \<in> set (o_snaps x)" "r_guid t = r_guid s" for t
  proof
    assume "at_snap rel (r_name t) \<in> set (dropped (verdicts_of c ori dst owners))"
    then have "rel @ CHR ''@'' # r_name t \<in> set (dropped (verdicts_of c ori dst owners))"
      by (simp add: at_snap_def)
    from dropped_in [OF assms(1,2) _ this] False anchor_dropD
    obtain s' where s': "s' \<in> set (o_snaps x)" "r_name s' = r_name t"
      "v_drop (point_verdict c owners (view c ori dst rel x) rel s')" by blast
    have "s' = t" using s' t(1) zfs_namesD(3) [OF assms(1,2)] by (metis distinct_map inj_onD)
    with point_dropD [OF s'(3) _ False] rel t(2) s(1) show False
      by (auto simp: view_on_backup [OF d])
  qed
  have "at_bookmark rel (r_name b) \<notin> set (dropped (verdicts_of c ori dst owners))" for b
    using dropped_in [OF assms(1,2), of "CHR ''#''" "r_name b" c dst owners] False anchor_dropD
    by (auto simp: at_bookmark_def)
  with snap s(2) have "recoverable (left_of (dropped (verdicts_of c ori dst owners)) rel x) s"
    by (auto simp: recoverable_def left_of_def)
  with s(1) show ?thesis by blast
qed


section \<open>Properties\<close>

text \<open>The dataset at the next run: what was left, and the next point taken.\<close>

definition next_run :: "origin \<Rightarrow> ref \<Rightarrow> origin" where
  "next_run x new = x\<lparr>o_snaps := o_snaps x @ [new]\<rparr>"

text \<open>C2: a run never costs the next one its base. Take any reading of both sides and of the owners of
  points, remove from origin everything that the verdicts allow to go, and take the next point: a
  replicated dataset of which origin could continue some snapshot of the drive is not DIVERGED then,
  so nothing has to be sent again in full.\<close>

theorem drops_keep_a_base:
  assumes "zfs_names ori" "(rel, x) \<in> set ori" "isdigit (c_guid c)" "c_point c = point_name now"
    and "rel \<in> set (expected ori (c_exclusions c))" "map_of dst rel = Some d"
    and "s \<in> set (d_snaps d)" "recoverable x s"
    and "\<forall>b \<in> set (o_bookmarks x). r_createtxg b < r_createtxg new"
  shows "p_state (plan_dataset (next_run (left_of (dropped (verdicts_of c ori dst owners)) rel x) new)
           (Some d) (r_name new)) \<noteq> DIVERGED"
proof -
  let ?y = "left_of (dropped (verdicts_of c ori dst owners)) rel x"
  from base_stays [OF assms(1-8)] obtain t where t: "t \<in> set (d_snaps d)" "recoverable ?y t" by blast
  from t(2) have "recoverable (next_run ?y new) t" by (auto simp: recoverable_def next_run_def)
  moreover have "\<forall>bm \<in> set (o_bookmarks (next_run ?y new)). later_snaps (next_run ?y new) bm \<noteq> []"
    using assms(9) by (auto simp: next_run_def left_of_def later_snaps_def)
  ultimately show ?thesis using t(1) by (rule_tac plan_not_diverged)
qed

definition ex_cfg :: cfg where
  "ex_cfg = \<lparr>c_pool = ''d1'', c_guid = ''5'', c_point = point_name 0, c_pools = [''rpool''],
     c_exclusions = [], c_layout = ''bpool'', c_observed = False\<rparr>"

definition ex_done :: origin where
  "ex_done = \<lparr>o_rel = ''rpool/var'', o_kind = ''filesystem'', o_canmount = ''on'', o_mountpoint = ''/var'',
     o_referenced = 7, o_snaps = [ex_snap (point_name 0) ''g1'' 9],
     o_bookmarks = [ex_snap (anchor_name ''5'' (point_name 0)) ''g1'' 9], o_clone_of = ''''\<rparr>"

lemma ex_done_names: "zfs_names [(''rpool/var'', ex_done)]"
  by (simp add: zfs_names_def wf_dict_def dict_keys_def ex_done_def)

lemma ex_done_expected: "expected [(''rpool/var'', ex_done)] [] = [''rpool/var'']"
  by (simp add: expected_def ex_done_def) code_simp

theorem drops_keep_a_base_witness:
  "p_state (plan_dataset (next_run (left_of (dropped (verdicts_of ex_cfg [(''rpool/var'', ex_done)]
       [(''rpool/var'', ex_dest ''rpool/var'' [ex_snap (point_name 0) ''g1'' 4])] [])) ''rpool/var'' ex_done)
       (ex_snap ''new'' ''g2'' 20)) (Some (ex_dest ''rpool/var'' [ex_snap (point_name 0) ''g1'' 4])) ''new'') \<noteq> DIVERGED"
proof -
  let ?d = "ex_dest ''rpool/var'' [ex_snap (point_name 0) ''g1'' 4]"
  have "(''rpool/var'', ex_done) \<in> set [(''rpool/var'', ex_done)]" "isdigit (c_guid ex_cfg)"
    "c_point ex_cfg = point_name 0" "map_of [(''rpool/var'', ?d)] ''rpool/var'' = Some ?d"
    "ex_snap (point_name 0) ''g1'' 4 \<in> set (d_snaps ?d)"
    by (simp_all add: ex_cfg_def ex_dest_def isdigit_def is_digit_def)
  moreover have "''rpool/var'' \<in> set (expected [(''rpool/var'', ex_done)] (c_exclusions ex_cfg))"
    by (simp add: ex_cfg_def ex_done_expected)
  moreover have "recoverable ex_done (ex_snap (point_name 0) ''g1'' 4)"
    "\<forall>b \<in> set (o_bookmarks ex_done). r_createtxg b < r_createtxg (ex_snap ''new'' ''g2'' 20)"
    by (simp_all add: ex_done_def recoverable_def ex_snap_def)
  moreover have "r_name (ex_snap ''new'' ''g2'' 20) = ''new''" by (simp add: ex_snap_def)
  ultimately show ?thesis by (metis drops_keep_a_base [OF ex_done_names])
qed



end
