(* ===== verification/Engine_Run.thy ===== *)
theory Engine_Run
  imports Engine_Drop
begin

text \<open>
  What a whole run guarantees. An invariant of the run's state is carried through its steps by three
  locales, each for the commands that a step issues: the surveys (\<open>engine_invariant\<close>), the transfers
  (\<open>transfer_invariant\<close>) and the anchors (\<open>anchor_invariant\<close>). They are interpreted twice: with the
  stopped timer, which ends started again, and with the list of issued commands, which shows what a
  transfer round and an undone run may touch.
\<close>

section \<open>Commands by purpose\<close>

definition starts_with_any :: "string list \<Rightarrow> cmd \<Rightarrow> bool" where
  "starts_with_any ps c = (case c of Line l \<Rightarrow> list_ex (startswith l) ps | Argv _ \<Rightarrow> False)"

definition moves_data :: "cmd \<Rightarrow> bool" where
  "moves_data c = starts_with_any [''zfs send '', ''zfs receive -A '', ''zfs inherit '', ''zfs create '',
     ''env LC_ALL=C zfs send -nvP ''] c"

definition anchors :: "cmd \<Rightarrow> bool" where
  "anchors c = ((\<exists>a b. c = bookmark_cmd a b) \<or> (\<exists>a b. c = rename_cmd a b) \<or> (\<exists>a b. c = guids_cmd a b))"

lemma moves_lines:
  "moves_data (Line (''zfs send '' @ s))" "moves_data (Line (''zfs receive -A '' @ s))"
  "moves_data (Line (''zfs inherit '' @ s))" "moves_data (Line (''zfs create '' @ s))"
  "moves_data (Line (''env LC_ALL=C zfs send -nvP '' @ s))"
  by (simp_all add: moves_data_def starts_with_any_def startswith_def)


section \<open>Invariants of a run\<close>

lemma look_run [simp]: "run_state (look f) m = (f m, m)"
  by (simp add: look_def)

lemma keeps_look [keeps_rules]: "keeps I (look f)"
  by (simp add: keeps_def)

lemma keeps_on_read [keeps_rules]: "keeps I act \<Longrightarrow> (\<And>a. keeps I (f a)) \<Longrightarrow> keeps I (on_read act f)"
  unfolding on_read_def by (intro keeps_rules)

locale engine_invariant = run_invariant I allowed
  for I :: "'w eng \<Rightarrow> bool" and allowed :: "cmd \<Rightarrow> bool" +
  assumes reads_allowed: "is_read c \<Longrightarrow> allowed c"
    and fields_keep: "I e \<Longrightarrow> I (e\<lparr>e_origin := ori\<rparr>)" "I e \<Longrightarrow> I (e\<lparr>e_dest := dst\<rparr>)"
      "I e \<Longrightarrow> I (e\<lparr>e_started := st\<rparr>)" "I e \<Longrightarrow> I (e\<lparr>e_estimates := es\<rparr>)" "I e \<Longrightarrow> I (e\<lparr>e_tracked := tr\<rparr>)"
begin

lemma keeps_read: "issues is_read act \<Longrightarrow> keeps I act"
  by (erule keeps_issues) (rule reads_allowed)

lemma keeps_read_origin: "keeps I (read_origin exec pools strict)"
  by (rule keeps_read [OF issues_read_origin])

lemma keeps_read_dest: "keeps I (read_dest exec pool strict)"
  by (rule keeps_read [OF issues_read_dest])

lemma keeps_world: "keeps I (on_world f)"
  unfolding on_world_def using commands_keep [of _ "[]"] by (intro keeps_update) simp

lemma keeps_line: "allowed (Line l) \<Longrightarrow> keeps I (sh_line env l)"
  by (simp add: sh_line_def sh_def keeps_run)

lemma keeps_line_ok: "allowed (Line l) \<Longrightarrow> keeps I (line_ok env l)"
  unfolding line_ok_def by (intro keeps_rules keeps_line)

lemma keeps_pipe:
  assumes "allowed (Line (a @ '' | '' @ b))"
  shows "keeps I (run_pipe env a b)"
  unfolding keeps_def
proof (intro allI impI)
  fix m assume "I m"
  with commands_keep [of m "[Line (a @ '' | '' @ b)]"] assms show "I (snd (run_state (run_pipe env a b) m))"
    by (simp add: run_pipe_def split: prod.split)
qed

lemma keeps_survey: "keeps I (survey env c)"
  unfolding survey_def
  by (intro keeps_rules keeps_read_origin keeps_read_dest) (simp_all add: fields_keep)

lemma keeps_both_sides: "keeps I (both_sides env c)"
  unfolding both_sides_def by (intro keeps_rules keeps_read_origin keeps_read_dest)

lemma keeps_track: "keeps I (track u)" "keeps I (untrack u)"
  unfolding track_def untrack_def by (intro keeps_rules, simp add: fields_keep)+

end

locale transfer_invariant = engine_invariant +
  assumes moves_allowed: "moves_data c \<Longrightarrow> allowed c"
begin

lemmas allowed_line = moves_allowed [OF moves_lines(1)] moves_allowed [OF moves_lines(2)]
  moves_allowed [OF moves_lines(3)] moves_allowed [OF moves_lines(4)] moves_allowed [OF moves_lines(5)]

lemma keeps_abort_partial: "keeps I (abort_partial env c rel)"
  unfolding abort_partial_def by (intro keeps_line_ok allowed_line)

lemma keeps_resume_impossible: "keeps I (resume_impossible env rel)"
  unfolding resume_impossible_def Let_def
  by (intro keeps_rules keeps_line moves_allowed) (simp add: moves_data_def starts_with_any_def startswith_def)

lemma keeps_discard_stale_partials: "keeps I (discard_stale_partials env c ps)"
  by (induction ps) (auto intro!: keeps_rules keeps_abort_partial keeps_resume_impossible)

lemma keeps_first_survey: "keeps I (first_survey env c)"
  unfolding first_survey_def by (intro keeps_rules keeps_survey keeps_discard_stale_partials)

lemma keeps_estimate_args: "keeps I (estimate_args env as tot)"
proof (induction as arbitrary: tot)
  case (Cons a as)
  have "allowed (Line (''zfs send -nvP '' @ a))"
    using moves_allowed [OF moves_lines(1) [of "''-nvP '' @ a"]] by simp
  with Cons show ?case unfolding estimate_args.simps Let_def
    by (intro keeps_rules keeps_line) (simp_all add: fields_keep)
qed (simp add: keeps_return)

lemma keeps_announce: "keeps I (announce env c ps)"
  by (induction ps) (auto simp: estimate_def intro!: keeps_rules keeps_estimate_args)

lemma keeps_send_all: "keeps I (send_all env rel recv as)"
proof (induction as)
  case (Cons a as)
  have "allowed (Line ((''zfs send '' @ a) @ '' | '' @ recv))"
    using moves_allowed [OF moves_lines(1) [of "a @ '' | '' @ recv"]] by simp
  with Cons show ?case unfolding send_all.simps by (intro keeps_rules keeps_pipe)
qed (simp add: keeps_return)

lemma keeps_transfer: "keeps I (transfer env c p)"
  unfolding transfer_def by (intro keeps_rules keeps_send_all) (simp add: fields_keep)

lemma keeps_send_round: "keeps I (send_round env c ps failed again res)"
proof (induction ps arbitrary: failed again res)
  case (Cons p ps)
  then show ?case unfolding send_round.simps Let_def
    by (intro keeps_rules keeps_transfer keeps_resume_impossible keeps_abort_partial)
qed (simp add: keeps_return)

lemma keeps_rounds_left: "keeps I (rounds_left env c n res)"
proof (induction n arbitrary: res)
  case (Suc n)
  then show ?case unfolding rounds_left.simps Let_def
    by (intro keeps_rules keeps_survey keeps_announce keeps_send_round)
qed (simp add: keeps_return)

lemma keeps_clear_marks: "keeps I (clear_marks env c prop f rels cleared)"
proof (induction rels arbitrary: cleared)
  case (Cons r rels)
  then show ?case unfolding clear_marks.simps
    by (intro keeps_rules keeps_line_ok allowed_line) (simp add: fields_keep)
qed (simp add: keeps_return)

lemma keeps_create_containers: "keeps I (create_containers env c rels failed)"
proof (induction rels arbitrary: failed)
  case (Cons r rels)
  have "allowed (Line (''zfs create -o canmount=off -o mountpoint=none '' @ quote (dst_name c r)))"
    using moves_allowed [OF moves_lines(4) [of "''-o canmount=off -o mountpoint=none '' @ quote (dst_name c r)"]] by simp
  with Cons show ?case unfolding create_containers.simps
    by (intro keeps_rules keeps_line_ok) (simp_all add: fields_keep)
qed (simp add: keeps_return)

lemma keeps_rounds: "keeps I (rounds env c res)"
  unfolding rounds_def clear_orphan_marks_def clear_excluded_kept_def ensure_containers_def
  by (intro keeps_rules keeps_survey keeps_clear_marks keeps_create_containers keeps_rounds_left)

end


locale anchor_invariant = engine_invariant +
  assumes anchors_allowed: "anchors c \<Longrightarrow> allowed c"
begin

lemma anchor_commands:
  "allowed (bookmark_cmd a b)" "allowed (rename_cmd a b)" "allowed (guids_cmd a b)"
  by (rule anchors_allowed; auto simp: anchors_def)+

lemma keeps_anchor_point: "keeps I (anchor_point exec rel point guid)"
  unfolding anchor_point_def Let_def by (intro keeps_rules keeps_run anchor_commands)

lemma keeps_anchor: "keeps I (anchor env c rels failed)"
proof (induction rels arbitrary: failed)
  case (Cons r rels)
  then show ?case unfolding anchor.simps by (intro keeps_rules keeps_anchor_point keeps_world)
qed (simp add: keeps_return)

lemma keeps_anchor_rest: "keeps I (anchor_rest env c ori dst rels acc)"
proof (induction rels arbitrary: acc)
  case (Cons r rels)
  then show ?case unfolding anchor_rest.simps sh_def by (intro keeps_rules keeps_run anchor_commands)
qed (simp add: keeps_return)

lemma keeps_anchor_held: "keeps I (anchor_held env c)"
  unfolding anchor_held_def by (intro keeps_rules keeps_both_sides keeps_anchor_rest)

lemma keeps_release_point: "allowed (destroy_cmd t) \<Longrightarrow> keeps I (release_point exec t own)"
  unfolding release_point_def by (intro keeps_rules keeps_run keeps_anchor_point)

lemma keeps_drop_allowed:
  "(\<And>v. v \<in> set vs \<Longrightarrow> v_drop v \<Longrightarrow> allowed (destroy_cmd (v_target v))) \<Longrightarrow> keeps I (drop_allowed env vs n)"
proof (induction vs arbitrary: n)
  case (Cons v vs)
  then have "keeps I (drop_allowed env vs k)" for k by simp
  with Cons.prems [of v] show ?case unfolding drop_allowed.simps sh_def
    by (intro keeps_rules keeps_release_point keeps_run) simp_all
qed (simp add: keeps_return)

lemma keeps_destroy_points: "(\<And>t. t \<in> set ts \<Longrightarrow> allowed (destroy_cmd t)) \<Longrightarrow> keeps I (destroy_points env ts)"
proof (induction ts)
  case (Cons t ts)
  then show ?case unfolding destroy_points.simps sh_def by (intro keeps_rules keeps_run) simp_all
qed (simp add: keeps_return)

lemma issues_point_owners: "issues is_read (point_owners exec pools)"
proof -
  have "issues is_read (owners_of exec pools out)" for out
    by (induction pools arbitrary: out)
       (auto simp: snapshot_marks_def intro!: issues_rules simp: is_read_def startswith_def)
  then show ?thesis by (simp add: point_owners_def)
qed

lemma keeps_drop_check: "keeps I (drop_check env c)"
  unfolding drop_check_def by (intro keeps_rules keeps_both_sides keeps_read issues_point_owners)

end


locale whole_run = transfer_invariant + anchor_invariant +
  assumes destroys_allowed: "allowed (destroy_cmd t)"
    and snapshots_allowed: "allowed (Line (''zfs snapshot '' @ s))"
begin

lemma keeps_finish: "keeps I (finish env c res)"
  unfolding finish_def
  by (intro keeps_rules keeps_anchor keeps_anchor_held keeps_drop_check keeps_drop_allowed destroys_allowed)

lemma keeps_replicate: "(\<And>ps. keeps I (decide ps)) \<Longrightarrow> keeps I (replicate env c decide)"
  unfolding replicate_def settle_def
  by (intro keeps_rules keeps_first_survey keeps_rounds keeps_survey keeps_finish)

lemma keeps_snapshot_pools: "keeps I (snapshot_pools env c wanted pools)"
proof (induction pools)
  case (Cons p pools)
  have "allowed (Line (''zfs snapshot -o '' @ s))" for s
    using snapshots_allowed [of "''-o '' @ s"] by simp
  with Cons show ?case unfolding snapshot_pools.simps Let_def by (intro keeps_rules keeps_line)
qed (simp add: keeps_return)

lemma keeps_take_point: "keeps I (take_point env c)"
  unfolding take_point_def
  by (intro keeps_rules keeps_read_origin keeps_snapshot_pools) (simp add: fields_keep)

lemma keeps_undo_point: "keeps I (resume_sanoid env) \<Longrightarrow> keeps I (undo_point env c)"
  unfolding undo_point_def undo_with_def kept_by_drive_def Let_def
  by (intro keeps_rules keeps_read_origin keeps_read_dest keeps_anchor keeps_anchor_held
      keeps_destroy_points destroys_allowed)

end


section \<open>The timer\<close>

definition STOP :: cmd where
  "STOP = Line ''systemctl stop sanoid.timer''"

definition START :: cmd where
  "START = Line ''systemctl start sanoid.timer''"

text \<open>The commands issued so far leave the timer stopped: a stop with no start after it.\<close>

definition left_stopped :: "cmd list \<Rightarrow> bool" where
  "left_stopped cs = foldl (\<lambda>b c. if c = STOP then True else if c = START then False else b) False cs"

definition timer_inv :: "'w eng \<Rightarrow> bool" where
  "timer_inv e = (left_stopped (m_issued e) \<longrightarrow> e_timer e)"

lemma left_stopped_snoc:
  "left_stopped (cs @ [c]) = (if c = STOP then True else if c = START then False else left_stopped cs)"
  by (simp add: left_stopped_def)

lemma left_stopped_append:
  "list_all (\<lambda>c. c \<noteq> STOP) ds \<Longrightarrow> left_stopped (cs @ ds) \<Longrightarrow> left_stopped cs"
proof (induction ds rule: rev_induct)
  case (snoc d ds)
  have "left_stopped ((cs @ ds) @ [d])" using snoc.prems(2) by simp
  with snoc show ?case by (auto simp: left_stopped_snoc simp del: append_assoc split: if_splits)
qed simp

interpretation timer: whole_run "timer_inv :: 'w eng \<Rightarrow> bool" "\<lambda>c. c \<noteq> STOP"
proof
  show "timer_inv m \<Longrightarrow> list_all (\<lambda>c. c \<noteq> STOP) cs \<Longrightarrow> timer_inv (m\<lparr>m_world := w, m_issued := m_issued m @ cs\<rparr>)"
    for m :: "'w eng" and cs w
    using left_stopped_append by (auto simp: timer_inv_def)
qed (auto simp: timer_inv_def STOP_def is_read_def moves_data_def starts_with_any_def startswith_def
    anchors_def cmd_defs)

lemma keeps_resume: "keeps timer_inv (resume_sanoid env)"
  by (auto simp: keeps_def resume_sanoid_def timer_inv_def set_timer_def sh_line_def sh_def run_state_run
      on_world_def STOP_def START_def left_stopped_snoc State_Monad.update_def State_Monad.get_def State_Monad.set_def)

lemma resume_starts:
  assumes "timer_inv m" "run_state (resume_sanoid env) m = (x, m')"
  shows "\<not> left_stopped (m_issued m')" "\<not> e_timer m'"
  using assms
  by (auto simp: resume_sanoid_def timer_inv_def set_timer_def sh_line_def sh_def run_state_run on_world_def
      STOP_def START_def left_stopped_snoc State_Monad.update_def State_Monad.get_def State_Monad.set_def
      split: if_splits)

lemma keeps_wait: "keeps timer_inv (wait_sanoid env n)"
proof -
  have busy: "keeps timer_inv (sanoid_busy env us)" for us
  proof (induction us)
    case (Cons u us)
    then show ?case unfolding sanoid_busy.simps
      by (intro keeps_rules timer.keeps_line) (simp_all add: STOP_def)
  qed (simp add: keeps_return)
  show ?thesis
  proof (induction n)
    case 0
    then show ?case unfolding wait_sanoid.simps by (intro keeps_rules busy)
  next
    case (Suc n)
    then show ?case unfolding wait_sanoid.simps by (intro keeps_rules busy timer.keeps_world)
  qed
qed

text \<open>The rest of \<open>run_body\<close>, once \<open>pause_sanoid\<close> returned.\<close>

lemma pause_inv:
  assumes "\<not> left_stopped (m_issued m)" "run_state (pause_sanoid env c) m = (x, m')"
  shows "timer_inv m'"
proof -
  let ?q = "''systemctl is-active sanoid.timer''"
  obtain r m1 where r: "run_state (sh_line env ?q) m = (r, m1)" by (rule prod.exhaust)
  then have m1: "\<not> left_stopped (m_issued m1)"
    using assms(1) by (auto simp: sh_line_def sh_def run_state_run left_stopped_snoc STOP_def START_def)
  let ?b = "rr_output r = ''active''"
  let ?m2 = "m1\<lparr>e_timer := ?b \<or> (\<not> ?b \<and> os_marker env (m_world m1))\<rparr>"
  let ?act = "if ?b then do {
            _ \<leftarrow> on_world (os_write_marker env (c_point c @ [CHR 0x0A]));
            _ \<leftarrow> sh_line env ''systemctl stop sanoid.timer'';
            State_Monad.return ()
          } else State_Monad.return ()"
  obtain u m3 where m3: "run_state ?act ?m2 = (u, m3)" by (rule prod.exhaust)
  have "timer_inv m3"
  proof (cases ?b)
    case True
    with m3 have "e_timer m3"
      by (auto simp: on_world_def sh_line_def sh_def run_state_run State_Monad.update_def State_Monad.get_def State_Monad.set_def)
    then show ?thesis by (simp add: timer_inv_def)
  next
    case False
    with m3 have "m3 = ?m2" by simp
    with m1 show ?thesis by (simp add: timer_inv_def)
  qed
  moreover have "run_state (wait_sanoid env (SANOID_WAIT_SECONDS div 5)) m3 = (x, m')"
    using assms(2) r m3
    by (simp add: pause_sanoid_def Let_def set_timer_def State_Monad.update_def State_Monad.get_def State_Monad.set_def)
  ultimately show ?thesis using keepsD [OF keeps_wait] by blast
qed

lemma run_body_inv:
  assumes "\<And>act. before = Some act \<Longrightarrow> keeps timer_inv act" "\<And>ps. keeps timer_inv (decide ps)"
    and "\<not> left_stopped (m_issued m)" "run_state (run_body env c before decide) m = (res, m')"
  shows "timer_inv m'"
proof -
  obtain b m1 where b: "run_state (pause_sanoid env c) m = (b, m1)" by (rule prod.exhaust)
  define rest where "rest = (\<lambda>b. if \<not> b then State_Monad.return (Result\<lparr>res_aborted := True, res_error := ''sanoid is still running after the wait''\<rparr>)
     else do {
       ready \<leftarrow> (case before of None \<Rightarrow> State_Monad.return True | Some act \<Rightarrow> act);
       if \<not> ready then State_Monad.return (Result\<lparr>res_aborted := True, res_error := ''could not copy /boot before the point''\<rparr>)
       else replicate_point env c decide
     })"
  have before: "keeps timer_inv (case before of None \<Rightarrow> State_Monad.return True | Some act \<Rightarrow> act)"
    using assms(1) by (cases before) (simp_all add: keeps_return)
  have kp: "keeps timer_inv (rest b)"
    unfolding rest_def replicate_point_def
    by (intro keeps_if keeps_return keeps_bind before timer.keeps_track timer.keeps_take_point
        timer.keeps_undo_point keeps_resume timer.keeps_replicate assms(2))
  have "run_body env c before decide = State_Monad.bind (pause_sanoid env c) rest"
    unfolding run_body_def rest_def ..
  with assms(4) b have "run_state (rest b) m1 = (res, m')" by (simp only: run_state_bind prod.case)
  with kp pause_inv [OF assms(3) b] show ?thesis by (rule keepsD)
qed


section \<open>Properties\<close>

text \<open>C5: sanoid always runs again. Whatever the commands of the run answer and wherever it stops, when
  \<open>execute\<close> returns every stop of the timer that it issued was followed by a start, and the run no
  longer holds the timer; the caller's steps before the point and the user's decisions only have to
  keep the run's own record of the timer.\<close>

theorem execute_resumes_timer:
  assumes "\<forall>act. before = Some act \<longrightarrow> keeps timer_inv act" "\<forall>ps. keeps timer_inv (decide ps)"
    and "\<not> left_stopped (m_issued m)" "run_state (execute env c before decide) m = (res, m')"
  shows "\<not> left_stopped (m_issued m') \<and> \<not> e_timer m'"
proof -
  let ?m1 = "snd (run_state (track Resume_sanoid) m)"
  obtain m2 where b: "run_state (run_body env c before decide) ?m1 = (res, m2)"
    and e: "run_state (do { _ \<leftarrow> untrack Resume_sanoid; _ \<leftarrow> resume_sanoid env; State_Monad.return res }) m2 = (res, m')"
    using assms(4) by (auto simp: execute_def split: prod.splits)
  have "\<not> left_stopped (m_issued ?m1)"
    using assms(3) by (simp add: track_def State_Monad.update_def State_Monad.get_def State_Monad.set_def)
  with run_body_inv [OF _ _ this b] assms(1,2) have "timer_inv m2" by blast
  moreover obtain v m3 where u: "run_state (untrack Resume_sanoid) m2 = (v, m3)" by (rule prod.exhaust)
  ultimately have m3: "timer_inv m3" using keepsD [OF timer.keeps_track(2)] by blast
  from e u have "run_state (resume_sanoid env) m3 = ((), m')" by (auto split: prod.splits)
  from resume_starts [OF m3 this] show ?thesis by blast
qed


definition ex_os :: "unit os" where
  "ex_os = \<lparr>os_exec = (\<lambda>c w. (\<lparr>rr_returncode = 0, rr_stdout =
       (if c = Line ''systemctl is-active sanoid.timer'' then ''active'' else ''''), rr_stderr = ''''\<rparr>, w)),
     os_pipe = (\<lambda>a b w. (\<lparr>pr_left = 0, pr_right = 0, pr_stdout = '''', pr_err_left = '''', pr_err_right = ''''\<rparr>, w)),
     os_marker = (\<lambda>w. False), os_write_marker = (\<lambda>s w. w), os_remove_marker = (\<lambda>w. w), os_sleep = (\<lambda>n w. w)\<rparr>"

definition ex_e0 :: "unit eng" where
  "ex_e0 = \<lparr>m_world = (), m_issued = [], e_origin = [], e_dest = [], e_started = [], e_timer = False,
     e_estimates = [], e_tracked = []\<rparr>"

theorem execute_resumes_timer_witness:
  "\<not> left_stopped (m_issued (snd (run_state (execute ex_os ex_cfg None (\<lambda>ps. State_Monad.return False)) ex_e0)))
   \<and> left_stopped [STOP]"
proof -
  have "\<not> left_stopped (m_issued ex_e0)" by (simp add: ex_e0_def left_stopped_def)
  then have "\<not> left_stopped (m_issued (snd (run_state (execute ex_os ex_cfg None (\<lambda>ps. State_Monad.return False)) ex_e0)))"
    using execute_resumes_timer [of None "\<lambda>ps. State_Monad.return False" ex_e0 ex_os ex_cfg
        "fst (run_state (execute ex_os ex_cfg None (\<lambda>ps. State_Monad.return False)) ex_e0)"
        "snd (run_state (execute ex_os ex_cfg None (\<lambda>ps. State_Monad.return False)) ex_e0)"]
    by (simp add: keeps_return)
  then show ?thesis by (simp add: left_stopped_def)
qed


section \<open>What the steps return\<close>

text \<open>The rounds only add to the plans, the outcomes and the lack of space of a result.\<close>

definition same_run :: "result \<Rightarrow> result \<Rightarrow> bool" where
  "same_run a b = (res_aborted a = res_aborted b \<and> res_unverified a = res_unverified b
     \<and> res_stale a = res_stale b \<and> res_error a = res_error b)"

lemma same_run_put [simp]: "same_run (put_outcome rel out res) b = same_run res b"
  "same_run (res\<lparr>res_plans := ps\<rparr>) b = same_run res b" "same_run (res\<lparr>res_enospc := x\<rparr>) b = same_run res b"
  "same_run (res\<lparr>res_anchor_failed := fs\<rparr>) b = same_run res b"
  by (simp_all add: same_run_def put_outcome_def)

lemma returns_send_round:
  "same_run res r0 \<Longrightarrow> returns (send_round env c ps failed again res) (\<lambda>ar. same_run (snd ar) r0)"
proof (induction ps arbitrary: failed again res)
  case (Cons p ps)
  then show ?case unfolding send_round.simps Let_def by (intro returns_rules) simp_all
qed (simp add: returns_return)

lemma returns_rounds_left:
  "same_run res r0 \<Longrightarrow> returns (rounds_left env c n res) (\<lambda>er. same_run (snd er) r0)"
proof (induction n arbitrary: res)
  case (Suc n)
  have "returns (case s of Inl e \<Rightarrow> State_Monad.return (Some e, res) | Inr plans \<Rightarrow>
         (let res1 = res\<lparr>res_plans := plans\<rparr>;
              todo = filter (\<lambda>p. p_state p \<in> set TRANSFERABLE \<and> p_state p \<noteq> AT_POINT) (depth_order plans)
          in if todo = [] then State_Monad.return (None, res1)
             else do {
               _ \<leftarrow> announce env c todo;
               ar \<leftarrow> send_round env c todo [] False res1;
               if res_enospc (snd ar) \<or> \<not> fst ar then State_Monad.return (None, snd ar)
               else rounds_left env c n (snd ar)
             })) (\<lambda>er. same_run (snd er) r0)" for s
  proof (cases s)
    case (Inl e)
    with Suc.prems show ?thesis by (simp add: returns_return)
  next
    case (Inr plans)
    with Suc.prems Suc.IH show ?thesis
      unfolding Inr sum.case Let_def
      by (intro returns_if returns_return returns_bind_any returns_bind [OF returns_send_round [of _ r0]]) simp_all
  qed
  then show ?case unfolding rounds_left.simps by (rule returns_bind_any)
qed (simp add: returns_return)

lemma returns_rounds: "returns (rounds env c res) (\<lambda>er. same_run (snd er) res)"
proof -
  have "same_run (res\<lparr>res_plans := ps\<rparr>) res" for ps by (simp add: same_run_def)
  then have "returns (rounds_left env c MAX_ROUNDS (res\<lparr>res_plans := ps\<rparr>)) (\<lambda>er. same_run (snd er) res)" for ps
    by (rule returns_rounds_left)
  then show ?thesis
    unfolding rounds_def
    by (intro returns_bind_any, split sum.split, intro conjI allI impI returns_return returns_bind_any)
       (simp_all add: same_run_def)
qed


lemma returns_finish: "returns (finish env c res) (\<lambda>r. same_run r res \<and> res_plans r = res_plans res)"
  unfolding finish_def by (intro returns_bind_any returns_return) (simp add: same_run_def)


section \<open>Properties: a run that could not be checked\<close>

definition issued_only :: "(cmd \<Rightarrow> bool) \<Rightarrow> cmd list \<Rightarrow> ('w, 'z) machine_scheme \<Rightarrow> bool" where
  "issued_only P xs m = (\<exists>cs. list_all P cs \<and> m_issued m = xs @ cs)"

text \<open>The commands of the user's decisions, the listings and the transfers.\<close>

definition beside :: "(cmd \<Rightarrow> bool) \<Rightarrow> cmd \<Rightarrow> bool" where
  "beside Q c = (Q c \<or> is_read c \<or> moves_data c)"

lemma issued_only_append: "issued_only P xs m \<Longrightarrow> list_all P cs \<Longrightarrow> issued_only P xs (m\<lparr>m_world := w, m_issued := m_issued m @ cs\<rparr>)"
  unfolding issued_only_def by (metis (no_types, lifting) append_assoc list_all_append machine.select_convs(2) machine.surjective machine.update_convs(1,2))

interpretation issued: transfer_invariant "issued_only (beside Q) xs :: 'w eng \<Rightarrow> bool" "beside Q" for Q xs
proof
  show "issued_only (beside Q) xs m \<Longrightarrow> list_all (beside Q) cs
      \<Longrightarrow> issued_only (beside Q) xs (m\<lparr>m_world := w, m_issued := m_issued m @ cs\<rparr>)" for m :: "'w eng" and cs w
    by (rule issued_only_append)
qed (simp_all add: beside_def issued_only_def)



lemma settle_unchecked:
  fixes xs :: "cmd list" and Q
  defines "I \<equiv> issued_only (beside Q) xs"
  shows "ensures (\<lambda>m. same_run (snd er) Result \<and> I m) (settle env c er)
    (\<lambda>res m. res_aborted res \<or> res_unverified res \<noteq> '''' \<longrightarrow> I m)"
proof (cases "same_run (snd er) Result")
  case True
  let ?Q = "\<lambda>res m. res_aborted res \<or> res_unverified res \<noteq> '''' \<longrightarrow> I m"
  have fin: "ensures I (finish env c ((snd er)\<lparr>res_plans := ps\<rparr>)) ?Q" for ps
    using returns_finish [of env c "(snd er)\<lparr>res_plans := ps\<rparr>"] True
    by (auto simp: returns_def ensures_def same_run_def Result_def)
  have "ensures I (case final of Inl e \<Rightarrow> State_Monad.return ((snd er)\<lparr>res_unverified := e\<rparr>)
         | Inr fin \<Rightarrow> finish env c ((snd er)\<lparr>res_plans := fin\<rparr>)) ?Q" for final
    using fin by (cases final) (auto intro: ensures_return)
  then have "ensures I (do { final \<leftarrow> survey env c;
         case final of Inl e \<Rightarrow> State_Monad.return ((snd er)\<lparr>res_unverified := e\<rparr>)
         | Inr fin \<Rightarrow> finish env c ((snd er)\<lparr>res_plans := fin\<rparr>) }) ?Q"
    unfolding I_def by (intro ensures_bind [OF ensures_keeps [OF issued.keeps_survey]])
  with True show ?thesis unfolding settle_def by (cases "fst er") (auto intro: ensures_return ensures_pre)
qed (simp add: ensures_def)

lemma replicate_unchecked:
  fixes xs :: "cmd list" and Q
  defines "I \<equiv> issued_only (beside Q) xs"
  assumes dec: "\<And>ps. keeps I (decide ps)"
  shows "ensures I (replicate env c decide) (\<lambda>res m. res_aborted res \<or> res_unverified res \<noteq> '''' \<longrightarrow> I m)"
proof -
  let ?Q = "\<lambda>res m. res_aborted res \<or> res_unverified res \<noteq> '''' \<longrightarrow> I m"
  have rounds: "ensures I (rounds env c Result) (\<lambda>er m. same_run (snd er) Result \<and> I m)"
    unfolding I_def by (intro returns_ensures returns_rounds issued.keeps_rounds)
  have settled: "ensures (\<lambda>m. same_run (snd er) Result \<and> I m) (settle env c er) ?Q" for er
    unfolding I_def by (rule settle_unchecked)
  have decided: "ensures I (do { go \<leftarrow> decide plans;
         if \<not> go then State_Monad.return (Result\<lparr>res_aborted := True\<rparr>)
         else do { er \<leftarrow> rounds env c Result; settle env c er } }) ?Q" for plans
    by (intro ensures_bind [OF ensures_keeps [OF dec]] ensures_if ensures_bind [OF rounds]
        settled ensures_return) blast
  show ?thesis
    unfolding replicate_def
  proof (rule ensures_bind)
    show "ensures I (first_survey env c) (\<lambda>_. I)"
      unfolding I_def by (rule ensures_keeps [OF issued.keeps_first_survey])
    show "ensures I (case s of Inl e \<Rightarrow> State_Monad.return (Result\<lparr>res_aborted := True, res_error := e\<rparr>)
      | Inr plans \<Rightarrow> do { go \<leftarrow> decide plans;
         if \<not> go then State_Monad.return (Result\<lparr>res_aborted := True\<rparr>)
         else do { er \<leftarrow> rounds env c Result; settle env c er } }) ?Q" for s
      using decided by (cases s) (auto intro: ensures_return)
  qed
qed

text \<open>C4: nothing is settled on a guess. When the replication of a point is aborted, by the user or by a
  listing that failed, or when the state after the transfers could not be read, the only commands it
  issued are listings, transfers and those of the user's decisions: no bookmark, no rename of a point
  and no destroy in origin.\<close>

theorem unchecked_run_settles_nothing:
  assumes "\<forall>ps. keeps (issued_only (beside Q) (m_issued m)) (decide ps)"
    and "run_state (replicate env c decide) m = (res, m')"
    and "res_aborted res \<or> res_unverified res \<noteq> ''''"
  shows "\<exists>cs. m_issued m' = m_issued m @ cs \<and> list_all (\<lambda>x. Q x \<or> is_read x \<or> moves_data x) cs"
proof -
  have "issued_only (beside Q) (m_issued m) m" by (auto simp: issued_only_def intro: exI [of _ "[]"])
  from ensuresD [OF replicate_unchecked this assms(2)] assms(1,3)
  have "issued_only (beside Q) (m_issued m) m'" by blast
  then show ?thesis by (auto simp: issued_only_def beside_def [abs_def])
qed


section \<open>Properties: a run that succeeded\<close>

text \<open>The plans of a survey: both sides listed, and planned for the point.\<close>

definition surveyed :: "'w os \<Rightarrow> cfg \<Rightarrow> (string, origin) dict \<Rightarrow> (string, dest) dict \<Rightarrow> bool" where
  "surveyed env c ori dst = (\<exists>(m1 :: 'w eng) m2 m3.
     run_state (read_origin (os_exec env) (c_pools c) True) m1 = (Inr ori, m2)
     \<and> run_state (read_dest (os_exec env) (c_pool c) True) (m2\<lparr>e_origin := ori\<rparr>) = (Inr dst, m3))"

definition has_text :: "string + 'a \<Rightarrow> bool" where
  "has_text r = (case r of Inl e \<Rightarrow> e \<noteq> '''' | Inr _ \<Rightarrow> True)"

lemma text_on_read:
  "returns act has_text \<Longrightarrow> (\<And>a. returns (f a) has_text) \<Longrightarrow> returns (on_read act f) has_text"
  unfolding on_read_def
  by (erule returns_bind) (auto simp: has_text_def split: sum.splits intro: returns_return)

lemma text_checked: "returns (checked exec c True) has_text"
  unfolding checked_def by (intro returns_bind_any returns_return) (simp add: has_text_def)

lemma text_return: "returns (State_Monad.return (Inr x)) has_text"
  by (rule returns_return) (simp add: has_text_def)

lemma text_read_origin: "returns (read_origin exec pools True) has_text"
proof -
  have "returns (read_pools exec True pools ori) has_text" for ori
    by (induction pools arbitrary: ori) (auto intro!: text_on_read text_checked text_return)
  then show ?thesis by (simp add: read_origin_def)
qed

lemma text_read_dest: "returns (read_dest exec pool True) has_text"
proof -
  have root: "returns (read_root exec True pool root dst) has_text" for root dst
    unfolding read_root_def Let_def by (intro text_on_read text_checked text_return)
  have "returns (read_roots exec True pool (Some children) rs dst) has_text" for children rs dst
    using root by (induction rs arbitrary: dst) (auto intro!: text_on_read text_return)
  then show ?thesis unfolding read_dest_def by (auto intro!: text_on_read text_checked)
qed

lemma survey_returns:
  "returns (survey env c) (\<lambda>s. case s of Inl e \<Rightarrow> e \<noteq> ''''
     | Inr ps \<Rightarrow> (\<exists>ori dst. surveyed env c ori dst \<and> ps = plan ori dst (c_point c) (c_exclusions c)))"
  unfolding returns_def
proof
  fix m :: "'a eng"
  obtain ro m1 where ro: "run_state (read_origin (os_exec env) (c_pools c) True) m = (ro, m1)" by (rule prod.exhaust)
  show "case fst (run_state (survey env c) m) of Inl e \<Rightarrow> e \<noteq> ''''
     | Inr ps \<Rightarrow> (\<exists>ori dst. surveyed env c ori dst \<and> ps = plan ori dst (c_point c) (c_exclusions c))"
  proof (cases ro)
    case (Inl e)
    have "has_text ro" using text_read_origin ro unfolding returns_def by (metis fst_conv)
    with Inl ro show ?thesis by (simp add: survey_def on_read_def has_text_def)
  next
    case (Inr ori)
    obtain rd m2 where rd: "run_state (read_dest (os_exec env) (c_pool c) True) (m1\<lparr>e_origin := ori\<rparr>) = (rd, m2)"
      by (rule prod.exhaust)
    have up: "run_state (State_Monad.update f) x = ((), f x)" for f :: "'a eng \<Rightarrow> 'a eng" and x
      by (simp add: State_Monad.update_def)
    show ?thesis
    proof (cases rd)
      case (Inl e)
      have "has_text rd" using text_read_dest rd unfolding returns_def by (metis fst_conv)
      with Inl Inr ro rd show ?thesis by (simp add: survey_def on_read_def has_text_def up)
    next
      case dst: (Inr dst)
      with Inr ro rd have "surveyed env c ori dst" unfolding surveyed_def by blast
      with dst Inr ro rd show ?thesis
        by (cases "not_imported c dst") (auto simp: survey_def on_read_def up)
    qed
  qed
qed


definition all_at_point :: "cfg \<Rightarrow> (string, origin) dict \<Rightarrow> (string, dest) dict \<Rightarrow> bool" where
  "all_at_point c ori dst = (\<forall>rel \<in> set (expected ori (c_exclusions c)). \<exists>x d n s. map_of ori rel = Some x
     \<and> map_of dst rel = Some d \<and> d_token d = '''' \<and> newest d = Some n
     \<and> snap_by_guid x (r_guid n) = Some s \<and> r_name s = c_point c)"

definition proved_ok :: "'w os \<Rightarrow> cfg \<Rightarrow> result \<Rightarrow> bool" where
  "proved_ok env c res = (res_ok res \<longrightarrow>
     (\<exists>ori dst. surveyed env c ori dst \<and> all_at_point c ori dst))"

lemma surveyed_ok:
  assumes "surveyed env c ori dst" "res_plans res = plan ori dst (c_point c) (c_exclusions c)"
  shows "proved_ok env c res"
proof -
  from assms(1) have "wf_dict ori"
    unfolding surveyed_def using read_origin_sorted by (force simp: sorted_origin_list)
  from reached_all [OF this, of dst "c_point c" "c_exclusions c"] assms show ?thesis
    by (auto simp: proved_ok_def res_ok_def all_at_point_def)
qed

lemma not_ok_proved: "\<not> res_ok res \<Longrightarrow> proved_ok env c res"
  by (simp add: proved_ok_def)

lemma settle_ok: "(\<And>e. fst er = Some e \<Longrightarrow> e \<noteq> '''') \<Longrightarrow> returns (settle env c er) (proved_ok env c)"
proof (cases "fst er")
  case None
  have "returns (case s of Inl e \<Rightarrow> State_Monad.return ((snd er)\<lparr>res_unverified := e\<rparr>)
     | Inr fin \<Rightarrow> finish env c ((snd er)\<lparr>res_plans := fin\<rparr>)) (proved_ok env c)"
    if s: "case s of Inl e \<Rightarrow> e \<noteq> '''' | Inr ps \<Rightarrow> (\<exists>ori dst. surveyed env c ori dst
        \<and> ps = plan ori dst (c_point c) (c_exclusions c))" for s
  proof (cases s)
    case (Inl e)
    with s show ?thesis by (auto intro!: returns_return not_ok_proved simp: res_ok_def)
  next
    case (Inr ps)
    with s obtain ori dst where sv: "surveyed env c ori dst" "ps = plan ori dst (c_point c) (c_exclusions c)" by auto
    have "returns (finish env c ((snd er)\<lparr>res_plans := ps\<rparr>)) (proved_ok env c)"
      by (rule returns_post [OF returns_finish]) (rule surveyed_ok [OF sv(1)], simp add: sv(2))
    with Inr show ?thesis by simp
  qed
  with None show ?thesis unfolding settle_def by (auto intro: returns_bind [OF survey_returns])
qed (auto simp: settle_def res_ok_def intro!: returns_return not_ok_proved)

definition read_failed_text :: "string option \<times> result \<Rightarrow> bool" where
  "read_failed_text er = (\<forall>e. fst er = Some e \<longrightarrow> e \<noteq> '''')"

lemma survey_text: "returns (survey env c) has_text"
  by (rule returns_post [OF survey_returns]) (simp add: has_text_def split: sum.splits)

lemma read_failed_case:
  "has_text s \<Longrightarrow> (\<And>ps. returns (f ps) read_failed_text)
    \<Longrightarrow> returns (case s of Inl e \<Rightarrow> State_Monad.return (Some e, res) | Inr plans \<Rightarrow> f plans) read_failed_text"
  by (cases s) (auto simp: has_text_def read_failed_text_def intro: returns_return)

lemma read_failed_None: "read_failed_text (None, res)"
  by (simp add: read_failed_text_def)

lemma rounds_left_text: "returns (rounds_left env c n res) read_failed_text"
proof (induction n arbitrary: res)
  case (Suc n)
  then show ?case unfolding rounds_left.simps Let_def
    by (intro returns_bind [OF survey_text] read_failed_case returns_rules read_failed_None)
qed (simp add: returns_return read_failed_None)

lemma rounds_text: "returns (rounds env c res) read_failed_text"
  unfolding rounds_def
  by (intro returns_bind [OF survey_text] read_failed_case returns_bind_any rounds_left_text)

lemma replicate_ok: "returns (replicate env c decide) (proved_ok env c)"
proof -
  have ab: "proved_ok env c (Result\<lparr>res_aborted := True\<rparr>)" "proved_ok env c (Result\<lparr>res_aborted := True, res_error := e\<rparr>)" for e
    by (simp_all add: proved_ok_def res_ok_def)
  have "returns (do { er \<leftarrow> rounds env c Result; settle env c er }) (proved_ok env c)"
    by (rule returns_bind [OF rounds_text]) (auto simp: read_failed_text_def intro: settle_ok)
  then have "returns (do { go \<leftarrow> decide plans; if \<not> go then State_Monad.return (Result\<lparr>res_aborted := True\<rparr>)
      else do { er \<leftarrow> rounds env c Result; settle env c er } }) (proved_ok env c)" for plans
    by (intro returns_bind_any [of "\<lambda>go. if \<not> go then _ else _"] returns_if returns_return ab)
  then show ?thesis unfolding replicate_def
    by (rule_tac returns_bind_any) (auto split: sum.split intro: returns_return ab)
qed

lemma run_body_ok: "returns (run_body env c before decide) (proved_ok env c)"
proof -
  have ab: "proved_ok env c (Result\<lparr>res_aborted := True, res_error := e\<rparr>)" for e
    by (simp add: proved_ok_def res_ok_def)
  have "returns (replicate_point env c decide) (proved_ok env c)"
    unfolding replicate_point_def
    by (rule returns_bind_any, rule returns_bind_any, rule returns_if, (intro returns_bind_any returns_return ab)[],
        rule returns_bind [OF replicate_ok], intro returns_bind_any returns_return)
  then show ?thesis unfolding run_body_def by (intro returns_bind_any returns_if returns_return ab)
qed



text \<open>A drive that already holds the point of its only dataset.\<close>

definition ex_out :: "cmd \<Rightarrow> string" where
  "ex_out c =
     (if c = origin_list ''rpool'' then
        ''rpool/v'' @ [CHR 0x09] @ ''filesystem'' @ [CHR 0x09] @ ''on'' @ [CHR 0x09] @ ''/v'' @ [CHR 0x09] @ ''7'' @ [CHR 0x09] @ ''-''
      else if c = origin_refs_list ''rpool'' then
        ''rpool/v@p'' @ [CHR 0x09] @ ''g'' @ [CHR 0x09] @ ''2'' @ [CHR 0x09] @ ''5''
      else if c = children_list ''d'' then ''d/rpool''
      else if c = dest_list ''d/rpool'' then
        ''d/rpool/v'' @ [CHR 0x09] @ ''filesystem'' @ [CHR 0x09] @ ''-'' @ [CHR 0x09] @ ''-'' @ [CHR 0x09] @ ''7'' @ [CHR 0x09] @ ''0''
      else if c = snap_list ''d/rpool'' then
        ''d/rpool/v@p'' @ [CHR 0x09] @ ''g'' @ [CHR 0x09] @ ''2'' @ [CHR 0x09] @ ''5''
      else '''')"

definition ex_res :: "cmd \<Rightarrow> run_result" where
  "ex_res c = \<lparr>rr_returncode = 0, rr_stdout = ex_out c, rr_stderr = ''''\<rparr>"

definition ex_full :: "unit os" where
  "ex_full = ex_os\<lparr>os_exec := (\<lambda>c w. (ex_res c, w))\<rparr>"

definition ex_small :: cfg where
  "ex_small = \<lparr>c_pool = ''d'', c_guid = ''5'', c_point = ''p'', c_pools = [''rpool''],
     c_exclusions = [], c_layout = ''bpool'', c_observed = False\<rparr>"

definition ex_ref :: ref where
  "ex_ref = \<lparr>r_name = ''p'', r_guid = ''g'', r_createtxg = 2, r_creation = 5\<rparr>"

definition ex_ori :: "(string, origin) dict" where
  "ex_ori = [(''rpool/v'', \<lparr>o_rel = ''rpool/v'', o_kind = ''filesystem'', o_canmount = ''on'',
     o_mountpoint = ''/v'', o_referenced = 7, o_snaps = [ex_ref], o_bookmarks = [], o_clone_of = ''''\<rparr>)]"

definition ex_dst :: "(string, dest) dict" where
  "ex_dst = [(''rpool/v'', \<lparr>d_rel = ''rpool/v'', d_kind = ''filesystem'', d_token = '''', d_orphan = '''',
     d_excluded_kept = '''', d_used = 7, d_written = 0, d_snaps = [ex_ref], d_clone_of = ''''\<rparr>)]"

lemma ex_exec: "os_exec ex_full c w = (ex_res c, w)"
  by (simp add: ex_full_def)

lemma ex_sh: "returns (sh_line ex_full l) (\<lambda>r. r = ex_res (Line l))"
  by (simp add: returns_def sh_line_def sh_def run_state_run ex_exec)

lemma ex_checked: "returns (checked (os_exec ex_full) c strict) (\<lambda>r. r = Inr (ex_res c))"
  by (simp add: returns_def checked_def run_state_run ex_exec ex_res_def ok_def)

lemma returns_on_read:
  "returns act (\<lambda>r. r = Inr a) \<Longrightarrow> returns (f a) P \<Longrightarrow> returns (on_read act f) P"
  unfolding on_read_def by (erule returns_bind) simp

lemma ex_read_origin: "returns (read_origin (os_exec ex_full) [''rpool''] True) (\<lambda>r. r = Inr ex_ori)"
proof -
  have "foldl origin_refs (foldl origin_row [] (ok_lines (ex_res (origin_list ''rpool''))))
      (parse_refs (ok_lines (ex_res (origin_refs_list ''rpool''))) '''') = ex_ori" by code_simp
  then show ?thesis unfolding read_origin_def read_pools.simps
    by (intro returns_on_read [OF ex_checked] returns_return) simp
qed

lemma ex_read_dest: "returns (read_dest (os_exec ex_full) ''d'' True) (\<lambda>r. r = Inr ex_dst)"
proof -
  have kids: "result_lines (ex_res (children_list ''d'')) = [''d/rpool'']" by code_simp
  have "foldl dest_refs (foldl (kept_line ''d/'') (foldl (dest_line ''d/'') [] (ok_lines (ex_res (dest_list ''d/rpool''))))
        (ok_lines (ex_res (kept_list ''d/rpool'')))) (parse_refs (ok_lines (ex_res (snap_list ''d/rpool''))) ''d/'') = ex_dst"
    by code_simp
  then have "returns (read_root (os_exec ex_full) True ''d'' ''d/rpool'' []) (\<lambda>r. r = Inr ex_dst)"
    unfolding read_root_def Let_def by (intro returns_on_read [OF ex_checked] returns_return) simp
  then have "returns (read_roots (os_exec ex_full) True ''d'' (Some [''d/rpool'']) [''d/rpool'', ''d/bpool''] []) (\<lambda>r. r = Inr ex_dst)"
    by simp (erule returns_on_read, simp add: returns_return)
  then show ?thesis unfolding read_dest_def
    by (simp add: roots_def) (rule returns_on_read [OF ex_checked], simp add: kids)
qed

lemma ex_survey: "returns (survey ex_full ex_small) (\<lambda>s. s = Inr [DatasetPlan ''rpool/v'' AT_POINT])"
proof -
  have p: "plan ex_ori ex_dst ''p'' [] = [DatasetPlan ''rpool/v'' AT_POINT]" by code_simp
  have "not_imported ex_small ex_dst = None" by code_simp
  then show ?thesis unfolding survey_def
    by (intro returns_on_read [where a = ex_ori] returns_on_read [where a = ex_dst] returns_bind_any returns_return)
       (use ex_read_origin ex_read_dest p in \<open>simp_all add: ex_small_def\<close>)
qed

lemma ex_rounds: "returns (rounds ex_full ex_small Result) (\<lambda>er. fst er = None \<and> same_run (snd er) Result)"
proof -
  have "returns (rounds_left ex_full ex_small MAX_ROUNDS res) (\<lambda>er. fst er = None)" for res
    unfolding MAX_ROUNDS_def numeral_3_eq_3 rounds_left.simps(2) [of _ _ "Suc (Suc 0)"]
    by (rule returns_bind [OF ex_survey]) (simp add: depth_order_def returns_return)
  then have "returns (rounds ex_full ex_small Result) (\<lambda>er. fst er = None)"
    unfolding rounds_def by (rule_tac returns_bind [OF ex_survey]) (auto intro: returns_bind_any)
  with returns_rounds show ?thesis unfolding returns_def by blast
qed

lemma ex_replicate: "returns (replicate ex_full ex_small (\<lambda>ps. State_Monad.return True)) res_ok"
proof -
  have fin: "returns (finish ex_full ex_small (res\<lparr>res_plans := [DatasetPlan ''rpool/v'' AT_POINT]\<rparr>)) res_ok"
    if "same_run res Result" for res
    by (rule returns_post [OF returns_finish])
       (use that in \<open>auto simp: res_ok_def same_run_def Result_def reached_def\<close>)
  have "returns (settle ex_full ex_small er) res_ok" if "fst er = None \<and> same_run (snd er) Result" for er
    using that fin unfolding settle_def by (auto intro: returns_bind [OF ex_survey])
  then have "returns (do { er \<leftarrow> rounds ex_full ex_small Result; settle ex_full ex_small er }) res_ok"
    by (rule returns_bind [OF ex_rounds])
  note rest = this
  have first: "returns (first_survey ex_full ex_small) (\<lambda>s. s = Inr [DatasetPlan ''rpool/v'' AT_POINT])"
    unfolding first_survey_def by (rule returns_on_read [OF ex_survey]) (simp add: returns_return)
  show ?thesis unfolding replicate_def using rest by (intro returns_bind [OF first]) simp
qed

lemma ex_execute: "returns (execute ex_full ex_small None (\<lambda>ps. State_Monad.return True)) res_ok"
proof -
  have idle: "rr_output (ex_res (Line (''systemctl is-active '' @ u))) = ''''" for u
    by (simp add: ex_res_def ex_out_def rr_output_def origin_list_def origin_refs_list_def children_list_def
        dest_list_def snap_list_def strip_def rstrip_where_def)
  have "returns (sanoid_busy ex_full us :: (unit, bool) eng_action) (\<lambda>b. \<not> b)" for us
  proof (induction us)
    case (Cons u us)
    show ?case unfolding sanoid_busy.simps
    proof (rule returns_bind [OF ex_sh])
      fix r assume "r = ex_res (Line (''systemctl is-active '' @ u))"
      then have "rr_output r = ''''" by (simp only: idle)
      with Cons show "returns (if rr_output r \<in> {''active'', ''activating''} then State_Monad.return True
          else sanoid_busy ex_full us :: (unit, bool) eng_action) (\<lambda>b. \<not> b)" by simp
    qed
  qed (simp add: returns_return)
  then have "returns (wait_sanoid ex_full n :: (unit, bool) eng_action) (\<lambda>b. b)" for n
    by (cases n) (simp_all, (rule returns_bind, assumption, simp add: returns_return)+)
  then have pause: "returns (pause_sanoid ex_full ex_small) (\<lambda>b. b)"
    unfolding pause_sanoid_def Let_def by (intro returns_bind_any)
  have "returns (snapshot_pools ex_full ex_small wanted pools :: (unit, bool) eng_action) (\<lambda>b. b)" for wanted pools
  proof (induction pools)
    case (Cons p pools)
    then show ?case unfolding snapshot_pools.simps Let_def
      by (intro returns_if returns_bind [OF ex_sh]) (simp_all add: ex_res_def ok_def)
  qed (simp add: returns_return)
  note pools = this
  have "c_pools ex_small = [''rpool'']" by (simp add: ex_small_def)
  then have taken: "returns (take_point ex_full ex_small) (\<lambda>b. b)"
    unfolding take_point_def using ex_read_origin
    by (intro returns_bind [of _ "\<lambda>r. r = Inr ex_ori"])
       (simp, simp only: sum.case, intro returns_bind_any pools)
  have point: "returns (replicate_point ex_full ex_small (\<lambda>ps. State_Monad.return True)) res_ok"
    unfolding replicate_point_def
    by (rule returns_bind_any, rule returns_bind [OF taken], rule returns_if, simp,
        rule returns_bind [OF ex_replicate]) (intro returns_bind_any returns_return)
  have body: "returns (run_body ex_full ex_small None (\<lambda>ps. State_Monad.return True)) res_ok"
    unfolding run_body_def by (rule returns_bind [OF pause]) (simp add: point)
  show ?thesis unfolding execute_def
    by (rule returns_bind_any, rule returns_bind [OF body]) (intro returns_bind_any returns_return)
qed



theorem unchecked_run_settles_nothing_witness:
  "res_aborted (fst (run_state (replicate ex_full ex_small (\<lambda>ps. State_Monad.return False)) ex_e0))
   \<and> (\<exists>cs. m_issued (snd (run_state (replicate ex_full ex_small (\<lambda>ps. State_Monad.return False)) ex_e0)) = [] @ cs
        \<and> list_all (\<lambda>x. False \<or> is_read x \<or> moves_data x) cs)"
proof -
  have first: "returns (first_survey ex_full ex_small) (\<lambda>s. s = Inr [DatasetPlan ''rpool/v'' AT_POINT])"
    unfolding first_survey_def by (rule returns_on_read [OF ex_survey]) (simp add: returns_return)
  have "returns (replicate ex_full ex_small (\<lambda>ps. State_Monad.return False)) res_aborted"
    unfolding replicate_def by (rule returns_bind [OF first]) (simp add: returns_return)
  then have ab: "res_aborted (fst (run_state (replicate ex_full ex_small (\<lambda>ps. State_Monad.return False)) ex_e0))"
    unfolding returns_def by blast
  have e: "m_issued ex_e0 = []" by (simp add: ex_e0_def)
  from unchecked_run_settles_nothing [of "\<lambda>x. False" ex_e0 "\<lambda>ps. State_Monad.return False" ex_full ex_small
      "fst (run_state (replicate ex_full ex_small (\<lambda>ps. State_Monad.return False)) ex_e0)"
      "snd (run_state (replicate ex_full ex_small (\<lambda>ps. State_Monad.return False)) ex_e0)"] ab
  show ?thesis unfolding e by (simp add: keeps_return)
qed

end
