(* ===== verification/Engine_Steps.thy ===== *)
theory Engine_Steps
  imports Engine_Run
begin

text \<open>
  The steps of a run one by one: what an interrupted run removes (\<open>undo_point\<close>), the order of the
  transfers and the children of a dataset that failed, and the streams that are sent.
\<close>

section \<open>An interrupted run\<close>

definition undo_cmd :: "string list \<Rightarrow> cmd \<Rightarrow> bool" where
  "undo_cmd T x = (is_read x \<or> anchors x \<or> x = START \<or> (\<exists>t \<in> set T. x = destroy_cmd t))"

interpretation undone: anchor_invariant "issued_only (undo_cmd T) xs :: 'w eng \<Rightarrow> bool" "undo_cmd T" for T xs
proof
  show "issued_only (undo_cmd T) xs m \<Longrightarrow> list_all (undo_cmd T) cs
      \<Longrightarrow> issued_only (undo_cmd T) xs (m\<lparr>m_world := w, m_issued := m_issued m @ cs\<rparr>)" for m :: "'w eng" and cs w
    by (rule issued_only_append)
qed (simp_all add: undo_cmd_def issued_only_def)

lemma keeps_bind_returns:
  "keeps I act \<Longrightarrow> returns act R \<Longrightarrow> (\<And>x. R x \<Longrightarrow> keeps I (f x)) \<Longrightarrow> keeps I (State_Monad.bind act f)"
  by (auto simp: keeps_def returns_def split: prod.split) (metis fst_conv snd_conv)

lemma undone_resume: "keeps (issued_only (undo_cmd T) xs) (resume_sanoid env)"
  unfolding resume_sanoid_def set_timer_def
  by (intro keeps_rules undone.keeps_line undone.keeps_world) (simp_all add: undo_cmd_def START_def issued_only_def)

definition keeps_point :: "cfg \<Rightarrow> (string, origin) dict \<Rightarrow> string list \<Rightarrow> string + (string, dest) dict \<Rightarrow> string \<Rightarrow> bool" where
  "keeps_point c ori started rd rel = (case rd of Inl _ \<Rightarrow> rel \<in> set started
     | Inr dst \<Rightarrow> (\<exists>d. map_of dst rel = Some d \<and> d_token d \<noteq> ''''))"

definition undo_targets :: "cfg \<Rightarrow> (string, origin) dict \<Rightarrow> string list \<Rightarrow> string + (string, dest) dict \<Rightarrow> string list" where
  "undo_targets c ori started rd = map (\<lambda>rel. at_snap rel (c_point c))
     (filter (\<lambda>rel. \<not> keeps_point c ori started rd rel) (expected ori (c_exclusions c)))"

lemma keeps_kept_by_drive: "keeps (issued_only (undo_cmd T) xs) (kept_by_drive env c ori started rd)"
  unfolding kept_by_drive_def Let_def
  by (intro keeps_rules undone.keeps_anchor undone.keeps_anchor_held)

lemma returns_kept_by_drive:
  "returns (kept_by_drive env c ori started rd)
     (\<lambda>kg. \<forall>rel \<in> set (expected ori (c_exclusions c)). keeps_point c ori started rd rel \<longrightarrow> rel \<in> set (fst kg))"
  unfolding kept_by_drive_def Let_def
  by (cases rd) (auto simp: keeps_point_def partial_rels_def intro!: returns_return returns_bind_any)

lemma undo_rest:
  fixes rd c ori started
  defines "T \<equiv> undo_targets c ori started rd"
  shows "keeps (issued_only (undo_cmd T) xs) (undo_with env c ori started rd)"
  unfolding undo_with_def
proof (rule keeps_bind_returns [OF keeps_kept_by_drive returns_kept_by_drive])
  fix kg :: "string list \<times> string list"
  assume kg: "\<forall>rel \<in> set (expected ori (c_exclusions c)). keeps_point c ori started rd rel \<longrightarrow> rel \<in> set (fst kg)"
  have "undo_cmd T (destroy_cmd t)"
    if "t \<in> set (map (\<lambda>rel. at_snap rel (c_point c)) (filter (\<lambda>rel. rel \<notin> set (snd kg) \<and> b rel \<and> rel \<notin> set (fst kg))
              (expected ori (c_exclusions c))))" for t b
    using that kg by (auto simp: undo_cmd_def T_def undo_targets_def)
  then show "keeps (issued_only (undo_cmd T) xs) (do {
     ro \<leftarrow> read_origin (os_exec env) (c_pools c) True;
     _ \<leftarrow> destroy_points env (map (\<lambda>rel. at_snap rel (c_point c))
           (filter (\<lambda>rel. rel \<notin> set (snd kg)
                \<and> (case ro of Inl e \<Rightarrow> True | Inr now \<Rightarrow> rel \<in> set (with_point c now))
                \<and> rel \<notin> set (fst kg))
              (expected ori (c_exclusions c))));
     resume_sanoid env
   })"
    by (intro keeps_bind undone.keeps_read_origin undone.keeps_destroy_points undone_resume)
qed

text \<open>C6: an interrupted run keeps what a receive may still need. Beside listings, the anchors it makes
  and the start of the timer, \<open>undo_point\<close> issues only destroys of its own point, by exact name, in
  datasets that were expected; and never in a dataset whose copy on the drive holds a partial receive
  or, when the drive cannot be read, in one that a receive began on.\<close>

theorem undo_keeps_partial:
  assumes "run_state (undo_point env c) m = (u, m')"
  shows "\<exists>cs. m_issued m' = m_issued m @ cs \<and> (\<forall>x \<in> set cs. is_read x \<or> anchors x \<or> x = START
    \<or> (\<exists>rel \<in> set (expected (e_origin m) (c_exclusions c)). x = destroy_cmd (at_snap rel (c_point c))
        \<and> (case fst (run_state (read_dest (os_exec env) (c_pool c) True) m) of
             Inl e \<Rightarrow> rel \<notin> set (e_started m)
           | Inr dst \<Rightarrow> (\<forall>d. map_of dst rel = Some d \<longrightarrow> d_token d = ''''))))"
proof -
  obtain rd m1 where rd: "run_state (read_dest (os_exec env) (c_pool c) True) m = (rd, m1)" by (rule prod.exhaust)
  from issuesD [OF issues_read_dest rd] obtain w cs
    where m1: "m1 = m\<lparr>m_world := w, m_issued := m_issued m @ cs\<rparr>" and cs: "list_all is_read cs" .
  let ?T = "undo_targets c (e_origin m) (e_started m) rd"
  have "issued_only (undo_cmd ?T) (m_issued m) m1"
    unfolding issued_only_def m1 using cs by (intro exI [of _ cs]) (simp add: list_all_iff undo_cmd_def)
  then have "issued_only (undo_cmd ?T) (m_issued m) m'"
  proof (rule keepsD [OF undo_rest])
    show "run_state (undo_with env c (e_origin m) (e_started m) rd) m1 = (u, m')"
      using assms rd by (simp add: undo_point_def m1)
  qed
  then obtain ds where "m_issued m' = m_issued m @ ds" "list_all (undo_cmd ?T) ds"
    unfolding issued_only_def by blast
  then show ?thesis
    by (intro exI [of _ ds], cases rd)
       (auto simp: list_all_iff undo_cmd_def undo_targets_def keeps_point_def rd)
qed

theorem undo_keeps_partial_witness:
  "\<exists>cs. m_issued (snd (run_state (undo_point ex_full ex_small) ex_e0)) = m_issued ex_e0 @ cs
    \<and> destroy_cmd (at_snap ''rpool/v'' ''p'') \<notin> set cs"
proof -
  have e: "expected (e_origin ex_e0) (c_exclusions ex_small) = []" by (simp add: ex_e0_def expected_def)
  have "\<not> is_read (destroy_cmd t)" "\<not> anchors (destroy_cmd t)" "destroy_cmd t \<noteq> START" for t
    by (auto simp: is_read_def startswith_def anchors_def cmd_defs START_def)
  moreover have "run_state (undo_point ex_full ex_small) ex_e0 = (fst (run_state (undo_point ex_full ex_small) ex_e0),
      snd (run_state (undo_point ex_full ex_small) ex_e0))" by (rule prod.collapse [symmetric])
  from undo_keeps_partial [OF this] obtain cs
    where "m_issued (snd (run_state (undo_point ex_full ex_small) ex_e0)) = m_issued ex_e0 @ cs"
      "\<forall>x \<in> set cs. is_read x \<or> anchors x \<or> x = START" unfolding e by auto
  ultimately show ?thesis by blast
qed


section \<open>Order\<close>

definition slashes :: "string \<Rightarrow> nat" where
  "slashes rel = length (filter (\<lambda>ch. ch = CHR ''/'') rel)"

lemma under_slashes: "under a b \<Longrightarrow> a \<noteq> b \<Longrightarrow> slashes b < slashes a"
  by (auto simp: under_def slashes_def prefix_def)

lemma strict_under_parent: "under rel u \<and> u \<noteq> rel \<longleftrightarrow> CHR ''/'' \<in> set rel \<and> under (parent rel) u"
proof (cases "CHR ''/'' \<in> set rel")
  case True
  then obtain a b where ab: "rel = a @ CHR ''/'' # b" "CHR ''/'' \<notin> set b" by (meson split_list_last)
  then have p: "parent rel = a" by (simp add: parent_append)
  show ?thesis
  proof
    assume u: "under rel u \<and> u \<noteq> rel"
    then obtain s where s: "rel = u @ CHR ''/'' # s" by (auto simp: under_def prefix_def)
    show "CHR ''/'' \<in> set rel \<and> under (parent rel) u"
    proof (cases "CHR ''/'' \<in> set s")
      case True
      then obtain s1 s2 where "s = s1 @ CHR ''/'' # s2" "CHR ''/'' \<notin> set s2" by (meson split_list_last)
      with s have "parent rel = u @ CHR ''/'' # s1"
        using parent_append [of s2 "u @ CHR ''/'' # s1"] by simp
      with s show ?thesis by (simp add: under_def prefix_def)
    next
      case False
      with s have "parent rel = u" by (simp add: parent_append)
      with s show ?thesis by simp
    qed
  next
    assume "CHR ''/'' \<in> set rel \<and> under (parent rel) u"
    then obtain s where "a = u @ s" "s = [] \<or> hd s = CHR ''/''" unfolding p under_iff by blast
    with ab show "under rel u \<and> u \<noteq> rel" by (cases s) (auto simp: under_iff)
  qed
qed (auto simp: under_def prefix_def)

lemma blocked_under:
  "blocked_by_parent rel failed \<longleftrightarrow> (\<exists>u \<in> set failed. u \<noteq> '''' \<and> u \<noteq> rel \<and> under rel u)"
proof (induction rel failed rule: blocked_by_parent.induct)
  case (1 rel failed)
  show ?case
  proof (cases "parent rel = ''''")
    case True
    have "\<not> (u \<noteq> '''' \<and> u \<noteq> rel \<and> under rel u)" for u
    proof
      assume u: "u \<noteq> '''' \<and> u \<noteq> rel \<and> under rel u"
      with strict_under_parent [of rel u] True have "under '''' u" by simp
      then have "u = ''''" by (auto simp: under_iff)
      with u show False by simp
    qed
    with True show ?thesis by (simp add: blocked_by_parent.simps [of rel])
  next
    case False
    then have sl: "CHR ''/'' \<in> set rel" by (auto simp: parent_def split: if_splits)
    have up: "u \<noteq> rel \<and> under rel u \<longleftrightarrow> under (parent rel) u" for u
      using strict_under_parent [of rel u] sl by blast
    show ?thesis
    proof (cases "parent rel \<in> set failed")
      case True
      with False show ?thesis
        unfolding up blocked_by_parent.simps [of rel] Let_def by (auto intro!: bexI [of _ "parent rel"])
    next
      case nf: False
      then have "u \<in> set failed \<and> u \<noteq> parent rel \<longleftrightarrow> u \<in> set failed" for u by auto
      with False nf 1 [OF refl] show ?thesis
        unfolding up blocked_by_parent.simps [of rel] Let_def by simp blast
    qed
  qed
qed

lemma sorted_before:
  assumes "sorted (map f xs)" "i < length xs" "j < length xs" "f (xs ! i) < f (xs ! j)"
  shows "i < j"
  using assms by (metis leD length_map not_le_imp_less nth_map sorted_nth_mono)

text \<open>C14: parents go first, and a child waits for them. \<open>depth_order\<close> only reorders the plans, and puts
  every dataset before all that lie below it; a dataset counts as blocked exactly when one of its
  ancestors is among the failed ones, so a NEW child is never sent below a parent that did not arrive.\<close>

theorem transfers_parents_first:
  "mset (depth_order plans) = mset plans
   \<and> (\<forall>i j. i < length plans \<and> j < length plans
        \<and> under (p_rel (depth_order plans ! j)) (p_rel (depth_order plans ! i))
        \<and> p_rel (depth_order plans ! j) \<noteq> p_rel (depth_order plans ! i) \<longrightarrow> i < j)
   \<and> (blocked_by_parent rel failed \<longleftrightarrow> (\<exists>u \<in> set failed. u \<noteq> '''' \<and> u \<noteq> rel \<and> under rel u))"
proof (intro conjI allI impI)
  let ?key = "\<lambda>p. (slashes (p_rel p), p_rel p)"
  have ord: "depth_order plans = sort_key ?key plans" by (simp add: depth_order_def slashes_def)
  show "mset (depth_order plans) = mset plans" by (simp add: ord)
  fix i j
  assume ij: "i < length plans \<and> j < length plans
        \<and> under (p_rel (depth_order plans ! j)) (p_rel (depth_order plans ! i))
        \<and> p_rel (depth_order plans ! j) \<noteq> p_rel (depth_order plans ! i)"
  then have "?key (depth_order plans ! i) < ?key (depth_order plans ! j)"
    using under_slashes by (simp add: less_prod_def)
  moreover have "sorted (map ?key (depth_order plans))" by (simp add: ord)
  moreover have "length (depth_order plans) = length plans" by (simp add: ord)
  ultimately show "i < j" using ij sorted_before by (metis (no_types, lifting))
next
  show "blocked_by_parent rel failed \<longleftrightarrow> (\<exists>u \<in> set failed. u \<noteq> '''' \<and> u \<noteq> rel \<and> under rel u)"
    by (rule blocked_under)
qed


theorem transfers_parents_first_witness:
  "depth_order [DatasetPlan ''a/b'' NEW, DatasetPlan ''a'' NEW] = [DatasetPlan ''a'' NEW, DatasetPlan ''a/b'' NEW]
   \<and> (0::nat) < 1"
proof -
  have o: "depth_order [DatasetPlan ''a/b'' NEW, DatasetPlan ''a'' NEW] = [DatasetPlan ''a'' NEW, DatasetPlan ''a/b'' NEW]"
    by code_simp
  have "under ''a/b'' ''a''" by (simp add: under_def)
  then have "under (p_rel (depth_order [DatasetPlan ''a/b'' NEW, DatasetPlan ''a'' NEW] ! 1))
      (p_rel (depth_order [DatasetPlan ''a/b'' NEW, DatasetPlan ''a'' NEW] ! 0))"
    "p_rel (depth_order [DatasetPlan ''a/b'' NEW, DatasetPlan ''a'' NEW] ! 1)
      \<noteq> p_rel (depth_order [DatasetPlan ''a/b'' NEW, DatasetPlan ''a'' NEW] ! 0)" unfolding o by simp_all
  with transfers_parents_first [of "[DatasetPlan ''a/b'' NEW, DatasetPlan ''a'' NEW]"] have "(0::nat) < 1" by fastforce
  with o show ?thesis by blast
qed


section \<open>Streams\<close>

lemma plan_base_shape:
  assumes "p_state (plan_dataset x dopt point) \<in> {INCREMENTAL, VIA_BOOKMARK}"
  shows "if p_state (plan_dataset x dopt point) = INCREMENTAL
    then \<exists>n. p_base (plan_dataset x dopt point) = ''@'' @ n
    else \<exists>n. p_first (plan_dataset x dopt point) = ''@'' @ n \<and> \<not> is_bpool (o_rel x)"
proof (cases dopt)
  case (Some d)
  with assms plan_state_cases [of x d point]
  have "plan_dataset x dopt point = plan_dataset_raw x (Some d) point" by auto
  with assms raw_INCREMENTAL [of x d point] raw_VIA_BOOKMARK [of x d point] show ?thesis by auto
qed (use assms in simp)

lemma send_ends:
  assumes "p \<in> set (plan ori dst (c_point c) skip)" "p_state p \<in> {NEW, INCREMENTAL, VIA_BOOKMARK}"
  shows "p_state p = INCREMENTAL \<Longrightarrow> \<exists>n. p_base p = ''@'' @ n"
    and "p_state p = VIA_BOOKMARK \<Longrightarrow> \<exists>n. p_first p = ''@'' @ n \<and> \<not> is_bpool (p_rel p)"
proof -
  from assms have "p \<in> set (filter (\<lambda>p. p_state p \<notin> {ORPHAN, EXCLUDED}) (plan ori dst (c_point c) skip))" by auto
  then have "p \<in> set (expected_rows ori (live_of dst) (c_point c) skip)" by (simp only: planned_rows)
  then obtain rel where rel: "rel \<in> set (expected ori skip)"
    and p: "p = (let q = plan_dataset (the (map_of ori rel)) (map_of (live_of dst) rel) (c_point c)
          in if p_state q = NEW then clone_base q ori (live_of dst) else q)"
    by (auto simp: expected_rows_def)
  let ?q = "plan_dataset (the (map_of ori rel)) (map_of (live_of dst) rel) (c_point c)"
  have q: "p = ?q" if "p_state p \<noteq> NEW" using p that by (auto simp: Let_def)
  show "p_state p = INCREMENTAL \<Longrightarrow> \<exists>n. p_base p = ''@'' @ n"
    using q plan_base_shape [of "the (map_of ori rel)" "map_of (live_of dst) rel" "c_point c"] by auto
  show "p_state p = VIA_BOOKMARK \<Longrightarrow> \<exists>n. p_first p = ''@'' @ n \<and> \<not> is_bpool (p_rel p)"
    using q plan_base_shape [of "the (map_of ori rel)" "map_of (live_of dst) rel" "c_point c"] by auto
qed

text \<open>Every transfer ends at the point, and encrypted data stay encrypted. For each dataset that the
  planner lets the engine send (new, incremental or by way of a bookmark) there is at least one
  stream, the last one ends at that dataset's snapshot of the point, and each stream of a dataset
  outside bpool is raw (\<open>-w\<close>) while those of bpool are not.\<close>

lemma streams_end_at_point:
  assumes "p \<in> set (plan ori dst (c_point c) skip)" "p_state p \<in> {NEW, INCREMENTAL, VIA_BOOKMARK}"
  shows "send_args c ori dst p False \<noteq> []
    \<and> endswith (last (send_args c ori dst p False)) (quote (at_snap (p_rel p) (c_point c)))
    \<and> (\<forall>a \<in> set (send_args c ori dst p False). \<not> is_bpool (p_rel p) \<longrightarrow> startswith a ''-w '')"
proof -
  from assms(2) consider "p_state p = NEW" | "p_state p = INCREMENTAL" | "p_state p = VIA_BOOKMARK" by blast
  then show ?thesis
  proof cases
    case 1
    then show ?thesis
      by (auto simp: send_args_def Let_def endswith_def startswith_def raw_flag_def suffix_def)
  next
    case 2
    with send_ends(1) [OF assms] obtain n where "p_base p = ''@'' @ n" by blast
    with 2 show ?thesis
      by (auto simp: send_args_def Let_def endswith_def startswith_def raw_flag_def suffix_def)
  next
    case 3
    with send_ends(2) [OF assms] obtain n where "p_first p = ''@'' @ n" by blast
    with 3 show ?thesis
      by (auto simp: send_args_def Let_def endswith_def startswith_def raw_flag_def suffix_def at_snap_def)
  qed
qed

end
