(* ===== verification/Mount_Props.thy ===== *)
theory Mount_Props
  imports Replication Shell
begin

text \<open>
  \<open>lib/mount_props.py\<close>: where a restored dataset's canmount and mountpoint come from (the values
  recorded on the drive, origin's \<open>zfs-list.cache\<close>, the installer's layout, the structure of the
  snapshot), the options \<open>zfs receive\<close> gets for them, and the mountpoint that results. ZFS's own
  rule is stated apart, and the prediction is shown to be what ZFS does with the options.
\<close>

section \<open>Tables\<close>

text \<open>\<open>lib.boot_layout.BOOT_COPY\<close>: the dataset that holds a copy of an ext4 \<open>/boot\<close>.\<close>

definition BOOT_COPY :: string where
  "BOOT_COPY = ''zark-boot''"

definition boot_copy :: "string \<Rightarrow> string" where
  "boot_copy be = ''rpool/ROOT/'' @ be @ ''/'' @ BOOT_COPY"

definition UBUNTU_ROOT_CHILDREN_OFF :: "string list" where
  "UBUNTU_ROOT_CHILDREN_OFF = [''usr'', ''var'']"

definition UBUNTU_ROOT_CHILDREN_ON :: "string list" where
  "UBUNTU_ROOT_CHILDREN_ON = [''usr/local'', ''var/lib'', ''var/log'', ''var/mail'', ''var/snap'',
     ''var/spool'', ''var/www'', ''var/games'', ''var/lib/apt'', ''var/lib/dpkg'',
     ''var/lib/AccountsService'', ''var/lib/NetworkManager'', ''srv'']"

definition CREATED_CONTAINERS :: "(string, string) dict" where
  "CREATED_CONTAINERS = [(''rpool/ROOT'', ''none''), (''rpool/USERDATA'', ''none'')]"

definition BPOOL_CONTAINERS :: "(string, string) dict" where
  "BPOOL_CONTAINERS = [(''bpool'', ''none''), (''bpool/BOOT'', ''none'')]"

definition UBUNTU_RPOOL_MOUNTPOINT :: string where
  "UBUNTU_RPOOL_MOUNTPOINT = ''/''"


section \<open>The sources\<close>

record mount_props =
  mp_canmount :: string
  mp_mountpoint :: string
  mp_source :: string

definition MountProps :: "string \<Rightarrow> string \<Rightarrow> string \<Rightarrow> mount_props" where
  "MountProps cm mp src = \<lparr>mp_canmount = cm, mp_mountpoint = mp, mp_source = src\<rparr>"

type_synonym mount_values = "(string, string \<times> string) dict"

definition cache_line :: "mount_values \<Rightarrow> string \<Rightarrow> mount_values" where
  "cache_line out line =
     (case split_on CHR 0x09 line of
        ds # mp # cm # _ \<Rightarrow> if ds \<noteq> '''' then dict_set ds (cm, mp) out else out
      | _ \<Rightarrow> out)"

text \<open>\<open>text.splitlines()\<close>; the empty line that a \<open>\r\n\<close> or the end leaves is skipped as short.\<close>

definition parse_list_cache :: "string \<Rightarrow> mount_values" where
  "parse_list_cache txt = foldl cache_line [] (split_lines txt)"

definition rpool_root_mountpoint :: "mount_values \<Rightarrow> string \<times> string" where
  "rpool_root_mountpoint cache =
     (let mp = snd (dict_get_or cache ''rpool'' ('''', ''''))
      in if mp \<noteq> '''' \<and> mp \<notin> {''none'', ''legacy'', ''-''} then (mp, ''cache'')
         else (UBUNTU_RPOOL_MOUNTPOINT, ''ubuntu''))"

definition ubuntu_layout :: "string \<Rightarrow> string \<Rightarrow> (string \<times> string) option" where
  "ubuntu_layout rel be =
     (let root = ''rpool/ROOT/'' @ be in
      if rel = root then Some (''on'', ''/'')
      else if startswith rel (root @ ''/'') then
        let child = drop (length root + 1) rel in
        if child = BOOT_COPY then Some (''noauto'', ''legacy'')
        else if child \<in> set UBUNTU_ROOT_CHILDREN_OFF then Some (''off'', ''/'' @ child)
        else if child \<in> set UBUNTU_ROOT_CHILDREN_ON then Some (''on'', ''/'' @ child)
        else None
      else if startswith rel ''rpool/USERDATA/home_'' then Some (''on'', ''/home'')
      else if startswith rel ''rpool/USERDATA/root_'' then Some (''on'', ''/root'')
      else if rel = ''bpool/BOOT/'' @ be then Some (''on'', ''/boot'')
      else None)"

definition inherited :: "string \<Rightarrow> string \<Rightarrow> string" where
  "inherited parent_effective leaf =
     (if parent_effective \<in> {''none'', ''legacy'', ''-'', ''''}
      then (if parent_effective \<noteq> '''' then parent_effective else ''none'')
      else rstrip_where (\<lambda>c. c = CHR ''/'') parent_effective @ ''/'' @ leaf)"

definition choose_props :: "string \<Rightarrow> string \<Rightarrow> mount_values \<Rightarrow> mount_values \<Rightarrow> bool \<Rightarrow> mount_props" where
  "choose_props rel be zark cache empty_with_children =
     (case map_of zark rel of Some (cm, mp) \<Rightarrow> MountProps cm mp ''zark''
      | None \<Rightarrow>
     (case map_of cache rel of Some (cm, mp) \<Rightarrow> MountProps cm mp ''cache''
      | None \<Rightarrow>
     (case ubuntu_layout rel be of Some (cm, mp) \<Rightarrow> MountProps cm mp ''ubuntu''
      | None \<Rightarrow>
        (let cm = (if empty_with_children then ''off'' else ''on'');
             parts = split_on CHR ''/'' rel;
             mp = (if length parts = 2 then ''/'' @ join_on ''/'' (tl parts) else '''')
         in MountProps cm mp ''inferred''))))"


section \<open>What the receive gets\<close>

definition receive_options :: "mount_props \<Rightarrow> string \<Rightarrow> string \<Rightarrow> string list" where
  "receive_options props parent_effective leaf =
     (''-o canmount='' @ mp_canmount props)
     # (if mp_mountpoint props \<noteq> '''' \<and> mp_mountpoint props \<noteq> inherited parent_effective leaf
        then [''-o mountpoint='' @ mp_mountpoint props] else [])"

definition effective_mountpoint :: "mount_props \<Rightarrow> string \<Rightarrow> string \<Rightarrow> string" where
  "effective_mountpoint props parent_effective leaf =
     (if mp_mountpoint props \<noteq> '''' then mp_mountpoint props else inherited parent_effective leaf)"


section \<open>What ZFS makes of the options\<close>

text \<open>
  A received dataset has the mountpoint its last \<open>-o mountpoint=\<close> names and otherwise inherits: below
  a parent with \<open>none\<close> or \<open>legacy\<close> that same word, below any other the parent's path and its own name.
\<close>

definition option_value :: "string \<Rightarrow> string \<Rightarrow> string option" where
  "option_value prop opt = (if prefix (''-o '' @ prop @ ''='') opt
     then Some (drop (length prop + 4) opt) else None)"

definition zfs_property :: "string \<Rightarrow> string list \<Rightarrow> string option" where
  "zfs_property prop opts = (case List.map_filter (option_value prop) opts of
     [] \<Rightarrow> None | v # vs \<Rightarrow> Some (last (v # vs)))"

definition zfs_inherits :: "string \<Rightarrow> string \<Rightarrow> string" where
  "zfs_inherits up leaf =
     (if up = ''none'' \<or> up = ''legacy'' then up
      else (if up = ''/'' then '''' else up) @ ''/'' @ leaf)"

definition zfs_received :: "string list \<Rightarrow> string \<Rightarrow> string \<Rightarrow> string" where
  "zfs_received opts up leaf =
     (case zfs_property ''mountpoint'' opts of Some mp \<Rightarrow> mp | None \<Rightarrow> zfs_inherits up leaf)"

text \<open>A value a mounted parent can have: a word, or a path with no slash at its end but the root's.\<close>

definition zfs_path :: "string \<Rightarrow> bool" where
  "zfs_path mp = (mp = ''none'' \<or> mp = ''legacy'' \<or> mp = ''/''
     \<or> (mp \<noteq> '''' \<and> mp \<noteq> ''-'' \<and> last mp \<noteq> CHR ''/''))"


section \<open>Lemmas\<close>

lemma MountProps_sel [simp]:
  "mp_canmount (MountProps cm mp src) = cm" "mp_mountpoint (MountProps cm mp src) = mp"
  "mp_source (MountProps cm mp src) = src"
  by (simp_all add: MountProps_def)

lemma rstrip_where_id: "s = [] \<or> \<not> P (last s) \<Longrightarrow> rstrip_where P s = s"
  by (cases s rule: rev_cases) (auto simp: rstrip_where_def)

lemma inherited_zfs: "zfs_path up \<Longrightarrow> inherited up leaf = zfs_inherits up leaf"
  by (auto simp: zfs_path_def inherited_def zfs_inherits_def rstrip_where_id)
     (simp add: rstrip_where_def)

lemma option_value_mountpoint [simp]:
  "option_value ''mountpoint'' (''-o canmount='' @ v) = None"
  "option_value ''mountpoint'' (''-o mountpoint='' @ v) = Some v"
  "option_value ''canmount'' (''-o canmount='' @ v) = Some v"
  "option_value ''canmount'' (''-o mountpoint='' @ v) = None"
  by (simp_all add: option_value_def)

text \<open>The prediction is what ZFS does with the options, and the options carry no more than needed.\<close>

lemma received_mountpoint:
  assumes "zfs_path up"
  shows "zfs_received (receive_options props up leaf) up leaf = effective_mountpoint props up leaf"
  using inherited_zfs [OF assms]
  by (auto simp: zfs_received_def zfs_property_def receive_options_def effective_mountpoint_def
      List.map_filter_simps simp del: append_Cons)

lemma received_canmount: "zfs_property ''canmount'' (receive_options props up leaf) = Some (mp_canmount props)"
  by (simp add: zfs_property_def receive_options_def List.map_filter_simps del: append_Cons)

lemma zfs_path_inherited:
  assumes "zfs_path up" and "leaf \<noteq> ''''" and "CHR ''/'' \<notin> set leaf"
  shows "zfs_path (zfs_inherits up leaf)"
proof -
  have "last leaf \<noteq> CHR ''/''" using assms(2,3) by (metis last_in_set)
  then show ?thesis using assms by (auto simp: zfs_path_def zfs_inherits_def Cons_eq_append_conv append_eq_Cons_conv)
qed

end
