(* ===== verification/Backup_Layout.thy ===== *)
theory Backup_Layout
  imports Mount_Props Survey
begin

text \<open>
  \<open>lib/backup_layout.py\<close>: what a backup pool holds, as \<open>recover\<close>, \<open>mount\<close> and the exclusions read
  it, and the parts of \<open>lib/boot_layout.py\<close> that decide which boot layout a system has and keep the
  copy of an ext4 \<open>/boot\<close>. The operator's answer to a choice is a parameter; \<open>None\<close> as a result is
  the exit of \<open>log.fatal\<close>.
\<close>

section \<open>The datasets and properties of a backup pool\<close>

definition pool_rel :: "string \<Rightarrow> string \<Rightarrow> string" where
  "pool_rel pool name = drop (length pool + 1) name"

definition typed_line :: "string \<Rightarrow> (string, string) dict \<Rightarrow> string \<Rightarrow> (string, string) dict" where
  "typed_line pool out line =
     (case tabs line of [a, b] \<Rightarrow> if startswith a (pool @ ''/'') then dict_set (pool_rel pool a) b out else out
      | _ \<Rightarrow> out)"

definition list_datasets :: "'w shell \<Rightarrow> string \<Rightarrow> (('w, 'z) machine_scheme, (string, string) dict) action" where
  "list_datasets exec pool = do {
     r \<leftarrow> run exec (Line (''zfs list -Hp -o name,type -r '' @ pool @ ''/rpool''));
     b \<leftarrow> run exec (Line (''zfs list -Hp -o name,type -r '' @ pool @ ''/bpool''));
     State_Monad.return (foldl (typed_line pool) (foldl (typed_line pool) [] (ok_lines r)) (ok_lines b))
   }"

definition newest_line :: "string list \<Rightarrow> int \<times> string" where
  "newest_line ls =
     (case filter (\<lambda>l. CHR 0x09 \<in> set l) ls of [] \<Rightarrow> (0, '''')
      | xs \<Rightarrow> (let f = tabs (last xs)
              in (if isdigit (f ! 1) then int (dec_val (f ! 1)) else 0, snd (snd (partition_on CHR ''@'' (f ! 0))))))"

definition newest_snapshot :: "'w shell \<Rightarrow> string \<Rightarrow> (('w, 'z) machine_scheme, int \<times> string) action" where
  "newest_snapshot exec ds = do {
     r \<leftarrow> run exec (Line (''zfs list -H -p -t snapshot -o name,creation -s creation -d 1 '' @ ds));
     State_Monad.return (newest_line (ok_lines r))
   }"

fun newest_each :: "'w shell \<Rightarrow> string list \<Rightarrow> (('w, 'z) machine_scheme, (string \<times> int) list) action" where
  "newest_each exec [] = State_Monad.return []"
| "newest_each exec (c # cs) = do {
     n \<leftarrow> newest_snapshot exec c;
     rest \<leftarrow> newest_each exec cs;
     State_Monad.return ((c, fst n) # rest)
   }"

text \<open>\<open>sorted(..., reverse=True)\<close> keeps the order of equal keys.\<close>

definition newest_first :: "(string \<times> int) list \<Rightarrow> string list" where
  "newest_first rows = map fst (sort_key (\<lambda>(c, t). - t) rows)"

definition choose_dataset ::
    "'w shell \<Rightarrow> (string list \<Rightarrow> nat) \<Rightarrow> string list \<Rightarrow> (('w, 'z) machine_scheme, string) action" where
  "choose_dataset exec ask candidates =
     (case candidates of [] \<Rightarrow> State_Monad.return ''''
      | [c] \<Rightarrow> State_Monad.return c
      | _ \<Rightarrow> do {
          rows \<leftarrow> newest_each exec candidates;
          let order = newest_first rows;
          State_Monad.return (order ! ask order)
        })"

definition be_name :: "string \<Rightarrow> string option" where
  "be_name line =
     (let ds = strip line in
      if length (filter (\<lambda>c. c = CHR ''/'') ds) = 3 \<and> CHR ''@'' \<notin> set ds \<and> \<not> contains ds ''.archived-''
      then Some (last (split_on CHR ''/'' ds)) else None)"

definition boot_environments :: "'w shell \<Rightarrow> string \<Rightarrow> (('w, 'z) machine_scheme, string list) action" where
  "boot_environments exec pool = do {
     r \<leftarrow> run exec (Line (''zfs list -H -o name -r '' @ pool @ ''/rpool/ROOT''));
     State_Monad.return (List.map_filter be_name (result_lines r))
   }"

definition find_be ::
    "'w shell \<Rightarrow> (string list \<Rightarrow> nat) \<Rightarrow> string \<Rightarrow> (('w, 'z) machine_scheme, string) action" where
  "find_be exec ask pool = do {
     bes \<leftarrow> boot_environments exec pool;
     chosen \<leftarrow> choose_dataset exec ask (map (\<lambda>be. pool @ ''/rpool/ROOT/'' @ be) bes);
     State_Monad.return (if chosen \<noteq> '''' then last (split_on CHR ''/'' chosen) else '''')
   }"

definition CANMOUNT_PROP :: string where "CANMOUNT_PROP = ''org.zark:canmount''"

definition MOUNTPOINT_PROP :: string where "MOUNTPOINT_PROP = ''org.zark:mountpoint''"

definition prop_line ::
    "string \<Rightarrow> (string, (string, string) dict) dict \<Rightarrow> string \<Rightarrow> (string, (string, string) dict) dict" where
  "prop_line pool out line =
     (case tabs line of
        [a, p, v] \<Rightarrow> if startswith a (pool @ ''/'')
          then dict_set (pool_rel pool a) (dict_set p v (dict_get_or out (pool_rel pool a) [])) out else out
      | _ \<Rightarrow> out)"

definition both_props :: "(string, (string, string) dict) dict \<Rightarrow> mount_values" where
  "both_props found =
     List.map_filter (\<lambda>(ds, p). case (map_of p CANMOUNT_PROP, map_of p MOUNTPOINT_PROP) of
         (Some cm, Some mp) \<Rightarrow> Some (ds, cm, mp) | _ \<Rightarrow> None) found"

definition zark_props :: "'w shell \<Rightarrow> string \<Rightarrow> (('w, 'z) machine_scheme, mount_values) action" where
  "zark_props exec pool = do {
     r \<leftarrow> run exec (Line (''zfs get -Hp -s local -o name,property,value org.zark:canmount,org.zark:mountpoint -r '' @ pool @ ''/rpool''));
     b \<leftarrow> run exec (Line (''zfs get -Hp -s local -o name,property,value org.zark:canmount,org.zark:mountpoint -r '' @ pool @ ''/bpool''));
     State_Monad.return (both_props (foldl (prop_line pool) (foldl (prop_line pool) [] (ok_lines r)) (ok_lines b)))
   }"

definition root_is_empty ::
    "'w shell \<Rightarrow> string \<Rightarrow> string \<Rightarrow> bool \<Rightarrow> (('w, 'z) machine_scheme, bool option) action" where
  "root_is_empty exec source probe_dir zfsutil = do {
     run exec (Line (''mkdir -p '' @ probe_dir));
     m \<leftarrow> run exec (Line (''mount -t zfs -o '' @ (if zfsutil then ''ro,zfsutil'' else ''ro'') @ '' '' @ source @ '' '' @ probe_dir));
     if \<not> ok m then State_Monad.return None
     else do {
       r \<leftarrow> run exec (Line (''find '' @ probe_dir @ '' -mindepth 1 -maxdepth 1 -print -quit''));
       run exec (Line (''umount '' @ probe_dir));
       State_Monad.return (Some (ok r \<and> rr_output r = ''''))
     }
   }"


section \<open>The boot layout\<close>

datatype layout = BPOOL | EXT4

record boot_mount =
  bm_fstype :: string
  bm_source :: string
  bm_uuid :: string

text \<open>\<open>s.split()\<close> without an argument.\<close>

definition words_of :: "string \<Rightarrow> string list" where
  "words_of s = filter (\<lambda>w. w \<noteq> []) (split_on CHR '' '' (map (\<lambda>c. if is_space c then CHR '' '' else c) s))"

definition be_of_source :: "string \<Rightarrow> string" where
  "be_of_source source =
     (if startswith source ''rpool/ROOT/'' \<and> length (filter (\<lambda>c. c = CHR ''/'') source) = 2
      then drop (length ''rpool/ROOT/'') source else '''')"

definition running_be :: "'w shell \<Rightarrow> (('w, 'z) machine_scheme, string) action" where
  "running_be exec = do {
     r \<leftarrow> run exec (Line ''findmnt -n -o SOURCE /'');
     State_Monad.return (be_of_source (if ok r then strip (rr_output r) else ''''))
   }"

definition read_boot_mount :: "'w shell \<Rightarrow> (('w, 'z) machine_scheme, boot_mount option) action" where
  "read_boot_mount exec = do {
     r \<leftarrow> run exec (Line ''findmnt -n -o FSTYPE,SOURCE,UUID /boot'');
     State_Monad.return (case (if ok r then words_of (rr_output r) else []) of
         fs # src # rest \<Rightarrow> Some \<lparr>bm_fstype = fs, bm_source = src,
             bm_uuid = (case rest of u # _ \<Rightarrow> u | [] \<Rightarrow> '''')\<rparr>
       | _ \<Rightarrow> None)
   }"

definition system_layout :: "'w shell \<Rightarrow> (('w, 'z) machine_scheme, layout option) action" where
  "system_layout exec = do {
     r \<leftarrow> run exec (Line ''zpool list -H -o name bpool'');
     if ok r then State_Monad.return (Some BPOOL)
     else do {
       mt \<leftarrow> read_boot_mount exec;
       State_Monad.return (case mt of Some b \<Rightarrow> if bm_fstype b = ''ext4'' then Some EXT4 else None | None \<Rightarrow> None)
     }
   }"

text \<open>\<open>disks\<close> are the whole disks under \<open>/boot\<close>'s source and \<open>kernels\<close> the kernels of this root, as
  \<open>lib.identity\<close> and \<open>lib.initrd\<close> read them from the system.\<close>

definition ext4_problems :: "boot_mount \<Rightarrow> string list \<Rightarrow> string list \<Rightarrow> string list \<Rightarrow> string list" where
  "ext4_problems mt rpool_disks disks kernels =
     (if \<not> startswith (bm_source mt) ''/dev/'' then [''/boot's source '' @ bm_source mt @ '' is not a block device'']
      else if rpool_disks = [] then [''rpool's disk cannot be read, so /boot's place cannot be checked'']
      else if filter (\<lambda>d. d \<in> set rpool_disks) disks = [] then [''/boot ('' @ bm_source mt @ '') is not on rpool's disk'']
      else [])
     @ (if kernels = [] then [''/boot holds no kernel of this root (a vmlinuz-<version> with its /lib/modules/<version>): it may not have been mounted at boot''] else [])"

definition boot_copies :: "'w shell \<Rightarrow> (('w, 'z) machine_scheme, string list) action" where
  "boot_copies exec = do {
     r \<leftarrow> run exec (Line ''zfs list -H -o name -r rpool/ROOT'');
     State_Monad.return (filter (\<lambda>l. endswith l (''/'' @ BOOT_COPY)) (map strip (ok_lines r)))
   }"

text \<open>Python evaluates \<open>boot_copies()\<close> only when there is a running boot environment.\<close>

definition require_boot_copy :: "'w shell \<Rightarrow> (('w, 'z) machine_scheme, string option) action" where
  "require_boot_copy exec = do {
     be \<leftarrow> running_be exec;
     if be = '''' then State_Monad.return None
     else do {
       copies \<leftarrow> boot_copies exec;
       State_Monad.return (if boot_copy be \<notin> set copies then None else Some be)
     }
   }"

type_synonym manifest = "(string \<times> int \<times> int \<times> int) list"

definition manifest_diff :: "manifest \<Rightarrow> manifest \<Rightarrow> string list" where
  "manifest_diff before after =
     sort (filter (\<lambda>p. map_of (rev before) p \<noteq> map_of (rev after) p) (remdups (map fst before @ map fst after)))"

definition rsync_cmd :: "string \<Rightarrow> cmd" where
  "rsync_cmd tmp = Line (''rsync -aHAX --numeric-ids --delete --inplace --one-file-system --exclude=/efi/ /boot/ '' @ tmp @ ''/'')"

text \<open>\<open>tmp\<close> is the directory \<open>mkdtemp\<close> made.\<close>

definition refresh_boot_copy :: "'w shell \<Rightarrow> string \<Rightarrow> string \<Rightarrow> (('w, 'z) machine_scheme, bool) action" where
  "refresh_boot_copy exec tmp be = do {
     m \<leftarrow> run exec (Line (''mount -t zfs '' @ quote (boot_copy be) @ '' '' @ tmp));
     if \<not> ok m then State_Monad.return False
     else do {
       r \<leftarrow> run exec (rsync_cmd tmp);
       run exec (Line (''umount '' @ tmp));
       State_Monad.return (ok r)
     }
   }"

text \<open>\<open>BootRefresh\<close>: the manifests before the copy and after the point decide whether the point holds
  its root's \<open>/boot\<close>.\<close>

definition boot_stale :: "manifest \<Rightarrow> manifest \<Rightarrow> string" where
  "boot_stale before after =
     (let changed = manifest_diff before after in
      if changed = [] then ''''
      else ''/boot changed during the run ('' @ join_on '', '' (take 5 changed)
             @ (if length changed > 5 then '' ...'' else '''') @ ''): the point is not marked complete'')"


section \<open>Lemmas\<close>

text \<open>A point counts as holding its \<open>/boot\<close> exactly when no entry changed, appeared or went away.\<close>

lemma boot_stale_iff: "boot_stale before after = '''' \<longleftrightarrow> map_of (rev before) = map_of (rev after)"
proof -
  have "map_of (rev before) = map_of (rev after)"
    if "\<forall>p \<in> fst ` set before \<union> fst ` set after. map_of (rev before) p = map_of (rev after) p"
  proof
    fix p
    show "map_of (rev before) p = map_of (rev after) p"
      using that by (cases "p \<in> fst ` set before \<union> fst ` set after")
        (auto, metis map_of_eq_None_iff set_rev)
  qed
  moreover have "set (manifest_diff before after) =
      {p \<in> fst ` set before \<union> fst ` set after. map_of (rev before) p \<noteq> map_of (rev after) p}"
    by (auto simp: manifest_diff_def)
  then have "manifest_diff before after = [] \<longleftrightarrow>
      (\<forall>p \<in> fst ` set before \<union> fst ` set after. map_of (rev before) p = map_of (rev after) p)"
    unfolding set_empty [symmetric] by (simp only:) blast
  ultimately show ?thesis by (auto simp: boot_stale_def Let_def)
qed

end
