(* ===== verification/Json.thy ===== *)
theory Json
  imports Py_Text "HOL-Library.Multiset"
begin

text \<open>
  Python's \<open>json\<close> as the program uses it: \<open>json.loads\<close>, and \<open>json.dumps\<close> in the two layouts of the
  sources (compact with sorted keys for what is kept in a ZFS property, indented by two for the
  registry). Text is over code points below 256. A float keeps its text: no caller computes with
  one. The depth limit of the interpreter's stack is not modelled.

  The printer is one function over a layout; the contract of a layout is a locale in which the
  round trip is proved once.
\<close>

datatype json =
    JNull
  | JBool bool
  | JInt int
  | JFloat string
  | JStr string
  | JArr "json list"
  | JObj "(string \<times> json) list"


section \<open>Printing\<close>

definition hex_digit :: "nat \<Rightarrow> char" where
  "hex_digit n = ''0123456789abcdef'' ! n"

definition QUOTE :: char where "QUOTE = CHR 0x22"

definition BACKSLASH :: char where "BACKSLASH = CHR 0x5C"

definition short_escapes :: "(char \<times> char) list" where
  "short_escapes = [(QUOTE, QUOTE), (BACKSLASH, BACKSLASH), (CHR 0x0A, CHR ''n''), (CHR 0x0D, CHR ''r''),
     (CHR 0x09, CHR ''t''), (CHR 0x0C, CHR ''f''), (CHR 0x08, CHR ''b'')]"

text \<open>\<open>ensure_ascii\<close>: everything outside space to tilde is escaped.\<close>

definition escape_char :: "char \<Rightarrow> string" where
  "escape_char c =
     (case map_of short_escapes c of
        Some e \<Rightarrow> [BACKSLASH, e]
      | None \<Rightarrow> (let n = of_char c :: nat in
          if 32 \<le> n \<and> n \<le> 126 then [c]
          else [BACKSLASH, CHR ''u'', CHR ''0'', CHR ''0'', hex_digit (n div 16), hex_digit (n mod 16)]))"

definition print_string :: "string \<Rightarrow> string" where
  "print_string s = QUOTE # concat (map escape_char s) @ [QUOTE]"

text \<open>
  One printer: \<open>nl l\<close> is what separates the items of a container at depth \<open>l\<close> (nothing, or a line
  feed and the indentation), \<open>colon\<close> what follows a key.
\<close>

fun print_json :: "(nat \<Rightarrow> string) \<Rightarrow> string \<Rightarrow> nat \<Rightarrow> json \<Rightarrow> string" where
  "print_json nl colon l JNull = ''null''"
| "print_json nl colon l (JBool b) = (if b then ''true'' else ''false'')"
| "print_json nl colon l (JInt i) = py_str i"
| "print_json nl colon l (JFloat t) = t"
| "print_json nl colon l (JStr s) = print_string s"
| "print_json nl colon l (JArr xs) =
     (if xs = [] then ''[]''
      else ''['' @ nl (Suc l) @ join_on ('','' @ nl (Suc l)) (map (print_json nl colon (Suc l)) xs)
             @ nl l @ '']'')"
| "print_json nl colon l (JObj ms) =
     (if ms = [] then ''{}''
      else ''{'' @ nl (Suc l)
             @ join_on ('','' @ nl (Suc l))
                 (map (\<lambda>(k, v). print_string k @ colon @ print_json nl colon (Suc l) v) ms)
             @ nl l @ ''}'')"

text \<open>\<open>sort_keys=True\<close>.\<close>

fun sort_keys :: "json \<Rightarrow> json" where
  "sort_keys (JArr xs) = JArr (map sort_keys xs)"
| "sort_keys (JObj ms) = JObj (sort_key fst (map (\<lambda>(k, v). (k, sort_keys v)) ms))"
| "sort_keys v = v"

definition compact_nl :: "nat \<Rightarrow> string" where
  "compact_nl l = ''''"

definition indent_nl :: "nat \<Rightarrow> string" where
  "indent_nl l = CHR 0x0A # replicate (2 * l) CHR '' ''"

text \<open>\<open>json.dumps(data, sort_keys=True, separators=(",", ":"))\<close> and \<open>json.dumps(data, indent=2)\<close>.\<close>

definition dumps_compact :: "json \<Rightarrow> string" where
  "dumps_compact v = print_json compact_nl '':'' 0 (sort_keys v)"

definition dumps_indent :: "json \<Rightarrow> string" where
  "dumps_indent v = print_json indent_nl '': '' 0 v"


section \<open>Reading\<close>

definition is_json_space :: "char \<Rightarrow> bool" where
  "is_json_space c = (c \<in> {CHR '' '', CHR 0x09, CHR 0x0A, CHR 0x0D})"

definition skip_space :: "string \<Rightarrow> string" where
  "skip_space s = dropWhile is_json_space s"

definition hex_val :: "char \<Rightarrow> nat option" where
  "hex_val c = (let n = of_char c :: nat in
     if 48 \<le> n \<and> n \<le> 57 then Some (n - 48)
     else if 97 \<le> n \<and> n \<le> 102 then Some (n - 87)
     else if 65 \<le> n \<and> n \<le> 70 then Some (n - 55) else None)"

definition hex4 :: "char \<Rightarrow> char \<Rightarrow> char \<Rightarrow> char \<Rightarrow> nat option" where
  "hex4 a b c d =
     (case (hex_val a, hex_val b, hex_val c, hex_val d) of
        (Some w, Some x, Some y, Some z) \<Rightarrow> Some (((w * 16 + x) * 16 + y) * 16 + z)
      | _ \<Rightarrow> None)"

definition unescape :: "char \<Rightarrow> char option" where
  "unescape e = (if e = CHR ''/'' then Some e else map_of (map prod.swap short_escapes) e)"

definition consed :: "'a \<Rightarrow> ('a list \<times> 'b) option \<Rightarrow> ('a list \<times> 'b) option" where
  "consed x r = map_option (\<lambda>(xs, rest). (x # xs, rest)) r"

text \<open>The characters of a string up to its closing quote, and the text after it; a control character
  is refused, as is an escape beyond the alphabet.\<close>

fun take_chars :: "string \<Rightarrow> (string \<times> string) option" where
  "take_chars [] = None"
| "take_chars (c # cs) =
     (if c = QUOTE then Some ([], cs)
      else if c = BACKSLASH then
        (case cs of
           [] \<Rightarrow> None
         | e # r \<Rightarrow>
             if e = CHR ''u'' then
               (case r of a # b # x # d # r' \<Rightarrow>
                  (case hex4 a b x d of None \<Rightarrow> None
                   | Some n \<Rightarrow> if n < 256 then consed (char_of n) (take_chars r') else None)
                | _ \<Rightarrow> None)
             else (case unescape e of None \<Rightarrow> None | Some x \<Rightarrow> consed x (take_chars r)))
      else if (of_char c :: nat) < 32 then None
      else consed c (take_chars cs))"

definition MAX_INT_DIGITS :: nat where "MAX_INT_DIGITS = 4300"

text \<open>\<open>(-?(?:0|[1-9][0-9]*))(\.[0-9]+)?([eE][-+]?[0-9]+)?\<close>\<close>

definition take_digits :: "string \<Rightarrow> string \<times> string" where
  "take_digits s = (takeWhile is_digit s, dropWhile is_digit s)"

definition take_whole :: "string \<Rightarrow> (string \<times> string) option" where
  "take_whole s = (case s of [] \<Rightarrow> None
     | c # r \<Rightarrow> if c = CHR ''0'' then Some ([c], r)
               else if is_digit c then Some (take_digits s) else None)"

definition take_frac :: "string \<Rightarrow> string \<times> string" where
  "take_frac s = (case s of c # r \<Rightarrow>
       if c = CHR ''.'' \<and> fst (take_digits r) \<noteq> [] then (c # fst (take_digits r), snd (take_digits r))
       else ([], s)
     | [] \<Rightarrow> ([], s))"

definition take_sign :: "string \<Rightarrow> string \<times> string" where
  "take_sign s = (case s of c # r \<Rightarrow> if c = CHR ''+'' \<or> c = CHR ''-'' then ([c], r) else ([], s)
     | [] \<Rightarrow> ([], s))"

definition take_exp :: "string \<Rightarrow> string \<times> string" where
  "take_exp s = (case s of c # r \<Rightarrow>
       (case take_sign r of (sg, r') \<Rightarrow>
          if (c = CHR ''e'' \<or> c = CHR ''E'') \<and> fst (take_digits r') \<noteq> []
          then (c # sg @ fst (take_digits r'), snd (take_digits r')) else ([], s))
     | [] \<Rightarrow> ([], s))"

definition take_number :: "string \<Rightarrow> (json \<times> string) option" where
  "take_number s =
     (let minus = prefix ''-'' s in
      case take_whole (if minus then tl s else s) of
        None \<Rightarrow> None
      | Some (w, r) \<Rightarrow>
          (case take_frac r of (fr, r1) \<Rightarrow>
          (case take_exp r1 of (ex, r2) \<Rightarrow>
             if fr = [] \<and> ex = [] then
               (if length w > MAX_INT_DIGITS then None
                else Some (JInt (if minus then - int (dec_val w) else int (dec_val w)), r2))
             else Some (JFloat ((if minus then ''-'' else '''') @ w @ fr @ ex), r2))))"

definition words :: "(string \<times> json) list" where
  "words = [(''null'', JNull), (''true'', JBool True), (''false'', JBool False), (''NaN'', JFloat ''NaN''),
     (''Infinity'', JFloat ''Infinity''), (''-Infinity'', JFloat ''-Infinity'')]"

definition take_atom :: "string \<Rightarrow> (json \<times> string) option" where
  "take_atom s =
     (case find (\<lambda>(w, v). prefix w s) words of
        Some (w, v) \<Rightarrow> Some (v, drop (length w) s)
      | None \<Rightarrow> take_number s)"

text \<open>A repeated key keeps its first place and its last value.\<close>

definition dict_of :: "('k \<times> 'v) list \<Rightarrow> ('k, 'v) dict" where
  "dict_of ms = foldl (\<lambda>m (k, v). dict_set k v m) [] ms"

text \<open>
  A value, the rest of an array and the rest of an object, each with the text after it. Every call
  gives up one unit of fuel and every second one is on a shorter text, so twice the text's length is
  always enough (\<open>take_fuel\<close> below).
\<close>

fun take_value :: "nat \<Rightarrow> string \<Rightarrow> (json \<times> string) option"
  and take_elems :: "nat \<Rightarrow> string \<Rightarrow> (json list \<times> string) option"
  and take_members :: "nat \<Rightarrow> string \<Rightarrow> ((string \<times> json) list \<times> string) option" where
  "take_value 0 s = None"
| "take_value (Suc n) s =
     (case s of
        [] \<Rightarrow> None
      | c # r \<Rightarrow>
          if c = QUOTE then map_option (\<lambda>(t, r'). (JStr t, r')) (take_chars r)
          else if c = CHR ''{'' then
            (if prefix ''}'' (skip_space r) then Some (JObj [], tl (skip_space r))
             else map_option (\<lambda>(ms, r'). (JObj (dict_of ms), r')) (take_members n (skip_space r)))
          else if c = CHR ''['' then
            (if prefix '']'' (skip_space r) then Some (JArr [], tl (skip_space r))
             else map_option (\<lambda>(xs, r'). (JArr xs, r')) (take_elems n (skip_space r)))
          else take_atom s)"
| "take_elems 0 s = None"
| "take_elems (Suc n) s =
     (case take_value n s of None \<Rightarrow> None
      | Some (v, r) \<Rightarrow>
          (case skip_space r of [] \<Rightarrow> None
           | c # r' \<Rightarrow>
               if c = CHR '','' then consed v (take_elems n (skip_space r'))
               else if c = CHR '']'' then Some ([v], r') else None))"
| "take_members 0 s = None"
| "take_members (Suc n) s =
     (if \<not> prefix [QUOTE] s then None
      else case take_chars (tl s) of None \<Rightarrow> None
      | Some (k, r) \<Rightarrow>
          if \<not> prefix '':'' (skip_space r) then None
          else case take_value n (skip_space (tl (skip_space r))) of None \<Rightarrow> None
          | Some (v, r1) \<Rightarrow>
              (case skip_space r1 of [] \<Rightarrow> None
               | c # r2 \<Rightarrow>
                   if c = CHR '','' then consed (k, v) (take_members n (skip_space r2))
                   else if c = CHR ''}'' then Some ([(k, v)], r2) else None))"

text \<open>\<open>json.loads\<close>; \<open>None\<close> is \<open>JSONDecodeError\<close> (a \<open>ValueError\<close>).\<close>

definition loads :: "string \<Rightarrow> json option" where
  "loads s = (case take_value (Suc (2 * length s)) (skip_space s) of
     Some (v, r) \<Rightarrow> if skip_space r = [] then Some v else None
   | None \<Rightarrow> None)"


section \<open>\<open>str\<close> of a value\<close>

definition repr_char :: "char \<Rightarrow> char \<Rightarrow> string" where
  "repr_char q c =
     (let n = of_char c :: nat in
      if c = q \<or> c = BACKSLASH then [BACKSLASH, c]
      else if c = CHR 0x09 then [BACKSLASH, CHR ''t'']
      else if c = CHR 0x0A then [BACKSLASH, CHR ''n'']
      else if c = CHR 0x0D then [BACKSLASH, CHR ''r'']
      else if n < 32 \<or> (127 \<le> n \<and> n \<le> 160) \<or> n = 173
        then [BACKSLASH, CHR ''x'', hex_digit (n div 16), hex_digit (n mod 16)]
      else [c])"

definition repr_str :: "string \<Rightarrow> string" where
  "repr_str s =
     (let q = (if CHR 0x27 \<in> set s \<and> QUOTE \<notin> set s then QUOTE else CHR 0x27)
      in q # concat (map (repr_char q) s) @ [q])"

fun repr_json :: "json \<Rightarrow> string" where
  "repr_json JNull = ''None''"
| "repr_json (JBool b) = (if b then ''True'' else ''False'')"
| "repr_json (JInt i) = py_str i"
| "repr_json (JFloat t) = t"
| "repr_json (JStr s) = repr_str s"
| "repr_json (JArr xs) = ''['' @ join_on '', '' (map repr_json xs) @ '']''"
| "repr_json (JObj ms) = ''{'' @ join_on '', '' (map (\<lambda>(k, v). repr_str k @ '': '' @ repr_json v) ms) @ ''}''"

definition str_json :: "json \<Rightarrow> string" where
  "str_json v = (case v of JStr s \<Rightarrow> s | _ \<Rightarrow> repr_json v)"


section \<open>The fuel is enough\<close>

lemma length_skip: "length (skip_space s) \<le> length s"
  by (simp add: skip_space_def length_dropWhile_le)

lemma consed_Some: "consed x q = Some (ys, r) \<longleftrightarrow> (\<exists>xs. ys = x # xs \<and> q = Some (xs, r))"
  by (auto simp: consed_def)

lemma take_chars_shorter: "take_chars s = Some (t, r) \<Longrightarrow> length r < length s"
proof (induction s arbitrary: t rule: take_chars.induct)
  case (2 c cs)
  then show ?case
    by (auto simp: consed_Some split: if_splits list.splits option.splits) force+
qed simp

lemma take_whole_shorter: "take_whole s = Some (w, r) \<Longrightarrow> length r < length s"
  using length_dropWhile_le [of is_digit]
  by (auto simp: take_whole_def take_digits_def le_imp_less_Suc split: list.splits if_splits)

lemma take_frac_shorter: "take_frac s = (w, r) \<Longrightarrow> length r \<le> length s"
  using length_dropWhile_le [of is_digit]
  by (auto simp: take_frac_def take_digits_def le_SucI split: list.splits if_splits)

lemma take_sign_shorter: "take_sign s = (w, r) \<Longrightarrow> length r \<le> length s"
  by (auto simp: take_sign_def split: list.splits if_splits)

lemma take_exp_shorter: "take_exp s = (w, r) \<Longrightarrow> length r \<le> length s"
proof (cases s)
  case (Cons c u)
  obtain sg u' where u: "take_sign u = (sg, u')" by (rule prod.exhaust)
  assume "take_exp s = (w, r)"
  with Cons u take_sign_shorter [OF u] length_dropWhile_le [of is_digit u'] show ?thesis
    by (auto simp: take_exp_def take_digits_def split: if_splits)
qed (simp add: take_exp_def)

lemma take_number_shorter:
  assumes "take_number s = Some (v, r)"
  shows "length r < length s"
proof -
  let ?u = "if prefix ''-'' s then tl s else s"
  obtain w r0 where w: "take_whole ?u = Some (w, r0)"
    using assms by (cases "take_whole ?u") (auto simp: take_number_def Let_def)
  obtain fr r1 where fr: "take_frac r0 = (fr, r1)" by (rule prod.exhaust)
  obtain ex r2 where ex: "take_exp r1 = (ex, r2)" by (rule prod.exhaust)
  have "r = r2" using assms w fr ex by (auto simp: take_number_def Let_def split: if_splits)
  moreover have "length ?u \<le> length s" by simp
  ultimately show ?thesis
    using take_whole_shorter [OF w] take_frac_shorter [OF fr] take_exp_shorter [OF ex]
    by (meson le_less_trans less_le_trans)
qed

lemma take_atom_shorter:
  assumes "take_atom s = Some (v, r)"
  shows "length r < length s"
proof (cases "find (\<lambda>(w, v). prefix w s) words")
  case None
  with assms show ?thesis by (auto simp: take_atom_def intro: take_number_shorter)
next
  case (Some wv)
  obtain w x where wv: "wv = (w, x)" by (rule prod.exhaust)
  have "(w, x) \<in> set words" "prefix w s" using Some wv by (auto dest: find_SomeD)
  then have "w \<noteq> []" "length w \<le> length s" by (auto simp: words_def dest: prefix_length_le)
  with assms Some wv show ?thesis by (cases s) (auto simp: take_atom_def)
qed

lemma take_shorter:
  "take_value n s = Some (v, r) \<Longrightarrow> length r < length s"
  "take_elems n s = Some (xs, r) \<Longrightarrow> length r < length s"
  "take_members n s = Some (ms, r) \<Longrightarrow> length r < length s"
proof (induction n s and n s and n s arbitrary: v r and xs r and ms r
    rule: take_value_take_elems_take_members.induct)
  case (2 n s)
  show ?case
  proof (cases s)
    case Nil
    with 2 show ?thesis by simp
  next
    case (Cons c u)
    have "length (tl (skip_space u)) \<le> length u" using length_skip [of u] by simp
    with 2 Cons length_skip [of u] show ?thesis
      by (fastforce split: if_splits dest: take_chars_shorter take_atom_shorter)
  qed
next
  case (4 n s)
  from "4.prems" obtain v u where v: "take_value n s = Some (v, u)" by (auto split: option.splits)
  from "4.prems" v obtain c u' where c: "skip_space u = c # u'" by (auto split: list.splits)
  have "length u < length s" "Suc (length u') \<le> length u"
    using "4.IH"(1) [OF v] length_skip [of u] c by simp_all
  with "4.prems" v c "4.IH"(2) [OF v _ c] length_skip [of u'] show ?case
    by (fastforce simp: consed_Some split: if_splits)
next
  case (6 n s)
  from "6.prems" obtain k u where k: "prefix [QUOTE] s" "take_chars (tl s) = Some (k, u)"
    by (auto split: option.splits if_splits)
  let ?w = "skip_space (tl (skip_space u))"
  from "6.prems" k obtain v u1 where v: "prefix '':'' (skip_space u)" "take_value n ?w = Some (v, u1)"
    by (auto split: option.splits if_splits)
  from "6.prems" k v obtain c u2 where c: "skip_space u1 = c # u2" by (auto split: list.splits)
  have "length u < length s" using take_chars_shorter [OF k(2)] by simp
  moreover have "length ?w \<le> length u" using length_skip [of "tl (skip_space u)"] length_skip [of u] by simp
  moreover have "length u1 < length ?w" using "6.IH"(1) [OF _ k(2) _ _ v(2)] k v by simp
  moreover have "Suc (length u2) \<le> length u1" using length_skip [of u1] c by simp
  moreover have "length r \<le> length u2"
    using "6.prems" k v c "6.IH"(2) [OF _ k(2) _ _ v(2) _ c] length_skip [of u2]
    by (fastforce simp: consed_Some split: if_splits)
  ultimately show ?case by linarith
qed simp_all

text \<open>Any fuel above the text's length gives the same answer.\<close>

lemma take_fuel_step:
  "(2 * length s < n \<longrightarrow> take_value n s = take_value (Suc n) s)
   \<and> (2 * length s + 1 < n \<longrightarrow> take_elems n s = take_elems (Suc n) s)
   \<and> (2 * length s + 1 < n \<longrightarrow> take_members n s = take_members (Suc n) s)"
proof (induction n arbitrary: s)
  case (Suc n)
  have V: "take_value n u = take_value (Suc n) u" if "2 * length u < n" for u using Suc that by blast
  have E: "take_elems n u = take_elems (Suc n) u" if "2 * length u + 1 < n" for u using Suc that by blast
  have M: "take_members n u = take_members (Suc n) u" if "2 * length u + 1 < n" for u using Suc that by blast
  have "take_value (Suc n) s = take_value (Suc (Suc n)) s" if l: "2 * length s < Suc n"
  proof (cases s)
    case (Cons c u)
    have "2 * length (skip_space u) + 1 < n" using l Cons length_skip [of u] by simp
    from E [OF this] M [OF this] Cons show ?thesis
      by (simp only: take_value.simps list.case)
  qed simp
  moreover have "take_elems (Suc n) s = take_elems (Suc (Suc n)) s" if l: "2 * length s + 1 < Suc n"
  proof (cases "take_value n s")
    case (Some vr)
    obtain v r where vr: "vr = (v, r)" by (rule prod.exhaust)
    have v: "take_value (Suc n) s = Some (v, r)" using V [of s] l Some vr by simp
    have "2 * length (skip_space r') + 1 < n" if "skip_space r = c # r'" for c r'
      using that l length_skip [of r] length_skip [of r'] take_shorter(1) [of n s v r] Some vr by simp
    then have "take_elems n (skip_space r') = take_elems (Suc n) (skip_space r')" if "skip_space r = c # r'" for c r'
      using E that by blast
    then show ?thesis
      by (cases "skip_space r")
         (simp_all only: take_elems.simps(2) [of n s] take_elems.simps(2) [of "Suc n" s] Some vr v
            option.case prod.case list.case)
  next
    case None
    moreover have "take_value (Suc n) s = None" using V [of s] l None by simp
    ultimately show ?thesis
      by (simp only: take_elems.simps(2) [of n s] take_elems.simps(2) [of "Suc n" s] option.case)
  qed
  moreover have "take_members (Suc n) s = take_members (Suc (Suc n)) s" if l: "2 * length s + 1 < Suc n"
  proof (cases "prefix [QUOTE] s")
    case True
    show ?thesis
    proof (cases "take_chars (tl s)")
      case (Some kr)
      obtain k r where kr: "kr = (k, r)" by (rule prod.exhaust)
      let ?w = "skip_space (tl (skip_space r))"
      have lw: "length ?w \<le> length r" using length_skip [of "tl (skip_space r)"] length_skip [of r] by simp
      have lr: "length r < length s" using take_chars_shorter [of "tl s" k r] Some kr by simp
      have v: "take_value n ?w = take_value (Suc n) ?w" using V [of ?w] l lw lr by simp
      have m: "take_members n (skip_space r2) = take_members (Suc n) (skip_space r2)"
        if "take_value n ?w = Some (x, r1)" "skip_space r1 = c # r2" for x r1 c r2
        using that l lw lr length_skip [of r1] length_skip [of r2] take_shorter(1) [of n ?w x r1]
        by (intro M) simp
      have "take_members (Suc n) s = take_members (Suc (Suc n)) s" if x: "take_value n ?w = Some (x, r1)" for x r1
        using m [OF x]
        by (cases "skip_space r1")
           (simp_all only: take_members.simps(2) [of n s] take_members.simps(2) [of "Suc n" s] True Some kr
              v [symmetric] x option.case prod.case list.case)
      moreover have "take_members (Suc n) s = take_members (Suc (Suc n)) s" if x: "take_value n ?w = None"
        by (simp only: take_members.simps(2) [of n s] take_members.simps(2) [of "Suc n" s] True Some kr
              v [symmetric] x option.case prod.case)
      ultimately show ?thesis by (cases "take_value n ?w") auto
    qed (use True in simp)
  qed simp
  ultimately show ?case by blast
qed simp

lemma take_fuel:
  assumes "2 * length s < n"
  shows "take_value n s = take_value (Suc (2 * length s)) s"
  using assms
proof (induction n)
  case (Suc n)
  then show ?case
    by (cases "2 * length s < n") (use take_fuel_step [of s n] in \<open>auto simp: less_Suc_eq\<close>)
qed simp

section \<open>The round trip\<close>

text \<open>What \<open>loads\<close> gives back unchanged: objects with distinct keys (every Python dictionary), integers
  the interpreter agrees to read, no floats.\<close>

fun plain_json :: "json \<Rightarrow> bool" where
  "plain_json (JFloat t) = False"
| "plain_json (JInt i) = (length (dec_of_nat (nat \<bar>i\<bar>)) \<le> MAX_INT_DIGITS)"
| "plain_json (JArr xs) = list_all plain_json xs"
| "plain_json (JObj ms) = (wf_dict ms \<and> list_all (\<lambda>(k, v). plain_json v) ms)"
| "plain_json v = True"

lemma hex_val_digit [simp]: "n < 16 \<Longrightarrow> hex_val (hex_digit n) = Some n"
proof -
  assume "n < 16"
  then consider "n < 10" | "n \<in> {10, 11, 12, 13, 14, 15}" by force
  then have "n \<in> {0, 1, 2, 3, 4, 5, 6, 7, 8, 9, 10, 11, 12, 13, 14, 15}" by cases (use less_10_cases [of n] in auto)
  then show ?thesis by (auto simp: hex_digit_def hex_val_def)
qed

lemma hex4_byte: "n < 256 \<Longrightarrow> hex4 CHR ''0'' CHR ''0'' (hex_digit (n div 16)) (hex_digit (n mod 16)) = Some n"
  by (simp add: hex4_def) (simp add: hex_val_def)

lemma unescape_short: "map_of short_escapes c = Some e \<Longrightarrow> e \<noteq> CHR ''u'' \<and> unescape e = Some c"
  by (auto simp: short_escapes_def unescape_def QUOTE_def BACKSLASH_def split: if_splits)

lemma not_escaped:
  "map_of short_escapes c = None \<Longrightarrow> c \<noteq> QUOTE \<and> c \<noteq> BACKSLASH"
  by (auto simp: short_escapes_def split: if_splits)

lemma take_chars_escape: "take_chars (escape_char c @ s) = consed c (take_chars s)"
proof (cases "map_of short_escapes c")
  case None
  have "(of_char c :: nat) < 256" by simp
  with None not_escaped [OF None] show ?thesis
    by (auto simp: escape_char_def Let_def hex4_byte BACKSLASH_def QUOTE_def)
next
  case (Some e)
  with unescape_short [OF Some] show ?thesis
    by (simp add: escape_char_def BACKSLASH_def QUOTE_def)
qed

lemma take_chars_print: "take_chars (concat (map escape_char s) @ QUOTE # r) = Some (s, r)"
  by (induction s) (simp_all add: take_chars_escape consed_def del: take_chars.simps(2) add: take_chars.simps(2) [of QUOTE])


text \<open>What may follow a value: the end of the text, white space or the end of a container's item.\<close>

definition ends :: "string \<Rightarrow> bool" where
  "ends r = (case r of [] \<Rightarrow> True | c # _ \<Rightarrow> is_json_space c \<or> c \<in> {CHR '','', CHR '']'', CHR ''}''})"

lemma ends_Nil: "ends []"
  by (simp add: ends_def)

lemma dec_of_nat_first: "dec_of_nat n = c # s \<Longrightarrow> is_digit c"
  using dec_of_nat_digits [of n] by simp

lemma dec_of_nat_zero: "dec_of_nat n = CHR ''0'' # s \<Longrightarrow> s = []"
proof (induction n arbitrary: s rule: dec_of_nat.induct)
  case (1 n)
  show ?case
  proof (cases "n < 10")
    case True
    with 1(2) show ?thesis by (simp add: dec_of_nat.simps [of n])
  next
    case False
    then have eq: "dec_of_nat n = dec_of_nat (n div 10) @ [digit (n mod 10)]"
      by (simp add: dec_of_nat.simps [of n])
    obtain t where t: "dec_of_nat (n div 10) = CHR ''0'' # t"
      using 1(2) eq by (cases "dec_of_nat (n div 10)") auto
    have "dec_of_nat (n div 10) = ''0''" using 1(1) [OF False t] t by simp
    then have "dec_val (dec_of_nat (n div 10)) = 0"
      by (simp only:) (simp add: dec_val_def digit_val_def)
    with False show ?thesis by simp
  qed
qed

lemma digit_spans:
  assumes "list_all is_digit d" and "ends r"
  shows "takeWhile is_digit (d @ r) = d" and "dropWhile is_digit (d @ r) = r"
proof -
  have "takeWhile is_digit r = []" "dropWhile is_digit r = r"
    using assms(2) by (auto simp: ends_def is_digit_def is_json_space_def split: list.splits)
  with assms(1) show "takeWhile is_digit (d @ r) = d" "dropWhile is_digit (d @ r) = r"
    by (simp_all add: list_all_iff takeWhile_append2 dropWhile_append2)
qed

lemma take_whole_dec:
  assumes "ends r"
  shows "take_whole (dec_of_nat n @ r) = Some (dec_of_nat n, r)"
proof (cases "dec_of_nat n")
  case Nil
  then show ?thesis by simp
next
  case (Cons c s)
  then have "is_digit c" by (rule dec_of_nat_first)
  with Cons dec_of_nat_zero [of n s] show ?thesis
    using digit_spans [OF dec_of_nat_digits [of n] assms] by (auto simp: take_whole_def take_digits_def)
qed

lemma take_number_print:
  assumes "ends r" and "length (dec_of_nat (nat \<bar>i\<bar>)) \<le> MAX_INT_DIGITS"
  shows "take_number (py_str i @ r) = Some (JInt i, r)"
proof -
  have rest: "take_frac r = ([], r)" "take_exp r = ([], r)"
    using assms(1) by (auto simp: ends_def take_frac_def take_exp_def is_json_space_def split: list.splits prod.splits)
  have "\<not> prefix ''-'' (dec_of_nat n @ r)" for n
    using dec_of_nat_first [of n] by (cases "dec_of_nat n") (auto simp: is_digit_def)
  with assms show ?thesis
    by (cases "i < 0") (simp_all add: take_number_def py_str_def take_whole_dec rest Let_def)
qed

lemma take_atom_int:
  assumes "ends r" and "length (dec_of_nat (nat \<bar>i\<bar>)) \<le> MAX_INT_DIGITS"
  shows "take_atom (py_str i @ r) = Some (JInt i, r)"
proof -
  have no: "\<not> prefix (a # w) (dec_of_nat n @ r)" if "\<not> is_digit a" for a w n
    using that dec_of_nat_first [of n] by (cases "dec_of_nat n") auto
  have "find (\<lambda>(w, v). prefix w (py_str i @ r)) words = None"
    by (auto simp: words_def find_None_iff py_str_def no is_digit_def)
  then show ?thesis by (simp add: take_atom_def take_number_print [OF assms])
qed

lemma take_atom_words:
  "take_atom (''null'' @ r) = Some (JNull, r)" "take_atom (''true'' @ r) = Some (JBool True, r)"
  "take_atom (''false'' @ r) = Some (JBool False, r)"
  by (simp_all add: take_atom_def words_def)

definition blank :: "string \<Rightarrow> bool" where
  "blank w = list_all is_json_space w"

lemma skip_blank [simp]: "blank w \<Longrightarrow> skip_space (w @ s) = skip_space s"
  by (simp add: skip_space_def blank_def dropWhile_append2 list_all_iff)

text \<open>A printed value begins with a character that is neither white space nor a closing bracket.\<close>

definition starts :: "string \<Rightarrow> bool" where
  "starts t = (case t of [] \<Rightarrow> False | c # _ \<Rightarrow> \<not> is_json_space c \<and> c \<notin> {CHR '']'', CHR ''}''})"

lemma skip_starts [simp]: "starts t \<Longrightarrow> skip_space (t @ s) = t @ s"
  by (auto simp: starts_def skip_space_def split: list.splits)

lemma starts_noclose: "starts t \<Longrightarrow> \<not> prefix '']'' (t @ s) \<and> \<not> prefix ''}'' (t @ s)"
  by (auto simp: starts_def split: list.splits)

lemma starts_string: "starts (print_string s)"
  by (simp add: starts_def print_string_def QUOTE_def is_json_space_def)

lemma starts_append: "starts t \<Longrightarrow> starts (t @ s)"
  by (auto simp: starts_def split: list.splits)

lemma starts_dec: "starts (dec_of_nat n)"
proof (cases "dec_of_nat n")
  case (Cons c s)
  from dec_of_nat_first [OF Cons] Cons show ?thesis by (auto simp: starts_def is_json_space_def is_digit_def)
qed simp

lemma starts_print: "plain_json v \<Longrightarrow> starts (print_json nl colon l v)"
proof (cases v)
  case (JInt i)
  then show ?thesis by (auto simp: py_str_def starts_dec, simp add: starts_def is_json_space_def)
qed (auto simp: starts_string, auto simp: starts_def is_json_space_def)


lemma dict_of_id: "wf_dict ms \<Longrightarrow> dict_of ms = ms"
proof (induction ms rule: rev_induct)
  case (snoc kv ms)
  obtain k v where kv: "kv = (k, v)" by (rule prod.exhaust)
  have "wf_dict ms" "k \<notin> fst ` set ms" using snoc.prems kv by (simp_all add: wf_dict_def dict_keys_def)
  moreover have "AList.update k v ms = ms @ [(k, v)]" if "k \<notin> fst ` set ms" for ms :: "('a \<times> 'b) list"
    using that by (induction ms) auto
  ultimately show ?case using snoc.IH by (simp add: dict_of_def kv dict_set_def)
qed (simp add: dict_of_def)

lemma py_str_first:
  obtains c t where "py_str i = c # t" "is_digit c \<or> c = CHR ''-''"
proof (cases "i < 0")
  case False
  obtain c t where "dec_of_nat (nat i) = c # t" by (meson dec_of_nat_nonempty list.exhaust)
  with False dec_of_nat_first [of "nat i" c t] show thesis by (intro that [of c t]) (simp_all add: py_str_def)
qed (simp add: that py_str_def)

text \<open>A layout: what it puts between tokens is white space, and a key is followed by a colon.\<close>

locale json_layout =
  fixes nl :: "nat \<Rightarrow> string" and colon :: string
  assumes nl_blank: "blank (nl l)"
    and colon_blank: "\<exists>w. colon = CHR '':'' # w \<and> blank w"
begin

definition reads_back :: "(nat \<Rightarrow> string) \<Rightarrow> json \<Rightarrow> bool" where
  "reads_back p v = (\<forall>l n r. ends r \<longrightarrow> length (p l) < n \<longrightarrow> take_value n (p l @ r) = Some (v, r))"

lemma ends_close: "ends (nl l @ CHR '']'' # r)" "ends (nl l @ CHR ''}'' # r)" "ends (CHR '','' # s)"
  using nl_blank [of l] by (cases "nl l"; simp add: ends_def blank_def is_json_space_def)+

lemma skip_close: "skip_space (nl l @ CHR '']'' # r) = CHR '']'' # r" "skip_space (nl l @ CHR ''}'' # r) = CHR ''}'' # r"
  "skip_space (CHR '','' # s) = CHR '','' # s"
  by (simp_all add: nl_blank) (simp_all add: skip_space_def is_json_space_def)

lemma skip_colon: "skip_space (CHR '':'' # s) = CHR '':'' # s"
  by (simp add: skip_space_def is_json_space_def)

lemma take_elems_print:
  assumes "xs \<noteq> []" and "\<And>x. x \<in> set xs \<Longrightarrow> reads_back (\<lambda>l. p l x) x"
    and "\<And>x l. x \<in> set xs \<Longrightarrow> starts (p l x)"
    and "length (join_on ('','' @ nl l) (map (p l) xs)) + 2 \<le> n"
  shows "take_elems n (join_on ('','' @ nl l) (map (p l) xs) @ nl m @ CHR '']'' # r) = Some (xs, r)"
  using assms
proof (induction xs arbitrary: n)
  case (Cons x xs)
  obtain k where k: "n = Suc k" using Cons.prems(4) by (cases n) auto
  have x: "take_value k (p l x @ s) = Some (x, s)" if "ends s" for s
    using Cons.prems(2) [of x] Cons.prems(4) that k
    by (cases xs) (auto simp: reads_back_def)
  show ?case
  proof (cases xs)
    case Nil
    then show ?thesis by (simp add: k x ends_close skip_close)
  next
    case (Cons y ys)
    have "starts (p l y)" using Cons.prems(3) Cons by simp
    then have st: "starts (join_on ('','' @ nl l) (map (p l) xs))"
      using Cons by (cases ys) (simp_all add: starts_append)
    have ih: "take_elems k (join_on ('','' @ nl l) (map (p l) xs) @ nl m @ CHR '']'' # r) = Some (xs, r)"
      using Cons.prems k Cons by (intro Cons.IH) auto
    show ?thesis
      using ih st Cons by (simp add: k x ends_close skip_close nl_blank consed_def)
  qed
qed simp

lemma take_members_print:
  assumes "ms \<noteq> []" and "\<And>v. v \<in> snd ` set ms \<Longrightarrow> reads_back (\<lambda>l. p l v) v"
    and "\<And>v l. v \<in> snd ` set ms \<Longrightarrow> starts (p l v)"
    and "length (join_on ('','' @ nl l) (map (\<lambda>(k, v). print_string k @ colon @ p l v) ms)) + 2 \<le> n"
  shows "take_members n (join_on ('','' @ nl l) (map (\<lambda>(k, v). print_string k @ colon @ p l v) ms)
           @ nl m @ CHR ''}'' # r) = Some (ms, r)"
  using assms
proof (induction ms arbitrary: n)
  case (Cons kv ms)
  obtain i where i: "n = Suc i" using Cons.prems(4) by (cases n) auto
  obtain k v where kv: "kv = (k, v)" by (rule prod.exhaust)
  obtain w where w: "colon = CHR '':'' # w" "blank w" using colon_blank by blast
  have sv: "starts (p l v)" using Cons.prems(3) [of v l] kv by simp
  have v: "take_value i (p l v @ s) = Some (v, s)" if "ends s" for s
    using Cons.prems(2) [of v] Cons.prems(4) that i kv
    by (cases ms) (auto simp: reads_back_def)
  have key: "take_members (Suc i) (print_string k @ colon @ p l v @ s) =
      (case skip_space s of [] \<Rightarrow> None
       | c # r2 \<Rightarrow> if c = CHR '','' then consed (k, v) (take_members i (skip_space r2))
                  else if c = CHR ''}'' then Some ([(k, v)], r2) else None)" if "ends s" for s
    using take_chars_print [of k "colon @ p l v @ s"] sv w
    by (simp add: print_string_def v [OF that] skip_colon)
  show ?case
  proof (cases ms)
    case Nil
    then show ?thesis using key [of "nl m @ CHR ''}'' # r"] by (simp add: kv i ends_close skip_close)
  next
    case (Cons y ys)
    have st: "starts (join_on ('','' @ nl l) (map (\<lambda>(k, v). print_string k @ colon @ p l v) ms))"
      using Cons by (cases ys; cases y) (simp_all add: starts_append starts_string)
    have ih: "take_members i (join_on ('','' @ nl l) (map (\<lambda>(k, v). print_string k @ colon @ p l v) ms)
        @ nl m @ CHR ''}'' # r) = Some (ms, r)"
      using Cons.prems i Cons kv by (intro Cons.IH) auto
    show ?thesis
      using ih st Cons key [of "CHR '','' # nl l @ join_on ('','' @ nl l)
          (map (\<lambda>(k, v). print_string k @ colon @ p l v) ms) @ nl m @ CHR ''}'' # r"]
      by (simp add: kv i ends_close skip_close nl_blank consed_def)
  qed
qed simp

lemma print_reads_back: "plain_json v \<Longrightarrow> reads_back (\<lambda>l. print_json nl colon l v) v"
proof (induction v)
  case (JBool b)
  show ?case unfolding reads_back_def
    by (cases b; intro allI impI; case_tac n) (simp_all add: take_atom_words [simplified] QUOTE_def)
next
  case JNull
  show ?case unfolding reads_back_def
    by (intro allI impI; case_tac n) (simp_all add: take_atom_words [simplified] QUOTE_def)
next
  case (JStr s)
  show ?case unfolding reads_back_def
    by (intro allI impI; case_tac n) (simp_all add: print_string_def take_chars_print)
next
  case (JInt i)
  obtain c t where c: "py_str i = c # t" "is_digit c \<or> c = CHR ''-''" by (rule py_str_first)
  then have ct: "py_str i = c # t" "c \<noteq> QUOTE" "c \<noteq> CHR ''{''" "c \<noteq> CHR ''[''"
    by (auto simp: is_digit_def QUOTE_def)
  show ?case unfolding reads_back_def
  proof (intro allI impI)
    fix l n r assume "ends r" "length (print_json nl colon l (JInt i)) < n"
    with JInt ct take_atom_int [of r i] show "take_value n (print_json nl colon l (JInt i) @ r) = Some (JInt i, r)"
      by (cases n) simp_all
  qed
next
  case (JArr xs)
  show ?case unfolding reads_back_def
  proof (intro allI impI)
    fix l n r assume prems: "ends r" "length (print_json nl colon l (JArr xs)) < n"
    have IH: "reads_back (\<lambda>l. print_json nl colon l x) x" if "x \<in> set xs" for x
      using JArr that by (simp add: list_all_iff)
    have st: "starts (print_json nl colon m x)" if "x \<in> set xs" for x m
      using JArr.prems that by (auto simp: list_all_iff intro: starts_print)
    obtain k where k: "n = Suc k" using prems by (cases n) auto
    show "take_value n (print_json nl colon l (JArr xs) @ r) = Some (JArr xs, r)"
    proof (cases "xs = []")
      case True
      then show ?thesis by (simp add: k skip_space_def is_json_space_def QUOTE_def)
    next
      case False
      let ?body = "join_on ('','' @ nl (Suc l)) (map (print_json nl colon (Suc l)) xs)"
      have "starts ?body" using False st by (cases xs; cases "tl xs") (simp_all add: starts_append)
      moreover have "take_elems k (?body @ nl l @ CHR '']'' # r) = Some (xs, r)"
        using False prems k by (intro take_elems_print IH st) auto
      ultimately show ?thesis
        using False starts_noclose [of ?body] by (simp add: k QUOTE_def nl_blank)
    qed
  qed
next
  case (JObj ms)
  show ?case unfolding reads_back_def
  proof (intro allI impI)
    fix l n r assume prems: "ends r" "length (print_json nl colon l (JObj ms)) < n"
    have IH: "reads_back (\<lambda>l. print_json nl colon l v) v" if "v \<in> snd ` set ms" for v
      using JObj that by (fastforce simp: list_all_iff)
    have st: "starts (print_json nl colon m v)" if "v \<in> snd ` set ms" for v m
      using JObj.prems that by (intro starts_print) (auto simp: list_all_iff)
    obtain k where k: "n = Suc k" using prems by (cases n) auto
    show "take_value n (print_json nl colon l (JObj ms) @ r) = Some (JObj ms, r)"
    proof (cases "ms = []")
      case True
      then show ?thesis by (simp add: k skip_space_def is_json_space_def QUOTE_def)
    next
      case False
      let ?body = "join_on ('','' @ nl (Suc l))
        (map (\<lambda>(k, v). print_string k @ colon @ print_json nl colon (Suc l) v) ms)"
      have "starts ?body" using False
        by (cases ms; cases "tl ms") (auto simp: starts_append starts_string)
      moreover have "take_members k (?body @ nl l @ CHR ''}'' # r) = Some (ms, r)"
        using False prems k by (intro take_members_print IH st) auto
      moreover have "dict_of ms = ms" using JObj.prems by (simp add: dict_of_id)
      ultimately show ?thesis
        using False starts_noclose [of ?body] by (simp add: k QUOTE_def nl_blank)
    qed
  qed
qed simp

lemma loads_print: "plain_json v \<Longrightarrow> loads (print_json nl colon l v) = Some v"
proof -
  assume v: "plain_json v"
  have less: "length (print_json nl colon l v) < Suc (2 * length (print_json nl colon l v))" by simp
  have "take_value (Suc (2 * length (print_json nl colon l v))) (print_json nl colon l v @ []) = Some (v, [])"
    using print_reads_back [OF v] unfolding reads_back_def
    using ends_Nil less by blast
  moreover have "skip_space (print_json nl colon l v @ []) = print_json nl colon l v @ []"
    by (rule skip_starts [OF starts_print [OF v]])
  ultimately show ?thesis by (simp add: loads_def skip_space_def del: take_value.simps)
qed

end

lemma blank_simps [simp]: "blank []" "blank (c # w) = (is_json_space c \<and> blank w)" "blank (replicate n CHR '' '')"
  by (simp_all add: blank_def list_all_iff is_json_space_def)

interpretation compact: json_layout compact_nl "'':''"
  by unfold_locales (auto simp: compact_nl_def)

interpretation indented: json_layout indent_nl "'': ''"
  by unfold_locales (auto simp: indent_nl_def is_json_space_def)

lemma sort_key_map: "sort_key f (map g xs) = map g (sort_key (\<lambda>x. f (g x)) xs)"
proof -
  have "insort_key f (g x) (map g ys) = map g (insort_key (\<lambda>x. f (g x)) x ys)" for x ys
    by (induction ys) auto
  then show ?thesis by (induction xs) auto
qed

text \<open>Sorting the keys keeps every dictionary, so a compact record reads back as its sorted self.\<close>

lemma wf_dict_sort [simp]: "wf_dict (sort_key f ms) = wf_dict ms"
proof -
  have "mset (map fst (sort_key f ms)) = mset (map fst ms)" by simp
  then show ?thesis unfolding wf_dict_def dict_keys_def by (metis mset_eq_imp_distinct_iff)
qed

lemma map_of_sort [simp]: "wf_dict ms \<Longrightarrow> map_of (sort_key f ms) = map_of ms"
proof -
  assume "wf_dict ms"
  then have "distinct (map fst ms)" "distinct (map fst (sort_key f ms))"
    using wf_dict_sort [of f ms] by (simp_all add: wf_dict_def dict_keys_def del: wf_dict_sort)
  then show ?thesis by (intro map_of_inject_set [THEN iffD2]) simp_all
qed

lemma plain_sort_keys: "plain_json v \<Longrightarrow> plain_json (sort_keys v)"
proof (induction v)
  case (JObj ms)
  have "dict_keys (map (\<lambda>(k, v). (k, sort_keys v)) ms) = dict_keys ms" by (auto simp: dict_keys_def)
  then have "wf_dict (map (\<lambda>(k, v). (k, sort_keys v)) ms)" using JObj.prems by (simp add: wf_dict_def)
  moreover have "plain_json (sort_keys v)" if "(k, v) \<in> set ms" for k v
    using JObj that by (fastforce simp: list_all_iff)
  ultimately show ?case by (auto simp: list_all_iff)
qed (simp_all add: list_all_iff)

lemma loads_compact: "plain_json v \<Longrightarrow> loads (dumps_compact v) = Some (sort_keys v)"
  by (simp add: dumps_compact_def compact.loads_print plain_sort_keys)

lemma loads_indent: "plain_json v \<Longrightarrow> loads (dumps_indent v) = Some v"
  by (simp add: dumps_indent_def indented.loads_print)

end
