(* ===== verification/Exclusions.thy ===== *)
theory Exclusions
  imports Backup_Layout Drive_Marks Sha256
begin

text \<open>
  \<open>lib/exclusions.py\<close>: the datasets a user leaves out of backups or of local snapshots. Reading the
  declared exclusions and ignoring those that must never hold; the record of what a point left out,
  kept on the drive in one user property or, when longer than one holds, in parts under a pointer
  with a digest; reading it back; and the destroy of a drive's copy of an excluded subtree with the
  rewrite of the points that held it. A set of names is a list.
\<close>

section \<open>Names\<close>

definition REPLICATE :: string where "REPLICATE = ''org.zark:replicate''"

definition SNAPSHOT :: string where "SNAPSHOT = ''org.zark:snapshot''"

definition POINT_MARK :: string where "POINT_MARK = ''org.zark:excluded''"

definition MARK_LIMIT :: nat where "MARK_LIMIT = 8191"

definition MAX_PARTS :: nat where "MAX_PARTS = 64"

definition BACKUPS :: string where "BACKUPS = ''backups''"

definition SNAPSHOTS :: string where "SNAPSHOTS = ''snapshots''"

definition BOTH :: string where "BOTH = ''both''"


section \<open>Which datasets an exclusion covers\<close>

text \<open>\<open>covering\<close>: the longest of the tops above a dataset, the empty name when there is none.\<close>

definition covering :: "string \<Rightarrow> string list \<Rightarrow> string" where
  "covering rel tops =
     foldl (\<lambda>best t. if under rel t \<and> length t > length best then t else best) '''' tops"

text \<open>The rules on the name and the kind alone, then the rule on what the subtree holds.\<close>

definition never_rule :: "string \<Rightarrow> origin option \<Rightarrow> string" where
  "never_rule rel ori =
     (if rel = ''rpool/ROOT'' \<or> startswith rel ''rpool/ROOT/'' then ''a boot environment is never excluded''
      else if is_bpool rel then ''the boot pool is never excluded''
      else if under rel KEYSTORE then ''the keystore is never excluded''
      else if rel \<in> set STRUCTURAL
        then ''a structural container is not replicated itself: exclude its children instead''
      else if (case ori of Some x \<Rightarrow> o_kind x = ''volume'' | None \<Rightarrow> False)
        then ''zark exclude does not apply to a zvol (zvols are never backed up)''
      else if is_archived rel then ''zark leaves .archived- names out already''
      else '''')"

definition never_excluded :: "string \<Rightarrow> (string, origin) dict \<Rightarrow> string" where
  "never_excluded rel ori =
     (let why = never_rule rel (map_of ori rel) in
      if why \<noteq> '''' then why
      else case find (\<lambda>x. x \<noteq> rel \<and> under x rel \<and> never_rule x None \<noteq> '''') (sort (dict_keys ori)) of
             Some x \<Rightarrow> ''its subtree holds '' @ x | None \<Rightarrow> '''')"

record exclusion =
  ex_top :: string
  ex_replicate :: bool
  ex_snapshot :: bool

definition exclusion_flags :: "exclusion \<Rightarrow> string" where
  "exclusion_flags e = (if ex_replicate e \<and> ex_snapshot e then BOTH
     else if ex_replicate e then BACKUPS else SNAPSHOTS)"

definition minimal :: "string list \<Rightarrow> string list" where
  "minimal rels = filter (\<lambda>r. covering r (filter (\<lambda>t. t \<noteq> r) rels) = '''') (remdups rels)"

record declared =
  dc_tops :: "(string, exclusion) dict"
  dc_ignored :: "(string \<times> string) list"

definition no_backup :: "declared \<Rightarrow> string list" where
  "no_backup d = minimal (map fst (filter (\<lambda>(t, e). ex_replicate e) (dc_tops d)))"

definition no_snapshot :: "declared \<Rightarrow> string list" where
  "no_snapshot d = minimal (map fst (filter (\<lambda>(t, e). ex_snapshot e) (dc_tops d)))"

definition flags_of :: "declared \<Rightarrow> string \<Rightarrow> string" where
  "flags_of d t = (case map_of (dc_tops d) t of
     Some e \<Rightarrow> if ex_snapshot e then BOTH else BACKUPS | None \<Rightarrow> BACKUPS)"


section \<open>Reading the declared exclusions\<close>

type_synonym prop_values = "(string, (string, string) dict) dict"

definition value_line :: "prop_values \<Rightarrow> string \<Rightarrow> prop_values" where
  "value_line out line =
     (case tabs line of
        [a, p, v] \<Rightarrow> if (p = REPLICATE \<or> p = SNAPSHOT) \<and> CHR ''@'' \<notin> set a \<and> CHR ''#'' \<notin> set a
          then dict_set a (dict_set p v (dict_get_or out a [])) out else out
      | _ \<Rightarrow> out)"

definition values_of :: "string list \<Rightarrow> prop_values" where
  "values_of lines = foldl value_line [] lines"

definition bad_values :: "(string, string) dict \<Rightarrow> string list" where
  "bad_values props =
     map (\<lambda>(p, v). p @ ''='' @ v) (filter (\<lambda>(p, v). v \<noteq> ''no'' \<and> v \<noteq> ''yes'') (sort_key fst props))"

definition declare_row ::
    "(string, origin) dict \<Rightarrow> declared \<Rightarrow> string \<times> (string, string) dict \<Rightarrow> declared" where
  "declare_row ori d row = (case row of (rel, props) \<Rightarrow>
     (let bad = bad_values props;
          d1 = (if bad \<noteq> [] then d\<lparr>dc_ignored := dc_ignored d @ [(rel, join_on '', '' bad @ '': only 'no' excludes'')]\<rparr> else d);
          rep = (map_of props REPLICATE = Some ''no'');
          snap = (map_of props SNAPSHOT = Some ''no'');
          why = never_excluded rel ori
      in if \<not> (rep \<or> snap) then d1
         else if why \<noteq> '''' then d1\<lparr>dc_ignored := dc_ignored d1 @ [(rel, why)]\<rparr>
         else d1\<lparr>dc_tops := dict_set rel \<lparr>ex_top = rel, ex_replicate = rep, ex_snapshot = snap\<rparr> (dc_tops d1)\<rparr>))"

definition inside_rows :: "declared \<Rightarrow> string \<times> (string, string) dict \<Rightarrow> (string \<times> string) list" where
  "inside_rows d row = (case row of (rel, props) \<Rightarrow>
     List.map_filter (\<lambda>(p, v).
        let t = covering rel (filter (\<lambda>x. x \<noteq> rel) (if p = REPLICATE then no_backup d else no_snapshot d))
        in if v = ''yes'' \<and> t \<noteq> ''''
           then Some (rel, p @ ''=yes inside '' @ t @ '', which excludes its whole subtree'') else None)
       (sort_key fst props))"

definition parse_exclusions :: "string list \<Rightarrow> (string, origin) dict \<Rightarrow> declared" where
  "parse_exclusions lines ori =
     (let rows = sort_key fst (values_of lines);
          d = foldl (declare_row ori) \<lparr>dc_tops = [], dc_ignored = []\<rparr> rows
      in d\<lparr>dc_ignored := dc_ignored d @ concat (map (inside_rows d) rows)\<rparr>)"

definition exclusions_list :: "string \<Rightarrow> cmd" where
  "exclusions_list pool =
     Line (''zfs get -H -s local -t filesystem,volume -o name,property,value '' @ REPLICATE @ '','' @ SNAPSHOT
           @ '' -r '' @ quote pool)"

fun exclusion_lines ::
    "'w shell \<Rightarrow> bool \<Rightarrow> string list \<Rightarrow> string list \<Rightarrow> (('w, 'z) machine_scheme, string list) reading" where
  "exclusion_lines exec strict [] acc = State_Monad.return (Inr acc)"
| "exclusion_lines exec strict (pool # pools) acc =
     on_read (checked exec (exclusions_list pool) strict) (\<lambda>r.
       exclusion_lines exec strict pools (acc @ ok_lines r))"

definition read_exclusions ::
    "'w shell \<Rightarrow> string list \<Rightarrow> (string, origin) dict \<Rightarrow> bool \<Rightarrow> (('w, 'z) machine_scheme, declared) reading" where
  "read_exclusions exec pools ori strict =
     on_read (exclusion_lines exec strict pools []) (\<lambda>lines.
       State_Monad.return (Inr (parse_exclusions lines ori)))"

definition subtree :: "string \<Rightarrow> (string, origin) dict \<Rightarrow> string list" where
  "subtree t ori = sort (filter (\<lambda>rel. under rel t) (dict_keys ori))"

definition subtree_referenced :: "string \<Rightarrow> (string, origin) dict \<Rightarrow> int" where
  "subtree_referenced t ori =
     sum_list (map (\<lambda>rel. case map_of ori rel of Some x \<Rightarrow> o_referenced x | None \<Rightarrow> 0) (subtree t ori))"


section \<open>The record of a point\<close>

definition dump_mark :: "(string, string) dict \<Rightarrow> mount_values \<Rightarrow> string" where
  "dump_mark tops datasets =
     dumps_compact (JObj [(''tops'', JObj (map (\<lambda>(t, f). (t, JStr f)) tops)),
                          (''datasets'', JObj (map (\<lambda>(rel, cm, mp). (rel, JArr [JStr cm, JStr mp])) datasets))])"

definition mark_tops :: "declared \<Rightarrow> (string, string) dict" where
  "mark_tops d =
     foldl (\<lambda>m t. dict_setdefault t SNAPSHOTS m)
       (dict_of (map (\<lambda>t. (t, flags_of d t)) (sort (no_backup d)))) (sort (no_snapshot d))"

definition mark_datasets :: "declared \<Rightarrow> (string, origin) dict \<Rightarrow> mount_values" where
  "mark_datasets d ori =
     dict_of (concat (map (\<lambda>t. List.map_filter (\<lambda>rel. map_option (\<lambda>x. (rel, o_canmount x, o_mountpoint x)) (map_of ori rel))
        (subtree t ori)) (sort (no_backup d))))"

definition point_mark :: "declared \<Rightarrow> (string, origin) dict \<Rightarrow> string" where
  "point_mark d ori = dump_mark (mark_tops d) (mark_datasets d ori)"

definition part_prop :: "nat \<Rightarrow> string" where
  "part_prop i = POINT_MARK @ ''.'' @ dec_of_nat i"

definition parts_needed :: "string \<Rightarrow> nat" where
  "parts_needed mark = max 1 ((length mark + MARK_LIMIT - 1) div MARK_LIMIT)"

definition mark_parts :: "string \<Rightarrow> string list" where
  "mark_parts mark = groups_of ((length mark + MARK_LIMIT - 1) div MARK_LIMIT) MARK_LIMIT mark"

definition record_props :: "string \<Rightarrow> (string \<times> string) list" where
  "record_props mark =
     (if length mark \<le> MARK_LIMIT then [(POINT_MARK, mark)]
      else (POINT_MARK, dumps_compact (JObj [(''parts'', JInt (int (length (mark_parts mark)))),
                                             (''sha256'', JStr (sha256 mark))]))
           # map (\<lambda>(i, p). (part_prop i, p)) (enumerate 1 (mark_parts mark)))"

text \<open>\<open>None\<close> is a record of its own, the empty pair a pointer that cannot be followed.\<close>

definition pointer :: "string \<Rightarrow> (nat \<times> string) option" where
  "pointer v =
     (case loads v of
        Some (JObj m) \<Rightarrow>
          (case map_of m ''parts'' of
             None \<Rightarrow> None
           | Some n \<Rightarrow> Some (case (n, map_of m ''sha256'') of
               (JInt i, Some (JStr d)) \<Rightarrow> if 1 \<le> i \<and> i \<le> int MAX_PARTS then (nat i, d) else (0, '''')
             | _ \<Rightarrow> (0, '''')))
      | _ \<Rightarrow> None)"

definition part_line :: "prop_values \<Rightarrow> string \<Rightarrow> prop_values" where
  "part_line out line =
     (case tabs line of
        [a, p, v] \<Rightarrow> if CHR ''@'' \<in> set a then dict_set a (dict_set p v (dict_get_or out a [])) out else out
      | _ \<Rightarrow> out)"

definition parts_list :: "string \<Rightarrow> nat \<Rightarrow> cmd" where
  "parts_list root most =
     Line (''zfs get -H -p -r -s local -t snapshot -o name,property,value ''
           @ join_on '','' (map part_prop [1..<most + 1]) @ '' '' @ quote root)"

definition read_parts ::
    "'w shell \<Rightarrow> string \<Rightarrow> nat \<Rightarrow> bool \<Rightarrow> (('w, 'z) machine_scheme, prop_values) reading" where
  "read_parts exec root most strict =
     (if most = 0 then State_Monad.return (Inr [])
      else on_read (checked exec (parts_list root most) strict) (\<lambda>r.
             State_Monad.return (Inr (foldl part_line [] (ok_lines r)))))"

definition pointers_of :: "(string, string) dict \<Rightarrow> (string, nat \<times> string) dict" where
  "pointers_of marks = List.map_filter (\<lambda>(s, v). map_option (Pair s) (pointer v)) marks"

definition joined_record :: "(string, string) dict \<Rightarrow> nat \<Rightarrow> string \<Rightarrow> string option" where
  "joined_record parts n digest =
     (let pieces = map (\<lambda>i. map_of parts (part_prop i)) [1..<n + 1];
          joined = concat (List.map_filter id pieces);
          whole = (n > 0 \<and> None \<notin> set pieces)
      in if whole \<and> sha256 joined = digest then Some joined else None)"

definition join_records ::
    "(string, string) dict \<Rightarrow> prop_values \<Rightarrow> (string, string option) dict" where
  "join_records marks parts =
     foldl (\<lambda>out (s, n, digest). dict_set s (joined_record (dict_get_or parts s []) n digest) out)
       (map (\<lambda>(s, v). (s, Some v)) marks) (pointers_of marks)"

definition point_records ::
    "'w shell \<Rightarrow> string \<Rightarrow> bool \<Rightarrow> (('w, 'z) machine_scheme, (string, string option) dict) reading" where
  "point_records exec pool strict =
     on_read (snapshot_marks exec (pool @ ''/rpool'') strict POINT_MARK) (\<lambda>marks.
       let ptrs = pointers_of marks in
       if ptrs = [] then State_Monad.return (Inr (map (\<lambda>(s, v). (s, Some v)) marks))
       else on_read (read_parts exec (pool @ ''/rpool'') (Max (set (map (\<lambda>(s, n, d). n) ptrs))) strict) (\<lambda>parts.
              State_Monad.return (Inr (join_records marks parts))))"

record point_excl =
  pm_tops :: "(string, string) dict"
  pm_datasets :: mount_values

definition left_out :: "point_excl \<Rightarrow> string list" where
  "left_out pm = map fst (filter (\<lambda>(t, f). f \<noteq> SNAPSHOTS) (pm_tops pm))"

definition pm_no_snapshot :: "point_excl \<Rightarrow> string list" where
  "pm_no_snapshot pm = sort (map fst (filter (\<lambda>(t, f). f = SNAPSHOTS) (pm_tops pm)))"

definition covers :: "point_excl \<Rightarrow> string \<Rightarrow> bool" where
  "covers pm rel = (rel \<in> set (dict_keys (pm_datasets pm)) \<or> covering rel (left_out pm) \<noteq> '''')"

definition top_row :: "string \<times> json \<Rightarrow> (string \<times> string) option" where
  "top_row row = (case row of (t, JStr f) \<Rightarrow> if f \<in> {BACKUPS, BOTH, SNAPSHOTS} then Some (t, f) else None
     | _ \<Rightarrow> None)"

definition dataset_row :: "string \<times> json \<Rightarrow> (string \<times> string \<times> string) option" where
  "dataset_row row = (case row of (rel, JArr [a, b]) \<Rightarrow> Some (rel, str_json a, str_json b) | _ \<Rightarrow> None)"

definition parse_point_mark :: "string \<Rightarrow> point_excl option" where
  "parse_point_mark v =
     (case loads v of
        Some (JObj m) \<Rightarrow>
          (case (dict_get_or m ''tops'' (JObj []), dict_get_or m ''datasets'' (JObj [])) of
             (JObj ts, JObj ds) \<Rightarrow>
               Some \<lparr>pm_tops = List.map_filter top_row ts, pm_datasets = List.map_filter dataset_row ds\<rparr>
           | _ \<Rightarrow> None)
      | _ \<Rightarrow> None)"

text \<open>The outcomes of \<open>read_point_mark\<close>: the read failed, the snapshots disagree or the record is
  unreadable (\<open>ValueError\<close>), there is no mark, or the mark.\<close>

datatype mark_read = Unreadable | NoMark | Mark point_excl

definition mark_of_records :: "string \<Rightarrow> string \<Rightarrow> snap list \<Rightarrow> (string, string option) dict \<Rightarrow> mark_read" where
  "mark_of_records pool point snaps records =
     (case remdups (List.map_filter (map_of records)
             (map (\<lambda>s. pool @ ''/'' @ stored s @ ''@'' @ s_name s) (filter (\<lambda>s. s_name s = point) snaps))) of
        [] \<Rightarrow> NoMark
      | [Some v] \<Rightarrow> (case parse_point_mark v of Some pm \<Rightarrow> Mark pm | None \<Rightarrow> Unreadable)
      | _ \<Rightarrow> Unreadable)"

definition read_point_mark ::
    "'w shell \<Rightarrow> string \<Rightarrow> string \<Rightarrow> snap list \<Rightarrow> (('w, 'z) machine_scheme, mark_read) reading" where
  "read_point_mark exec pool point snaps =
     on_read (point_records exec pool True) (\<lambda>records.
       State_Monad.return (Inr (mark_of_records pool point snaps records)))"


section \<open>What a run leaves out, and what a drive still holds of it\<close>

definition newest_complete_point :: "snap list \<Rightarrow> string" where
  "newest_complete_point snaps = (case max_by (\<lambda>n. n) (complete_points snaps '''') of Some n \<Rightarrow> n | None \<Rightarrow> '''')"

definition held_line :: "snap list \<Rightarrow> string \<Rightarrow> string \<Rightarrow> string option" where
  "held_line snaps name t =
     map_option (\<lambda>s. t @ '': excluded from backups at '' @ name @ ''; this drive's last copy of it is '' @ s_name s)
       (max_by s_createtxg (filter (\<lambda>s. stored s = t) snaps))"

definition held_lines :: "'w shell \<Rightarrow> string \<Rightarrow> (('w, 'z) machine_scheme, string list) action" where
  "held_lines exec pool = do {
     ss \<leftarrow> drive_snapshots exec pool True;
     case ss of Inl e \<Rightarrow> State_Monad.return []
     | Inr snaps \<Rightarrow>
         (let name = newest_complete_point snaps in
          if name = '''' then State_Monad.return []
          else do {
            mk \<leftarrow> read_point_mark exec pool name snaps;
            State_Monad.return (case mk of
              Inr (Mark pm) \<Rightarrow> List.map_filter (held_line snaps name) (sort (left_out pm))
            | _ \<Rightarrow> [])
          })
   }"

text \<open>\<open>Inl\<close> is \<open>log.fatal\<close>: nothing of the run was written.\<close>

definition for_run :: "'w shell \<Rightarrow> string list \<Rightarrow> (('w, 'z) machine_scheme, declared \<times> string) reading" where
  "for_run exec pools =
     on_read (read_origin exec pools True) (\<lambda>ori.
     on_read (read_exclusions exec pools ori True) (\<lambda>d.
       let mark = point_mark d ori in
       State_Monad.return (if parts_needed mark > MAX_PARTS
         then Inl ''Too many datasets excluded to record them on the drive'' else Inr (d, mark))))"

definition set_props :: "(string \<times> string) list \<Rightarrow> string list \<Rightarrow> cmd" where
  "set_props props targets = Argv ([''zfs'', ''set''] @ map (\<lambda>(k, v). k @ ''='' @ v) props @ targets)"

definition record_mark ::
    "'w shell \<Rightarrow> string \<Rightarrow> string \<Rightarrow> string list \<Rightarrow> string \<Rightarrow> (string \<times> string) list
      \<Rightarrow> (('w, 'z) machine_scheme, bool) action" where
  "record_mark exec pool point rels mark extra =
     (if rels = [] then State_Monad.return True
      else do {
        r \<leftarrow> run exec (set_props (record_props mark @ extra) (map (\<lambda>rel. pool @ ''/'' @ rel @ ''@'' @ point) rels));
        State_Monad.return (ok r)
      })"

definition keep_held :: "'w shell \<Rightarrow> string \<Rightarrow> string \<Rightarrow> string \<Rightarrow> (('w, 'z) machine_scheme, bool) action" where
  "keep_held exec pool t stamp = do {
     r \<leftarrow> run exec (Line (''zfs set '' @ quote (EXCLUDED_KEPT_PROP @ ''=kept@'' @ stamp) @ '' '' @ quote (pool @ ''/'' @ t)));
     State_Monad.return (ok r)
   }"


section \<open>Destroying a drive's copy of an excluded subtree\<close>

record rewrite =
  rw_targets :: "string list"
  rw_complete :: string
  rw_mark :: string

definition dict_update :: "('k, 'v) dict \<Rightarrow> ('k \<times> 'v) list \<Rightarrow> ('k, 'v) dict" where
  "dict_update m xs = foldl (\<lambda>d (k, v). dict_set k v d) m xs"

definition rewrite_of ::
    "string \<Rightarrow> string \<Rightarrow> (string, string option) dict \<Rightarrow> mount_values \<Rightarrow> point_loss \<Rightarrow> rewrite option" where
  "rewrite_of t flags records vals loss =
     (let held = List.map_filter (map_of records) (pl_targets loss);
          pm0 = (case held of Some v # _ \<Rightarrow> parse_point_mark v | _ \<Rightarrow> None)
      in if held \<noteq> [] \<and> pm0 = None then None
         else (let pm = (case pm0 of Some p \<Rightarrow> p | None \<Rightarrow> \<lparr>pm_tops = [], pm_datasets = []\<rparr>)
               in Some \<lparr>rw_targets = pl_targets loss, rw_complete = py_str (pl_count loss),
                        rw_mark = dump_mark (dict_set t flags (pm_tops pm))
                          (dict_update (pm_datasets pm)
                             (map (\<lambda>rel. (rel, dict_get_or vals rel (''on'', ''''))) (pl_lost loss)))\<rparr>))"

fun all_some :: "('k \<times> 'v option) list \<Rightarrow> ('k \<times> 'v) list option" where
  "all_some [] = Some []"
| "all_some ((k, None) # xs) = None"
| "all_some ((k, Some v) # xs) = map_option ((#) (k, v)) (all_some xs)"

text \<open>\<open>None\<close> is the \<open>ValueError\<close> of a record that cannot be read.\<close>

definition point_rewrites ::
    "string \<Rightarrow> string \<Rightarrow> string \<Rightarrow> snap list \<Rightarrow> (string, string option) dict \<Rightarrow> string list \<Rightarrow> mount_values
      \<Rightarrow> (string, rewrite) dict option" where
  "point_rewrites pool t flags snaps records took vals =
     all_some (map (\<lambda>(name, loss). (name, rewrite_of t flags records vals loss)) (point_losses pool snaps took))"

definition apply_rewrite :: "'w shell \<Rightarrow> rewrite \<Rightarrow> (('w, 'z) machine_scheme, bool) action" where
  "apply_rewrite exec rw =
     (if parts_needed (rw_mark rw) > MAX_PARTS then State_Monad.return False
      else do {
        r \<leftarrow> run exec (set_props ((COMPLETE_PROP, rw_complete rw) # record_props (rw_mark rw)) (rw_targets rw));
        State_Monad.return (ok r)
      })"

fun apply_rewrites :: "'w shell \<Rightarrow> (string, rewrite) dict \<Rightarrow> (('w, 'z) machine_scheme, bool) action" where
  "apply_rewrites exec [] = State_Monad.return True"
| "apply_rewrites exec ((name, rw) # rest) = do {
     a \<leftarrow> apply_rewrite exec rw;
     b \<leftarrow> apply_rewrites exec rest;
     State_Monad.return (a \<and> b)
   }"

definition anchors_of :: "string \<Rightarrow> string \<Rightarrow> (string, origin) dict \<Rightarrow> string list" where
  "anchors_of t disk_guid ori =
     concat (map (\<lambda>rel. case map_of ori rel of None \<Rightarrow> []
        | Some x \<Rightarrow> map (\<lambda>b. rel @ ''#'' @ r_name b) (filter (\<lambda>b. anchor_disk (r_name b) = disk_guid) (o_bookmarks x)))
       (subtree t ori))"

fun destroy_marks :: "'w shell \<Rightarrow> string list \<Rightarrow> (('w, 'z) machine_scheme, bool) action" where
  "destroy_marks exec [] = State_Monad.return True"
| "destroy_marks exec (b # bs) = do {
     r \<leftarrow> run exec (Line (''zfs destroy '' @ quote b));
     rest \<leftarrow> destroy_marks exec bs;
     State_Monad.return (ok r \<and> rest)
   }"

definition drop_anchors ::
    "'w shell \<Rightarrow> string \<Rightarrow> string \<Rightarrow> (string, origin) dict \<Rightarrow> (('w, 'z) machine_scheme, bool) action" where
  "drop_anchors exec t disk_guid ori = destroy_marks exec (anchors_of t disk_guid ori)"

text \<open>
  The destroy itself, once everything it needs was read: the dependents, the subtree, the marks of
  every point that lost something, and the anchors when all of it went.
\<close>

definition destroy_then_rewrite ::
    "'w shell \<Rightarrow> string \<Rightarrow> string \<Rightarrow> string \<Rightarrow> string \<Rightarrow> (string, origin) dict \<Rightarrow> destroyplan
      \<Rightarrow> snap list \<Rightarrow> (string, string option) dict \<Rightarrow> mount_values \<Rightarrow> (('w, 'z) machine_scheme, py_error + bool) action" where
  "destroy_then_rewrite exec pool t flags disk_guid ori deps snaps records vals = do {
     (took, went) \<leftarrow> destroy_dependents exec pool deps;
     (took, went) \<leftarrow> (if went then do {
         r \<leftarrow> run exec (destroy_line pool t);
         State_Monad.return (if ok r then took @ [t] else took, ok r)
       } else State_Monad.return (took, went));
     if took = [] then State_Monad.return (Inr False)
     else case point_rewrites pool t flags snaps records took vals of
       None \<Rightarrow> State_Monad.return (Inl ValueError)
     | Some rws \<Rightarrow> do {
         rewritten \<leftarrow> apply_rewrites exec rws;
         if \<not> went then State_Monad.return (Inr False)
         else do {
           dropped \<leftarrow> drop_anchors exec t disk_guid ori;
           State_Monad.return (Inr (dropped \<and> rewritten))
         }
       }
   }"

definition destroy_held ::
    "'w shell \<Rightarrow> string \<Rightarrow> string \<Rightarrow> string \<Rightarrow> string \<Rightarrow> (string, origin) dict \<Rightarrow> destroyplan
      \<Rightarrow> (('w, 'z) machine_scheme, py_error + bool) action" where
  "destroy_held exec pool t flags disk_guid ori deps = do {
     ss \<leftarrow> drive_snapshots exec pool True;
     case ss of Inl e \<Rightarrow> State_Monad.return (Inr False)
     | Inr snaps \<Rightarrow> do {
         rs \<leftarrow> point_records exec pool True;
         case rs of Inl e \<Rightarrow> State_Monad.return (Inr False)
         | Inr records \<Rightarrow> do {
             vals \<leftarrow> zark_props exec pool;
             if point_rewrites pool t flags snaps records (t # map dp_rel (dpl_order deps)) vals = None
             then State_Monad.return (Inr False)
             else destroy_then_rewrite exec pool t flags disk_guid ori deps snaps records vals
           }
       }
   }"



section \<open>Lemmas: coverage\<close>

lemma covering_fold:
  "(foldl (\<lambda>best t. if under rel t \<and> length t > length best then t else best) b tops = b
     \<and> (\<forall>t \<in> set tops. under rel t \<longrightarrow> length t \<le> length b))
   \<or> (\<exists>t \<in> set tops. under rel t \<and> length t > length b \<and> (\<forall>u \<in> set tops. under rel u \<longrightarrow> length u \<le> length t)
      \<and> foldl (\<lambda>best t. if under rel t \<and> length t > length best then t else best) b tops = t)"
proof (induction tops arbitrary: b)
  case (Cons x xs)
  show ?case
  proof (cases "under rel x \<and> length x > length b")
    case True
    then show ?thesis using Cons [of x] by auto
  next
    case False
    then show ?thesis using Cons [of b] by auto
  qed
qed simp

lemma covering_empty: "covering rel tops = '''' \<longleftrightarrow> (\<forall>t \<in> set tops. under rel t \<longrightarrow> t = '''')"
  using covering_fold [of rel "''''" tops] by (auto simp: covering_def)

lemma covering_nearest:
  assumes "covering rel tops \<noteq> ''''"
  shows "covering rel tops \<in> set tops" and "under rel (covering rel tops)"
    and "t \<in> set tops \<Longrightarrow> under rel t \<Longrightarrow> length t \<le> length (covering rel tops)"
  using covering_fold [of rel "''''" tops] assms by (auto simp: covering_def)

text \<open>Above every name of a finite set lies a minimal one.\<close>

lemma minimal_below:
  assumes "r \<in> set rels" and "r \<noteq> ''''" and "'''' \<notin> set rels"
  shows "\<exists>t \<in> set (minimal rels). under r t"
  using assms(1,2)
proof (induction "length r" arbitrary: r rule: less_induct)
  case less
  let ?c = "covering r (filter (\<lambda>t. t \<noteq> r) rels)"
  show ?case
  proof (cases "?c = ''''")
    case True
    with less.prems show ?thesis by (auto simp: minimal_def intro!: bexI [of _ r])
  next
    case False
    have c: "?c \<in> set rels" "?c \<noteq> r" "under r ?c" using covering_nearest [OF False] by auto
    have "length ?c < length r" using c(2,3) by (auto simp: under_def dest!: prefix_length_le)
    from less.hyps [OF this c(1) False] c(3) show ?thesis using under_trans by blast
  qed
qed

lemma minimal_sub: "set (minimal rels) \<subseteq> set rels"
  by (auto simp: minimal_def)

lemma minimal_covers:
  assumes "'''' \<notin> set rels"
  shows "(\<exists>t \<in> set (minimal rels). under rel t) \<longleftrightarrow> (\<exists>t \<in> set rels. under rel t)"
  using minimal_below [OF _ _ assms] minimal_sub [of rels] assms under_trans
  by (metis subsetD)

lemma minimal_antichain:
  assumes "s \<in> set (minimal rels)" "t \<in> set (minimal rels)" "under s t" "t \<noteq> ''''"
  shows "s = t"
  using assms by (auto simp: minimal_def covering_empty)


section \<open>Lemmas: what is declared\<close>

definition declared_ok :: "(string, origin) dict \<Rightarrow> declared \<Rightarrow> bool" where
  "declared_ok ori d = (wf_dict (dc_tops d) \<and> (\<forall>(t, e) \<in> set (dc_tops d). ex_top e = t
     \<and> (ex_replicate e \<or> ex_snapshot e) \<and> never_excluded t ori = ''''))"

lemma set_dict_set:
  assumes "wf_dict m"
  shows "set (dict_set k v m) = insert (k, v) {(a, b) \<in> set m. a \<noteq> k}"
proof -
  have "wf_dict (dict_set k v m)" using assms by simp
  have "(a, b) \<in> set (dict_set k v m) \<longleftrightarrow> map_of (dict_set k v m) a = Some b" for a b
    using assms by (simp add: wf_dict_map_of)
  also have "\<dots> a b \<longleftrightarrow> (a, b) \<in> insert (k, v) {(a, b) \<in> set m. a \<noteq> k}" for a b
    using assms by (auto simp: wf_dict_map_of)
  finally show ?thesis by auto
qed

lemma declare_row_ok:
  assumes "declared_ok ori d"
  shows "declared_ok ori (declare_row ori d row)"
  using assms by (cases row) (auto simp: declare_row_def declared_ok_def Let_def set_dict_set)

lemma parse_exclusions_ok: "declared_ok ori (parse_exclusions lines ori)"
proof -
  have "declared_ok ori (foldl (declare_row ori) d rows)" if "declared_ok ori d" for d rows
    using that by (induction rows arbitrary: d) (auto intro: declare_row_ok)
  from this [of "\<lparr>dc_tops = [], dc_ignored = []\<rparr>"] show ?thesis
    by (simp add: parse_exclusions_def Let_def declared_ok_def)
qed

lemma never_rule_None: "never_rule x None \<noteq> '''' \<Longrightarrow> never_rule x ori \<noteq> ''''"
  by (auto simp: never_rule_def split: if_splits)

lemma never_excludedD:
  assumes "never_excluded t ori = ''''" and "x \<in> set (dict_keys ori)" and "under x t"
  shows "never_rule x None = ''''"
proof (rule ccontr)
  assume x: "never_rule x None \<noteq> ''''"
  have t: "never_rule t (map_of ori t) = ''''"
    and none: "find (\<lambda>x. x \<noteq> t \<and> under x t \<and> never_rule x None \<noteq> '''') (sort (dict_keys ori)) = None"
    using assms(1) by (auto simp: never_excluded_def Let_def split: if_splits option.splits)
  from none assms(2,3) x have "x = t" by (auto simp: find_None_iff)
  with x t never_rule_None show False by blast
qed

lemma declared_tops:
  assumes "declared_ok ori d" and "t \<in> set (no_backup d) \<union> set (no_snapshot d)"
  shows "never_excluded t ori = ''''"
  using assms minimal_sub by (fastforce simp: declared_ok_def no_backup_def no_snapshot_def)



lemma wf_values_of: "wf_dict (values_of lines)"
proof -
  have "wf_dict (value_line m l)" if "wf_dict m" for m l
    using that by (auto simp: value_line_def split: list.splits)
  then have "wf_dict (foldl value_line m lines)" if "wf_dict m" for m
    using that by (induction lines arbitrary: m) auto
  then show ?thesis by (simp add: values_of_def)
qed

definition declares :: "(string, origin) dict \<Rightarrow> string \<Rightarrow> (string, string) dict \<Rightarrow> exclusion option" where
  "declares ori t props =
     (if (map_of props REPLICATE = Some ''no'' \<or> map_of props SNAPSHOT = Some ''no'') \<and> never_excluded t ori = ''''
      then Some \<lparr>ex_top = t, ex_replicate = (map_of props REPLICATE = Some ''no''),
                 ex_snapshot = (map_of props SNAPSHOT = Some ''no'')\<rparr> else None)"

lemma declare_row_tops:
  "map_of (dc_tops (declare_row ori d (t, props))) =
     (case declares ori t props of Some e \<Rightarrow> (map_of (dc_tops d))(t \<mapsto> e) | None \<Rightarrow> map_of (dc_tops d))"
  by (simp add: declare_row_def declares_def Let_def)

lemma declare_rows_tops:
  "wf_dict rows \<Longrightarrow> map_of (dc_tops (foldl (declare_row ori) d rows)) t =
     (case map_of rows t of Some props \<Rightarrow>
        (case declares ori t props of Some e \<Rightarrow> Some e | None \<Rightarrow> map_of (dc_tops d) t)
      | None \<Rightarrow> map_of (dc_tops d) t)"
proof (induction rows arbitrary: d)
  case (Cons r rows)
  obtain u props where r: "r = (u, props)" by (rule prod.exhaust)
  have "map_of rows u = None" "wf_dict rows" using Cons.prems r by (simp_all add: wf_dict_Cons map_of_eq_None_iff)
  with Cons.IH [of "declare_row ori d r"] show ?case
    by (auto simp: r declare_row_tops split: option.splits)
qed simp

lemma parse_exclusions_tops:
  "map_of (dc_tops (parse_exclusions lines ori)) t =
     (case map_of (values_of lines) t of Some props \<Rightarrow> declares ori t props | None \<Rightarrow> None)"
  by (simp add: parse_exclusions_def Let_def declare_rows_tops wf_values_of split: option.split)


lemma expected_skip: "x \<in> set (expected ori skip) \<longleftrightarrow> x \<in> set (expected ori []) \<and> \<not> (\<exists>t \<in> set skip. under x t)"
  by (auto simp: expected_set is_excluded_iff under_any_iff)


section \<open>Properties: what an exclusion can leave out\<close>

definition ex_ori_excl :: "(string, origin) dict" where
  "ex_ori_excl = map (\<lambda>rel. (rel, ex_origin rel [] [])) [''rpool/ROOT/be'', ''rpool/data'', ''rpool/data/vm'']"

definition ex_excl_lines :: "string list" where
  "ex_excl_lines = map (\<lambda>(ds, p, v). ds @ [CHR 0x09] @ p @ [CHR 0x09] @ v)
     [(''rpool/ROOT/be'', REPLICATE, ''no''), (''rpool/data'', REPLICATE, ''no''), (''rpool/data/vm'', SNAPSHOT, ''no'')]"




text \<open>The reference: a dataset is left out when \<open>org.zark:replicate=no\<close> is set on it or on one above it,
  on a dataset that may be excluded at all.\<close>

definition left_out_ref :: "string list \<Rightarrow> (string, origin) dict \<Rightarrow> string \<Rightarrow> bool" where
  "left_out_ref lines ori x =
     list_ex (\<lambda>(t, props). under x t \<and> map_of props REPLICATE = Some ''no'' \<and> never_excluded t ori = '''')
       (values_of lines)"

text \<open>C26: the exclusions a run works with, reduced to subtree tops that do not cover each other, leave
  out of the backup exactly the datasets the reference leaves out.\<close>

theorem exclusions_equivalent:
  assumes "'''' \<notin> set (dict_keys (values_of lines))"
  shows "set (expected ori (no_backup (parse_exclusions lines ori)))
    = {x \<in> set (expected ori []). \<not> left_out_ref lines ori x}"
proof -
  let ?d = "parse_exclusions lines ori"
  let ?tops = "map fst (filter (\<lambda>(t, e). ex_replicate e) (dc_tops ?d))"
  have wf: "wf_dict (dc_tops ?d)" using parse_exclusions_ok [of ori lines] by (simp add: declared_ok_def)
  have tops: "t \<in> set ?tops \<longleftrightarrow> (\<exists>props. (t, props) \<in> set (values_of lines)
      \<and> map_of props REPLICATE = Some ''no'' \<and> never_excluded t ori = '''')" for t
  proof -
    have "t \<in> set ?tops \<longleftrightarrow> (\<exists>e. map_of (dc_tops ?d) t = Some e \<and> ex_replicate e)"
      using wf by (force simp: wf_dict_map_of)
    also have "\<dots> \<longleftrightarrow> (\<exists>props. map_of (values_of lines) t = Some props
        \<and> map_of props REPLICATE = Some ''no'' \<and> never_excluded t ori = '''')"
      by (auto simp: parse_exclusions_tops declares_def split: option.splits)
    finally show ?thesis by (simp add: wf_dict_map_of [OF wf_values_of])
  qed
  have "'''' \<notin> set ?tops" using assms tops by (force simp: dict_keys_def)
  have "(\<exists>t \<in> set (no_backup ?d). under x t) \<longleftrightarrow> left_out_ref lines ori x" for x
  proof -
    have "(\<exists>t \<in> set (no_backup ?d). under x t) \<longleftrightarrow> (\<exists>t \<in> set ?tops. under x t)"
      unfolding no_backup_def by (rule minimal_covers) fact
    also have "\<dots> \<longleftrightarrow> (\<exists>t props. (t, props) \<in> set (values_of lines) \<and> under x t
        \<and> map_of props REPLICATE = Some ''no'' \<and> never_excluded t ori = '''')"
      unfolding Bex_def tops by blast
    finally show ?thesis unfolding left_out_ref_def list_ex_iff by fast
  qed
  then show ?thesis using expected_skip [of _ ori "no_backup ?d"] by blast
qed

theorem exclusions_equivalent_witness:
  "set (expected ex_ori_excl (no_backup (parse_exclusions ex_excl_lines ex_ori_excl))) = {''rpool/ROOT/be''}"
proof -
  have "'''' \<notin> set (dict_keys (values_of ex_excl_lines))" by code_simp
  note exclusions_equivalent [OF this, of ex_ori_excl]
  also have "{x \<in> set (expected ex_ori_excl []). \<not> left_out_ref ex_excl_lines ex_ori_excl x} =
      set (filter (\<lambda>x. \<not> left_out_ref ex_excl_lines ex_ori_excl x) (expected ex_ori_excl []))" by auto
  also have "\<dots> = {''rpool/ROOT/be''}" by code_simp
  finally show ?thesis .
qed

end
