(* ===== verification/Exclusion_Records.thy ===== *)
theory Exclusion_Records
  imports Exclusions
begin

text \<open>
  The record of what a point left out, written by \<open>record\<close> on the snapshots of the drive and read
  back by \<open>point_records\<close> and \<open>parse_point_mark\<close>: in one property or in parts, what comes back is
  what the run recorded. The drive's properties are stated by the behaviour of \<open>zfs set\<close> and
  \<open>zfs get\<close>.
\<close>

section \<open>Lemmas: the text of a record\<close>

definition mark_json :: "(string, string) dict \<Rightarrow> mount_values \<Rightarrow> json" where
  "mark_json tops datasets =
     JObj [(''datasets'', JObj (sort_key fst (map (\<lambda>(rel, cm, mp). (rel, JArr [JStr cm, JStr mp])) datasets))),
           (''tops'', JObj (sort_key fst (map (\<lambda>(t, f). (t, JStr f)) tops)))]"

lemma map_json_sort_keys:
  "map (\<lambda>(k, v). (k, sort_keys v)) (map (\<lambda>(t, f). (t, JStr f)) tops) = map (\<lambda>(t, f). (t, JStr f)) tops"
  "map (\<lambda>(k, v). (k, sort_keys v)) (map (\<lambda>(rel, cm, mp). (rel, JArr [JStr cm, JStr mp])) ds)
     = map (\<lambda>(rel, cm, mp). (rel, JArr [JStr cm, JStr mp])) ds"
  by (auto simp: split_def)

lemma wf_dict_map: "dict_keys (map (\<lambda>(k, v). (k, g k v)) m) = dict_keys m"
  by (auto simp: dict_keys_def)

lemma plain_mark:
  assumes "wf_dict tops" and "wf_dict datasets"
  shows "plain_json (JObj [(''tops'', JObj (map (\<lambda>(t, f). (t, JStr f)) tops)),
      (''datasets'', JObj (map (\<lambda>(rel, cm, mp). (rel, JArr [JStr cm, JStr mp])) datasets))])"
proof -
  have "wf_dict (map (\<lambda>(t, f). (t, JStr f)) tops)"
    using assms(1) wf_dict_map [of "\<lambda>_. JStr" tops] by (simp add: wf_dict_def)
  moreover have "wf_dict (map (\<lambda>(rel, cm, mp). (rel, JArr [JStr cm, JStr mp])) datasets)"
    using assms(2) wf_dict_map [of "\<lambda>_ (cm, mp). JArr [JStr cm, JStr mp]" datasets]
    by (simp add: wf_dict_def split_def)
  ultimately show ?thesis
    by (auto simp: list_all_iff wf_dict_def [of "[_, _]"] dict_keys_def)
qed

lemma loads_mark:
  assumes "wf_dict tops" and "wf_dict datasets"
  shows "loads (dump_mark tops datasets) = Some (mark_json tops datasets)"
proof -
  have "sort_key fst [(''tops'', a), (''datasets'', b)] = [(''datasets'', b), (''tops'', a)]" for a b :: json
    by simp
  then show ?thesis
    unfolding dump_mark_def loads_compact [OF plain_mark [OF assms]]
    by (simp add: mark_json_def map_json_sort_keys del: map_map)
qed

lemma pointer_mark: "wf_dict tops \<Longrightarrow> wf_dict datasets \<Longrightarrow> pointer (dump_mark tops datasets) = None"
  by (simp add: pointer_def loads_mark mark_json_def)


lemma map_filter_all: "(\<And>x. x \<in> set xs \<Longrightarrow> f x = Some (h x)) \<Longrightarrow> List.map_filter f xs = map h xs"
  by (induction xs) (simp_all add: List.map_filter_simps)

lemma parse_mark:
  assumes "wf_dict tops" and "wf_dict datasets" and "\<forall>f \<in> snd ` set tops. f \<in> {BACKUPS, BOTH, SNAPSHOTS}"
  shows "parse_point_mark (dump_mark tops datasets) =
    Some \<lparr>pm_tops = sort_key fst tops, pm_datasets = sort_key fst datasets\<rparr>"
proof -
  have "List.map_filter top_row (sort_key fst (map (\<lambda>(t, f). (t, JStr f)) tops)) = sort_key fst tops"
    using assms(3) by (subst map_filter_all [where h = "\<lambda>(t, v). (t, case v of JStr f \<Rightarrow> f)"])
      (auto simp: top_row_def sort_key_map split_def comp_def)
  moreover have "List.map_filter dataset_row
      (sort_key fst (map (\<lambda>(rel, cm, mp). (rel, JArr [JStr cm, JStr mp])) datasets)) = sort_key fst datasets"
    by (subst map_filter_all [where h = "\<lambda>(t, v). (t, case v of JArr [JStr a, JStr b] \<Rightarrow> (a, b))"])
      (auto simp: dataset_row_def str_json_def sort_key_map split_def comp_def)
  ultimately show ?thesis
    by (simp add: parse_point_mark_def loads_mark [OF assms(1,2)] mark_json_def dict_get_or_def)
qed


section \<open>Lemmas: the parts\<close>

lemma concat_groups_of: "length xs \<le> k * n \<Longrightarrow> concat (groups_of k n xs) = xs"
proof (induction k arbitrary: xs)
  case (Suc k)
  then have "length (drop n xs) \<le> k * n" by simp
  from Suc.IH [OF this] show ?case by simp
qed simp

lemma length_groups_of [simp]: "length (groups_of k n xs) = k"
  by (induction k arbitrary: xs) simp_all

lemma groups_bound: "p \<in> set (groups_of k n xs) \<Longrightarrow> length p \<le> n"
  by (induction k arbitrary: xs) auto

lemma mark_limit_pos [simp]: "0 < MARK_LIMIT"
  by (simp add: MARK_LIMIT_def)

lemma parts_enough: "length mark \<le> (length mark + MARK_LIMIT - 1) div MARK_LIMIT * MARK_LIMIT"
proof -
  have "length mark < (length mark + MARK_LIMIT - 1) div MARK_LIMIT * MARK_LIMIT + 1"
    using div_mult_mod_eq [of "length mark + MARK_LIMIT - 1" MARK_LIMIT]
      mod_less_divisor [OF mark_limit_pos, of "length mark + MARK_LIMIT - 1"] mark_limit_pos
    by linarith
  then show ?thesis by simp
qed

lemma concat_mark_parts: "concat (mark_parts mark) = mark"
  unfolding mark_parts_def by (rule concat_groups_of [OF parts_enough])

lemma part_prop_inj [simp]: "part_prop i = part_prop j \<longleftrightarrow> i = j"
  by (simp add: part_prop_def)

lemma part_prop_not_mark [simp]: "part_prop i \<noteq> POINT_MARK" "POINT_MARK \<noteq> part_prop i"
  by (simp_all add: part_prop_def)

lemma map_of_enumerate:
  "map_of (map (\<lambda>(i, p). (part_prop i, p)) (enumerate k xs)) (part_prop i)
     = (if k \<le> i \<and> i < k + length xs then Some (xs ! (i - k)) else None)"
  by (induction xs arbitrary: k) (auto simp: nth_Cons' not_less_eq_eq)

lemma parts_needed_long: "length mark > MARK_LIMIT \<Longrightarrow> parts_needed mark = length (mark_parts mark) \<and> 1 \<le> length (mark_parts mark)"
proof -
  assume "length mark > MARK_LIMIT"
  then have "1 \<le> (length mark + MARK_LIMIT - 1) div MARK_LIMIT"
    using div_le_mono [of MARK_LIMIT "length mark + MARK_LIMIT - 1" MARK_LIMIT] mark_limit_pos by simp
  then show ?thesis by (simp add: parts_needed_def mark_parts_def)
qed

lemma pointer_text:
  assumes "1 \<le> n" and "n \<le> MAX_PARTS"
  shows "pointer (dumps_compact (JObj [(''parts'', JInt (int n)), (''sha256'', JStr d)])) = Some (n, d)"
proof -
  have "length (dec_of_nat n) \<le> 2"
  proof -
    have "n < 10 \<or> n div 10 < 10" using assms(2) by (auto simp: MAX_PARTS_def)
    then show ?thesis by (auto simp: dec_of_nat.simps [of n] dec_of_nat.simps [of "n div 10"])
  qed
  then have "plain_json (JObj [(''parts'', JInt (int n)), (''sha256'', JStr d)])"
    by (simp add: wf_dict_def dict_keys_def MAX_INT_DIGITS_def)
  moreover have "sort_key fst [(''parts'', a), (''sha256'', b)] = [(''parts'', a), (''sha256'', b)]" for a b :: json
    by simp
  ultimately show ?thesis using assms by (simp add: pointer_def loads_compact)
qed

text \<open>The properties of a record, looked up on one snapshot, give the record back.\<close>

lemma joined_whole:
  assumes "length mark > MARK_LIMIT"
    and "\<And>i. 1 \<le> i \<Longrightarrow> i \<le> length (mark_parts mark) \<Longrightarrow> map_of parts (part_prop i) = map_of (record_props mark) (part_prop i)"
  shows "joined_record parts (length (mark_parts mark)) (sha256 mark) = Some mark"
proof -
  let ?n = "length (mark_parts mark)"
  have "map_of parts (part_prop i) = Some (mark_parts mark ! (i - 1))" if "i \<in> set [1..<?n + 1]" for i
    using assms(2) [of i] that assms(1) by (auto simp: record_props_def map_of_enumerate)
  then have pieces: "map (\<lambda>i. map_of parts (part_prop i)) [1..<?n + 1] = map (\<lambda>i. Some (mark_parts mark ! (i - 1))) [1..<?n + 1]"
    by (intro map_cong) auto
  also have "\<dots> = map Some (mark_parts mark)"
    by (rule nth_equalityI) (auto simp del: upt_Suc)
  finally have "map (\<lambda>i. map_of parts (part_prop i)) [1..<?n + 1] = map Some (mark_parts mark)" .
  moreover have "List.map_filter id (map Some xs) = xs" for xs :: "string list"
    by (induction xs) (simp_all add: List.map_filter_simps)
  moreover have "mark_parts mark \<noteq> []" using parts_needed_long [OF assms(1)] by auto
  ultimately show ?thesis by (simp add: joined_record_def concat_mark_parts)
qed



section \<open>Lemmas: a record is one line of graphic characters\<close>

definition graphic :: "string \<Rightarrow> bool" where
  "graphic s = list_all (\<lambda>c. 33 \<le> (of_char c :: nat) \<and> of_char c \<le> (126 :: nat)) s"

lemma graphic_simps [simp]:
  "graphic []" "graphic (c # s) \<longleftrightarrow> (33 \<le> (of_char c :: nat) \<and> of_char c \<le> (126 :: nat)) \<and> graphic s"
  "graphic (s @ t) \<longleftrightarrow> graphic s \<and> graphic t" "graphic (concat ss) \<longleftrightarrow> list_all graphic ss"
  by (auto simp: graphic_def list_all_iff)

lemma graphic_sub: "set s \<subseteq> set t \<Longrightarrow> graphic t \<Longrightarrow> graphic s"
  by (auto simp: graphic_def list_all_iff)

lemma graphic_join: "graphic sep \<Longrightarrow> list_all graphic ss \<Longrightarrow> graphic (join_on sep ss)"
  by (induction sep ss rule: join_on.induct) auto

lemma hex_digit_graphic: "n < 16 \<Longrightarrow> 33 \<le> (of_char (hex_digit n) :: nat) \<and> of_char (hex_digit n) \<le> (126 :: nat)"
proof -
  assume "n < 16"
  then have "hex_digit n \<in> set ''0123456789abcdef''" unfolding hex_digit_def by (intro nth_mem) simp
  then show ?thesis by auto
qed

lemma graphic_escape: "c \<noteq> CHR '' '' \<Longrightarrow> graphic (escape_char c)"
proof (cases "map_of short_escapes c")
  case None
  assume c: "c \<noteq> CHR '' ''"
  have "of_char c \<noteq> (of_char CHR '' '' :: nat)" using c of_char_eq_iff by blast
  moreover have "(of_char c :: nat) div 16 < 16" by (rule less_mult_imp_div_less) simp
  ultimately show ?thesis
    using None hex_digit_graphic [of "of_char c div 16"] hex_digit_graphic [of "of_char c mod 16"]
    by (auto simp: escape_char_def Let_def BACKSLASH_def)
qed (auto simp: escape_char_def short_escapes_def BACKSLASH_def QUOTE_def split: if_splits)

lemma graphic_string: "CHR '' '' \<notin> set s \<Longrightarrow> graphic (print_string s)"
  by (auto simp: print_string_def QUOTE_def list_all_iff intro!: graphic_escape)

lemma sha256_hex: "c \<in> set (sha256 s) \<Longrightarrow> \<exists>n < 16. c = hex_digit n"
proof -
  assume "c \<in> set (sha256 s)"
  then obtain w i where "c = hex_digit (unat (drop_bit i (w :: w32) AND 15))"
    by (auto simp: sha256_def hex_word_def Let_def)
  moreover have "unat (x AND 15) < 16" for x :: w32
  proof -
    have "x AND 15 \<le> 15" by (rule word_and_le1)
    then have "unat (x AND 15) \<le> unat (15 :: w32)" by (simp only: word_le_nat_alt)
    then show ?thesis by simp
  qed
  ultimately show ?thesis by blast
qed

lemma graphic_dec: "graphic (dec_of_nat n)"
proof -
  have "33 \<le> (of_char c :: nat) \<and> of_char c \<le> (126 :: nat)" if "is_digit c" for c
    using that by (auto simp: is_digit_def)
  then show ?thesis unfolding graphic_def using dec_of_nat_digits [of n] by (simp add: list.pred_mono_strong)
qed

lemma graphic_pointer: "graphic (dumps_compact (JObj [(''parts'', JInt (int n)), (''sha256'', JStr (sha256 s))]))"
proof -
  have "CHR '' '' \<notin> set (sha256 s)"
  proof
    assume "CHR '' '' \<in> set (sha256 s)"
    then obtain n where "n < 16" "CHR '' '' = hex_digit n" using sha256_hex by blast
    with hex_digit_graphic [of n] have "33 \<le> (of_char CHR '' '' :: nat)" by simp
    then show False by simp
  qed
  from graphic_string [OF this] show ?thesis
    by (simp add: dumps_compact_def compact_nl_def py_str_def graphic_dec graphic_string)
qed



section \<open>What ZFS does with user properties\<close>

text \<open>
  \<open>view w s p\<close> is the value of user property \<open>p\<close> set on snapshot \<open>s\<close> itself. A \<open>zfs set\<close> that succeeds
  sets every pair on every target; a \<open>zfs get -s local\<close> changes nothing and, when it succeeds, lists
  exactly the values set on the snapshots below its root, one line each, tab-separated. The laws
  speak of names and values of graphic characters only.
\<close>

definition marks_list :: "string \<Rightarrow> string \<Rightarrow> cmd" where
  "marks_list root prop =
     Line (''zfs get -H -p -r -s local -t snapshot -o name,value '' @ prop @ '' '' @ quote root)"

type_synonym 'w prop_view = "'w \<Rightarrow> string \<Rightarrow> string \<Rightarrow> string option"

definition set_law :: "'w shell \<Rightarrow> 'w prop_view \<Rightarrow> bool" where
  "set_law exec view = (\<forall>w props targets s p v.
     ok (fst (exec (set_props props targets) w)) \<longrightarrow> distinct (map fst props)
       \<longrightarrow> list_all (\<lambda>(k, _). CHR ''='' \<notin> set k) props \<longrightarrow> s \<in> set targets \<longrightarrow> map_of props p = Some v \<longrightarrow> view (snd (exec (set_props props targets) w)) s p = Some v)"

definition below_root :: "string \<Rightarrow> string \<Rightarrow> bool" where
  "below_root root s = (graphic s \<and> (prefix (root @ ''@'') s \<or> prefix (root @ ''/'') s) \<and> CHR ''@'' \<in> set s)"

definition get_law :: "'w shell \<Rightarrow> 'w prop_view \<Rightarrow> bool" where
  "get_law exec view = (\<forall>w root prop s v.
     view (snd (exec (marks_list root prop) w)) = view w \<and>
     (below_root root s \<longrightarrow> CHR '' '' \<notin> set prop \<longrightarrow> ok (fst (exec (marks_list root prop) w)) \<longrightarrow>
        (view w s prop = Some v \<longrightarrow> graphic v \<longrightarrow>
           (\<exists>l \<in> set (result_lines (fst (exec (marks_list root prop) w))). tabs l = [s, v]))
        \<and> (\<forall>l \<in> set (result_lines (fst (exec (marks_list root prop) w))). tabs l = [s, v] \<longrightarrow>
             view w s prop = Some v)))"

definition get_parts_law :: "'w shell \<Rightarrow> 'w prop_view \<Rightarrow> bool" where
  "get_parts_law exec view = (\<forall>w root most s i v p.
     view (snd (exec (parts_list root most) w)) = view w \<and>
     (below_root root s \<longrightarrow> ok (fst (exec (parts_list root most) w)) \<longrightarrow>
        (view w s (part_prop i) = Some v \<longrightarrow> graphic v \<longrightarrow> 1 \<le> i \<longrightarrow> i \<le> most \<longrightarrow>
           (\<exists>l \<in> set (result_lines (fst (exec (parts_list root most) w))). tabs l = [s, part_prop i, v]))
        \<and> (\<forall>l \<in> set (result_lines (fst (exec (parts_list root most) w))). tabs l = [s, p, v] \<longrightarrow>
             view w s p = Some v)))"

lemma fold_mark_line:
  assumes "CHR ''@'' \<in> set s"
    and "(\<exists>l \<in> set ls. tabs l = [s, v]) \<or> map_of out s = Some v"
    and "\<And>l x. l \<in> set ls \<Longrightarrow> tabs l = [s, x] \<Longrightarrow> x = v"
  shows "map_of (foldl mark_line out ls) s = Some v"
  using assms(2,3)
proof (induction ls arbitrary: out)
  case (Cons l ls)
  have "(\<exists>l \<in> set ls. tabs l = [s, v]) \<or> map_of (mark_line out l) s = Some v"
  proof (cases "tabs l = [s, v]")
    case True
    then show ?thesis using assms(1) by (simp add: mark_line_def)
  next
    case False
    then have "map_of (mark_line out l) s = map_of out s"
      using Cons.prems(2) [of l] by (auto simp: mark_line_def split: list.splits)
    with False Cons.prems(1) show ?thesis by auto
  qed
  then have "map_of (foldl mark_line (mark_line out l) ls) s = Some v"
    by (rule Cons.IH) (use Cons.prems(2) in auto)
  then show ?case by simp
qed simp

lemma wf_mark_lines: "wf_dict out \<Longrightarrow> wf_dict (foldl mark_line out ls)"
proof (induction ls arbitrary: out)
  case (Cons l ls)
  have "wf_dict (mark_line out l)" using Cons.prems by (auto simp: mark_line_def split: list.splits)
  then show ?case by (simp add: Cons.IH)
qed simp

lemma fold_part_line:
  assumes "CHR ''@'' \<in> set s"
    and "(\<exists>l \<in> set ls. tabs l = [s, p, v]) \<or> map_of (dict_get_or out s []) p = Some v"
    and "\<And>l x. l \<in> set ls \<Longrightarrow> tabs l = [s, p, x] \<Longrightarrow> x = v"
  shows "map_of (dict_get_or (foldl part_line out ls) s []) p = Some v"
  using assms(2,3)
proof (induction ls arbitrary: out)
  case (Cons l ls)
  have "(\<exists>l \<in> set ls. tabs l = [s, p, v]) \<or> map_of (dict_get_or (part_line out l) s []) p = Some v"
  proof (cases "tabs l = [s, p, v]")
    case True
    then show ?thesis using assms(1) by (simp add: part_line_def dict_get_or_def)
  next
    case False
    then have "map_of (dict_get_or (part_line out l) s []) p = map_of (dict_get_or out s []) p"
      using Cons.prems(2) [of l] by (auto simp: part_line_def dict_get_or_def split: list.splits)
    with False Cons.prems(1) show ?thesis by auto
  qed
  then have "map_of (dict_get_or (foldl part_line (part_line out l) ls) s []) p = Some v"
    by (rule Cons.IH) (use Cons.prems(2) in auto)
  then show ?case by simp
qed simp



section \<open>Lemmas: joining\<close>

lemma map_of_fold_pairs:
  "distinct (map fst xs) \<Longrightarrow> map_of (foldl (\<lambda>out (k, a). dict_set k (f k a) out) out xs) k
     = (case map_of xs k of Some a \<Rightarrow> Some (f k a) | None \<Rightarrow> map_of out k)"
proof (induction xs arbitrary: out)
  case (Cons x xs)
  obtain k' a where x: "x = (k', a)" by (rule prod.exhaust)
  have "map_of xs k' = None" using Cons.prems x by (simp add: map_of_eq_None_iff)
  with Cons x show ?case by (auto split: option.splits)
qed simp

lemma map_of_pointers: "wf_dict marks \<Longrightarrow> map_of (pointers_of marks) s = Option.bind (map_of marks s) pointer"
proof (induction marks)
  case (Cons x xs)
  obtain k v where x: "x = (k, v)" by (rule prod.exhaust)
  have "map_of xs k = None" using Cons.prems x by (simp add: wf_dict_Cons map_of_eq_None_iff)
  with Cons x show ?case
    by (auto simp: pointers_of_def List.map_filter_simps wf_dict_Cons split: option.splits)
qed (simp add: pointers_of_def List.map_filter_simps)

lemma wf_pointers: "wf_dict marks \<Longrightarrow> distinct (map fst (pointers_of marks))"
proof (induction marks)
  case (Cons x xs)
  have "set (map fst (pointers_of ms)) \<subseteq> fst ` set ms" for ms
    by (induction ms) (auto simp: pointers_of_def List.map_filter_simps split: option.splits)
  from this [of xs] Cons show ?case
    by (cases x) (auto simp: pointers_of_def List.map_filter_simps wf_dict_Cons split: option.splits)
qed (simp add: pointers_of_def List.map_filter_simps)

lemma map_of_some: "map_of (map (\<lambda>(s, v). (s, Some v)) marks) s = map_option Some (map_of marks s)"
  by (induction marks) auto

lemma map_of_join_records:
  assumes "wf_dict marks"
  shows "map_of (join_records marks parts) s =
    (case map_of marks s of None \<Rightarrow> None
     | Some v \<Rightarrow> Some (case pointer v of None \<Rightarrow> Some v
        | Some (n, d) \<Rightarrow> joined_record (dict_get_or parts s []) n d))"
proof -
  have "join_records marks parts = foldl (\<lambda>out (s, nd). dict_set s
      ((\<lambda>s (n, d). joined_record (dict_get_or parts s []) n d) s nd) out)
      (map (\<lambda>(s, v). (s, Some v)) marks) (pointers_of marks)"
    unfolding join_records_def by (rule arg_cong [where f = "\<lambda>g. foldl g _ _"]) (auto simp: fun_eq_iff)
  then show ?thesis
    unfolding map_of_fold_pairs [OF wf_pointers [OF assms]]
    by (auto simp: map_of_fold_pairs [OF wf_pointers [OF assms]] map_of_pointers [OF assms] map_of_some
        split: option.splits)
qed

text \<open>What a snapshot's properties hold once the record was set, and no later property replaced it.\<close>

definition holds_record :: "(string \<Rightarrow> string option) \<Rightarrow> string \<Rightarrow> bool" where
  "holds_record props mark = list_all (\<lambda>(p, v). props p = Some v) (record_props mark)"

lemma distinct_record_props: "distinct (map fst (record_props mark))"
proof -
  have "map fst (map (\<lambda>(i, p). (part_prop i, p)) (enumerate k xs)) = map part_prop [k..<k + length xs]" for k xs
  proof -
    have "map fst (map (\<lambda>(i, p). (part_prop i, p)) ps) = map part_prop (map fst ps)" for ps :: "(nat \<times> 'a) list"
      by auto
    then show ?thesis by (simp only: map_fst_enumerate)
  qed
  from this [of 1 "mark_parts mark"]
  have "map fst (record_props mark) = (if length mark \<le> MARK_LIMIT then [POINT_MARK]
      else POINT_MARK # map part_prop [1..<1 + length (mark_parts mark)])"
    by (simp only: record_props_def list.map fst_conv split: if_split) simp
  then show ?thesis by (auto simp: distinct_map inj_on_def)
qed

lemma graphic_record:
  assumes "graphic mark"
  shows "list_all (\<lambda>(p, v). graphic v) (record_props mark)"
proof -
  have "graphic p" if "p \<in> set (mark_parts mark)" for p
  proof -
    have "set p \<subseteq> set (concat (mark_parts mark))" using that by auto
    then show ?thesis using graphic_sub assms unfolding concat_mark_parts by blast
  qed
  moreover have "p \<in> set xs" if "(i, p) \<in> set (enumerate k xs)" for i p k and xs :: "string list"
    using that by (auto simp: enumerate_eq_zip dest: set_zip_rightD)
  ultimately show ?thesis
    using assms graphic_pointer by (auto simp: record_props_def list_all_iff)
qed


lemma record_props_values:
  assumes "holds_record props mark" and "map_of (record_props mark) p = Some v"
  shows "props p = Some v"
  using assms map_of_SomeD [OF assms(2)] by (auto simp: holds_record_def list_all_iff)

text \<open>The record of one snapshot, from any listing that shows its properties as they are set.\<close>

lemma joined_from_listing:
  assumes "holds_record (view s) (dump_mark tops datasets)" and "wf_dict tops" "wf_dict datasets"
    and "parts_needed (dump_mark tops datasets) \<le> MAX_PARTS" and "wf_dict marks"
    and "\<And>v. view s POINT_MARK = Some v \<Longrightarrow> graphic v \<Longrightarrow> map_of marks s = Some v"
    and "\<And>n d i v. pointer (the (map_of marks s)) = Some (n, d) \<Longrightarrow> 1 \<le> i \<Longrightarrow> i \<le> n \<Longrightarrow>
       view s (part_prop i) = Some v \<Longrightarrow> graphic v \<Longrightarrow> map_of (dict_get_or parts s []) (part_prop i) = Some v"
    and "graphic (dump_mark tops datasets)"
  shows "map_of (join_records marks parts) s = Some (Some (dump_mark tops datasets))"
proof -
  let ?mark = "dump_mark tops datasets"
  have val: "view s p = Some v \<and> graphic v" if "map_of (record_props ?mark) p = Some v" for p v
    using record_props_values [OF assms(1) that] graphic_record [OF assms(8)] map_of_SomeD [OF that]
    by (auto simp: list_all_iff)
  show ?thesis
  proof (cases "length ?mark \<le> MARK_LIMIT")
    case True
    then have "map_of marks s = Some ?mark" using val [of POINT_MARK ?mark] assms(6) by (simp add: record_props_def)
    then show ?thesis by (simp add: map_of_join_records [OF assms(5)] pointer_mark assms(2,3))
  next
    case False
    let ?n = "length (mark_parts ?mark)"
    let ?ptr = "dumps_compact (JObj [(''parts'', JInt (int ?n)), (''sha256'', JStr (sha256 ?mark))])"
    have n: "1 \<le> ?n" "?n \<le> MAX_PARTS" using parts_needed_long [of ?mark] False assms(4) by auto
    have m: "map_of marks s = Some ?ptr" using val [of POINT_MARK ?ptr] assms(6) False by (simp add: record_props_def)
    have "joined_record (dict_get_or parts s []) ?n (sha256 ?mark) = Some ?mark"
    proof (rule joined_whole)
      show "MARK_LIMIT < length ?mark" using False by simp
      fix i assume i: "1 \<le> i" "i \<le> ?n"
      have "\<exists>v. map_of (record_props ?mark) (part_prop i) = Some v"
        using i False by (simp add: record_props_def map_of_enumerate)
      then obtain v where v: "map_of (record_props ?mark) (part_prop i) = Some v" by blast
      then show "map_of (dict_get_or parts s []) (part_prop i) = map_of (record_props ?mark) (part_prop i)"
        using assms(7) [of ?n "sha256 ?mark" i v] val [OF v] i m pointer_text [OF n] by simp
    qed
    then show ?thesis by (simp add: map_of_join_records [OF assms(5)] m pointer_text [OF n])
  qed
qed

lemma join_no_pointers: "pointers_of marks = [] \<Longrightarrow> join_records marks parts = map (\<lambda>(s, v). (s, Some v)) marks"
  by (simp add: join_records_def)


lemma run_checked:
  "run_state (checked exec c True) m =
     (if ok (fst (exec c (m_world m))) then Inr (fst (exec c (m_world m))) else Inl (''could not read: '' @ cmd_text c),
      m\<lparr>m_world := snd (exec c (m_world m)), m_issued := m_issued m @ [c]\<rparr>)"
  by (simp add: checked_def run_state_run)

lemma run_on_read:
  "run_state (on_read act f) m = (case run_state act m of
     (Inl e, m') \<Rightarrow> (Inl e, m') | (Inr a, m') \<Rightarrow> run_state (f a) m')"
  by (auto simp: on_read_def split: prod.splits sum.splits)

lemma snapshot_marks_eq:
  "snapshot_marks exec root strict prop = on_read (checked exec (marks_list root prop) strict) (\<lambda>r.
     State_Monad.return (Inr (foldl mark_line [] (ok_lines r))))"
  by (simp add: snapshot_marks_def marks_list_def)


section \<open>Properties: the record read back\<close>

lemma point_records_read:
  assumes get: "get_law exec view" and parts: "get_parts_law exec view"
    and rec: "holds_record (view (m_world m) s) (dump_mark tops datasets)"
    and wf: "wf_dict tops" "wf_dict datasets" "parts_needed (dump_mark tops datasets) \<le> MAX_PARTS"
      "graphic (dump_mark tops datasets)"
    and s: "below_root (pool @ ''/rpool'') s"
    and run: "run_state (point_records exec pool True) m = (Inr out, m')"
  shows "map_of out s = Some (Some (dump_mark tops datasets))"
proof -
  let ?root = "pool @ ''/rpool''" and ?w = "m_world m"
  let ?r = "fst (exec (marks_list ?root POINT_MARK) ?w)" and ?w1 = "snd (exec (marks_list ?root POINT_MARK) ?w)"
  let ?marks = "foldl mark_line [] (result_lines ?r)"
  have at: "CHR ''@'' \<in> set s" using s by (simp add: below_root_def)
  have sp: "CHR '' '' \<notin> set POINT_MARK" by (simp add: POINT_MARK_def)
  have ok: "ok ?r" using run by (auto simp: point_records_def snapshot_marks_eq run_checked run_on_read split: if_splits)
  have w1: "view ?w1 = view ?w" using get by (simp add: get_law_def)
  have lines: "map_of ?marks s = Some v" if "view ?w s POINT_MARK = Some v" "graphic v" for v
  proof (rule fold_mark_line [OF at])
    show "(\<exists>l\<in>set (result_lines ?r). tabs l = [s, v]) \<or> map_of [] s = Some v"
      using get s sp ok that unfolding get_law_def by blast
    show "x = v" if "l \<in> set (result_lines ?r)" "tabs l = [s, x]" for l x
      using get s sp ok \<open>view ?w s POINT_MARK = Some v\<close> that unfolding get_law_def by (metis option.inject)
  qed
  have wfm: "wf_dict ?marks" by (rule wf_mark_lines) simp
  define most where "most = (MAX (s, n, d) \<in> set (pointers_of ?marks). n)"
  let ?r2 = "fst (exec (parts_list ?root most) ?w1)"
  let ?parts = "if pointers_of ?marks = [] \<or> most = 0 then [] else foldl part_line [] (result_lines ?r2)"
  have out: "out = join_records ?marks ?parts" and ok2: "pointers_of ?marks \<noteq> [] \<Longrightarrow> most \<noteq> 0 \<Longrightarrow> ok ?r2"
    using run ok by (auto simp: point_records_def snapshot_marks_eq run_checked run_on_read read_parts_def
        most_def [symmetric] Let_def ok_lines_def join_no_pointers split: if_splits)
  have "map_of (dict_get_or ?parts s []) (part_prop i) = Some v"
    if n: "pointer (the (map_of ?marks s)) = Some (n, d)" "1 \<le> i" "i \<le> n"
      and v: "view ?w s (part_prop i) = Some v" "graphic v" for n d i v
  proof -
    obtain u where u: "view ?w s POINT_MARK = Some u" "graphic u"
      using rec graphic_record [OF wf(4)]
      by (cases "length (dump_mark tops datasets) \<le> MARK_LIMIT") (auto simp: holds_record_def record_props_def)
    from lines [OF u] n(1) have "map_of (pointers_of ?marks) s = Some (n, d)"
      by (simp add: map_of_pointers [OF wfm])
    then have p: "(s, n, d) \<in> set (pointers_of ?marks)" by (rule map_of_SomeD)
    then have "n \<le> most" unfolding most_def by (intro Max_ge) force+
    with n have most: "most \<noteq> 0" "i \<le> most" by auto
    have "pointers_of ?marks \<noteq> []" by (rule notI) (use p in simp)
    then have ok2': "ok ?r2" using ok2 most by blast
    have "map_of (dict_get_or (foldl part_line [] (result_lines ?r2)) s []) (part_prop i) = Some v"
    proof (rule fold_part_line [OF at])
      show "(\<exists>l\<in>set (result_lines ?r2). tabs l = [s, part_prop i, v]) \<or> map_of (dict_get_or [] s []) (part_prop i) = Some v"
        using parts s ok2' v n(2) most w1 unfolding get_parts_law_def by metis
      show "x = v" if "l \<in> set (result_lines ?r2)" "tabs l = [s, part_prop i, x]" for l x
        using parts s ok2' v(1) w1 that unfolding get_parts_law_def by (metis option.inject)
    qed
    with p most show ?thesis by auto
  qed
  then show ?thesis
    unfolding out using rec wf wfm lines by (intro joined_from_listing [where view = "view ?w"]) auto
qed


lemma wf_dict_of: "wf_dict (dict_of xs)"
proof -
  have "wf_dict (foldl (\<lambda>m (k, v). dict_set k v m) m xs)" if "wf_dict m" for m
    using that by (induction xs arbitrary: m) auto
  then show ?thesis by (simp add: dict_of_def)
qed

lemma map_of_dict_of: "map_of (dict_of xs) k = map_of (rev xs) k"
proof -
  have "map_of (foldl (\<lambda>m (k, v). dict_set k v m) m xs) k
      = (case map_of (rev xs) k of Some v \<Rightarrow> Some v | None \<Rightarrow> map_of m k)" for m
    by (induction xs arbitrary: m) (auto simp: map_add_def split: option.splits)
  then show ?thesis by (simp add: dict_of_def split: option.split)
qed

lemma mark_tops_spec:
  "wf_dict (mark_tops d)"
  "map_of (mark_tops d) t = (if t \<in> set (no_backup d) then Some (flags_of d t)
     else if t \<in> set (no_snapshot d) then Some SNAPSHOTS else None)"
proof -
  let ?base = "dict_of (map (\<lambda>t. (t, flags_of d t)) (sort (no_backup d)))"
  have wf: "wf_dict (foldl (\<lambda>m t. dict_setdefault t SNAPSHOTS m) m ts)" if "wf_dict m" for m ts
    using that by (induction ts arbitrary: m) auto
  show "wf_dict (mark_tops d)" unfolding mark_tops_def by (rule wf [OF wf_dict_of])
  have base: "map_of ?base t = (if t \<in> set (no_backup d) then Some (flags_of d t) else None)"
    by (simp add: map_of_dict_of rev_map map_of_map_restrict restrict_map_def)
  have "map_of (foldl (\<lambda>m t. dict_setdefault t SNAPSHOTS m) m ts) t
      = (case map_of m t of Some f \<Rightarrow> Some f | None \<Rightarrow> if t \<in> set ts then Some SNAPSHOTS else None)" for m ts
    by (induction ts arbitrary: m) (auto simp: map_of_setdefault split: option.splits)
  then show "map_of (mark_tops d) t = (if t \<in> set (no_backup d) then Some (flags_of d t)
     else if t \<in> set (no_snapshot d) then Some SNAPSHOTS else None)"
    by (simp add: mark_tops_def base)
qed

lemma flag_names: "flags_of d t \<in> {BACKUPS, BOTH}" "BACKUPS \<noteq> SNAPSHOTS" "BOTH \<noteq> SNAPSHOTS"
  by (auto simp: flags_of_def BACKUPS_def BOTH_def SNAPSHOTS_def split: option.splits)

text \<open>What comes back of a record that was read whole.\<close>

lemma point_mark_parsed:
  obtains pm where "parse_point_mark (point_mark d ori) = Some pm"
    "set (left_out pm) = set (no_backup d)" "map_of (pm_datasets pm) = map_of (mark_datasets d ori)"
proof -
  let ?pm = "\<lparr>pm_tops = sort_key fst (mark_tops d), pm_datasets = sort_key fst (mark_datasets d ori)\<rparr>"
  have wf: "wf_dict (mark_tops d)" "wf_dict (mark_datasets d ori)"
    by (simp_all add: mark_tops_spec mark_datasets_def wf_dict_of)
  have tops: "(t, f) \<in> set (mark_tops d) \<longleftrightarrow> (if t \<in> set (no_backup d) then f = flags_of d t
      else t \<in> set (no_snapshot d) \<and> f = SNAPSHOTS)" for t f
    using wf_dict_map_of [OF wf(1), of t f] by (auto simp: mark_tops_spec(2))
  have flags: "\<forall>f \<in> snd ` set (mark_tops d). f \<in> {BACKUPS, BOTH, SNAPSHOTS}"
    using flag_names(1) by (fastforce simp: tops split: if_splits)
  have "set (left_out ?pm) = set (no_backup d)"
  proof (rule set_eqI)
    fix t
    have "t \<in> set (left_out ?pm) \<longleftrightarrow> (\<exists>f. (t, f) \<in> set (mark_tops d) \<and> f \<noteq> SNAPSHOTS)"
      by (force simp: left_out_def)
    also have "\<dots> \<longleftrightarrow> t \<in> set (no_backup d)"
      using flag_names(1) [of d t] flag_names(2,3) by (auto simp: tops)
    finally show "t \<in> set (left_out ?pm) \<longleftrightarrow> t \<in> set (no_backup d)" .
  qed
  with parse_mark [OF wf flags] show thesis
    by (intro that [of ?pm]) (simp_all add: point_mark_def wf)
qed


text \<open>C27: what a run leaves out is what \<open>recover\<close> reads. When the run could set the record of its point
  on the drive's snapshots and the drive could be listed, the record read of each of them, joined from
  its parts when it has any, is the one the run wrote, and it names the subtrees the run left out and
  their mount properties.\<close>

theorem record_read_back:
  assumes "set_law exec view" and "get_law exec view" and "get_parts_law exec view"
    and "parts_needed (point_mark d ori) \<le> MAX_PARTS" and "graphic (point_mark d ori)"
    and "distinct (map fst (record_props (point_mark d ori) @ extra))"
    and "list_all (\<lambda>(k, _). CHR ''='' \<notin> set k) extra"
    and "rel \<in> set rels" and "below_root (pool @ ''/rpool'') (pool @ ''/'' @ rel @ ''@'' @ point)"
    and "run_state (record_mark exec pool point rels (point_mark d ori) extra) m = (True, m1)"
    and "run_state (point_records exec pool True) m1 = (Inr out, m2)"
  shows "\<exists>pm. map_of out (pool @ ''/'' @ rel @ ''@'' @ point) = Some (Some (point_mark d ori))
    \<and> parse_point_mark (point_mark d ori) = Some pm
    \<and> set (left_out pm) = set (no_backup d) \<and> map_of (pm_datasets pm) = map_of (mark_datasets d ori)"
proof -
  let ?mark = "point_mark d ori" and ?s = "pool @ ''/'' @ rel @ ''@'' @ point"
  let ?props = "record_props ?mark @ extra" and ?targets = "map (\<lambda>rel. pool @ ''/'' @ rel @ ''@'' @ point) rels"
  have "\<not> is_digit CHR ''=''" by (simp add: is_digit_def)
  then have "CHR ''='' \<notin> set (dec_of_nat i)" for i
    using dec_of_nat_digits [of i] by (metis list_all_iff)
  then have no_eq: "CHR ''='' \<notin> set (part_prop i)" "CHR ''='' \<notin> set POINT_MARK" for i
    by (simp_all add: part_prop_def POINT_MARK_def)
  have keys: "list_all (\<lambda>(k, _). CHR ''='' \<notin> set k) ?props"
    using assms(7) no_eq by (auto simp: record_props_def list_all_iff)
  have "rels \<noteq> []" using assms(8) by auto
  then have ok: "ok (fst (exec (set_props ?props ?targets) (m_world m)))"
    and w: "m_world m1 = snd (exec (set_props ?props ?targets) (m_world m))"
    using assms(10) by (auto simp: record_mark_def run_state_run)
  have "view (m_world m1) ?s p = Some v" if "(p, v) \<in> set (record_props ?mark)" for p v
  proof -
    have "map_of ?props p = Some v" using that assms(6) by (auto intro!: map_of_is_SomeI)
    moreover have "?s \<in> set ?targets" using assms(8) by auto
    ultimately show ?thesis unfolding w using assms(1,6) ok keys unfolding set_law_def by blast
  qed
  then have rec: "holds_record (view (m_world m1) ?s) ?mark" by (auto simp: holds_record_def list_all_iff)
  have wf: "wf_dict (mark_tops d)" "wf_dict (mark_datasets d ori)"
    by (simp_all add: mark_tops_spec mark_datasets_def wf_dict_of)
  have "map_of out ?s = Some (Some ?mark)"
    using point_records_read [OF assms(2,3) _ wf _ _ assms(9) assms(11)] rec assms(4,5) by (simp add: point_mark_def)
  then show ?thesis using point_mark_parsed [of d ori] by metis
qed


text \<open>A drive with one snapshot that takes the record of one point and lists it.\<close>

definition ex_declared :: declared where
  "ex_declared = \<lparr>dc_tops = [(''rpool/data'', \<lparr>ex_top = ''rpool/data'', ex_replicate = True, ex_snapshot = False\<rparr>)],
                  dc_ignored = []\<rparr>"

definition ex_mark :: string where
  "ex_mark = point_mark ex_declared ex_ori_excl"

definition ex_target :: string where
  "ex_target = ''usb/rpool/v@p''"

definition ex_drive :: "bool shell" where
  "ex_drive c w =
     (if c = set_props [(POINT_MARK, ex_mark)] [ex_target] then (\<lparr>rr_returncode = 0, rr_stdout = '''', rr_stderr = ''''\<rparr>, True)
      else if c = marks_list ''usb/rpool'' POINT_MARK
        then (\<lparr>rr_returncode = 0, rr_stdout = (if w then ex_target @ [CHR 0x09] @ ex_mark else ''''), rr_stderr = ''''\<rparr>, w)
      else (\<lparr>rr_returncode = 1, rr_stdout = '''', rr_stderr = ''''\<rparr>, w))"

definition ex_view :: "bool prop_view" where
  "ex_view w s p = (if w \<and> s = ex_target \<and> p = POINT_MARK then Some ex_mark else None)"

lemma set_props_one:
  assumes "set_props props targets = set_props [(k, v)] [t]" and "CHR ''='' \<notin> set k"
    and "list_all (\<lambda>(k, _). CHR ''='' \<notin> set k) props" and "targets \<noteq> []" and "props \<noteq> []"
  shows "props = [(k, v)] \<and> targets = [t]"
proof -
  have eq: "map (\<lambda>(k, v). k @ ''='' @ v) props @ targets = [k @ ''='' @ v, t]"
    using assms(1) by (simp add: set_props_def)
  have "length props + length targets = 2" using arg_cong [OF eq, of length] by simp
  moreover have "0 < length props" "0 < length targets" using assms(4,5) by simp_all
  ultimately have "length props = 1" "length targets = 1" by linarith+
  then obtain k' v' t' where p: "props = [(k', v')]" "targets = [t']"
    by (metis One_nat_def length_0_conv length_Suc_conv prod.exhaust)
  have "takeWhile (\<lambda>c. c \<noteq> CHR ''='') (k' @ CHR ''='' # v') = takeWhile (\<lambda>c. c \<noteq> CHR ''='') (k @ CHR ''='' # v)"
    using eq p by simp
  then have "k' = k" using assms(2,3) p by (simp add: takeWhile_upto_sep)
  with eq p show ?thesis by simp
qed

lemma ex_mark_text:
  "graphic ex_mark" "parts_needed ex_mark \<le> MAX_PARTS" "record_props ex_mark = [(POINT_MARK, ex_mark)]"
  by code_simp+

lemma ex_lines:
  "result_lines \<lparr>rr_returncode = 0, rr_stdout = ex_target @ [CHR 0x09] @ ex_mark, rr_stderr = ''''\<rparr> = [ex_target @ [CHR 0x09] @ ex_mark]"
  "result_lines \<lparr>rr_returncode = c, rr_stdout = '''', rr_stderr = ''''\<rparr> = []"
  "tabs (ex_target @ [CHR 0x09] @ ex_mark) = [ex_target, ex_mark]"
  by code_simp+

lemma ex_set_law: "set_law ex_drive ex_view"
  unfolding set_law_def
proof (intro allI impI)
  fix w props targets s p v
  assume a: "ok (fst (ex_drive (set_props props targets) w))"
    "list_all (\<lambda>(k, _). CHR ''='' \<notin> set k) props" "s \<in> set targets" "map_of props p = Some v"
  have "set_props props targets \<noteq> marks_list r q" for r q by (simp add: set_props_def marks_list_def)
  then have eq: "set_props props targets = set_props [(POINT_MARK, ex_mark)] [ex_target]"
    using a(1) by (auto simp: ex_drive_def ok_def split: if_splits)
  have "props = [(POINT_MARK, ex_mark)] \<and> targets = [ex_target]"
    using a by (intro set_props_one [OF eq]) (auto simp: POINT_MARK_def)
  with a show "ex_view (snd (ex_drive (set_props props targets) w)) s p = Some v"
    by (simp add: ex_drive_def ex_view_def split: if_splits)
qed

lemma marks_list_inj:
  assumes "marks_list r q = marks_list ''usb/rpool'' POINT_MARK" and "CHR '' '' \<notin> set q"
  shows "q = POINT_MARK"
proof -
  have "q @ CHR '' '' # quote r = POINT_MARK @ CHR '' '' # quote ''usb/rpool''"
    using assms(1) by (simp add: marks_list_def)
  then have "takeWhile (\<lambda>c. c \<noteq> CHR '' '') (q @ CHR '' '' # quote r)
      = takeWhile (\<lambda>c. c \<noteq> CHR '' '') (POINT_MARK @ CHR '' '' # quote ''usb/rpool'')" by (rule arg_cong)
  then show ?thesis using assms(2) by (simp add: takeWhile_upto_sep POINT_MARK_def)
qed

lemma ex_get_law: "get_law ex_drive ex_view"
  unfolding get_law_def
proof (intro allI conjI impI ballI)
  fix w :: bool and root q s v :: string
  have ne: "marks_list root q \<noteq> set_props ps ts" for ps ts by (simp add: set_props_def marks_list_def)
  show "ex_view (snd (ex_drive (marks_list root q) w)) = ex_view w"
    using ne by (auto simp: ex_drive_def)
  assume sp: "CHR '' '' \<notin> set q" and "ok (fst (ex_drive (marks_list root q) w))"
  then have eq: "marks_list root q = marks_list ''usb/rpool'' POINT_MARK"
    using ne by (auto simp: ex_drive_def ok_def split: if_splits)
  from marks_list_inj [OF eq sp] have q: "q = POINT_MARK" .
  have lines: "result_lines (fst (ex_drive (marks_list root q) w)) = (if w then [ex_target @ [CHR 0x09] @ ex_mark] else [])"
    using ne eq by (simp add: ex_drive_def ex_lines del: append_Cons append_Nil)
  show "\<exists>l\<in>set (result_lines (fst (ex_drive (marks_list root q) w))). tabs l = [s, v]"
    if "ex_view w s q = Some v"
    using that by (auto simp: lines ex_view_def ex_lines(3) simp del: append_Cons append_Nil split: if_splits)
  show "ex_view w s q = Some v"
    if "l \<in> set (result_lines (fst (ex_drive (marks_list root q) w)))" "tabs l = [s, v]" for l
    using that unfolding lines by (auto simp: ex_view_def ex_lines(3) q simp del: append_Cons append_Nil split: if_splits)
qed

lemma ex_parts_law: "get_parts_law ex_drive ex_view"
proof -
  have "parts_list root most \<noteq> set_props ps ts" "parts_list root most \<noteq> marks_list r q" for root most ps ts r q
    by (simp_all add: set_props_def marks_list_def parts_list_def)
  then show ?thesis by (auto simp: get_parts_law_def ex_drive_def ok_def)
qed

definition ex_machine :: "bool machine" where
  "ex_machine = \<lparr>m_world = False, m_issued = []\<rparr>"

theorem record_read_back_witness:
  "\<exists>out pm. fst (run_state (point_records ex_drive ''usb'' True)
      (snd (run_state (record_mark ex_drive ''usb'' ''p'' [''rpool/v''] ex_mark []) ex_machine))) = Inr out
    \<and> map_of out ex_target = Some (Some ex_mark) \<and> parse_point_mark ex_mark = Some pm
    \<and> set (left_out pm) = set (no_backup ex_declared)"
proof -
  let ?rec = "run_state (record_mark ex_drive ''usb'' ''p'' [''rpool/v''] ex_mark []) ex_machine"
  let ?read = "run_state (point_records ex_drive ''usb'' True) (snd ?rec)"
  have cmd: "set_props (record_props ex_mark @ []) (map (\<lambda>rel. ''usb'' @ ''/'' @ rel @ ''@'' @ ''p'') [''rpool/v''])
      = set_props [(POINT_MARK, ex_mark)] [ex_target]"
    by (simp add: ex_mark_text(3) ex_target_def)
  have rec: "?rec = (True, snd ?rec)" and w: "m_world (snd ?rec) = True"
    unfolding record_mark_def cmd by (simp_all add: run_state_run ex_drive_def ok_def)
  have "marks_list ''usb/rpool'' POINT_MARK \<noteq> set_props ps ts" for ps ts by (simp add: set_props_def marks_list_def)
  then have r: "fst (ex_drive (marks_list ''usb/rpool'' POINT_MARK) True)
      = \<lparr>rr_returncode = 0, rr_stdout = ex_target @ [CHR 0x09] @ ex_mark, rr_stderr = ''''\<rparr>"
    by (simp add: ex_drive_def del: append_Cons append_Nil)
  have "foldl mark_line [] [ex_target @ [CHR 0x09] @ ex_mark] = [(ex_target, ex_mark)]"
    unfolding foldl.simps mark_line_def ex_lines(3) by (simp add: ex_target_def dict_set_def)
  moreover have "pointer ex_mark = None"
    unfolding ex_mark_def point_mark_def by (rule pointer_mark) (simp_all add: mark_tops_spec mark_datasets_def wf_dict_of)
  moreover have usb: "''usb'' @ ''/rpool'' = ''usb/rpool''" by simp
  ultimately have "\<exists>out. fst ?read = Inr out"
    unfolding point_records_def snapshot_marks_eq run_on_read run_checked w
    by (simp add: usb r ok_lines_def ex_lines(1) ok_def pointers_of_def List.map_filter_simps del: append_Cons append_Nil)
  then obtain out where f: "fst ?read = Inr out" by blast
  then have out: "?read = (Inr out, snd ?read)" by (metis prod.collapse)
  have t: "''usb'' @ ''/'' @ ''rpool/v'' @ ''@'' @ ''p'' = ex_target" by (simp add: ex_target_def)
  have below: "below_root (''usb'' @ ''/rpool'') ex_target" by code_simp
  from record_read_back [OF ex_set_law ex_get_law ex_parts_law, of ex_declared ex_ori_excl "[]" "''rpool/v''" "[''rpool/v'']" "''usb''" "''p''",
      folded ex_mark_def, OF ex_mark_text(2,1) _ _ _ _ rec out, unfolded t, OF _ _ _ below]
  obtain pm where "map_of out ex_target = Some (Some ex_mark)" "parse_point_mark ex_mark = Some pm"
    "set (left_out pm) = set (no_backup ex_declared)" by (auto simp: ex_mark_text(3))
  with f show ?thesis by blast
qed



section \<open>Properties: the record fits\<close>

lemma length_sha_round [simp]: "length (sha_round st kw) = length st"
  by (induction st kw rule: sha_round.induct) (simp_all add: Let_def)

lemma length_compress [simp]: "length (compress st block) = length st"
proof -
  have "length (foldl sha_round st kws) = length st" for kws
    by (induction kws arbitrary: st) simp_all
  then show ?thesis by (simp add: compress_def)
qed

lemma length_sha256: "length (sha256 s) = 64"
proof -
  have "length (foldl compress st blocks) = length st" for st blocks
    by (induction blocks arbitrary: st) simp_all
  then have "length (foldl compress SHA_H blocks) = 8" for blocks by (simp add: SHA_H_def)
  moreover have "length (concat (map hex_word ws)) = 8 * length ws" for ws
    by (induction ws) (simp_all add: hex_word_def)
  ultimately show ?thesis by (simp add: sha256_def Let_def)
qed

lemma length_print_string: "length (print_string s) \<le> 6 * length s + 2"
proof -
  have "length (escape_char c) \<le> 6" for c by (simp add: escape_char_def Let_def split: option.split)
  then have "length (concat (map escape_char s)) \<le> 6 * length s"
    by (induction s) (auto simp: add_le_mono)
  then show ?thesis by (simp add: print_string_def)
qed

lemma length_dec_part: "n \<le> MAX_PARTS \<Longrightarrow> length (dec_of_nat n) \<le> 2"
proof -
  assume "n \<le> MAX_PARTS"
  then have "n < 10 \<or> n div 10 < 10" by (auto simp: MAX_PARTS_def)
  then show ?thesis by (auto simp: dec_of_nat.simps [of n] dec_of_nat.simps [of "n div 10"])
qed

lemma length_pointer:
  assumes "n \<le> MAX_PARTS"
  shows "length (dumps_compact (JObj [(''parts'', JInt (int n)), (''sha256'', JStr (sha256 s))])) \<le> MARK_LIMIT"
proof -
  have "sort_key fst [(''parts'', a), (''sha256'', b)] = [(''parts'', a), (''sha256'', b)]" for a b :: json
    by simp
  moreover have "length (print_string (sha256 s)) \<le> 386" using length_print_string [of "sha256 s"]
    by (simp add: length_sha256)
  moreover have "length (print_string ''parts'') \<le> 32" "length (print_string ''sha256'') \<le> 38"
    using length_print_string [of "''parts''"] length_print_string [of "''sha256''"] by simp_all
  ultimately show ?thesis
    using length_dec_part [OF assms] by (simp add: dumps_compact_def compact_nl_def py_str_def MARK_LIMIT_def)
qed

text \<open>C28: a run never starts with exclusions it could not record. What it will set on each snapshot is
  at most 65 user properties, and no value is longer than the 8191 bytes ZFS accepts.\<close>

theorem record_fits:
  assumes "run_state (for_run exec pools) m = (Inr (d, mark), m')"
  shows "length (record_props mark) \<le> 65 \<and> list_all (\<lambda>(p, v). length v \<le> 8191) (record_props mark)"
proof -
  have fits: "parts_needed mark \<le> MAX_PARTS"
    using assms by (auto simp: for_run_def run_on_read Let_def split: prod.splits sum.splits if_splits)
  show ?thesis
  proof (cases "length mark \<le> MARK_LIMIT")
    case True
    then show ?thesis by (simp add: record_props_def MARK_LIMIT_def)
  next
    case False
    then have n: "length (mark_parts mark) \<le> MAX_PARTS" using parts_needed_long [of mark] fits by simp
    have "length p \<le> MARK_LIMIT" if "(i, p) \<in> set (enumerate k (mark_parts mark))" for i p k
      using that by (metis enumerate_eq_zip mark_parts_def set_zip_rightD groups_bound)
    with False n length_pointer [OF n] show ?thesis
      by (fastforce simp: record_props_def list_all_iff MARK_LIMIT_def MAX_PARTS_def)
  qed
qed


definition ex_tabbed :: "string list \<Rightarrow> run_result" where
  "ex_tabbed ws = \<lparr>rr_returncode = 0, rr_stdout = join_on [CHR 0x09] ws, rr_stderr = ''''\<rparr>"

definition ex_system :: "unit shell" where
  "ex_system c w =
     (if c = origin_list ''rpool'' then ex_tabbed [''rpool/data'', ''filesystem'', ''on'', ''/data'', ''4096'', ''-'']
      else if c = exclusions_list ''rpool'' then ex_tabbed [''rpool/data'', REPLICATE, ''no'']
      else ex_tabbed [], w)"


lemma ex_answers:
  "ex_system (origin_list ''rpool'') w = (ex_tabbed [''rpool/data'', ''filesystem'', ''on'', ''/data'', ''4096'', ''-''], w)"
  "ex_system (origin_refs_list ''rpool'') w = (ex_tabbed [], w)"
  "ex_system (exclusions_list ''rpool'') w = (ex_tabbed [''rpool/data'', REPLICATE, ''no''], w)"
proof -
  have "origin_refs_list ''rpool'' \<noteq> origin_list ''rpool''" "origin_refs_list ''rpool'' \<noteq> exclusions_list ''rpool''"
    "exclusions_list ''rpool'' \<noteq> origin_list ''rpool''" by code_simp+
  then show "ex_system (origin_list ''rpool'') w = (ex_tabbed [''rpool/data'', ''filesystem'', ''on'', ''/data'', ''4096'', ''-''], w)"
    "ex_system (origin_refs_list ''rpool'') w = (ex_tabbed [], w)"
    "ex_system (exclusions_list ''rpool'') w = (ex_tabbed [''rpool/data'', REPLICATE, ''no''], w)"
    by (simp_all add: ex_system_def)
qed

definition ex_read_back :: "(string, origin) dict" where
  "ex_read_back = foldl origin_refs (foldl origin_row []
     (ok_lines (ex_tabbed [''rpool/data'', ''filesystem'', ''on'', ''/data'', ''4096'', ''-''])))
     (parse_refs (ok_lines (ex_tabbed [])) '''')"

definition ex_read_excl :: declared where
  "ex_read_excl = parse_exclusions (ok_lines (ex_tabbed [''rpool/data'', REPLICATE, ''no''])) ex_read_back"

lemma ex_for_run:
  "run_state (for_run ex_system [''rpool'']) ex_m0 = (Inr (ex_read_excl, point_mark ex_read_excl ex_read_back),
     snd (run_state (for_run ex_system [''rpool'']) ex_m0))"
proof -
  have "ok (ex_tabbed ws)" for ws by (simp add: ex_tabbed_def ok_def)
  moreover have "parts_needed (point_mark ex_read_excl ex_read_back) \<le> MAX_PARTS" by code_simp
  ultimately have "fst (run_state (for_run ex_system [''rpool'']) ex_m0)
      = Inr (ex_read_excl, point_mark ex_read_excl ex_read_back)"
    by (simp add: for_run_def read_origin_def read_exclusions_def run_on_read run_checked ex_answers
        ex_read_back_def [symmetric] ex_read_excl_def [symmetric])
  then show ?thesis by (metis prod.collapse)
qed

theorem record_fits_witness:
  "no_backup ex_read_excl = [''rpool/data'']
   \<and> length (record_props (point_mark ex_read_excl ex_read_back)) \<le> 65
   \<and> list_all (\<lambda>(p, v). length v \<le> 8191) (record_props (point_mark ex_read_excl ex_read_back))"
proof -
  have "no_backup ex_read_excl = [''rpool/data'']" by code_simp
  with record_fits [OF ex_for_run] show ?thesis by simp
qed

end
