(* ===== verification/Restore_Plan.thy ===== *)
theory Restore_Plan
  imports Exclusions
begin

text \<open>
  \<open>lib/restore_plan.py\<close>: everything \<open>recover\<close> decides before the internal disk is touched. The point
  the operator chooses, what each dataset is restored from and with which mount properties, what is
  created empty, the monthly bases sent first, and the bytes each pool receives. The operator's
  choice is a parameter, as are the files found under a mounted snapshot (\<open>files\<close> maps the world and
  a path to the contents). The table shown to the operator is output.
\<close>

section \<open>Rows and plan\<close>

record restore_row =
  rs_rel :: string
  rs_snap :: "snap option"
  rs_referenced :: int
  rs_props :: "mount_props option"
  rs_options :: "string list"
  rs_effective :: string
  rs_note :: string
  rs_base :: "snap option"
  rs_base_bytes :: int
  rs_empty :: bool
  rs_flags :: string
  rs_below :: nat

definition RestoreRow :: "string \<Rightarrow> snap option \<Rightarrow> restore_row" where
  "RestoreRow rel s = \<lparr>rs_rel = rel, rs_snap = s, rs_referenced = 0, rs_props = None, rs_options = [],
     rs_effective = '''', rs_note = '''', rs_base = None, rs_base_bytes = 0, rs_empty = False,
     rs_flags = '''', rs_below = 0\<rparr>"

definition restored :: "restore_row \<Rightarrow> bool" where
  "restored r = (rs_snap r \<noteq> None \<and> rs_note r = '''')"

record restore_plan =
  rp_pool :: string
  rp_device :: string
  rp_be :: string
  rp_point :: point
  rp_rows :: "restore_row list"
  rp_keystore_snap :: string
  rp_keystore_bytes :: int
  rp_hostid :: string
  rp_rpool_mountpoint :: string
  rp_rpool_source :: string

definition plan_row :: "restore_plan \<Rightarrow> string \<Rightarrow> restore_row option" where
  "plan_row p rel = find (\<lambda>r. rs_rel r = rel) (rp_rows p)"

definition rpool_rows :: "restore_plan \<Rightarrow> restore_row list" where
  "rpool_rows p = filter (\<lambda>r. startswith (rs_rel r) ''rpool/'' \<and> restored r) (rp_rows p)"

definition skipped_rows :: "restore_plan \<Rightarrow> restore_row list" where
  "skipped_rows p = filter (\<lambda>r. \<not> restored r \<and> \<not> rs_empty r) (rp_rows p)"

definition empty_rows :: "restore_plan \<Rightarrow> restore_row list" where
  "empty_rows p = filter rs_empty (rp_rows p)"

definition row_bytes :: "restore_row list \<Rightarrow> int" where
  "row_bytes rows = sum_list (map (\<lambda>r. rs_referenced r + rs_base_bytes r) rows)"

definition rpool_bytes :: "restore_plan \<Rightarrow> int" where
  "rpool_bytes p = row_bytes (rpool_rows p) + rp_keystore_bytes p"

definition bpool_bytes :: "restore_plan \<Rightarrow> int" where
  "bpool_bytes p = row_bytes (filter (\<lambda>r. startswith (rs_rel r) ''bpool/'' \<and> restored r) (rp_rows p))"

definition drop_bases :: "restore_plan \<Rightarrow> nat \<times> restore_plan" where
  "drop_bases p = (length (filter (\<lambda>r. rs_base r \<noteq> None) (rp_rows p)),
     p\<lparr>rp_rows := map (\<lambda>r. r\<lparr>rs_base := None, rs_base_bytes := 0\<rparr>) (rp_rows p)\<rparr>)"


section \<open>Reads\<close>

definition PROBE_MNT :: string where "PROBE_MNT = ''/run/zark/probe''"

text \<open>\<open>list_snapshots\<close>: the strict read; \<open>Inl\<close> is the exit of \<open>log.fatal\<close>.\<close>

definition list_snapshots :: "'w shell \<Rightarrow> string \<Rightarrow> (('w, 'z) machine_scheme, snap list) reading" where
  "list_snapshots exec pool = drive_snapshots exec pool True"

definition referenced_line :: "(string, int) dict \<Rightarrow> string \<Rightarrow> (string, int) dict" where
  "referenced_line out line =
     (case tabs line of [a, b] \<Rightarrow> if isdigit b then dict_set a (int (dec_val b)) out else out | _ \<Rightarrow> out)"

definition referenced :: "'w shell \<Rightarrow> string list \<Rightarrow> (('w, 'z) machine_scheme, (string, int) dict) action" where
  "referenced exec snapshots =
     (if snapshots = [] then State_Monad.return []
      else do {
        r \<leftarrow> run exec (Line (''zfs get -Hp -o name,value referenced '' @ join_on '' '' snapshots));
        State_Monad.return (foldl referenced_line [] (ok_lines r))
      })"

definition mount_snapshot :: "'w shell \<Rightarrow> string \<Rightarrow> (('w, 'z) machine_scheme, bool) action" where
  "mount_snapshot exec full_snap = do {
     run exec (Line (''mkdir -p '' @ PROBE_MNT));
     r \<leftarrow> run exec (Line (''mount -t zfs -o ro '' @ full_snap @ '' '' @ PROBE_MNT));
     State_Monad.return (ok r)
   }"

definition umount_probe :: "'w shell \<Rightarrow> (('w, 'z) machine_scheme, unit) action" where
  "umount_probe exec = do { run exec (Line (''umount '' @ PROBE_MNT)); State_Monad.return () }"

text \<open>\<open>f"{int.from_bytes(raw[:4], 'little'):08x}"\<close>\<close>

definition hostid_hex :: "string \<Rightarrow> string" where
  "hostid_hex raw =
     (if length raw \<ge> 4
      then concat (map (\<lambda>c. [hex_digit (of_char c div 16), hex_digit (of_char c mod 16)]) (rev (take 4 raw)))
      else '''')"

definition probe_files :: "(string \<Rightarrow> string option) \<Rightarrow> string \<times> string \<times> string" where
  "probe_files file =
     (let text = (\<lambda>p. case file (PROBE_MNT @ p) of Some t \<Rightarrow> t | None \<Rightarrow> '''')
      in (text ''/etc/zfs/zfs-list.cache/rpool'', text ''/etc/zfs/zfs-list.cache/bpool'',
          case file (PROBE_MNT @ ''/etc/hostid'') of Some raw \<Rightarrow> hostid_hex raw | None \<Rightarrow> ''''))"

definition probe_be ::
    "'w shell \<Rightarrow> ('w \<Rightarrow> string \<Rightarrow> string option) \<Rightarrow> string
      \<Rightarrow> (('w, 'z) machine_scheme, string \<times> string \<times> string) action" where
  "probe_be exec files full_snap = do {
     mounted \<leftarrow> mount_snapshot exec full_snap;
     if \<not> mounted then State_Monad.return ('''', '''', '''')
     else do {
       m \<leftarrow> State_Monad.get;
       umount_probe exec;
       State_Monad.return (probe_files (files (m_world m)))
     }
   }"

definition empty_root :: "'w shell \<Rightarrow> string \<Rightarrow> (('w, 'z) machine_scheme, bool option) action" where
  "empty_root exec full_snap = root_is_empty exec full_snap PROBE_MNT False"


section \<open>The point\<close>

definition is_incomplete :: "point \<Rightarrow> string list option \<Rightarrow> bool" where
  "is_incomplete p complete = (pt_family p = ''zark_'' \<and> (case complete of None \<Rightarrow> False
     | Some c \<Rightarrow> (case point_name_of p of None \<Rightarrow> True | Some n \<Rightarrow> n \<notin> set c)))"

definition partly_removed :: "point \<Rightarrow> string list option \<Rightarrow> string list option \<Rightarrow> bool" where
  "partly_removed p complete run_complete = (is_incomplete p complete \<and> (case run_complete of None \<Rightarrow> False
     | Some c \<Rightarrow> (case point_name_of p of None \<Rightarrow> False | Some n \<Rightarrow> n \<in> set c)))"

text \<open>The entry offered as the default: the newest complete backup point, else the newest entry.\<close>

definition default_point :: "point list \<Rightarrow> string list option \<Rightarrow> nat" where
  "default_point points complete =
     (case complete of None \<Rightarrow> length points - 1
      | Some c \<Rightarrow>
         (case filter (\<lambda>i. pt_family (points ! i) = ''zark_'' \<and> \<not> is_incomplete (points ! i) complete) [0..<length points] of
            [] \<Rightarrow> length points - 1 | good \<Rightarrow> last good))"

definition point_option :: "string list option \<Rightarrow> string list option \<Rightarrow> nat \<Rightarrow> point \<Rightarrow> string" where
  "point_option complete run_complete all p =
     (let held = dec_of_nat (length (pt_members p)) @ ''/'' @ dec_of_nat all @ '' datasets'' in
      if partly_removed p complete run_complete
        then label_utc p @ ''  backup point, PARTLY REMOVED  ('' @ held @ '')''
      else if is_incomplete p complete then label_utc p @ ''  backup point, INCOMPLETE  ('' @ held @ '')''
      else if pt_family p = ''zark_'' then label_utc p @ ''  backup point  ('' @ held @ '')''
      else (let kinds = sort (remdups (map (\<lambda>s. last (split_on CHR ''_'' (s_name s))) (pt_snaps p)));
                detail = (if pt_family p = ''autosnap_'' then join_on ''/'' kinds
                          else rstrip_where (\<lambda>c. c = CHR ''_'') (pt_family p))
            in label_utc p @ ''    carried: '' @ detail @ ''  ('' @ held @ '')''))"

text \<open>\<open>ask\<close> is the operator: the options and the default give the index chosen.\<close>

definition choose_point ::
    "(string list \<Rightarrow> nat \<Rightarrow> nat) \<Rightarrow> point list \<Rightarrow> string list option \<Rightarrow> string list option \<Rightarrow> point option" where
  "choose_point ask points complete run_complete =
     (let all = card (set (concat (map (\<lambda>p. dict_keys (pt_members p)) points)));
          idx = ask (map (point_option complete run_complete all) points) (default_point points complete)
      in if idx < length points then Some (points ! idx) else None)"


section \<open>One dataset\<close>

definition full_name :: "string \<Rightarrow> snap \<Rightarrow> string" where
  "full_name pool s = pool @ ''/'' @ stored s @ ''@'' @ s_name s"

definition absent_note :: "string \<Rightarrow> point \<Rightarrow> snap list \<Rightarrow> string" where
  "absent_note ds point snaps =
     (case newest_snap (filter (\<lambda>s. s_dataset s = ds \<and> (case pt_end point of Some e \<Rightarrow> s_creation s \<le> e | None \<Rightarrow> False)) snaps) of
        None \<Rightarrow> ''no snapshot at or before this point''
      | Some s \<Rightarrow> ''destroyed in origin before this point (last snapshot '' @ s_name s @ '')'')"

definition split_name :: "string \<Rightarrow> string \<times> string" where
  "split_name ds = rsplit_last CHR ''/'' ds"

text \<open>What the loop reads, and what it carries from one dataset to the next.\<close>

record plan_ctx =
  pc_pool :: string
  pc_be :: string
  pc_point :: point
  pc_snaps :: "snap list"
  pc_resolved :: "(string, snap option) dict"
  pc_types :: "(string, string) dict"
  pc_zark :: mount_values
  pc_cache :: mount_values
  pc_excluded :: point_excl

record plan_state =
  ps_effective :: "(string, string) dict"
  ps_claimed :: "(string, string) dict"
  ps_rows :: "restore_row list"
  ps_tops :: "string list"

definition empty_row :: "plan_ctx \<Rightarrow> (string, string) dict \<Rightarrow> string \<Rightarrow> restore_row" where
  "empty_row ctx effective ds =
     (case split_name ds of (up, leaf) \<Rightarrow>
      (let ex = pc_excluded ctx;
           vals = (case map_of (pm_datasets ex) ds of Some v \<Rightarrow> v
                   | None \<Rightarrow> (case map_of (pc_zark ctx) ds of Some v \<Rightarrow> v | None \<Rightarrow> (''on'', '''')));
           props = MountProps (fst vals) (snd vals) ''excluded'';
           from_up = dict_get_or effective up '''';
           t = covering ds (left_out ex)
       in (RestoreRow ds None)\<lparr>rs_props := Some props, rs_empty := True,
            rs_options := receive_options props from_up leaf,
            rs_effective := effective_mountpoint props from_up leaf,
            rs_flags := (if t = ds then dict_get_or (pm_tops ex) t '''' else '''')\<rparr>))"

definition add_excluded :: "plan_ctx \<Rightarrow> plan_state \<Rightarrow> string \<Rightarrow> plan_state" where
  "add_excluded ctx st ds =
     (let t = covering ds (left_out (pc_excluded ctx)) in
      if t = ds then
        (let row = empty_row ctx (ps_effective st) ds
         in st\<lparr>ps_effective := dict_set ds (rs_effective row) (ps_effective st),
               ps_tops := ps_tops st @ [ds], ps_rows := ps_rows st @ [row]\<rparr>)
      else if t \<in> set (ps_tops st) then
        st\<lparr>ps_rows := map (\<lambda>r. if rs_rel r = t \<and> rs_empty r then r\<lparr>rs_below := rs_below r + 1\<rparr> else r) (ps_rows st)\<rparr>
      else st)"

definition row_note :: "plan_ctx \<Rightarrow> (string, string) dict \<Rightarrow> string \<Rightarrow> snap option \<Rightarrow> string" where
  "row_note ctx effective ds s =
     (if map_of (pc_types ctx) ds = Some ''volume'' then ''zvol (only the keystore zvol is restored)''
      else if s = None then absent_note ds (pc_point ctx) (pc_snaps ctx)
      else if fst (split_name ds) \<notin> set (dict_keys effective)
        then ''parent '' @ fst (split_name ds) @ '' is not restored''
      else '''')"

definition has_children :: "(string, string) dict \<Rightarrow> string \<Rightarrow> bool" where
  "has_children types ds =
     (ds \<in> set (dict_keys types) \<and> list_ex (\<lambda>x. startswith x (ds @ ''/'')) (dict_keys types))"

definition guessed :: "mount_props \<Rightarrow> bool" where
  "guessed props = ((mp_source props = ''ubuntu'' \<or> mp_source props = ''inferred'') \<and> mp_canmount props = ''on'')"

definition add_restored :: "plan_ctx \<Rightarrow> plan_state \<Rightarrow> string \<Rightarrow> snap \<Rightarrow> bool \<Rightarrow> plan_state" where
  "add_restored ctx st ds s is_empty =
     (case split_name ds of (up, leaf) \<Rightarrow>
      (let from_up = dict_get_or (ps_effective st) up '''';
           props0 = choose_props ds (pc_be ctx) (pc_zark ctx) (pc_cache ctx) is_empty;
           tgt = effective_mountpoint props0 from_up leaf;
           taken = (guessed props0 \<and> tgt \<in> set (dict_keys (ps_claimed st)));
           props = (if taken then MountProps ''noauto'' (mp_mountpoint props0) (mp_source props0) else props0);
           eff = effective_mountpoint props from_up leaf
       in st\<lparr>ps_claimed := (if guessed props0 \<and> \<not> taken then dict_set tgt ds (ps_claimed st) else ps_claimed st),
             ps_effective := dict_set ds eff (ps_effective st),
             ps_rows := ps_rows st @ [(RestoreRow ds (Some s))\<lparr>rs_props := Some props,
               rs_options := receive_options props from_up leaf, rs_effective := eff\<rparr>]\<rparr>))"

text \<open>The \<open>AssertionError\<close> of a row without a snapshot cannot be reached: such a row has a note.\<close>

definition plan_one ::
    "'w shell \<Rightarrow> plan_ctx \<Rightarrow> plan_state \<Rightarrow> string \<Rightarrow> (('w, 'z) machine_scheme, plan_state) action" where
  "plan_one exec ctx st ds =
     (if covers (pc_excluded ctx) ds then State_Monad.return (add_excluded ctx st ds)
      else (let found = Option.bind (map_of (pc_resolved ctx) ds) id;
                note = row_note ctx (ps_effective st) ds found
            in case (if note = '''' then found else None) of
                 None \<Rightarrow> State_Monad.return (st\<lparr>ps_rows := ps_rows st @ [(RestoreRow ds found)\<lparr>rs_note := note\<rparr>]\<rparr>)
               | Some s \<Rightarrow> do {
                   probed \<leftarrow> (if ds \<notin> set (dict_keys (pc_zark ctx)) \<and> ds \<notin> set (dict_keys (pc_cache ctx))
                                 \<and> has_children (pc_types ctx) ds
                              then empty_root exec (full_name (pc_pool ctx) s) else State_Monad.return None);
                   State_Monad.return (add_restored ctx st ds s (probed = Some True))
                 }))"

fun plan_loop ::
    "'w shell \<Rightarrow> plan_ctx \<Rightarrow> plan_state \<Rightarrow> string list \<Rightarrow> (('w, 'z) machine_scheme, plan_state) action" where
  "plan_loop exec ctx st [] = State_Monad.return st"
| "plan_loop exec ctx st (ds # dss) = do { st' \<leftarrow> plan_one exec ctx st ds; plan_loop exec ctx st' dss }"



section \<open>The bases\<close>

definition monthly_base :: "restore_row \<Rightarrow> snap list \<Rightarrow> snap option" where
  "monthly_base r snaps =
     (case rs_snap r of None \<Rightarrow> None
      | Some s \<Rightarrow>
          if shared_kind (s_name s) = ''monthly'' then None
          else max_by s_createtxg (filter (\<lambda>x. s_dataset x = rs_rel r \<and> stored x = stored s
                 \<and> shared_kind (s_name x) = ''monthly'' \<and> s_createtxg x < s_createtxg s) snaps))"

definition written_since :: "'w shell \<Rightarrow> snap \<Rightarrow> string \<Rightarrow> (('w, 'z) machine_scheme, int) action" where
  "written_since exec base point = do {
     w \<leftarrow> run exec (Line (''zfs get -Hp -o value written@'' @ s_name base @ '' '' @ point));
     State_Monad.return (if ok w \<and> isdigit (strip (rr_output w)) then int (dec_val (strip (rr_output w))) else -1)
   }"

definition with_base :: "restore_row \<Rightarrow> snap \<Rightarrow> int \<Rightarrow> int \<Rightarrow> restore_row" where
  "with_base r base ref written =
     (if ref < 0 \<or> written < 0 \<or> rs_referenced r < 0 then r
      else r\<lparr>rs_base := Some base, rs_base_bytes := max (ref + written - rs_referenced r) 0\<rparr>)"

definition plan_base ::
    "'w shell \<Rightarrow> string \<Rightarrow> snap list \<Rightarrow> restore_row \<Rightarrow> (('w, 'z) machine_scheme, restore_row) action" where
  "plan_base exec pool snaps r =
     (case (if restored r then monthly_base r snaps else None, rs_snap r) of
        (Some base, Some s) \<Rightarrow> do {
          refs \<leftarrow> referenced exec [full_name pool base];
          written \<leftarrow> written_since exec base (full_name pool s);
          State_Monad.return (with_base r base (dict_get_or refs (full_name pool base) (-1)) written)
        }
      | _ \<Rightarrow> State_Monad.return r)"

fun plan_bases ::
    "'w shell \<Rightarrow> string \<Rightarrow> snap list \<Rightarrow> restore_row list \<Rightarrow> (('w, 'z) machine_scheme, restore_row list) action" where
  "plan_bases exec pool snaps [] = State_Monad.return []"
| "plan_bases exec pool snaps (r # rs) = do {
     r' \<leftarrow> plan_base exec pool snaps r;
     rs' \<leftarrow> plan_bases exec pool snaps rs;
     State_Monad.return (r' # rs')
   }"


section \<open>The plan\<close>

definition dataset_types :: "(string, string) dict \<Rightarrow> (string, string) dict" where
  "dataset_types sto =
     foldl (\<lambda>m (ds, k). dict_setdefault (logical ds) k m) [] (sort_key (\<lambda>(ds, k). logical ds \<noteq> ds) sto)"

definition wanted_of :: "(string, string) dict \<Rightarrow> point_excl \<Rightarrow> string \<Rightarrow> string list" where
  "wanted_of types ex be =
     filter (\<lambda>ds. (startswith ds ''rpool/'' \<and> ds \<notin> set (dict_keys CREATED_CONTAINERS)) \<or> ds = ''bpool/BOOT/'' @ be)
       (sort (remdups (dict_keys types @ dict_keys (pm_datasets ex))))"

definition start_effective :: "string \<Rightarrow> (string, string) dict" where
  "start_effective root_mp = (''rpool'', root_mp) # CREATED_CONTAINERS @ BPOOL_CONTAINERS"

definition set_referenced :: "string \<Rightarrow> (string, int) dict \<Rightarrow> restore_row \<Rightarrow> restore_row" where
  "set_referenced pool refs r =
     (case rs_snap r of Some s \<Rightarrow>
        if restored r then r\<lparr>rs_referenced := dict_get_or refs (full_name pool s) (-1)\<rparr> else r
      | None \<Rightarrow> r)"

definition newest_keystore :: "'w shell \<Rightarrow> string \<Rightarrow> (('w, 'z) machine_scheme, string \<times> int) action" where
  "newest_keystore exec pool = do {
     ks \<leftarrow> run exec (Line (''zfs list -Hp -t snapshot -o name,createtxg -s createtxg '' @ pool @ ''/keystore''));
     let name = (if ok ks \<and> result_lines ks \<noteq> [] then hd (tabs (last (result_lines ks))) else '''');
     if name = '''' then State_Monad.return (name, -1)
     else do { refs \<leftarrow> referenced exec [name]; State_Monad.return (name, dict_get_or refs name (-1)) }
   }"

text \<open>From the context on: the loop, the sizes, the bases and the keystore.\<close>

definition finish_plan ::
    "'w shell \<Rightarrow> plan_ctx \<Rightarrow> string \<Rightarrow> string list \<Rightarrow> string \<Rightarrow> (('w, 'z) machine_scheme, restore_plan) action" where
  "finish_plan exec ctx device wanted hostid =
     (case rpool_root_mountpoint (pc_cache ctx) of (root_mp, root_src) \<Rightarrow> do {
        st \<leftarrow> plan_loop exec ctx \<lparr>ps_effective = start_effective root_mp, ps_claimed = [], ps_rows = [], ps_tops = []\<rparr> wanted;
        refs \<leftarrow> referenced exec (List.map_filter (\<lambda>r. if restored r then map_option (full_name (pc_pool ctx)) (rs_snap r) else None) (ps_rows st));
        rows \<leftarrow> plan_bases exec (pc_pool ctx) (pc_snaps ctx) (map (set_referenced (pc_pool ctx) refs) (ps_rows st));
        ks \<leftarrow> newest_keystore exec (pc_pool ctx);
        State_Monad.return \<lparr>rp_pool = pc_pool ctx, rp_device = device, rp_be = pc_be ctx, rp_point = pc_point ctx,
          rp_rows = rows, rp_keystore_snap = fst ks, rp_keystore_bytes = snd ks, rp_hostid = hostid,
          rp_rpool_mountpoint = root_mp, rp_rpool_source = root_src\<rparr>
      })"

definition cache_of :: "string \<Rightarrow> string \<Rightarrow> mount_values" where
  "cache_of r b = dict_update (parse_list_cache r) (parse_list_cache b)"

definition build_plan ::
    "'w shell \<Rightarrow> ('w \<Rightarrow> string \<Rightarrow> string option) \<Rightarrow> string \<Rightarrow> string \<Rightarrow> string \<Rightarrow> point \<Rightarrow> snap list
      \<Rightarrow> string list option \<Rightarrow> point_excl \<Rightarrow> (('w, 'z) machine_scheme, py_error + restore_plan) action" where
  "build_plan exec files pool device be point snaps complete ex = do {
     sto \<leftarrow> list_datasets exec pool;
     let types = dataset_types sto;
     let wanted = wanted_of types ex be;
     case resolve point (filter (\<lambda>s. s_dataset s \<in> set wanted) snaps) wanted complete of
       None \<Rightarrow> State_Monad.return (Inl ValueError)
     | Some resolved \<Rightarrow> do {
         (cache_r, cache_b, hostid) \<leftarrow>
           (case Option.bind (map_of resolved (''rpool/ROOT/'' @ be)) id of
              Some s \<Rightarrow> probe_be exec files (full_name pool s)
            | None \<Rightarrow> State_Monad.return ('''', '''', ''''));
         zark \<leftarrow> zark_props exec pool;
         p \<leftarrow> finish_plan exec
           \<lparr>pc_pool = pool, pc_be = be, pc_point = point, pc_snaps = snaps, pc_resolved = resolved,
            pc_types = types, pc_zark = zark, pc_cache = cache_of cache_r cache_b, pc_excluded = ex\<rparr>
           device wanted hostid;
         State_Monad.return (Inr p)
       }
   }"


section \<open>Labels of the table\<close>

definition fmt_delta :: "int \<Rightarrow> string" where
  "fmt_delta seconds =
     (if seconds = 0 then ''0''
      else (let sgn = (if seconds < 0 then ''-'' else ''+'');
                t = nat \<bar>seconds\<bar>; sec = t mod 60; mins = t div 60; mm = mins mod 60; hh = mins div 60
            in if hh \<ge> 48 then sgn @ dec_of_nat (hh div 24) @ ''d'' @ pad2 (hh mod 24) @ ''h'' @ pad2 mm @ ''m''
               else if hh \<noteq> 0 then sgn @ dec_of_nat hh @ ''h'' @ pad2 mm @ ''m''
               else sgn @ dec_of_nat mm @ ''m'' @ pad2 sec @ ''s''))"

definition snapshot_label :: "string \<Rightarrow> (string, string) dict \<Rightarrow> string" where
  "snapshot_label name drives =
     (case ANCHOR_RE name of None \<Rightarrow> name
      | Some (g, stamp) \<Rightarrow> POINT_PREFIX @ stamp @ '' (bpool anchor of drive '' @ dict_get_or drives g g @ '')'')"

end
