(* ===== verification/Restore_Plan_Safe.thy ===== *)
theory Restore_Plan_Safe
  imports Restore_Plan
begin

text \<open>
  What a restore plan promises. An invariant of the loop over the datasets is stated once, as a
  locale over its three kinds of step, and interpreted for each promise: parents are received before
  their children, what a point left out is never restored, no two guessed mountpoints coincide, and
  the mountpoints the plan predicts are those ZFS gives.
\<close>

section \<open>Invariants of the loop\<close>

definition note_row :: "plan_state \<Rightarrow> string \<Rightarrow> snap option \<Rightarrow> string \<Rightarrow> plan_state" where
  "note_row st ds found note = st\<lparr>ps_rows := ps_rows st @ [(RestoreRow ds found)\<lparr>rs_note := note\<rparr>]\<rparr>"

locale plan_invariant =
  fixes ctx :: plan_ctx
    and I :: "string list \<Rightarrow> plan_state \<Rightarrow> bool"
    and good :: "string \<Rightarrow> bool"
  assumes excluded_step: "I seen st \<Longrightarrow> ds \<notin> set seen \<Longrightarrow> good ds \<Longrightarrow> covers (pc_excluded ctx) ds
      \<Longrightarrow> I (ds # seen) (add_excluded ctx st ds)"
    and note_step: "I seen st \<Longrightarrow> ds \<notin> set seen \<Longrightarrow> good ds \<Longrightarrow> \<not> covers (pc_excluded ctx) ds
      \<Longrightarrow> note \<noteq> '''' \<Longrightarrow> I (ds # seen) (note_row st ds found note)"
    and restored_step: "I seen st \<Longrightarrow> ds \<notin> set seen \<Longrightarrow> good ds \<Longrightarrow> \<not> covers (pc_excluded ctx) ds
      \<Longrightarrow> fst (split_name ds) \<in> set (dict_keys (ps_effective st)) \<Longrightarrow> I (ds # seen) (add_restored ctx st ds s e)"
begin

lemma one_keeps:
  assumes "I seen st" and "ds \<notin> set seen" and "good ds"
  shows "returns (plan_one exec ctx st ds) (I (ds # seen))"
proof (cases "covers (pc_excluded ctx) ds")
  case True
  then show ?thesis unfolding plan_one_def by (simp add: returns_return excluded_step assms)
next
  case False
  let ?found = "Option.bind (map_of (pc_resolved ctx) ds) id"
  let ?note = "row_note ctx (ps_effective st) ds ?found"
  have absent: "row_note ctx (ps_effective st) ds None \<noteq> ''''"
    by (simp add: row_note_def absent_note_def split: option.split)
  show ?thesis
  proof (cases "if ?note = '''' then ?found else None")
    case None
    then have "?note \<noteq> ''''" using absent by (auto split: if_splits)
    with None False note_step [OF assms False, of ?note ?found] show ?thesis
      unfolding plan_one_def note_row_def by (simp add: Let_def returns_return)
  next
    case (Some s)
    then have s: "?found = Some s" "?note = ''''" by (auto split: if_splits)
    then have "fst (split_name ds) \<in> set (dict_keys (ps_effective st))"
      by (auto simp: row_note_def split: if_splits)
    with False s restored_step [OF assms False] show ?thesis
      unfolding plan_one_def Let_def by (auto intro!: returns_bind_any returns_return)
  qed
qed

lemma loop_keeps:
  assumes "I seen st" and "distinct dss" and "set dss \<inter> set seen = {}" and "list_all good dss"
  shows "returns (plan_loop exec ctx st dss) (I (rev dss @ seen))"
  using assms
proof (induction dss arbitrary: seen st)
  case (Cons ds dss)
  show ?case unfolding plan_loop.simps rev.simps append_assoc append_Cons append_Nil
    by (rule returns_bind [where R = "I (ds # seen)"])
       (use Cons.prems in \<open>auto intro!: one_keeps Cons.IH\<close>)
qed (simp add: returns_return)

end


section \<open>Parents first, nothing left out restored\<close>

fun parents_ok :: "string list \<Rightarrow> restore_row list \<Rightarrow> bool" where
  "parents_ok known [] = True"
| "parents_ok known (r # rs) =
     ((restored r \<longrightarrow> fst (split_name (rs_rel r)) \<in> set known)
      \<and> parents_ok (if restored r then rs_rel r # known else known) rs)"

definition known_after :: "string list \<Rightarrow> restore_row list \<Rightarrow> string list" where
  "known_after known rows = rev (map rs_rel (filter restored rows)) @ known"

lemma parents_ok_append:
  "parents_ok known (rows @ rows2) \<longleftrightarrow> parents_ok known rows \<and> parents_ok (known_after known rows) rows2"
  by (induction rows arbitrary: known) (auto simp: known_after_def)

text \<open>The fields the promises are about; the sizes and the count below an empty top are not.\<close>

definition same_core :: "restore_row \<Rightarrow> restore_row \<Rightarrow> bool" where
  "same_core r q = (rs_rel r = rs_rel q \<and> rs_snap r = rs_snap q \<and> rs_note r = rs_note q \<and> rs_empty r = rs_empty q
     \<and> rs_props r = rs_props q \<and> rs_options r = rs_options q \<and> rs_effective r = rs_effective q)"

lemma same_core_restored: "same_core r q \<Longrightarrow> restored r = restored q"
  by (simp add: same_core_def restored_def)

lemma parents_ok_core: "list_all2 same_core rows rows' \<Longrightarrow> parents_ok known rows = parents_ok known rows'"
proof (induction arbitrary: known rule: list_all2_induct)
  case (Cons r rows q rows')
  have "rs_rel r = rs_rel q" "restored r = restored q"
    using Cons.hyps(1) same_core_restored [OF Cons.hyps(1)] by (simp_all add: same_core_def)
  then show ?case using Cons.IH by simp
qed simp

definition CONTAINERS :: "string list" where
  "CONTAINERS = [''rpool'', ''rpool/ROOT'', ''rpool/USERDATA'', ''bpool'', ''bpool/BOOT'']"

definition order_inv :: "plan_ctx \<Rightarrow> string list \<Rightarrow> plan_state \<Rightarrow> bool" where
  "order_inv ctx seen st =
     (parents_ok CONTAINERS (ps_rows st)
      \<and> (\<forall>r \<in> set (ps_rows st). rs_rel r \<in> set seen \<and> (rs_snap r \<noteq> None \<longrightarrow> \<not> covers (pc_excluded ctx) (rs_rel r)))
      \<and> (\<forall>k \<in> set (dict_keys (ps_effective st)).
           k \<in> set (known_after CONTAINERS (ps_rows st)) \<or> k \<in> set (left_out (pc_excluded ctx))))"

lemma below_core:
  "list_all2 same_core rows (map (\<lambda>r. if P r then r\<lparr>rs_below := f r\<rparr> else r) rows)"
  by (induction rows) (auto simp: same_core_def)

lemma known_after_core: "list_all2 same_core rows rows' \<Longrightarrow> known_after k rows = known_after k rows'"
proof (induction arbitrary: k rule: list_all2_induct)
  case (Cons r rows q rows')
  have "rs_rel r = rs_rel q" "restored r = restored q"
    using Cons.hyps(1) same_core_restored [OF Cons.hyps(1)] by (simp_all add: same_core_def)
  then show ?case using Cons.IH [of "[]"] by (simp add: known_after_def)
qed simp

lemma split_under: "CHR ''/'' \<in> set ds \<Longrightarrow> under ds (fst (split_name ds))"
  using rsplit_last_join [of "CHR ''/''" ds] unfolding split_name_def under_def
  by (metis append.assoc append_Cons append_Nil prefixI)

lemma not_under_left_out:
  assumes "\<not> covers ex ds" and "t \<in> set (left_out ex)" and "t \<noteq> ''''"
  shows "\<not> under ds t"
  using assms by (auto simp: covers_def covering_empty)

lemma RestoreRow_sel [simp]:
  "rs_rel (RestoreRow rel s) = rel" "rs_snap (RestoreRow rel s) = s" "rs_note (RestoreRow rel s) = ''''"
  "rs_empty (RestoreRow rel s) = False"
  by (simp_all add: RestoreRow_def)

lemma empty_row_sel:
  "rs_rel (empty_row ctx eff ds) = ds" "rs_snap (empty_row ctx eff ds) = None" "\<not> restored (empty_row ctx eff ds)"
  by (simp_all add: empty_row_def restored_def Let_def split: prod.split)

definition slashed :: "string \<Rightarrow> bool" where
  "slashed ds = (prefix ''rpool/'' ds \<or> prefix ''bpool/'' ds)"

lemma slashed_parent: "slashed ds \<Longrightarrow> CHR ''/'' \<in> set ds \<and> fst (split_name ds) \<noteq> ''''"
proof -
  assume ds: "slashed ds"
  then have sl: "CHR ''/'' \<in> set ds" by (auto simp: slashed_def prefix_def)
  from rsplit_last_join [OF sl] have "fst (split_name ds) @ CHR ''/'' # snd (split_name ds) = ds"
    by (simp add: split_name_def)
  with ds have "fst (split_name ds) \<noteq> ''''" by (auto simp: slashed_def prefix_def)
  with sl show ?thesis by simp
qed


lemma known_after_snoc: "known_after k (rows @ [r]) = (if restored r then rs_rel r # known_after k rows else known_after k rows)"
  by (simp add: known_after_def)

lemma order_snoc:
  assumes "order_inv ctx seen st" and "rs_rel row = ds" and "rs_snap row \<noteq> None \<Longrightarrow> \<not> covers (pc_excluded ctx) ds"
    and "restored row \<Longrightarrow> fst (split_name ds) \<in> set (known_after CONTAINERS (ps_rows st))"
    and "set (dict_keys (ps_effective st')) \<subseteq> insert ds (set (dict_keys (ps_effective st)))"
    and "ds \<in> set (dict_keys (ps_effective st')) \<Longrightarrow> restored row \<or> ds \<in> set (left_out (pc_excluded ctx))
      \<or> ds \<in> set (dict_keys (ps_effective st))"
    and "ps_rows st' = ps_rows st @ [row]"
  shows "order_inv ctx (ds # seen) st'"
proof -
  have "set (known_after CONTAINERS (ps_rows st')) = (if restored row then insert ds (set (known_after CONTAINERS (ps_rows st)))
      else set (known_after CONTAINERS (ps_rows st)))"
    using assms(2,7) by (simp add: known_after_snoc)
  note known = this
  have "parents_ok CONTAINERS (ps_rows st')" using assms(1,2,4,7) by (auto simp: order_inv_def parents_ok_append)
  moreover have "k \<in> set (known_after CONTAINERS (ps_rows st')) \<or> k \<in> set (left_out (pc_excluded ctx))"
    if k: "k \<in> set (dict_keys (ps_effective st'))" for k
  proof (cases "k \<in> set (dict_keys (ps_effective st))")
    case True
    then have "k \<in> set (known_after CONTAINERS (ps_rows st)) \<or> k \<in> set (left_out (pc_excluded ctx))"
      using assms(1) unfolding order_inv_def by blast
    then show ?thesis using known by auto
  next
    case False
    then have "k = ds" using assms(5) k by blast
    then show ?thesis using assms(6) k False known by auto
  qed
  moreover have "rs_rel r \<in> set (ds # seen) \<and> (rs_snap r \<noteq> None \<longrightarrow> \<not> covers (pc_excluded ctx) (rs_rel r))"
    if "r \<in> set (ps_rows st')" for r
    using that assms(1,2,3,7) by (auto simp: order_inv_def)
  ultimately show ?thesis unfolding order_inv_def by blast
qed

interpretation order: plan_invariant ctx "order_inv ctx" slashed for ctx
proof
  fix seen st ds
  assume I: "order_inv ctx seen st" and sl: "slashed ds"
  let ?ex = "pc_excluded ctx"
  let ?t = "covering ds (left_out ?ex)"
  have ne: "ds \<noteq> ''''" using slashed_parent [OF sl] by auto
  show "order_inv ctx (ds # seen) (add_excluded ctx st ds)"
  proof (cases "?t = ds")
    case True
    have "ds \<in> set (left_out ?ex)" using covering_nearest(1) [of ds "left_out ?ex"] True ne by simp
    with True I show ?thesis
      by (intro order_snoc [OF I, of "empty_row ctx (ps_effective st) ds"])
         (auto simp: add_excluded_def Let_def empty_row_sel)
  next
    case False
    define rows' where "rows' = map (\<lambda>r. if rs_rel r = ?t \<and> rs_empty r then r\<lparr>rs_below := rs_below r + 1\<rparr> else r) (ps_rows st)"
    have core: "list_all2 same_core (ps_rows st) rows'" unfolding rows'_def by (rule below_core)
    have "rs_rel r \<in> set seen \<and> (rs_snap r \<noteq> None \<longrightarrow> \<not> covers ?ex (rs_rel r))" if "r \<in> set rows'" for r
    proof -
      obtain q where "q \<in> set (ps_rows st)" "same_core q r"
        using core \<open>r \<in> set rows'\<close> by (metis in_set_conv_nth list_all2_conv_all_nth)
      then show ?thesis using I by (auto simp: order_inv_def same_core_def)
    qed
    then have "order_inv ctx (ds # seen) (st\<lparr>ps_rows := rows'\<rparr>)"
      using I parents_ok_core [OF core] known_after_core [OF core] by (auto simp: order_inv_def)
    moreover have "order_inv ctx (ds # seen) st" using I by (auto simp: order_inv_def)
    ultimately show ?thesis using False by (simp add: add_excluded_def Let_def rows'_def [symmetric])
  qed
  assume cov: "\<not> covers ?ex ds"
  show "order_inv ctx (ds # seen) (note_row st ds found why)" if "why \<noteq> ''''" for why found
    using that cov
    by (intro order_snoc [OF I, of "(RestoreRow ds found)\<lparr>rs_note := why\<rparr>"]) (auto simp: note_row_def restored_def)
  assume up: "fst (split_name ds) \<in> set (dict_keys (ps_effective st))"
  have "under ds (fst (split_name ds))" using split_under slashed_parent [OF sl] by blast
  then have "fst (split_name ds) \<notin> set (left_out ?ex)"
    using not_under_left_out [OF cov] slashed_parent [OF sl] by blast
  then have known: "fst (split_name ds) \<in> set (known_after CONTAINERS (ps_rows st))"
    using up I by (auto simp: order_inv_def)
  show "order_inv ctx (ds # seen) (add_restored ctx st ds s e)" for s e
  proof -
    obtain up leaf where sp: "split_name ds = (up, leaf)" by (rule prod.exhaust)
    have rows: "\<exists>row. ps_rows (add_restored ctx st ds s e) = ps_rows st @ [row] \<and> rs_rel row = ds \<and> rs_snap row = Some s
        \<and> restored row"
      by (simp add: add_restored_def sp Let_def restored_def)
    have eff: "set (dict_keys (ps_effective (add_restored ctx st ds s e))) = insert ds (set (dict_keys (ps_effective st)))"
      by (simp add: add_restored_def sp Let_def)
    from rows obtain row where row: "ps_rows (add_restored ctx st ds s e) = ps_rows st @ [row]" "rs_rel row = ds"
      "rs_snap row = Some s" "restored row" by blast
    show ?thesis by (rule order_snoc [OF I row(2) cov known _ _ row(1)]) (use eff row(4) in auto)
  qed
qed



section \<open>No two guessed mountpoints\<close>

definition guess_row :: "restore_row \<Rightarrow> bool" where
  "guess_row r = (restored r \<and> (case rs_props r of Some p \<Rightarrow> guessed p | None \<Rightarrow> False))"

definition claim_inv :: "string list \<Rightarrow> plan_state \<Rightarrow> bool" where
  "claim_inv seen st = (\<forall>r \<in> set (ps_rows st). guess_row r \<longrightarrow> map_of (ps_claimed st) (rs_effective r) = Some (rs_rel r))"

lemma core_mem: "list_all2 same_core rows rows' \<Longrightarrow> r \<in> set rows' \<Longrightarrow> \<exists>q \<in> set rows. same_core q r"
  by (metis in_set_conv_nth list_all2_conv_all_nth)

text \<open>A step over an excluded dataset adds an empty row, or only counts below one.\<close>

lemma add_excluded_cases:
  obtains (new) "ps_rows (add_excluded ctx st ds) = ps_rows st @ [empty_row ctx (ps_effective st) ds]"
      "ps_effective (add_excluded ctx st ds) = dict_set ds (rs_effective (empty_row ctx (ps_effective st) ds)) (ps_effective st)"
      "ps_claimed (add_excluded ctx st ds) = ps_claimed st"
  | (core) "list_all2 same_core (ps_rows st) (ps_rows (add_excluded ctx st ds))"
      "ps_effective (add_excluded ctx st ds) = ps_effective st" "ps_claimed (add_excluded ctx st ds) = ps_claimed st"
proof (cases "covering ds (left_out (pc_excluded ctx)) = ds")
  case True
  then show ?thesis by (intro new) (simp_all add: add_excluded_def Let_def)
next
  case False
  have "list_all2 same_core rows rows" for rows by (simp add: list_all2_same same_core_def)
  with False below_core show ?thesis by (intro core) (simp_all add: add_excluded_def Let_def)
qed

lemma add_restored_sel:
  fixes st :: plan_state and up :: string
  assumes "split_name ds = (up, leaf)"
  defines "from_up \<equiv> dict_get_or (ps_effective st) up ''''"
  obtains props where
    "ps_rows (add_restored ctx st ds s e) = ps_rows st @ [(RestoreRow ds (Some s))\<lparr>rs_props := Some props,
       rs_options := receive_options props from_up leaf, rs_effective := effective_mountpoint props from_up leaf\<rparr>]"
    "ps_effective (add_restored ctx st ds s e) = dict_set ds (effective_mountpoint props from_up leaf) (ps_effective st)"
    "mp_mountpoint props = mp_mountpoint (choose_props ds (pc_be ctx) (pc_zark ctx) (pc_cache ctx) e)"
    "guessed props \<Longrightarrow> map_of (ps_claimed st) (effective_mountpoint props from_up leaf) = None
      \<and> ps_claimed (add_restored ctx st ds s e) = dict_set (effective_mountpoint props from_up leaf) ds (ps_claimed st)"
    "\<not> guessed props \<Longrightarrow> ps_claimed (add_restored ctx st ds s e) = ps_claimed st"
proof -
  let ?ch = "choose_props ds (pc_be ctx) (pc_zark ctx) (pc_cache ctx) e"
  let ?tgt = "effective_mountpoint ?ch from_up leaf"
  let ?taken = "guessed ?ch \<and> ?tgt \<in> set (dict_keys (ps_claimed st))"
  let ?p = "if ?taken then MountProps ''noauto'' (mp_mountpoint ?ch) (mp_source ?ch) else ?ch"
  have same: "effective_mountpoint ?p from_up leaf = ?tgt" by (simp add: effective_mountpoint_def)
  have noauto: "\<not> guessed (MountProps ''noauto'' a b)" for a b by (simp add: guessed_def)
  show thesis
  proof (rule that [of ?p])
    show "ps_rows (add_restored ctx st ds s e) = ps_rows st @ [(RestoreRow ds (Some s))\<lparr>rs_props := Some ?p,
       rs_options := receive_options ?p from_up leaf, rs_effective := effective_mountpoint ?p from_up leaf\<rparr>]"
      by (simp add: add_restored_def assms Let_def)
    show "ps_effective (add_restored ctx st ds s e) = dict_set ds (effective_mountpoint ?p from_up leaf) (ps_effective st)"
      by (simp add: add_restored_def assms Let_def)
    show "mp_mountpoint ?p = mp_mountpoint ?ch" by simp
    show "map_of (ps_claimed st) (effective_mountpoint ?p from_up leaf) = None
      \<and> ps_claimed (add_restored ctx st ds s e) = dict_set (effective_mountpoint ?p from_up leaf) ds (ps_claimed st)"
      if "guessed ?p"
      using that noauto same
      by (auto simp: add_restored_def assms Let_def map_of_eq_None_iff dict_keys_def split: if_splits)
    show "ps_claimed (add_restored ctx st ds s e) = ps_claimed st" if "\<not> guessed ?p"
      using that by (auto simp: add_restored_def assms Let_def split: if_splits)
  qed
qed

interpretation claim: plan_invariant ctx claim_inv "\<lambda>_. True" for ctx
proof
  fix seen st ds
  assume I: "claim_inv seen st"
  show "claim_inv (ds # seen) (add_excluded ctx st ds)"
  proof (cases rule: add_excluded_cases [of ctx st ds])
    case new
    then show ?thesis using I empty_row_sel(3) by (auto simp: claim_inv_def guess_row_def)
  next
    case core
    have "map_of (ps_claimed st) (rs_effective r) = Some (rs_rel r)"
      if r: "r \<in> set (ps_rows (add_excluded ctx st ds))" "guess_row r" for r
    proof -
      obtain q where q: "q \<in> set (ps_rows st)" "same_core q r" using core_mem [OF core(1) r(1)] by blast
      have "guess_row q" using q(2) r(2) same_core_restored [OF q(2)] by (simp add: guess_row_def same_core_def)
      then show ?thesis using I q by (auto simp: claim_inv_def same_core_def)
    qed
    then show ?thesis by (simp add: claim_inv_def core(3))
  qed
  show "claim_inv (ds # seen) (note_row st ds found why)" if "why \<noteq> ''''" for why found
    using I that by (auto simp: claim_inv_def note_row_def guess_row_def restored_def)
  show "claim_inv (ds # seen) (add_restored ctx st ds s e)" for s e
  proof -
    obtain up leaf where sp: "split_name ds = (up, leaf)" by (rule prod.exhaust)
    show ?thesis
    proof (rule add_restored_sel [OF sp, where st = st and ctx = ctx and s = s and e = e])
      fix props
      let ?eff = "effective_mountpoint props (dict_get_or (ps_effective st) up '''') leaf"
      assume rows: "ps_rows (add_restored ctx st ds s e) = ps_rows st @ [(RestoreRow ds (Some s))\<lparr>rs_props := Some props,
         rs_options := receive_options props (dict_get_or (ps_effective st) up '''') leaf, rs_effective := ?eff\<rparr>]"
        and g: "guessed props \<Longrightarrow> map_of (ps_claimed st) ?eff = None
          \<and> ps_claimed (add_restored ctx st ds s e) = dict_set ?eff ds (ps_claimed st)"
        and n: "\<not> guessed props \<Longrightarrow> ps_claimed (add_restored ctx st ds s e) = ps_claimed st"
      show ?thesis
      proof (cases "guessed props")
        case True
        have "rs_effective r \<noteq> ?eff" if "r \<in> set (ps_rows st)" "guess_row r" for r
          using I that g [OF True] by (auto simp: claim_inv_def)
        then show ?thesis using I g [OF True] rows by (auto simp: claim_inv_def)
      next
        case False
        then show ?thesis using I n [OF False] rows by (auto simp: claim_inv_def guess_row_def)
      qed
    qed
  qed
qed



section \<open>The mountpoints are those ZFS gives\<close>

text \<open>Receiving the restored rows in order: each gets what its options say below its parent.\<close>

definition zfs_step :: "(string, string) dict \<Rightarrow> restore_row \<Rightarrow> (string, string) dict" where
  "zfs_step m r =
     (if restored r
      then dict_set (rs_rel r) (zfs_received (rs_options r) (dict_get_or m (fst (split_name (rs_rel r))) '''')
             (snd (split_name (rs_rel r)))) m
      else m)"

definition zfs_tree :: "(string, string) dict \<Rightarrow> restore_row list \<Rightarrow> (string, string) dict" where
  "zfs_tree m rows = foldl zfs_step m rows"

lemma zfs_tree_core: "list_all2 same_core rows rows' \<Longrightarrow> zfs_tree m rows = zfs_tree m rows'"
proof (induction arbitrary: m rule: list_all2_induct)
  case (Cons r rows q rows')
  have "zfs_step m r = zfs_step m q"
    using Cons.hyps(1) same_core_restored [OF Cons.hyps(1)] by (simp add: zfs_step_def same_core_def)
  then show ?case using Cons.IH by (simp add: zfs_tree_def)
qed simp

lemma zfs_tree_snoc: "zfs_tree m (rows @ [r]) = zfs_step (zfs_tree m rows) r"
  by (simp add: zfs_tree_def)

text \<open>What ZFS printed or \<open>zfs-list.cache\<close> holds as a mountpoint; the empty text is a value not recorded.\<close>

definition sane_values :: "mount_values \<Rightarrow> bool" where
  "sane_values vals = list_all (\<lambda>(ds, cm, mp). mp = '''' \<or> zfs_path mp) vals"

lemma sane_valuesD: "sane_values vals \<Longrightarrow> map_of vals ds = Some (cm, mp) \<Longrightarrow> mp = '''' \<or> zfs_path mp"
  by (auto simp: sane_values_def list_all_iff dest!: map_of_SomeD)

lemma slash_path: "CHR ''/'' \<notin> set b \<Longrightarrow> zfs_path (''/'' @ b)"
  by (cases b rule: rev_cases) (auto simp: zfs_path_def)

lemma ubuntu_path: "ubuntu_layout rel be = Some (cm, mp) \<Longrightarrow> zfs_path mp"
proof -
  have "list_all (\<lambda>c. zfs_path (''/'' @ c)) (UBUNTU_ROOT_CHILDREN_OFF @ UBUNTU_ROOT_CHILDREN_ON)" by code_simp
  then have kids: "zfs_path (''/'' @ c)" if "c \<in> set UBUNTU_ROOT_CHILDREN_OFF \<or> c \<in> set UBUNTU_ROOT_CHILDREN_ON" for c
    using that unfolding list_all_iff set_append by blast
  have words: "zfs_path ''/''" "zfs_path ''legacy''" "zfs_path ''/home''" "zfs_path ''/root''" "zfs_path ''/boot''"
    by code_simp+
  assume "ubuntu_layout rel be = Some (cm, mp)"
  then show ?thesis using kids words
    by (simp add: ubuntu_layout_def Let_def split: if_splits) blast+
qed

lemma chosen_path:
  assumes "sane_values zark" and "sane_values cache"
  shows "mp_mountpoint (choose_props rel be zark cache e) = '''' \<or> zfs_path (mp_mountpoint (choose_props rel be zark cache e))"
proof -
  have "zfs_path (''/'' @ join_on ''/'' (tl (split_on CHR ''/'' rel)))" if "length (split_on CHR ''/'' rel) = 2"
  proof -
    from that obtain a b where ab: "split_on CHR ''/'' rel = [a, b]"
      by (auto simp: numeral_2_eq_2 length_Suc_conv)
    then have "CHR ''/'' \<notin> set b" using split_on_no_sep [of b "CHR ''/''" rel] by simp
    then show ?thesis using ab slash_path by simp
  qed
  then show ?thesis
    using sane_valuesD [OF assms(1)] sane_valuesD [OF assms(2)] ubuntu_path
    by (auto simp: choose_props_def Let_def split: option.splits)
qed

definition mount_inv :: "plan_ctx \<Rightarrow> string \<Rightarrow> string list \<Rightarrow> plan_state \<Rightarrow> bool" where
  "mount_inv ctx root seen st =
     (order_inv ctx seen st
      \<and> (\<forall>k \<in> set (known_after CONTAINERS (ps_rows st)). \<exists>v. zfs_path v
           \<and> map_of (zfs_tree (start_effective root) (ps_rows st)) k = Some v \<and> map_of (ps_effective st) k = Some v)
      \<and> (\<forall>r \<in> set (ps_rows st). restored r \<longrightarrow>
           map_of (zfs_tree (start_effective root) (ps_rows st)) (rs_rel r) = Some (rs_effective r)))"

definition sane_name :: "string \<Rightarrow> bool" where
  "sane_name ds = (slashed ds \<and> ds \<notin> set CONTAINERS \<and> snd (split_name ds) \<noteq> '''')"

lemma leaf_no_slash: "CHR ''/'' \<notin> set (snd (split_name ds))"
  by (auto simp: split_name_def rsplit_last_def dest: set_takeWhileD)

lemma known_seen:
  assumes "order_inv ctx seen st" and "ds \<notin> set seen" and "ds \<notin> set CONTAINERS"
  shows "ds \<notin> set (known_after CONTAINERS (ps_rows st))"
  using assms by (auto simp: order_inv_def known_after_def)

lemma mount_snoc:
  assumes I: "mount_inv ctx root seen st" and "order_inv ctx (ds # seen) st'" and fresh: "ds \<notin> set seen" "ds \<notin> set CONTAINERS"
    and rows: "ps_rows st' = ps_rows st @ [row]" and "\<not> restored row"
    and "\<And>k. k \<noteq> ds \<Longrightarrow> map_of (ps_effective st') k = map_of (ps_effective st) k"
  shows "mount_inv ctx root (ds # seen) st'"
proof -
  have "ds \<notin> set (known_after CONTAINERS (ps_rows st))"
    using known_seen [OF conjunct1 [OF I [unfolded mount_inv_def]] fresh] .
  moreover have "zfs_tree m (ps_rows st') = zfs_tree m (ps_rows st)" for m
    by (simp add: rows zfs_tree_snoc zfs_step_def assms(6))
  moreover have "known_after CONTAINERS (ps_rows st') = known_after CONTAINERS (ps_rows st)"
    by (simp add: rows known_after_snoc assms(6))
  ultimately show ?thesis using I assms(2,6,7) rows unfolding mount_inv_def by auto metis
qed


definition sane_ctx :: "plan_ctx \<Rightarrow> bool" where
  "sane_ctx ctx = (sane_values (pc_zark ctx) \<and> sane_values (pc_cache ctx))"

lemma mount_excluded:
  assumes I: "mount_inv ctx root seen st" and "ds \<notin> set seen" and "sane_name ds" and "covers (pc_excluded ctx) ds"
  shows "mount_inv ctx root (ds # seen) (add_excluded ctx st ds)"
proof -
  have order: "order_inv ctx (ds # seen) (add_excluded ctx st ds)"
    using order.excluded_step assms by (auto simp: mount_inv_def sane_name_def)
  show ?thesis
  proof (cases rule: add_excluded_cases [of ctx st ds])
    case new
    then show ?thesis
      using assms by (intro mount_snoc [OF I order]) (auto simp: sane_name_def empty_row_sel)
  next
    case core
    have "map_of (zfs_tree m (ps_rows st)) (rs_rel r) = Some (rs_effective r)"
      if r: "r \<in> set (ps_rows (add_excluded ctx st ds))" "restored r" "m = start_effective root" for r m
    proof -
      obtain q where q: "q \<in> set (ps_rows st)" "same_core q r" using core_mem [OF core(1) r(1)] by blast
      then show ?thesis using I r(2,3) same_core_restored [OF q(2)] by (auto simp: mount_inv_def same_core_def)
    qed
    then show ?thesis
      using I order core(2) zfs_tree_core [OF core(1)] known_after_core [OF core(1)] unfolding mount_inv_def by simp
  qed
qed

lemma mount_restored:
  assumes I: "mount_inv ctx root seen st" and "sane_ctx ctx" and fresh: "ds \<notin> set seen" and nm: "sane_name ds"
    and cov: "\<not> covers (pc_excluded ctx) ds" and up_in: "fst (split_name ds) \<in> set (dict_keys (ps_effective st))"
  shows "mount_inv ctx root (ds # seen) (add_restored ctx st ds s e)"
proof -
  obtain up leaf where sp: "split_name ds = (up, leaf)" by (rule prod.exhaust)
  let ?tree = "zfs_tree (start_effective root) (ps_rows st)" and ?st = "add_restored ctx st ds s e"
  have oi: "order_inv ctx seen st" using I by (simp add: mount_inv_def)
  have order: "order_inv ctx (ds # seen) ?st"
    using order.restored_step [OF oi fresh _ cov up_in] nm by (simp add: sane_name_def)
  have sl: "slashed ds" "ds \<notin> set CONTAINERS" "leaf \<noteq> ''''" using nm sp by (simp_all add: sane_name_def)
  have "under ds up" "up \<noteq> ''''" using split_under [of ds] slashed_parent [OF sl(1)] sp by auto
  then have "up \<notin> set (left_out (pc_excluded ctx))" using not_under_left_out [OF cov] by blast
  then have known: "up \<in> set (known_after CONTAINERS (ps_rows st))"
    using oi up_in sp unfolding order_inv_def by force
  then obtain v where v: "zfs_path v" "map_of ?tree up = Some v" "map_of (ps_effective st) up = Some v"
    using I unfolding mount_inv_def by blast
  have new: "ds \<notin> set (known_after CONTAINERS (ps_rows st))" by (rule known_seen [OF oi fresh sl(2)])
  show ?thesis
  proof (rule add_restored_sel [OF sp, where st = st and ctx = ctx and s = s and e = e])
    fix props
    let ?up = "dict_get_or (ps_effective st) up ''''"
    let ?row = "(RestoreRow ds (Some s))\<lparr>rs_props := Some props, rs_options := receive_options props ?up leaf,
       rs_effective := effective_mountpoint props ?up leaf\<rparr>"
    assume rows: "ps_rows ?st = ps_rows st @ [?row]"
      and eff: "ps_effective ?st = dict_set ds (effective_mountpoint props ?up leaf) (ps_effective st)"
      and mp: "mp_mountpoint props = mp_mountpoint (choose_props ds (pc_be ctx) (pc_zark ctx) (pc_cache ctx) e)"
    have up: "?up = v" "dict_get_or ?tree up '''' = v" using v by (simp_all add: dict_get_or_def)
    have res: "restored ?row" by (simp add: restored_def)
    have path: "zfs_path (effective_mountpoint props v leaf)"
      using chosen_path [of "pc_zark ctx" "pc_cache ctx" ds "pc_be ctx" e] mp assms(2) inherited_zfs [OF v(1)]
        zfs_path_inherited [OF v(1) sl(3)] leaf_no_slash [of ds] sp
      by (auto simp: effective_mountpoint_def sane_ctx_def)
    have tree: "zfs_tree (start_effective root) (ps_rows ?st) = dict_set ds (effective_mountpoint props v leaf) ?tree"
      using received_mountpoint [OF v(1), of props leaf] by (simp add: rows zfs_tree_snoc zfs_step_def restored_def sp up)
    have known': "known_after CONTAINERS (ps_rows ?st) = ds # known_after CONTAINERS (ps_rows st)"
      by (simp add: rows known_after_snoc res)
    have "\<exists>w. zfs_path w \<and> map_of (zfs_tree (start_effective root) (ps_rows ?st)) k = Some w \<and> map_of (ps_effective ?st) k = Some w"
      if "k \<in> set (known_after CONTAINERS (ps_rows ?st))" for k
      using that I path new by (cases "k = ds") (auto simp: known' tree eff up mount_inv_def)
    moreover have "map_of (zfs_tree (start_effective root) (ps_rows ?st)) (rs_rel r) = Some (rs_effective r)"
      if r: "r \<in> set (ps_rows ?st)" "restored r" for r
    proof (cases "r \<in> set (ps_rows st)")
      case True
      then have "rs_rel r \<noteq> ds" using fresh oi by (auto simp: order_inv_def)
      then show ?thesis using True r(2) I by (simp add: tree mount_inv_def)
    next
      case False
      then have "r = ?row" using r rows by simp
      then show ?thesis by (simp add: tree up)
    qed
    ultimately show ?thesis unfolding mount_inv_def using order by blast
  qed
qed

interpretation mount: plan_invariant ctx "\<lambda>seen st. sane_ctx ctx \<longrightarrow> mount_inv ctx root seen st" sane_name for ctx root
proof
  fix seen st ds
  assume I: "sane_ctx ctx \<longrightarrow> mount_inv ctx root seen st" and fresh: "ds \<notin> set seen" and nm: "sane_name ds"
  show "sane_ctx ctx \<longrightarrow> mount_inv ctx root (ds # seen) (add_excluded ctx st ds)" if "covers (pc_excluded ctx) ds"
    using I mount_excluded fresh nm that by blast
  assume cov: "\<not> covers (pc_excluded ctx) ds"
  show "sane_ctx ctx \<longrightarrow> mount_inv ctx root (ds # seen) (note_row st ds found why)" if "why \<noteq> ''''" for why found
  proof
    assume "sane_ctx ctx"
    with I have J: "mount_inv ctx root seen st" by blast
    then have "order_inv ctx (ds # seen) (note_row st ds found why)"
      using order.note_step [of ctx seen st ds why found] fresh nm cov that by (simp add: mount_inv_def sane_name_def)
    then show "mount_inv ctx root (ds # seen) (note_row st ds found why)"
      using J fresh nm that by (intro mount_snoc [OF J]) (auto simp: note_row_def restored_def sane_name_def)
  qed
  show "sane_ctx ctx \<longrightarrow> mount_inv ctx root (ds # seen) (add_restored ctx st ds s e)"
    if "fst (split_name ds) \<in> set (dict_keys (ps_effective st))" for s e
    using I mount_restored fresh nm cov that by blast
qed



section \<open>Properties: the plan\<close>

lemma core_refl [simp]: "same_core r r"
  by (simp add: same_core_def)

lemma core_trans: "same_core r q \<Longrightarrow> same_core q x \<Longrightarrow> same_core r x"
  by (simp add: same_core_def)

lemma returns_plan_base: "returns (plan_base exec pool snaps r) (same_core r)"
  unfolding plan_base_def
  by (auto intro!: returns_return returns_bind_any simp: same_core_def with_base_def split: option.splits prod.splits)

lemma returns_plan_bases: "returns (plan_bases exec pool snaps rows) (list_all2 same_core rows)"
proof (induction rows)
  case (Cons r rows)
  show ?case unfolding plan_bases.simps
    by (rule returns_bind [OF returns_plan_base], rule returns_bind [OF Cons.IH]) (simp add: returns_return)
qed (simp add: returns_return)

lemma set_referenced_core: "same_core r (set_referenced pool refs r)"
  by (simp add: set_referenced_def same_core_def split: option.split)

text \<open>The rows of a plan are those of the loop, up to their sizes and bases.\<close>

lemma returns_finish_plan:
  assumes "returns (plan_loop exec ctx \<lparr>ps_effective = start_effective (fst (rpool_root_mountpoint (pc_cache ctx))),
      ps_claimed = [], ps_rows = [], ps_tops = []\<rparr> wanted :: (('w, 'z) machine_scheme, plan_state) action) P"
  shows "returns (finish_plan exec ctx device wanted hostid :: (('w, 'z) machine_scheme, restore_plan) action)
    (\<lambda>p. rp_rpool_mountpoint p = fst (rpool_root_mountpoint (pc_cache ctx))
       \<and> (\<exists>st. P st \<and> list_all2 same_core (ps_rows st) (rp_rows p)))"
proof -
  obtain root src where root: "rpool_root_mountpoint (pc_cache ctx) = (root, src)" by (rule prod.exhaust)
  have core: "list_all2 same_core (ps_rows st) rows"
    if "list_all2 same_core (map (set_referenced pool refs) (ps_rows st)) rows" for st pool refs rows
    using that by (auto simp: list_all2_conv_all_nth intro: core_trans [OF set_referenced_core])
  show ?thesis
    unfolding finish_plan_def root prod.case
    by (rule returns_bind [OF assms [unfolded root fst_conv]], rule returns_bind_any, rule returns_bind [OF returns_plan_bases],
        rule returns_bind_any, rule returns_return) (simp, blast intro: core)
qed

lemma wanted_names: "distinct (wanted_of types ex be) \<and> list_all slashed (wanted_of types ex be)"
  by (auto simp: wanted_of_def list_all_iff slashed_def startswith_def)

lemma start_order: "order_inv ctx [] \<lparr>ps_effective = start_effective root, ps_claimed = [], ps_rows = [], ps_tops = []\<rparr>"
  by (simp add: order_inv_def start_effective_def CREATED_CONTAINERS_def BPOOL_CONTAINERS_def CONTAINERS_def known_after_def dict_keys_def)

definition plan_safe :: "point_excl \<Rightarrow> restore_row list \<Rightarrow> bool" where
  "plan_safe ex rows =
     (parents_ok CONTAINERS rows
      \<and> (\<forall>r \<in> set rows. rs_snap r \<noteq> None \<longrightarrow> \<not> covers ex (rs_rel r))
      \<and> (\<forall>r \<in> set rows. \<forall>q \<in> set rows. guess_row r \<longrightarrow> guess_row q \<longrightarrow> rs_effective r = rs_effective q \<longrightarrow> rs_rel r = rs_rel q))"

lemma plan_safe_core:
  assumes "list_all2 same_core rows rows'" and "plan_safe ex rows"
  shows "plan_safe ex rows'"
proof -
  have prev: "\<exists>q \<in> set rows. same_core q r \<and> (guess_row q \<longleftrightarrow> guess_row r)" if mem: "r \<in> set rows'" for r
  proof -
    obtain q where q: "q \<in> set rows" "same_core q r" using core_mem [OF assms(1) mem] by blast
    have "guess_row q = guess_row r" using q(2) same_core_restored [OF q(2)] by (simp add: guess_row_def same_core_def)
    with q show ?thesis by blast
  qed
  have "rs_rel r = rs_rel q" if rq: "r \<in> set rows'" "q \<in> set rows'" "guess_row r" "guess_row q" "rs_effective r = rs_effective q" for r q
  proof -
    obtain a b where "a \<in> set rows" "same_core a r" "guess_row a" "b \<in> set rows" "same_core b q" "guess_row b"
      using prev rq by meson
    then show ?thesis using assms(2) rq(5) unfolding plan_safe_def by (metis same_core_def)
  qed
  moreover have "\<not> covers ex (rs_rel r)" if "r \<in> set rows'" "rs_snap r \<noteq> None" for r
    using prev [OF that(1)] that(2) assms(2) unfolding plan_safe_def by (metis same_core_def)
  ultimately show ?thesis using assms parents_ok_core [OF assms(1)] unfolding plan_safe_def by blast
qed

lemma invs_safe: "order_inv ctx seen st \<Longrightarrow> claim_inv seen st \<Longrightarrow> plan_safe (pc_excluded ctx) (ps_rows st)"
  unfolding plan_safe_def order_inv_def claim_inv_def by (metis option.inject)

lemma returns_build_plan:
  assumes fin: "\<And>ctx types hostid. pc_excluded ctx = ex
      \<Longrightarrow> returns (finish_plan exec ctx device (wanted_of types ex be) hostid :: (('w, 'z) machine_scheme, restore_plan) action) P"
  shows "returns (build_plan exec files pool device be point snaps complete ex
      :: (('w, 'z) machine_scheme, py_error + restore_plan) action) (\<lambda>r. case r of Inr p \<Rightarrow> P p | Inl _ \<Rightarrow> True)"
proof -
  have tail: "returns (State_Monad.bind (finish_plan exec ctx device (wanted_of types ex be) hostid
      :: (('w, 'z) machine_scheme, restore_plan) action) (\<lambda>p. State_Monad.return (Inr p)))
      (\<lambda>r. case r of Inr p \<Rightarrow> P p | Inl _ \<Rightarrow> True)" if "pc_excluded ctx = ex" for ctx types hostid
    by (rule returns_bind [OF fin [OF that]]) (simp add: returns_return)
  show ?thesis
    unfolding build_plan_def Let_def
    by (rule returns_bind_any) (auto split: option.split prod.split intro!: returns_return returns_bind_any tail)
qed

text \<open>C29: what \<open>recover\<close> would write is safe before anything is. In every plan a dataset is received only
  below a container or a dataset received before it; nothing the point left out is restored from a
  snapshot; and no two datasets are mounted on one directory by guesswork.\<close>

theorem restore_plan_safe:
  assumes "run_state (build_plan exec files pool device be point snaps complete ex) m = (Inr p, m')"
  shows "plan_safe ex (rp_rows p)"
proof -
  have fin: "returns (finish_plan exec ctx device (wanted_of types ex be) hostid) (\<lambda>p. plan_safe ex (rp_rows p))"
    if "pc_excluded ctx = ex" for ctx types hostid
  proof (rule returns_post [OF returns_finish_plan [OF returns_both]])
    let ?st = "\<lparr>ps_effective = start_effective (fst (rpool_root_mountpoint (pc_cache ctx))), ps_claimed = [], ps_rows = [], ps_tops = []\<rparr>"
    show "returns (plan_loop exec ctx ?st (wanted_of types ex be)) (order_inv ctx (rev (wanted_of types ex be) @ []))"
      using wanted_names [of types ex be] by (intro order.loop_keeps start_order) auto
    show "returns (plan_loop exec ctx ?st (wanted_of types ex be)) (claim_inv (rev (wanted_of types ex be) @ []))"
      using wanted_names [of types ex be] by (intro claim.loop_keeps) (auto simp: claim_inv_def list_all_iff)
  qed (use invs_safe plan_safe_core that in blast)
  show ?thesis using returns_run [OF returns_build_plan [OF fin] assms] by simp
qed


definition ex_drive :: "unit shell" where
  "ex_drive c w =
     (if c = Line ''zfs list -Hp -o name,type -r usb/rpool''
      then \<lparr>rr_returncode = 0, rr_stdout = ''usb/rpool/keep'' @ [CHR 0x09] @ ''filesystem'', rr_stderr = ''''\<rparr>
      else \<lparr>rr_returncode = 1, rr_stdout = '''', rr_stderr = ''''\<rparr>, w)"

definition ex_kept :: snap where
  "ex_kept = \<lparr>s_dataset = ''rpool/keep'', s_name = ''zark_p'', s_guid = ''1'', s_createtxg = 7, s_creation = 9,
     s_source = '''', s_mark = ''''\<rparr>"

definition ex_point_at :: point where
  "ex_point_at = \<lparr>pt_family = ''zark_'', pt_members = [(''rpool/keep'', [ex_kept])], pt_label = 9\<rparr>"

definition ex_plan_excl :: point_excl where
  "ex_plan_excl = \<lparr>pm_tops = [(''rpool/logs'', ''backups'')], pm_datasets = [(''rpool/logs'', ''on'', ''/var/log'')]\<rparr>"

lemma ex_plan_built:
  "case fst (run_state (build_plan ex_drive (\<lambda>_ _. None) ''usb'' ''/dev/sdb1'' ''ubuntu_1'' ex_point_at [ex_kept] None ex_plan_excl)
      (\<lparr>m_world = (), m_issued = []\<rparr> :: unit machine)) of Inl _ \<Rightarrow> False
     | Inr p \<Rightarrow> map (\<lambda>r. (rs_rel r, restored r, rs_effective r)) (rp_rows p) = [(''rpool/keep'', True, ''/keep''), (''rpool/logs'', False, ''/var/log'')]"
  by code_simp


theorem restore_plan_safe_witness:
  "\<exists>p :: restore_plan. map (\<lambda>r. (rs_rel r, restored r, rs_effective r)) (rp_rows p) = [(''rpool/keep'', True, ''/keep''), (''rpool/logs'', False, ''/var/log'')]
     \<and> plan_safe ex_plan_excl (rp_rows p)"
proof -
  let ?run = "run_state (build_plan ex_drive (\<lambda>_ _. None) ''usb'' ''/dev/sdb1'' ''ubuntu_1'' ex_point_at [ex_kept] None ex_plan_excl)
      (\<lparr>m_world = (), m_issued = []\<rparr> :: unit machine)"
  obtain p where p: "fst ?run = Inr p"
    and rows: "map (\<lambda>r. (rs_rel r, restored r, rs_effective r)) (rp_rows p) = [(''rpool/keep'', True, ''/keep''), (''rpool/logs'', False, ''/var/log'')]"
    using ex_plan_built by (auto split: sum.splits)
  from p have "?run = (Inr p, snd ?run)" by (metis prod.collapse)
  from restore_plan_safe [OF this] show ?thesis by (intro exI [of _ p] conjI rows)
qed

lemma root_path: "sane_values cache \<Longrightarrow> zfs_path (fst (rpool_root_mountpoint cache))"
proof -
  have u: "zfs_path UBUNTU_RPOOL_MOUNTPOINT" by code_simp
  assume "sane_values cache"
  then have "snd (dict_get_or cache ''rpool'' ('''', '''')) = '''' \<or> zfs_path (snd (dict_get_or cache ''rpool'' ('''', '''')))"
    using sane_valuesD [of cache "''rpool''"] by (auto simp: dict_get_or_def split: option.split)
  with u show ?thesis by (auto simp: rpool_root_mountpoint_def Let_def)
qed

lemma start_mount:
  assumes "zfs_path root"
  shows "mount_inv ctx root [] \<lparr>ps_effective = start_effective root, ps_claimed = [], ps_rows = [], ps_tops = []\<rparr>"
proof -
  have "list_all (\<lambda>k. case map_of (CREATED_CONTAINERS @ BPOOL_CONTAINERS) k of Some v \<Rightarrow> zfs_path v | None \<Rightarrow> False) (tl CONTAINERS)"
    by code_simp
  moreover have "''rpool'' \<notin> set (tl CONTAINERS)" and "CONTAINERS = ''rpool'' # tl CONTAINERS"
    by (simp_all add: CONTAINERS_def)
  ultimately have rest: "case map_of (CREATED_CONTAINERS @ BPOOL_CONTAINERS) k of Some v \<Rightarrow> zfs_path v | None \<Rightarrow> False"
    if "k \<in> set CONTAINERS" "k \<noteq> ''rpool''" for k
    using that by (metis list_all_iff set_ConsD)
  have "\<exists>v. zfs_path v \<and> map_of (start_effective root) k = Some v" if "k \<in> set CONTAINERS" for k
  proof (cases "k = ''rpool''")
    case False
    then have "map_of (start_effective root) k = map_of (CREATED_CONTAINERS @ BPOOL_CONTAINERS) k"
      by (simp add: start_effective_def)
    with rest [OF that False] show ?thesis by (auto split: option.splits)
  qed (simp add: start_effective_def assms)
  then show ?thesis using start_order [of ctx root] by (simp add: mount_inv_def known_after_def zfs_tree_def)
qed

text \<open>C30: a plan's mountpoints are what ZFS will give. Receive the restored rows in the plan's order, each
  with the options the plan gives it and below the parent the earlier rows made: every dataset then
  has the mountpoint the plan recorded for it.\<close>

theorem plan_mountpoints_refine:
  assumes run: "run_state (finish_plan exec ctx device wanted hostid) m = (p, m')" and sane: "sane_ctx ctx"
    and names: "distinct wanted" "list_all sane_name wanted" and r: "r \<in> set (rp_rows p)" "restored r"
  shows "map_of (zfs_tree (start_effective (rp_rpool_mountpoint p)) (rp_rows p)) (rs_rel r) = Some (rs_effective r)"
proof -
  let ?root = "fst (rpool_root_mountpoint (pc_cache ctx))"
  have start: "mount_inv ctx ?root [] \<lparr>ps_effective = start_effective ?root, ps_claimed = [], ps_rows = [], ps_tops = []\<rparr>"
    using sane by (intro start_mount root_path) (simp add: sane_ctx_def)
  obtain st where I: "mount_inv ctx ?root (rev wanted @ []) st" and core: "list_all2 same_core (ps_rows st) (rp_rows p)"
    and root: "rp_rpool_mountpoint p = ?root"
    using returns_run [OF returns_finish_plan [OF mount.loop_keeps [of ctx ?root "[]" _ wanted]] run] start sane names by auto
  obtain q where q: "q \<in> set (ps_rows st)" "same_core q r" using core_mem [OF core r(1)] by blast
  then have "restored q" "rs_rel q = rs_rel r" "rs_effective q = rs_effective r"
    using same_core_restored [OF q(2)] r(2) by (simp_all add: same_core_def)
  then show ?thesis using I q(1) zfs_tree_core [OF core] unfolding mount_inv_def root by metis
qed


definition ex_plan_ctx :: plan_ctx where
  "ex_plan_ctx = \<lparr>pc_pool = ''usb'', pc_be = ''ubuntu_1'', pc_point = ex_point_at, pc_snaps = [],
     pc_resolved = [(''rpool/keep'', Some ex_kept), (''rpool/keep/in'', Some (ex_kept\<lparr>s_dataset := ''rpool/keep/in''\<rparr>))],
     pc_types = [], pc_zark = [(''rpool/keep'', ''on'', ''/srv'')], pc_cache = [(''rpool/keep/in'', ''on'', '''')],
     pc_excluded = \<lparr>pm_tops = [], pm_datasets = []\<rparr>\<rparr>"

lemma ex_plan_finished:
  "map (\<lambda>r. (rs_rel r, restored r, rs_effective r)) (rp_rows (fst (run_state
      (finish_plan ex_drive ex_plan_ctx ''/dev/sdb1'' [''rpool/keep'', ''rpool/keep/in''] '''')
      (\<lparr>m_world = (), m_issued = []\<rparr> :: unit machine))))
   = [(''rpool/keep'', True, ''/srv''), (''rpool/keep/in'', True, ''/srv/in'')]"
  by code_simp

theorem plan_mountpoints_refine_witness:
  "\<exists>p :: restore_plan. map (\<lambda>r. (rs_rel r, restored r, rs_effective r)) (rp_rows p) = [(''rpool/keep'', True, ''/srv''), (''rpool/keep/in'', True, ''/srv/in'')]
     \<and> list_all (\<lambda>r. map_of (zfs_tree (start_effective (rp_rpool_mountpoint p)) (rp_rows p)) (rs_rel r) = Some (rs_effective r)) (rp_rows p)"
proof -
  let ?run = "run_state (finish_plan ex_drive ex_plan_ctx ''/dev/sdb1'' [''rpool/keep'', ''rpool/keep/in''] '''')
      (\<lparr>m_world = (), m_issued = []\<rparr> :: unit machine)"
  have run: "?run = (fst ?run, snd ?run)" by simp
  have "sane_ctx ex_plan_ctx" "list_all sane_name [''rpool/keep'', ''rpool/keep/in'']" by code_simp+
  note step = plan_mountpoints_refine [OF run this(1) _ this(2)]
  have all: "restored r" if "r \<in> set (rp_rows (fst ?run))" for r
  proof -
    have "(rs_rel r, restored r, rs_effective r) \<in> set (map (\<lambda>r. (rs_rel r, restored r, rs_effective r)) (rp_rows (fst ?run)))"
      using that by force
    then show ?thesis unfolding ex_plan_finished by auto
  qed
  show ?thesis
    by (rule exI [of _ "fst ?run"]) (use ex_plan_finished step all in \<open>simp add: list_all_iff\<close>)
qed

end
