(* ===== verification/Zfs_Features.thy ===== *)
theory Zfs_Features
  imports Shell
begin

text \<open>
  \<open>lib/zfs_features.py\<close>: OpenZFS pool features, what a listing of \<open>zpool import\<close> says this ZFS cannot
  use on a pool, and the check a command makes before it imports a drive. \<open>log.fatal\<close> ends the
  command: the check returns whether it goes on.
\<close>

section \<open>The features\<close>

datatype feature = Feature (ft_name: string) (ft_guid: string) (ft_since: "nat \<times> nat")

definition FEATURES :: "feature list" where
  "FEATURES =
    [Feature ''async_destroy'' ''com.delphix:async_destroy'' (2, 0),
     Feature ''empty_bpobj'' ''com.delphix:empty_bpobj'' (2, 0),
     Feature ''lz4_compress'' ''org.illumos:lz4_compress'' (2, 0),
     Feature ''multi_vdev_crash_dump'' ''com.joyent:multi_vdev_crash_dump'' (2, 0),
     Feature ''spacemap_histogram'' ''com.delphix:spacemap_histogram'' (2, 0),
     Feature ''enabled_txg'' ''com.delphix:enabled_txg'' (2, 0),
     Feature ''hole_birth'' ''com.delphix:hole_birth'' (2, 0),
     Feature ''zpool_checkpoint'' ''com.delphix:zpool_checkpoint'' (2, 0),
     Feature ''spacemap_v2'' ''com.delphix:spacemap_v2'' (2, 0),
     Feature ''extensible_dataset'' ''com.delphix:extensible_dataset'' (2, 0),
     Feature ''bookmarks'' ''com.delphix:bookmarks'' (2, 0),
     Feature ''filesystem_limits'' ''com.joyent:filesystem_limits'' (2, 0),
     Feature ''embedded_data'' ''com.delphix:embedded_data'' (2, 0),
     Feature ''livelist'' ''com.delphix:livelist'' (2, 0),
     Feature ''log_spacemap'' ''com.delphix:log_spacemap'' (2, 0),
     Feature ''large_blocks'' ''org.open-zfs:large_blocks'' (2, 0),
     Feature ''large_dnode'' ''org.zfsonlinux:large_dnode'' (2, 0),
     Feature ''sha512'' ''org.illumos:sha512'' (2, 0),
     Feature ''skein'' ''org.illumos:skein'' (2, 0),
     Feature ''edonr'' ''org.illumos:edonr'' (2, 0),
     Feature ''redaction_bookmarks'' ''com.delphix:redaction_bookmarks'' (2, 0),
     Feature ''redacted_datasets'' ''com.delphix:redacted_datasets'' (2, 0),
     Feature ''bookmark_written'' ''com.delphix:bookmark_written'' (2, 0),
     Feature ''device_removal'' ''com.delphix:device_removal'' (2, 0),
     Feature ''obsolete_counts'' ''com.delphix:obsolete_counts'' (2, 0),
     Feature ''userobj_accounting'' ''org.zfsonlinux:userobj_accounting'' (2, 0),
     Feature ''bookmark_v2'' ''com.datto:bookmark_v2'' (2, 0),
     Feature ''encryption'' ''com.datto:encryption'' (2, 0),
     Feature ''project_quota'' ''org.zfsonlinux:project_quota'' (2, 0),
     Feature ''allocation_classes'' ''org.zfsonlinux:allocation_classes'' (2, 0),
     Feature ''resilver_defer'' ''com.datto:resilver_defer'' (2, 0),
     Feature ''device_rebuild'' ''org.openzfs:device_rebuild'' (2, 0),
     Feature ''zstd_compress'' ''org.freebsd:zstd_compress'' (2, 0),
     Feature ''draid'' ''org.openzfs:draid'' (2, 1),
     Feature ''zilsaxattr'' ''org.openzfs:zilsaxattr'' (2, 2),
     Feature ''head_errlog'' ''com.delphix:head_errlog'' (2, 2),
     Feature ''blake3'' ''org.openzfs:blake3'' (2, 2),
     Feature ''block_cloning'' ''com.fudosecurity:block_cloning'' (2, 2),
     Feature ''block_cloning_endian'' ''com.truenas:block_cloning_endian'' (2, 4),
     Feature ''vdev_zaps_v2'' ''com.klarasystems:vdev_zaps_v2'' (2, 2),
     Feature ''redaction_list_spill'' ''com.delphix:redaction_list_spill'' (2, 3),
     Feature ''raidz_expansion'' ''org.openzfs:raidz_expansion'' (2, 3),
     Feature ''fast_dedup'' ''com.klarasystems:fast_dedup'' (2, 3),
     Feature ''longname'' ''org.zfsonlinux:longname'' (2, 3),
     Feature ''large_microzap'' ''com.klarasystems:large_microzap'' (2, 3),
     Feature ''dynamic_gang_header'' ''com.klarasystems:dynamic_gang_header'' (2, 4),
     Feature ''physical_rewrite'' ''com.truenas:physical_rewrite'' (2, 4)]"

definition BY_GUID :: "(string, feature) dict" where
  "BY_GUID = map (\<lambda>f. (ft_guid f, f)) FEATURES"

text \<open>Python compares tuples from the left.\<close>

definition release_le :: "nat \<times> nat \<Rightarrow> nat \<times> nat \<Rightarrow> bool" where
  "release_le a b = (fst a < fst b \<or> (fst a = fst b \<and> snd a \<le> snd b))"

definition COMPAT_2_2 :: "string list" where
  "COMPAT_2_2 = sort (map ft_name (filter (\<lambda>f. release_le (ft_since f) (2, 2)) FEATURES))"

definition BEYOND_2_2_STREAM :: "string list" where
  "BEYOND_2_2_STREAM = [''longname'', ''large_microzap'']"

definition UNSUP :: string where
  "UNSUP = ''not supported on this system:''"

definition removeprefix :: "string \<Rightarrow> string \<Rightarrow> string" where
  "removeprefix p s = (if startswith s p then drop (length p) s else s)"

text \<open>\<open>(?:zfs-(?:kmod-)?)?(\d+)\.(\d+)\<close> at the start of the text.\<close>

definition release_tuple :: "string \<Rightarrow> nat \<times> nat" where
  "release_tuple version =
     (let v = strip version; s = (if startswith v ''zfs-'' then removeprefix ''kmod-'' (drop 4 v) else v);
          a = takeWhile is_digit s
      in case dropWhile is_digit s of
           c # tail \<Rightarrow>
             (let b = takeWhile is_digit tail
              in if a \<noteq> '''' \<and> c = CHR ''.'' \<and> b \<noteq> '''' then (dec_val a, dec_val b) else (0, 0))
         | [] \<Rightarrow> (0, 0))"

definition release_text :: "nat \<times> nat \<Rightarrow> string" where
  "release_text since =
     (if since = (2, 0) then ''OpenZFS 2.0'' else ''OpenZFS '' @ dec_of_nat (fst since) @ ''.'' @ dec_of_nat (snd since))"


section \<open>Parsing\<close>

text \<open>The loop over the lines of \<open>zpool upgrade -v\<close>; \<open>started\<close> is its flag. \<open>line.split()[0]\<close> of a line
  that does not begin with white space is its text up to the first one.\<close>

fun upgrade_lines :: "bool \<Rightarrow> string list \<Rightarrow> string list" where
  "upgrade_lines started [] = []"
| "upgrade_lines started (l # ls) =
     (if startswith l ''FEAT DESCRIPTION'' then upgrade_lines True ls
      else if \<not> started \<or> strip l = '''' \<or> startswith l ''-'' then upgrade_lines started ls
      else if startswith l ''The following legacy versions'' then []
      else if \<not> is_space (hd l) then takeWhile (\<lambda>c. \<not> is_space c) l # upgrade_lines started ls
      else upgrade_lines started ls)"

definition parse_upgrade_v :: "string \<Rightarrow> string list" where
  "parse_upgrade_v out = upgrade_lines False (split_lines out)"

record unsupported =
  us_pool :: string
  us_read :: bool
  us_guids :: "string list"

text \<open>What the loop carries: the pool being read, whether its status is about reading, whether
  features are being collected, those collected and the pools found.\<close>

record listing =
  ls_pool :: string
  ls_read :: bool
  ls_collecting :: bool
  ls_guids :: "string list"
  ls_out :: "unsupported list"

definition first_word :: "string \<Rightarrow> string" where
  "first_word s = fst (partition_on CHR '' '' s)"

definition listing_line :: "listing \<Rightarrow> string \<Rightarrow> listing" where
  "listing_line st line =
     (let stripped = strip line; tabbed = startswith line [CHR 0x09] in
      if startswith stripped ''pool:'' then
        \<lparr>ls_pool = strip (drop 5 stripped), ls_read = False, ls_collecting = False, ls_guids = [],
         ls_out = (if ls_pool st \<noteq> '''' \<and> ls_guids st \<noteq> []
                   then ls_out st @ [\<lparr>us_pool = ls_pool st, us_read = ls_read st, us_guids = ls_guids st\<rparr>] else ls_out st)\<rparr>
      else if contains line UNSUP then
        st\<lparr>ls_collecting := True, ls_read := contains line ''The pool uses the following feature(s)''\<rparr>
      else if ls_collecting st \<and> tabbed \<and> CHR '':'' \<in> set (first_word stripped) then
        st\<lparr>ls_guids := ls_guids st @ [first_word stripped]\<rparr>
      else if ls_collecting st \<and> \<not> tabbed \<and> stripped \<noteq> '''' then st\<lparr>ls_collecting := False\<rparr>
      else st)"

definition parse_unsupported :: "string \<Rightarrow> unsupported list" where
  "parse_unsupported out =
     ls_out (foldl listing_line \<lparr>ls_pool = '''', ls_read = False, ls_collecting = False, ls_guids = [], ls_out = []\<rparr>
       (split_lines out @ [''  pool: '']))"


section \<open>The check of a drive\<close>

definition describe_feature :: "string \<Rightarrow> string" where
  "describe_feature guid = (case map_of BY_GUID guid of
     None \<Rightarrow> guid @ '' (a feature newer than OpenZFS 2.4)''
   | Some f \<Rightarrow> ft_name f @ '' ('' @ release_text (ft_since f) @ '')'')"

definition release_max :: "nat \<times> nat \<Rightarrow> nat \<times> nat \<Rightarrow> nat \<times> nat" where
  "release_max a b = (if release_le a b then b else a)"

definition known_since :: "string list \<Rightarrow> (nat \<times> nat) list" where
  "known_since guids = List.map_filter (\<lambda>g. map_option ft_since (map_of BY_GUID g)) guids"

definition needed_release :: "string list \<Rightarrow> string" where
  "needed_release guids =
     (if length (known_since guids) < length guids then ''a release newer than OpenZFS 2.4''
      else case known_since guids of [] \<Rightarrow> ''a newer OpenZFS'' | r # rs \<Rightarrow> release_text (foldl release_max r rs))"

definition check_drive :: "'w shell \<Rightarrow> string \<Rightarrow> string \<Rightarrow> bool \<Rightarrow> (('w, 'z) machine_scheme, bool) action" where
  "check_drive exec pool device writing = do {
     r \<leftarrow> run exec (Line (''zpool import -d '' @ quote device));
     case filter (\<lambda>u. us_pool u = pool) (parse_unsupported (rr_stdout r)) of
       [] \<Rightarrow> State_Monad.return True
     | u # _ \<Rightarrow>
         if \<not> us_read u \<and> \<not> writing then State_Monad.return True
         else do { run exec (Line ''zfs version''); State_Monad.return False }
   }"


section \<open>Lemmas\<close>

text \<open>No two features share a name or a GUID, so the table is a dictionary both ways.\<close>

lemma features_distinct: "distinct (map ft_guid FEATURES)" "distinct (map ft_name FEATURES)"
  by code_simp+

text \<open>A drive prepared for OpenZFS 2.2 cannot have the two features its streams would need beyond it.\<close>

lemma beyond_not_in_2_2: "list_all (\<lambda>f. f \<notin> set COMPAT_2_2) BEYOND_2_2_STREAM"
proof -
  have "list_all (\<lambda>f. \<not> (release_le (ft_since f) (2, 2) \<and> ft_name f \<in> set BEYOND_2_2_STREAM)) FEATURES" by code_simp
  then show ?thesis by (auto simp: COMPAT_2_2_def list_all_iff)
qed

text \<open>The release that is named has every feature asked for, and is the release of one of them.\<close>

lemma release_le_trans: "release_le a b \<Longrightarrow> release_le b c \<Longrightarrow> release_le a c"
  by (auto simp: release_le_def)

lemma release_le_total: "release_le a b \<or> release_le b a"
  by (auto simp: release_le_def)

lemma fold_release_max:
  "foldl release_max r rs \<in> set (r # rs) \<and> (\<forall>x \<in> set (r # rs). release_le x (foldl release_max r rs))"
proof (induction rs rule: rev_induct)
  case (snoc x rs)
  define w where "w = foldl release_max r rs"
  have w: "w \<in> set (r # rs)" "\<And>y. y \<in> set (r # rs) \<Longrightarrow> release_le y w" using snoc by (auto simp: w_def)
  have "foldl release_max r (rs @ [x]) = (if release_le w x then x else w)" by (simp add: release_max_def w_def)
  moreover have "release_le y x" if "y \<in> set (r # rs)" "release_le w x" for y using w(2) that release_le_trans by blast
  moreover have "release_le x x" using release_le_total by blast
  moreover have "release_le x w" if "\<not> release_le w x" using that release_le_total by blast
  ultimately show ?case using w by auto
qed (simp add: release_le_def)

end
