(* ===== verification/Pool_Record.thy ===== *)
theory Pool_Record
  imports Exclusions Zfs_Features
begin

text \<open>
  \<open>lib/pool_record.py\<close> and \<open>lib/recover_checks.py\<close>: how origin's pools and an ext4 \<open>/boot\<close> were at a
  point, recorded on its snapshots as one JSON value; reading it back; the points a version of zark
  refuses to recover; and how recover creates a pool as origin had it. \<open>files\<close> maps the world and a
  path to a text, as elsewhere; \<open>None\<close> and a failed check are the exits of \<open>log.fatal\<close>.
\<close>

section \<open>Constants\<close>

definition VERSION :: string where "VERSION = ''2.2.0''"

definition POOLS_PROP :: string where "POOLS_PROP = ''org.zark:pools''"

definition FORMAT :: int where "FORMAT = 1"

definition ORIGIN_POOLS :: "string list" where "ORIGIN_POOLS = [''rpool'', ''bpool'']"

definition MIN_RECOVER_EXT4 :: string where "MIN_RECOVER_EXT4 = ''2.2.0''"

definition ORIGIN_LAYOUT :: string where "ORIGIN_LAYOUT = ''origin-layout''"

definition EXT4_FEATURES :: "string list" where
  "EXT4_FEATURES = [''64bit'', ''dir_index'', ''dir_nlink'', ''ext_attr'', ''extent'', ''extra_isize'', ''filetype'',
     ''flex_bg'', ''has_journal'', ''huge_file'', ''large_file'', ''metadata_csum'', ''metadata_csum_seed'', ''orphan_file'',
     ''resize_inode'', ''sparse_super'']"

definition pools_for :: "layout \<Rightarrow> string list" where
  "pools_for l = (if l = BPOOL then ORIGIN_POOLS else [''rpool''])"

definition ON_STATES :: "string list" where "ON_STATES = [''enabled'', ''active'']"

definition UNKNOWN_STATE :: "(string, string) dict" where
  "UNKNOWN_STATE = [(''inactive'', ''enabled''), (''readonly'', ''active'')]"


section \<open>The record\<close>

record pool_state =
  st_compatibility :: string
  st_features :: "(string, string) dict"

record part_rec =
  pa_size_bytes :: int
  pa_type_guid :: string

record esp_rec =
  es_size_bytes :: int
  es_uuid :: string

record swap_rec =
  sw_size_bytes :: int
  sw_crypttab :: string

record boot_record =
  br_dataset :: string
  br_fstype :: string
  br_uuid :: string
  br_label :: string
  br_size_bytes :: int
  br_features :: "string list"
  br_mount_options :: string
  br_partition :: part_rec
  br_esp :: "esp_rec option"
  br_swap :: "swap_rec option"

record pool_record =
  pr_ubuntu :: string
  pr_zfs :: string
  pr_kmod :: string
  pr_pools :: "(string, pool_state) dict"
  pr_boot :: "boot_record option"
  pr_written_by :: string
  pr_min_recover :: string
  pr_boot_problem :: string

definition layout_of :: "pool_record option \<Rightarrow> layout" where
  "layout_of r = (case r of Some p \<Rightarrow> if pr_boot p \<noteq> None \<or> pr_boot_problem p \<noteq> '''' then EXT4 else BPOOL | None \<Rightarrow> BPOOL)"

definition origin_layout_fields :: "layout \<Rightarrow> (string, string) dict" where
  "origin_layout_fields l = (if l = EXT4 then [(ORIGIN_LAYOUT, ''ext4'')] else [])"

definition mark_origin_layout :: "'w shell \<Rightarrow> string \<Rightarrow> layout \<Rightarrow> (('w, 'z) machine_scheme, bool) action" where
  "mark_origin_layout exec pool l =
     (if origin_layout_fields l = [] then State_Monad.return True
      else write_metadata exec pool (origin_layout_fields l))"

definition point_layout :: "pool_record option \<Rightarrow> snap list \<Rightarrow> string \<Rightarrow> (string, string) dict \<Rightarrow> layout" where
  "point_layout r snaps be meta = (case r of
     Some _ \<Rightarrow> layout_of r
   | None \<Rightarrow> if map_of meta ORIGIN_LAYOUT = Some ''ext4'' \<or> list_ex (\<lambda>s. s_dataset s = boot_copy be) snaps then EXT4 else BPOOL)"

definition get_line :: "pool_state \<Rightarrow> string \<Rightarrow> pool_state" where
  "get_line st line = (case partition_on CHR 0x09 line of (p, _, v0) \<Rightarrow>
     (let v = strip v0 in
      if p = ''compatibility'' then st\<lparr>st_compatibility := (if v = '''' then ''off'' else v)\<rparr>
      else if startswith p ''feature@'' \<and> v \<in> set ON_STATES
        then st\<lparr>st_features := dict_set (drop (length ''feature@'') p) v (st_features st)\<rparr>
      else if startswith p ''unsupported@'' then
        (case map_of UNKNOWN_STATE v of Some s \<Rightarrow> st\<lparr>st_features := dict_set p s (st_features st)\<rparr> | None \<Rightarrow> st)
      else st))"

definition parse_get :: "string \<Rightarrow> pool_state" where
  "parse_get out = foldl get_line \<lparr>st_compatibility = ''off'', st_features = []\<rparr> (split_lines out)"


section \<open>Writing it\<close>

definition part_json :: "part_rec \<Rightarrow> json" where
  "part_json p = JObj [(''size_bytes'', JInt (pa_size_bytes p)), (''type_guid'', JStr (pa_type_guid p))]"

definition boot_json :: "boot_record \<Rightarrow> (string \<times> json) list" where
  "boot_json b =
     [(''layout'', JStr ''ext4''), (''dataset'', JStr (br_dataset b)), (''fstype'', JStr (br_fstype b)),
      (''uuid'', JStr (br_uuid b)), (''label'', JStr (br_label b)), (''size_bytes'', JInt (br_size_bytes b)),
      (''features'', JArr (map JStr (br_features b))), (''mount_options'', JStr (br_mount_options b)),
      (''partition'', part_json (br_partition b))]
     @ (case br_esp b of Some e \<Rightarrow> [(''esp'', JObj [(''size_bytes'', JInt (es_size_bytes e)), (''uuid'', JStr (es_uuid e))])] | None \<Rightarrow> [])
     @ (case br_swap b of Some s \<Rightarrow> [(''swap'', JObj [(''size_bytes'', JInt (sw_size_bytes s)), (''crypttab'', JStr (sw_crypttab s))])]
        | None \<Rightarrow> [])"

definition state_json :: "pool_state \<Rightarrow> json" where
  "state_json p = JObj [(''compatibility'', JStr (st_compatibility p)),
     (''features'', JObj (map (\<lambda>(k, v). (k, JStr v)) (sort_key fst (st_features p))))]"

definition record_json :: "pool_record \<Rightarrow> json" where
  "record_json r = JObj
     ([(''format'', JInt FORMAT), (''ubuntu'', JStr (pr_ubuntu r)), (''zfs'', JStr (pr_zfs r)), (''kmod'', JStr (pr_kmod r)),
       (''pools'', JObj (map (\<lambda>(n, p). (n, state_json p)) (sort_key fst (pr_pools r))))]
      @ (case pr_boot r of Some b \<Rightarrow> [(''boot'', JObj (boot_json b))] | None \<Rightarrow> [])
      @ (if pr_written_by r \<noteq> '''' then [(''written_by'', JStr (pr_written_by r))] else [])
      @ (if pr_min_recover r \<noteq> '''' then [(''min_recover'', JStr (pr_min_recover r))] else []))"

definition dump_record :: "pool_record \<Rightarrow> string" where
  "dump_record r = dumps_compact (record_json r)"

definition os_release_line :: "(string, string) dict \<Rightarrow> string \<Rightarrow> (string, string) dict" where
  "os_release_line out line = (case partition_on CHR ''='' line of
     (k, sep, v) \<Rightarrow> if sep then dict_set (strip k) (rstrip_where (\<lambda>c. c = QUOTE) (dropWhile (\<lambda>c. c = QUOTE) (strip v))) out else out)"

definition ubuntu_release :: "string option \<Rightarrow> string" where
  "ubuntu_release file = (case file of None \<Rightarrow> ''''
     | Some t \<Rightarrow> dict_get_or (foldl os_release_line [] (split_lines t)) ''VERSION_ID'' '''')"

definition lsblk_part :: "'w shell \<Rightarrow> string \<Rightarrow> (('w, 'z) machine_scheme, (int \<times> string \<times> string) option) action" where
  "lsblk_part exec device = do {
     r \<leftarrow> run exec (Line (''lsblk -b -n -d -o SIZE,PARTTYPE,PARTUUID '' @ quote device));
     State_Monad.return (case (if ok r then words_of (rr_output r) else []) of
         a # b # rest \<Rightarrow> if isdigit a then Some (int (dec_val a), lower b, case rest of c # _ \<Rightarrow> lower c | [] \<Rightarrow> '''') else None
       | _ \<Rightarrow> None)
   }"

definition colon_line :: "(string, string) dict \<Rightarrow> string \<Rightarrow> (string, string) dict" where
  "colon_line out line = (case partition_on CHR '':'' line of
     (k, sep, v) \<Rightarrow> if sep then dict_set (strip k) (strip v) out else out)"

definition tune2fs :: "string \<Rightarrow> string list \<times> int" where
  "tune2fs out =
     (let f = foldl colon_line [] (split_lines out); count = dict_get_or f ''Block count'' ''''; size = dict_get_or f ''Block size'' ''''
      in (words_of (dict_get_or f ''Filesystem features'' ''''),
          if isdigit count \<and> isdigit size then int (dec_val count) * int (dec_val size) else 0))"

definition fstab_options :: "string \<Rightarrow> string \<Rightarrow> string" where
  "fstab_options file mountpoint =
     (case find (\<lambda>f. length f \<ge> 4 \<and> \<not> startswith (f ! 0) ''#'' \<and> f ! 1 = mountpoint) (map words_of (split_lines file)) of
        Some f \<Rightarrow> f ! 3 | None \<Rightarrow> '''')"

definition is_swap :: "string list \<Rightarrow> bool" where
  "is_swap f = (length f \<ge> 4 \<and> \<not> startswith (f ! 0) ''#'' \<and> ''swap'' \<in> set (split_on CHR '','' (f ! 3))
     \<and> startswith (f ! 1) ''PARTUUID='')"

definition swap_line :: "string \<Rightarrow> string \<times> string" where
  "swap_line file = (case find (\<lambda>l. is_swap (words_of l)) (split_lines file) of
     Some l \<Rightarrow> (strip l, lower (drop (length ''PARTUUID='') (words_of l ! 1))) | None \<Rightarrow> ('''', ''''))"

definition read_esp :: "'w shell \<Rightarrow> (('w, 'z) machine_scheme, esp_rec option) action" where
  "read_esp exec = do {
     r \<leftarrow> run exec (Line ''findmnt -n -o SOURCE,UUID /boot/efi'');
     case (if ok r then words_of (rr_output r) else []) of
       src # u # _ \<Rightarrow> do {
         p \<leftarrow> lsblk_part exec src;
         State_Monad.return (map_option (\<lambda>(n, _). \<lparr>es_size_bytes = n, es_uuid = u\<rparr>) p)
       }
     | _ \<Rightarrow> State_Monad.return None
   }"

definition read_swap :: "'w shell \<Rightarrow> string \<Rightarrow> (('w, 'z) machine_scheme, swap_rec option) action" where
  "read_swap exec crypttab =
     (case swap_line crypttab of (line, partuuid) \<Rightarrow>
      if partuuid = '''' then State_Monad.return None
      else do {
        p \<leftarrow> lsblk_part exec (''/dev/disk/by-partuuid/'' @ partuuid);
        State_Monad.return (map_option (\<lambda>(n, _). \<lparr>sw_size_bytes = n, sw_crypttab = line\<rparr>) p)
      })"

text \<open>\<open>capture_boot\<close>: \<open>Inl\<close> is \<open>None\<close> with the reason.\<close>

definition no_output :: "run_result \<Rightarrow> string \<Rightarrow> string" where
  "no_output r other = (if strip (rr_stderr r) = '''' then other else strip (rr_stderr r))"

definition text_or_empty :: "string option \<Rightarrow> string" where
  "text_or_empty t = (case t of Some x \<Rightarrow> x | None \<Rightarrow> '''')"

definition boot_of ::
    "'w shell \<Rightarrow> ('w \<Rightarrow> string \<Rightarrow> string option) \<Rightarrow> boot_mount \<Rightarrow> string \<Rightarrow> string list \<Rightarrow> int \<Rightarrow> int \<times> string \<times> string
      \<Rightarrow> (('w, 'z) machine_scheme, boot_record) action" where
  "boot_of exec files mt be features bytes part = do {
     lab \<leftarrow> run exec (Line (''blkid -p -s LABEL -o value '' @ quote (bm_source mt)));
     m \<leftarrow> State_Monad.get;
     let opts = fstab_options (text_or_empty (files (m_world m) ''/etc/fstab'')) ''/boot'';
     esp \<leftarrow> read_esp exec;
     m2 \<leftarrow> State_Monad.get;
     swap \<leftarrow> read_swap exec (text_or_empty (files (m_world m2) ''/etc/crypttab''));
     State_Monad.return \<lparr>br_dataset = boot_copy be, br_fstype = ''ext4'', br_uuid = bm_uuid mt,
       br_label = (if ok lab then strip (rr_output lab) else ''''), br_size_bytes = bytes,
       br_features = filter (\<lambda>f. f \<in> set features) EXT4_FEATURES,
       br_mount_options = (if opts = '''' then ''defaults'' else opts),
       br_partition = \<lparr>pa_size_bytes = fst part, pa_type_guid = fst (snd part)\<rparr>, br_esp = esp, br_swap = swap\<rparr>
   }"

definition capture_boot ::
    "'w shell \<Rightarrow> ('w \<Rightarrow> string \<Rightarrow> string option) \<Rightarrow> (('w, 'z) machine_scheme, string + boot_record) action" where
  "capture_boot exec files = do {
     mount \<leftarrow> read_boot_mount exec;
     case (case mount of Some mt \<Rightarrow> if bm_fstype mt \<noteq> ''ext4'' \<or> bm_uuid mt = '''' then None else Some mt | None \<Rightarrow> None) of
       None \<Rightarrow> State_Monad.return (Inl ''it is not an ext4 mount with a UUID (findmnt /boot)'')
     | Some mt \<Rightarrow> do {
         be \<leftarrow> running_be exec;
         if be = '''' then State_Monad.return (Inl ''the running boot environment is not one of rpool/ROOT (findmnt /)'')
         else do {
           t \<leftarrow> run exec (Line (''tune2fs -l '' @ quote (bm_source mt)));
           if \<not> ok t then State_Monad.return (Inl (''tune2fs -l '' @ bm_source mt @ '': '' @ no_output t ''failed''))
           else do {
             part \<leftarrow> lsblk_part exec (bm_source mt);
             case tune2fs (rr_stdout t) of (features, bytes) \<Rightarrow>
             (case part of
                None \<Rightarrow> State_Monad.return (Inl (''the size of '' @ bm_source mt @ '' (lsblk, tune2fs)''))
              | Some p \<Rightarrow>
                  if bytes = 0 then State_Monad.return (Inl (''the size of '' @ bm_source mt @ '' (lsblk, tune2fs)''))
                  else do { b \<leftarrow> boot_of exec files mt be features bytes p; State_Monad.return (Inr b) })
           }
         }
       }
   }"

text \<open>The states of the pools; \<open>None\<close> when one cannot be read.\<close>

fun pool_states :: "'w shell \<Rightarrow> string list \<Rightarrow> (('w, 'z) machine_scheme, (string, pool_state) dict option) action" where
  "pool_states exec [] = State_Monad.return (Some [])"
| "pool_states exec (p # ps) = do {
     r \<leftarrow> run exec (Line (''zpool get -H -p -o property,value all '' @ quote p));
     if \<not> ok r then State_Monad.return None
     else do { rest \<leftarrow> pool_states exec ps; State_Monad.return (map_option ((#) (p, parse_get (rr_stdout r))) rest) }
   }"

definition first_line :: "(string \<Rightarrow> bool) \<Rightarrow> string list \<Rightarrow> string" where
  "first_line P ls = (case find P ls of Some l \<Rightarrow> l | None \<Rightarrow> '''')"

definition finish_capture ::
    "'w shell \<Rightarrow> ('w \<Rightarrow> string \<Rightarrow> string option) \<Rightarrow> (string, pool_state) dict \<Rightarrow> boot_record option
      \<Rightarrow> (('w, 'z) machine_scheme, string) action" where
  "finish_capture exec files states boot = do {
     zv \<leftarrow> run exec (Line ''zfs version'');
     let ls = (if ok zv then map strip (result_lines zv) else []);
     m \<leftarrow> State_Monad.get;
     State_Monad.return (dump_record
       \<lparr>pr_ubuntu = ubuntu_release (files (m_world m) ''/etc/os-release''),
        pr_zfs = first_line (\<lambda>l. \<not> startswith l ''zfs-kmod-'') ls, pr_kmod = first_line (\<lambda>l. startswith l ''zfs-kmod-'') ls,
        pr_pools = states, pr_boot = boot, pr_written_by = VERSION,
        pr_min_recover = (if boot \<noteq> None then MIN_RECOVER_EXT4 else ''''), pr_boot_problem = ''''\<rparr>)
   }"

definition capture ::
    "'w shell \<Rightarrow> ('w \<Rightarrow> string \<Rightarrow> string option) \<Rightarrow> layout \<Rightarrow> (('w, 'z) machine_scheme, string) action" where
  "capture exec files l = do {
     states \<leftarrow> pool_states exec (pools_for l);
     case states of
       None \<Rightarrow> State_Monad.return ''''
     | Some st \<Rightarrow>
         if l = EXT4 then do {
           b \<leftarrow> capture_boot exec files;
           case b of Inl why \<Rightarrow> State_Monad.return '''' | Inr boot \<Rightarrow> finish_capture exec files st (Some boot)
         }
         else finish_capture exec files st None
   }"

text \<open>Whether a run goes on with the record it captured.\<close>

definition require_record :: "string \<Rightarrow> layout \<Rightarrow> bool" where
  "require_record mark l = (l \<noteq> EXT4 \<or> mark \<noteq> '''')"


section \<open>Reading it back\<close>

text \<open>\<open>json.dumps(v)\<close> with Python's own separators.\<close>

fun dumps_spaced :: "json \<Rightarrow> string" where
  "dumps_spaced (JArr xs) = ''['' @ join_on '', '' (map dumps_spaced xs) @ '']''"
| "dumps_spaced (JObj ms) = ''{'' @ join_on '', '' (map (\<lambda>(k, v). print_string k @ '': '' @ dumps_spaced v) ms) @ ''}''"
| "dumps_spaced v = print_json compact_nl '':'' 0 v"

definition version_text :: "json \<Rightarrow> string" where
  "version_text v = (case v of JStr s \<Rightarrow> s | _ \<Rightarrow> dumps_spaced v)"

definition get_json :: "(string \<times> json) list \<Rightarrow> string \<Rightarrow> json \<Rightarrow> json" where
  "get_json ms k d = dict_get_or ms k d"

definition versions :: "string \<Rightarrow> string \<times> string" where
  "versions value = (case loads value of
     Some (JObj ms) \<Rightarrow> (version_text (get_json ms ''written_by'' (JStr '''')), version_text (get_json ms ''min_recover'' (JStr '''')))
   | _ \<Rightarrow> ('''', ''''))"

definition feature_on :: "string \<times> json \<Rightarrow> (string \<times> string) option" where
  "feature_on row = (case row of (k, JStr v) \<Rightarrow> if v \<in> set ON_STATES then Some (k, v) else None | _ \<Rightarrow> None)"

fun all_some :: "('a \<Rightarrow> 'b option) \<Rightarrow> 'a list \<Rightarrow> 'b list option" where
  "all_some f [] = Some []"
| "all_some f (x # xs) = (case (f x, all_some f xs) of (Some y, Some ys) \<Rightarrow> Some (y # ys) | _ \<Rightarrow> None)"

definition state_of :: "json \<Rightarrow> pool_state option" where
  "state_of v = (case v of
     JObj ms \<Rightarrow>
       (case (map_of ms ''compatibility'', map_of ms ''features'') of
          (Some (JStr c), Some (JObj fs)) \<Rightarrow>
            map_option (\<lambda>feats. \<lparr>st_compatibility = c, st_features = feats\<rparr>) (all_some feature_on fs)
        | _ \<Rightarrow> None)
   | _ \<Rightarrow> None)"


text \<open>A field that is not what it must be raises a \<open>ValueError\<close> with this text.\<close>

type_synonym 'a checked_field = "string + 'a"

definition need :: "'a checked_field \<Rightarrow> ('a \<Rightarrow> 'b checked_field) \<Rightarrow> 'b checked_field" where
  "need x f = (case x of Inl e \<Rightarrow> Inl e | Inr y \<Rightarrow> f y)"

definition str_of :: "json \<Rightarrow> string checked_field" where
  "str_of v = (case v of JStr s \<Rightarrow> Inr s | _ \<Rightarrow> Inl ''a field is not text'')"

definition size_of :: "json \<Rightarrow> int checked_field" where
  "size_of v = (case v of JInt i \<Rightarrow> if i \<le> 0 then Inl ''a size is not a positive integer'' else Inr i
     | _ \<Rightarrow> Inl ''a size is not a positive integer'')"

definition obj_of :: "json \<Rightarrow> (string \<times> json) list checked_field" where
  "obj_of v = (case v of JObj ms \<Rightarrow> Inr ms | _ \<Rightarrow> Inl ''an entry is not an object'')"

definition feature_names_of :: "json \<Rightarrow> string list checked_field" where
  "feature_names_of v = (case v of
     JArr vs \<Rightarrow> (case all_some (\<lambda>x. case x of JStr s \<Rightarrow> Some s | _ \<Rightarrow> None) vs of
                  Some ss \<Rightarrow> Inr ss | None \<Rightarrow> Inl ''features is not a list of names'')
   | _ \<Rightarrow> Inl ''features is not a list of names'')"

definition entry_at :: "(string \<times> json) list \<Rightarrow> string \<Rightarrow> (string \<times> json) list option checked_field" where
  "entry_at b k = (case map_of b k of None \<Rightarrow> Inr None | Some v \<Rightarrow> need (obj_of v) (\<lambda>ms. Inr (Some ms)))"

definition esp_of :: "(string \<times> json) list option \<Rightarrow> esp_rec option checked_field" where
  "esp_of e = (case e of None \<Rightarrow> Inr None
     | Some ms \<Rightarrow> need (size_of (get_json ms ''size_bytes'' JNull)) (\<lambda>n. need (str_of (get_json ms ''uuid'' JNull)) (\<lambda>u.
         Inr (Some \<lparr>es_size_bytes = n, es_uuid = u\<rparr>))))"

definition swap_of :: "(string \<times> json) list option \<Rightarrow> swap_rec option checked_field" where
  "swap_of e = (case e of None \<Rightarrow> Inr None
     | Some ms \<Rightarrow> need (size_of (get_json ms ''size_bytes'' JNull)) (\<lambda>n. need (str_of (get_json ms ''crypttab'' JNull)) (\<lambda>c.
         Inr (Some \<lparr>sw_size_bytes = n, sw_crypttab = c\<rparr>))))"

definition boot_fields ::
    "(string \<times> json) list \<Rightarrow> string list \<Rightarrow> (string \<times> json) list \<Rightarrow> (string \<times> json) list option \<Rightarrow> (string \<times> json) list option
      \<Rightarrow> boot_record option checked_field" where
  "boot_fields b feats part esp swap =
     need (str_of (get_json b ''dataset'' JNull)) (\<lambda>ds.
     need (str_of (get_json b ''uuid'' JNull)) (\<lambda>u.
     need (str_of (get_json b ''label'' (JStr ''''))) (\<lambda>lab.
     need (size_of (get_json b ''size_bytes'' JNull)) (\<lambda>n.
     need (str_of (get_json b ''mount_options'' (JStr ''defaults''))) (\<lambda>opts.
     need (size_of (get_json part ''size_bytes'' JNull)) (\<lambda>pn.
     need (str_of (get_json part ''type_guid'' JNull)) (\<lambda>pt.
     need (esp_of esp) (\<lambda>e.
     need (swap_of swap) (\<lambda>s.
     Inr (Some \<lparr>br_dataset = ds, br_fstype = ''ext4'', br_uuid = u, br_label = lab, br_size_bytes = n, br_features = feats,
       br_mount_options = opts, br_partition = \<lparr>pa_size_bytes = pn, pa_type_guid = pt\<rparr>, br_esp = e, br_swap = s\<rparr>))))))))))"

definition boot_of_json :: "json \<Rightarrow> boot_record option checked_field" where
  "boot_of_json raw =
     need (obj_of raw) (\<lambda>b.
       let l = get_json b ''layout'' JNull in
       if l = JStr ''bpool'' then Inr None
       else if l \<noteq> JStr ''ext4'' \<or> map_of b ''fstype'' \<noteq> Some (JStr ''ext4'')
         then Inl (''layout '' @ repr_json l @ '' is not one this zark recovers'')
       else
         need (feature_names_of (get_json b ''features'' JNull)) (\<lambda>feats.
         need (obj_of (get_json b ''partition'' JNull)) (\<lambda>part.
         need (entry_at b ''esp'') (\<lambda>esp.
         need (entry_at b ''swap'') (\<lambda>swap. boot_fields b feats part esp swap)))))"

text \<open>\<open>data.get("format") != 1\<close>: Python's \<open>True\<close> and \<open>1.0\<close> equal 1.\<close>

definition is_format :: "json \<Rightarrow> bool" where
  "is_format v = (case v of JInt i \<Rightarrow> i = FORMAT | JBool b \<Rightarrow> b | JFloat t \<Rightarrow> t = ''1.0'' | _ \<Rightarrow> False)"

definition named_state :: "string \<times> json \<Rightarrow> (string \<times> pool_state) option" where
  "named_state row = (case row of (n, v) \<Rightarrow> map_option (Pair n) (state_of v))"

definition boot_part :: "(string \<times> json) list \<Rightarrow> boot_record option \<times> string" where
  "boot_part ms = (case map_of ms ''boot'' of None \<Rightarrow> (None, '''')
     | Some v \<Rightarrow> (case boot_of_json v of Inr b \<Rightarrow> (b, '''') | Inl e \<Rightarrow> (None, if e = '''' then ''malformed'' else e)))"

definition parse_record :: "string \<Rightarrow> pool_record option" where
  "parse_record value = (case loads value of
     Some (JObj ms) \<Rightarrow>
       if \<not> is_format (get_json ms ''format'' JNull) then None
       else
         (case (map_of ms ''pools'', get_json ms ''ubuntu'' (JStr ''''), get_json ms ''zfs'' (JStr ''''), get_json ms ''kmod'' (JStr '''')) of
            (Some (JObj raw), JStr u, JStr z, JStr k) \<Rightarrow>
              map_option (\<lambda>pools. \<lparr>pr_ubuntu = u, pr_zfs = z, pr_kmod = k, pr_pools = pools, pr_boot = fst (boot_part ms),
                pr_written_by = fst (versions value), pr_min_recover = snd (versions value),
                pr_boot_problem = snd (boot_part ms)\<rparr>) (all_some named_state raw)
          | _ \<Rightarrow> None)
   | _ \<Rightarrow> None)"


section \<open>Versions\<close>

text \<open>\<open>^(\d+)\.(\d+)\.(\d+)(?:-rc\d+)?$\<close>\<close>

definition zark_version_tuple :: "string \<Rightarrow> (nat \<times> nat \<times> nat) option" where
  "zark_version_tuple version = (case split_on CHR ''.'' (strip version) of
     [a, b, c0] \<Rightarrow>
       (case partition_on CHR ''-'' c0 of (c, sep, rc) \<Rightarrow>
        if isdigit a \<and> isdigit b \<and> isdigit c \<and> (\<not> sep \<or> (startswith rc ''rc'' \<and> isdigit (drop 2 rc)))
        then Some (dec_val a, dec_val b, dec_val c) else None)
   | _ \<Rightarrow> None)"

definition version_le :: "nat \<times> nat \<times> nat \<Rightarrow> nat \<times> nat \<times> nat \<Rightarrow> bool" where
  "version_le v w = (case (v, w) of ((a, b, c), (x, y, z)) \<Rightarrow> a < x \<or> (a = x \<and> (b < y \<or> (b = y \<and> c \<le> z))))"

definition recovers :: "string \<Rightarrow> string \<Rightarrow> bool" where
  "recovers min_recover version =
     (min_recover = ''''
      \<or> (case (zark_version_tuple min_recover, zark_version_tuple version) of
           (Some w, Some have_v) \<Rightarrow> version_le w have_v | _ \<Rightarrow> False))"

datatype read_record = NoRecord | ReadRecord pool_record | RecordError string string

definition record_from :: "string list \<Rightarrow> read_record" where
  "record_from values =
     (case (if length values = 1 then parse_record (hd values) else None) of
        Some r \<Rightarrow> ReadRecord r
      | None \<Rightarrow>
          (let named = map versions (sort values); blocking = filter (\<lambda>v. \<not> recovers (snd v) VERSION) named;
               first_one = hd (if blocking = [] then named else blocking)
           in RecordError (fst first_one) (snd first_one)))"

definition read_pool_record ::
    "'w shell \<Rightarrow> string \<Rightarrow> string \<Rightarrow> snap list \<Rightarrow> (('w, 'z) machine_scheme, read_record) reading" where
  "read_pool_record exec pool point snaps =
     on_read (snapshot_marks exec (pool @ ''/rpool'') True POOLS_PROP) (\<lambda>marks.
       let values = remdups (List.map_filter (\<lambda>s. map_of marks (pool @ ''/'' @ stored s @ ''@'' @ s_name s))
             (filter (\<lambda>s. s_name s = point) snaps))
       in State_Monad.return (Inr (if values = [] then NoRecord else record_from values)))"



section \<open>What recover refuses\<close>

text \<open>\<open>lib/recover_checks.py\<close>: each check returns whether recover goes on; nothing was erased yet.\<close>

definition refuse_min_recover :: "string \<Rightarrow> bool" where
  "refuse_min_recover min_recover = recovers min_recover VERSION"

definition refuse_unrecoverable :: "pool_record option \<Rightarrow> layout \<Rightarrow> bool" where
  "refuse_unrecoverable r l = (case r of
     None \<Rightarrow> l \<noteq> EXT4
   | Some p \<Rightarrow> refuse_min_recover (pr_min_recover p) \<and> \<not> (l = EXT4 \<and> pr_boot p = None))"

text \<open>\<open>refuse_unreadable\<close> never returns; with a record that is there but unreadable recover stops.\<close>

definition may_recover :: "read_record \<Rightarrow> snap list \<Rightarrow> string \<Rightarrow> (string, string) dict \<Rightarrow> bool" where
  "may_recover r snaps be meta = (case r of
     RecordError _ _ \<Rightarrow> False
   | NoRecord \<Rightarrow> refuse_unrecoverable None (point_layout None snaps be meta)
   | ReadRecord p \<Rightarrow> refuse_unrecoverable (Some p) (point_layout (Some p) snaps be meta))"


section \<open>Creating a pool as origin had it\<close>

definition describe_pool :: "pool_record \<Rightarrow> string \<Rightarrow> string" where
  "describe_pool r pool =
     (let n = (case map_of (pr_pools r) pool of Some p \<Rightarrow> length (st_features p) | None \<Rightarrow> 0);
          ran = join_on '', '' (filter (\<lambda>x. x \<noteq> '''')
            [if pr_ubuntu r \<noteq> '''' then ''Ubuntu '' @ pr_ubuntu r else '''',
             if pr_zfs r \<noteq> '''' then ''OpenZFS '' @ removeprefix ''zfs-'' (pr_zfs r) else '''',
             if pr_kmod r \<noteq> '''' then ''module '' @ removeprefix ''zfs-kmod-'' (pr_kmod r) else ''''])
      in pool @ '': '' @ dec_of_nat n @ '' feature(s) as origin had them'' @ (if ran \<noteq> '''' then '' ('' @ ran @ '')'' else ''''))"

record create_plan =
  cr_features :: "string list"
  cr_compatibility :: string
  cr_lacking_active :: "string list"
  cr_lacking_enabled :: "string list"
  cr_compat_missing :: string

definition create_options :: "create_plan \<Rightarrow> string" where
  "create_options c = join_on '' '' ([''-d''] @ map (\<lambda>f. ''-o feature@'' @ f @ ''=enabled'') (cr_features c)
     @ (if cr_compatibility c \<noteq> '''' then [''-o compatibility='' @ quote (cr_compatibility c)] else []))"

definition NEEDS_FEATURE :: "(string, string) dict" where
  "NEEDS_FEATURE = [(''compression=lz4'', ''lz4_compress''), (''dnodesize=auto'', ''large_dnode'')]"

definition root_options :: "create_plan option \<Rightarrow> string list \<Rightarrow> string \<times> string list" where
  "root_options spec ps =
     (let left = filter (\<lambda>p. case (spec, map_of NEEDS_FEATURE p) of (Some c, Some f) \<Rightarrow> f \<notin> set (cr_features c) | _ \<Rightarrow> False) ps
      in (join_on '' '' (map (\<lambda>p. ''-O '' @ p) (filter (\<lambda>p. p \<notin> set left) ps)), left))"

definition feature_name :: "string \<Rightarrow> string" where
  "feature_name key =
     (if startswith key ''unsupported@''
      then case map_of BY_GUID (drop (length ''unsupported@'') key) of Some f \<Rightarrow> ft_name f | None \<Rightarrow> key
      else key)"

definition COMPAT_DIRS :: "string list" where
  "COMPAT_DIRS = [''/etc/zfs/compatibility.d'', ''/usr/share/zfs/compatibility.d'']"

definition compat_installed :: "(string \<Rightarrow> bool) \<Rightarrow> string \<Rightarrow> bool" where
  "compat_installed is_file value =
     (let names = filter (\<lambda>n. n \<noteq> '''') (split_on CHR '','' value)
      in names \<noteq> [] \<and> list_all (\<lambda>n. list_ex (\<lambda>d. is_file (d @ ''/'' @ n)) COMPAT_DIRS) names)"

definition create_spec :: "(string \<Rightarrow> bool) \<Rightarrow> pool_state \<Rightarrow> string list \<Rightarrow> create_plan" where
  "create_spec is_file state known =
     (let feats = map (\<lambda>(k, s). (feature_name k, s)) (sort_key fst (st_features state));
          compat = (if st_compatibility state \<in> {'''', ''off''} then '''' else st_compatibility state);
          present = (if compat = ''legacy'' \<or> (compat \<noteq> '''' \<and> compat_installed is_file compat) then compat else '''')
      in \<lparr>cr_features = map fst (filter (\<lambda>(n, s). n \<in> set known) feats),
          cr_compatibility = present,
          cr_lacking_active = map fst (filter (\<lambda>(n, s). n \<notin> set known \<and> s = ''active'') feats),
          cr_lacking_enabled = map fst (filter (\<lambda>(n, s). n \<notin> set known \<and> s \<noteq> ''active'') feats),
          cr_compat_missing = (if compat \<noteq> '''' \<and> present = '''' then compat else '''')\<rparr>)"


section \<open>Lemmas: the text of a record\<close>

definition small_int :: "int \<Rightarrow> bool" where
  "small_int i = (0 < i \<and> length (dec_of_nat (nat \<bar>i\<bar>)) \<le> MAX_INT_DIGITS)"

text \<open>What a run records: sizes that were read, states that are on, each name once.\<close>

definition wf_state :: "pool_state \<Rightarrow> bool" where
  "wf_state p = (wf_dict (st_features p) \<and> list_all (\<lambda>(k, v). v \<in> set ON_STATES) (st_features p))"

definition wf_boot :: "boot_record \<Rightarrow> bool" where
  "wf_boot b = (br_fstype b = ''ext4'' \<and> small_int (br_size_bytes b) \<and> small_int (pa_size_bytes (br_partition b))
     \<and> (case br_esp b of Some e \<Rightarrow> small_int (es_size_bytes e) | None \<Rightarrow> True)
     \<and> (case br_swap b of Some s \<Rightarrow> small_int (sw_size_bytes s) | None \<Rightarrow> True))"

definition wf_record :: "pool_record \<Rightarrow> bool" where
  "wf_record r = (wf_dict (pr_pools r) \<and> list_all (\<lambda>(n, p). wf_state p) (pr_pools r)
     \<and> (case pr_boot r of Some b \<Rightarrow> wf_boot b | None \<Rightarrow> True) \<and> pr_boot_problem r = '''')"

definition sorted_state :: "pool_state \<Rightarrow> pool_state" where
  "sorted_state p = p\<lparr>st_features := sort_key fst (st_features p)\<rparr>"

definition sorted_record :: "pool_record \<Rightarrow> pool_record" where
  "sorted_record r = r\<lparr>pr_pools := map (\<lambda>(n, p). (n, sorted_state p)) (sort_key fst (pr_pools r))\<rparr>"


lemma map_of_sorted:
  "wf_dict ms \<Longrightarrow> map_of (sort_key fst (map (\<lambda>(k, v). (k, sort_keys v)) ms)) k = map_option sort_keys (map_of ms k)"
proof -
  assume "wf_dict ms"
  then have "wf_dict (map (\<lambda>(k, v). (k, sort_keys v)) ms)" by (simp add: wf_dict_def dict_keys_def comp_def split_def)
  then show ?thesis by (simp add: map_of_map)
qed

lemma get_sorted:
  "wf_dict ms \<Longrightarrow> get_json (sort_key fst (map (\<lambda>(k, v). (k, sort_keys v)) ms)) k d
     = (case map_of ms k of Some v \<Rightarrow> sort_keys v | None \<Rightarrow> d)"
  by (simp add: get_json_def dict_get_or_def map_of_sorted split: option.split)

lemma all_some_map: "(\<And>x. x \<in> set xs \<Longrightarrow> f (g x) = Some (h x)) \<Longrightarrow> all_some f (map g xs) = Some (map h xs)"
  by (induction xs) auto

lemma wf_boot_json: "wf_dict (boot_json b)"
  by (simp add: boot_json_def wf_dict_def dict_keys_def split: option.split)

lemma size_of_small: "small_int i \<Longrightarrow> size_of (JInt i) = Inr i"
  by (simp add: small_int_def size_of_def)

lemma wf_pair: "a \<noteq> b \<Longrightarrow> wf_dict [(a, x), (b, y)]"
  by (simp add: wf_dict_def dict_keys_def)

lemma names_sorted: "feature_names_of (sort_keys (JArr (map JStr fs))) = Inr fs"
proof -
  have "all_some (\<lambda>x. case x of JStr s \<Rightarrow> Some s | _ \<Rightarrow> None) (map JStr fs) = Some (map id fs)"
    by (rule all_some_map) simp
  then show ?thesis by (simp add: feature_names_of_def comp_def)
qed

lemma boot_lookup:
  "map_of (boot_json b) ''layout'' = Some (JStr ''ext4'')" "map_of (boot_json b) ''dataset'' = Some (JStr (br_dataset b))"
  "map_of (boot_json b) ''fstype'' = Some (JStr (br_fstype b))" "map_of (boot_json b) ''uuid'' = Some (JStr (br_uuid b))"
  "map_of (boot_json b) ''label'' = Some (JStr (br_label b))" "map_of (boot_json b) ''size_bytes'' = Some (JInt (br_size_bytes b))"
  "map_of (boot_json b) ''features'' = Some (JArr (map JStr (br_features b)))"
  "map_of (boot_json b) ''mount_options'' = Some (JStr (br_mount_options b))"
  "map_of (boot_json b) ''partition'' = Some (part_json (br_partition b))"
  by (simp_all add: boot_json_def)

lemma boot_lookup_opt:
  "map_of (boot_json b) ''esp'' = map_option (\<lambda>e. JObj [(''size_bytes'', JInt (es_size_bytes e)), (''uuid'', JStr (es_uuid e))]) (br_esp b)"
  "map_of (boot_json b) ''swap'' = map_option (\<lambda>s. JObj [(''size_bytes'', JInt (sw_size_bytes s)), (''crypttab'', JStr (sw_crypttab s))]) (br_swap b)"
  by (simp_all add: boot_json_def split: option.split)

text \<open>An object of a number and a text, sorted and looked up.\<close>

lemma pair_sorted:
  assumes "a \<noteq> b"
  obtains ps where "sort_keys (JObj [(a, JInt i), (b, JStr s)]) = JObj ps" "map_of ps a = Some (JInt i)" "map_of ps b = Some (JStr s)"
proof (rule that)
  show "sort_keys (JObj [(a, JInt i), (b, JStr s)]) = JObj (sort_key fst [(a, JInt i), (b, JStr s)])" by simp
  have "map_of (sort_key fst [(a, JInt i), (b, JStr s)]) = map_of [(a, JInt i), (b, JStr s)]"
    by (rule map_of_sort [OF wf_pair [OF assms]])
  then show "map_of (sort_key fst [(a, JInt i), (b, JStr s)]) a = Some (JInt i)"
    "map_of (sort_key fst [(a, JInt i), (b, JStr s)]) b = Some (JStr s)"
    using assms by simp_all
qed

lemma get_json_some: "map_of ms k = Some v \<Longrightarrow> get_json ms k d = v"
  by (simp add: get_json_def dict_get_or_def)

lemma esp_round:
  assumes "small_int n"
  shows "need (obj_of (sort_keys (JObj [(''size_bytes'', JInt n), (''uuid'', JStr u)]))) (\<lambda>ms. need (Inr (Some ms)) esp_of)
    = Inr (Some \<lparr>es_size_bytes = n, es_uuid = u\<rparr>)"
proof -
  have ne: "''size_bytes'' \<noteq> (''uuid'' :: string)" by simp
  obtain ps where "sort_keys (JObj [(''size_bytes'', JInt n), (''uuid'', JStr u)]) = JObj ps"
    "map_of ps ''size_bytes'' = Some (JInt n)" "map_of ps ''uuid'' = Some (JStr u)" by (rule pair_sorted [OF ne])
  then show ?thesis
    by (simp add: obj_of_def need_def esp_of_def get_json_some size_of_small [OF assms] str_of_def del: sort_keys.simps)
qed

lemma swap_round:
  assumes "small_int n"
  shows "need (obj_of (sort_keys (JObj [(''size_bytes'', JInt n), (''crypttab'', JStr u)]))) (\<lambda>ms. need (Inr (Some ms)) swap_of)
    = Inr (Some \<lparr>sw_size_bytes = n, sw_crypttab = u\<rparr>)"
proof -
  have ne: "''size_bytes'' \<noteq> (''crypttab'' :: string)" by simp
  obtain ps where "sort_keys (JObj [(''size_bytes'', JInt n), (''crypttab'', JStr u)]) = JObj ps"
    "map_of ps ''size_bytes'' = Some (JInt n)" "map_of ps ''crypttab'' = Some (JStr u)" by (rule pair_sorted [OF ne])
  then show ?thesis
    by (simp add: obj_of_def need_def swap_of_def get_json_some size_of_small [OF assms] str_of_def del: sort_keys.simps)
qed

lemma need_cases: "need x f = Inr y \<longleftrightarrow> (\<exists>a. x = Inr a \<and> f a = Inr y)"
  by (cases x) (simp_all add: need_def)

lemma boot_round:
  assumes "wf_boot b"
  shows "boot_of_json (sort_keys (JObj (boot_json b))) = Inr (Some b)"
proof -
  define ms where "ms = sort_key fst (map (\<lambda>(k, v). (k, sort_keys v)) (boot_json b))"
  have sk: "sort_keys (JObj (boot_json b)) = JObj ms" by (simp add: ms_def)
  have look: "map_of ms k = Some (sort_keys v)" if "map_of (boot_json b) k = Some v" for k v
    using map_of_sorted [OF wf_boot_json [of b], folded ms_def, of k] that by simp
  have no: "map_of ms k = None" if "map_of (boot_json b) k = None" for k
    using map_of_sorted [OF wf_boot_json [of b], folded ms_def, of k] that by simp
  note at = boot_lookup [of b, THEN look] and get = boot_lookup [of b, THEN look, THEN get_json_some]
  have ne: "''size_bytes'' \<noteq> (''type_guid'' :: string)" by simp
  obtain ps where p: "sort_keys (part_json (br_partition b)) = JObj ps"
    "map_of ps ''size_bytes'' = Some (JInt (pa_size_bytes (br_partition b)))"
    "map_of ps ''type_guid'' = Some (JStr (pa_type_guid (br_partition b)))"
    unfolding part_json_def by (rule pair_sorted [OF ne])
  note ps = p(1) get_json_some [OF p(2)] get_json_some [OF p(3)]
  have wf: "br_fstype b = ''ext4''" "small_int (br_size_bytes b)" "small_int (pa_size_bytes (br_partition b))"
    using assms by (simp_all add: wf_boot_def)
  have esp: "\<exists>e. entry_at ms ''esp'' = Inr e \<and> esp_of e = Inr (br_esp b)"
  proof (cases "br_esp b")
    case None
    then show ?thesis using no boot_lookup_opt(1) [of b] by (simp add: entry_at_def esp_of_def)
  next
    case (Some e)
    then have "map_of ms ''esp'' = Some (sort_keys (JObj [(''size_bytes'', JInt (es_size_bytes e)), (''uuid'', JStr (es_uuid e))]))"
      using look boot_lookup_opt(1) [of b] by simp
    with Some assms esp_round [of "es_size_bytes e" "es_uuid e"] show ?thesis
      by (auto simp: entry_at_def wf_boot_def need_cases)
  qed
  have swap: "\<exists>e. entry_at ms ''swap'' = Inr e \<and> swap_of e = Inr (br_swap b)"
  proof (cases "br_swap b")
    case None
    then show ?thesis using no boot_lookup_opt(2) [of b] by (simp add: entry_at_def swap_of_def)
  next
    case (Some e)
    then have "map_of ms ''swap'' = Some (sort_keys (JObj [(''size_bytes'', JInt (sw_size_bytes e)), (''crypttab'', JStr (sw_crypttab e))]))"
      using look boot_lookup_opt(2) [of b] by simp
    with Some assms swap_round [of "sw_size_bytes e" "sw_crypttab e"] show ?thesis
      by (auto simp: entry_at_def wf_boot_def need_cases)
  qed
  obtain e s where es: "entry_at ms ''esp'' = Inr e" "esp_of e = Inr (br_esp b)" "entry_at ms ''swap'' = Inr s" "swap_of s = Inr (br_swap b)"
    using esp swap by blast
  have "boot_fields ms (br_features b) ps e s = Inr (Some b)"
    unfolding boot_fields_def need_cases
    using get ps(2,3) es(2,4) wf by (simp add: str_of_def size_of_small)
  then show ?thesis
    unfolding boot_of_json_def sk Let_def using at get ps(1) es names_sorted wf
    by (simp add: obj_of_def need_def)
qed


lemma sort_keys_sorted:
  assumes "map (\<lambda>(k, v). (k, sort_keys v)) ms = ms'" and "sorted (map fst ms')"
  shows "sort_keys (JObj ms) = JObj ms'"
  using sort_key_id_if_sorted [OF assms(2)] by (simp only: sort_keys.simps assms(1))

lemma features_sorted:
  "sort_keys (JObj (map (\<lambda>(k, v). (k, JStr v)) (sort_key fst fs))) = JObj (map (\<lambda>(k, v). (k, JStr v)) (sort_key fst fs))"
proof -
  let ?F = "map (\<lambda>(k, v). (k, JStr v)) (sort_key fst fs)"
  have "map (\<lambda>(k, v). (k, sort_keys v)) ?F = ?F" by auto
  moreover have "sorted (map fst ?F)"
    using sorted_sort_key [of fst fs] by (simp add: comp_def split_def)
  ultimately show ?thesis by (rule sort_keys_sorted)
qed

lemma wf_state_json: "wf_dict [(''compatibility'', a), (''features'', b)]"
  by (simp add: wf_dict_def dict_keys_def)

lemma state_round: "wf_state p \<Longrightarrow> state_of (sort_keys (state_json p)) = Some (sorted_state p)"
proof -
  assume wf: "wf_state p"
  let ?fs = "sort_key fst (st_features p)"
  let ?ms = "[(''compatibility'', JStr (st_compatibility p)), (''features'', JObj (map (\<lambda>(k, v). (k, JStr v)) ?fs))]"
  define ms where "ms = sort_key fst (map (\<lambda>(k, v). (k, sort_keys v)) ?ms)"
  have sk: "sort_keys (state_json p) = JObj ms" by (simp only: state_json_def sort_keys.simps ms_def)
  have look: "map_of ms ''compatibility'' = Some (JStr (st_compatibility p))"
    "map_of ms ''features'' = Some (JObj (map (\<lambda>(k, v). (k, JStr v)) ?fs))"
    unfolding ms_def by (simp_all add: map_of_sorted [OF wf_state_json] features_sorted del: sort_key_simps list.map sort_keys.simps(2))
  have "all_some feature_on (map (\<lambda>(k, v). (k, JStr v)) ?fs) = Some (map id ?fs)"
    using wf by (intro all_some_map) (auto simp: feature_on_def wf_state_def list_all_iff)
  then show ?thesis by (simp add: sk state_of_def look sorted_state_def)
qed

lemma pools_round:
  assumes "list_all (\<lambda>(n, p). wf_state p) ps"
  shows "\<exists>raw. sort_keys (JObj (map (\<lambda>(n, p). (n, state_json p)) (sort_key fst ps))) = JObj raw
    \<and> all_some named_state raw = Some (map (\<lambda>(n, p). (n, sorted_state p)) (sort_key fst ps))"
proof -
  let ?raw = "map (\<lambda>(n, p). (n, sort_keys (state_json p))) (sort_key fst ps)"
  have "map (\<lambda>(k, v). (k, sort_keys v)) (map (\<lambda>(n, p). (n, state_json p)) (sort_key fst ps)) = ?raw" by auto
  moreover have "sorted (map fst ?raw)" using sorted_sort_key [of fst ps] by (simp add: comp_def split_def)
  ultimately have "sort_keys (JObj (map (\<lambda>(n, p). (n, state_json p)) (sort_key fst ps))) = JObj ?raw"
    by (rule sort_keys_sorted)
  moreover have "all_some named_state ?raw = Some (map (\<lambda>(n, p). (n, sorted_state p)) (sort_key fst ps))"
    using assms by (intro all_some_map) (auto simp: named_state_def list_all_iff state_round)
  ultimately show ?thesis by blast
qed

lemma plain_state: "wf_state p \<Longrightarrow> plain_json (state_json p)"
proof -
  assume wf: "wf_state p"
  have "dict_keys (map (\<lambda>(k, v). (k, JStr v)) (sort_key fst (st_features p))) = dict_keys (sort_key fst (st_features p))"
    by (auto simp: dict_keys_def)
  moreover have "wf_dict (sort_key fst (st_features p))" using wf by (simp add: wf_state_def)
  ultimately have "plain_json (JObj (map (\<lambda>(k, v). (k, JStr v)) (sort_key fst (st_features p))))"
    by (auto simp: list_all_iff wf_dict_def)
  then show ?thesis using wf_state_json by (simp add: state_json_def del: plain_json.simps(4)) (simp add: wf_state_json)
qed

lemma plain_boot: "wf_boot b \<Longrightarrow> plain_json (JObj (boot_json b))"
  using wf_boot_json [of b]
  by (auto simp: boot_json_def part_json_def wf_pair wf_boot_def small_int_def list_all_iff split: option.splits)

definition record_rows :: "pool_record \<Rightarrow> (string \<times> json) list" where
  "record_rows r = (case record_json r of JObj ms \<Rightarrow> ms | _ \<Rightarrow> [])"

lemma record_rows: "record_json r = JObj (record_rows r)"
  by (simp add: record_rows_def record_json_def)

lemma wf_record_rows: "wf_dict (record_rows r)"
  by (simp add: record_rows_def record_json_def wf_dict_def dict_keys_def split: option.split)

lemma record_lookup:
  "map_of (record_rows r) ''format'' = Some (JInt FORMAT)" "map_of (record_rows r) ''ubuntu'' = Some (JStr (pr_ubuntu r))"
  "map_of (record_rows r) ''zfs'' = Some (JStr (pr_zfs r))" "map_of (record_rows r) ''kmod'' = Some (JStr (pr_kmod r))"
  "map_of (record_rows r) ''pools'' = Some (JObj (map (\<lambda>(n, p). (n, state_json p)) (sort_key fst (pr_pools r))))"
  "map_of (record_rows r) ''boot'' = map_option (\<lambda>b. JObj (boot_json b)) (pr_boot r)"
  "map_of (record_rows r) ''written_by'' = (if pr_written_by r = '''' then None else Some (JStr (pr_written_by r)))"
  "map_of (record_rows r) ''min_recover'' = (if pr_min_recover r = '''' then None else Some (JStr (pr_min_recover r)))"
  by (simp_all add: record_rows_def record_json_def split: option.split)

lemma plain_record:
  assumes "wf_record r"
  shows "plain_json (record_json r)"
proof -
  have "dict_keys (map (\<lambda>(n, p). (n, state_json p)) (sort_key fst (pr_pools r))) = dict_keys (sort_key fst (pr_pools r))"
    by (auto simp: dict_keys_def)
  moreover have "wf_dict (sort_key fst (pr_pools r))" using assms by (simp add: wf_record_def)
  ultimately have "plain_json (JObj (map (\<lambda>(n, p). (n, state_json p)) (sort_key fst (pr_pools r))))"
    using assms plain_state by (auto simp: wf_dict_def wf_record_def list_all_iff)
  moreover have "small_int FORMAT" by (simp add: FORMAT_def small_int_def MAX_INT_DIGITS_def dec_of_nat.simps)
  ultimately show ?thesis
    using wf_record_rows [of r] assms plain_boot
    by (auto simp: record_rows_def record_json_def wf_record_def small_int_def simp del: plain_json.simps(4)
        split: option.splits intro!: plain_json.simps(4) [THEN iffD2])
qed



section \<open>Properties\<close>

lemma record_round:
  assumes wf: "wf_record r"
  shows "parse_record (dump_record r) = Some (sorted_record r)"
proof -
  define ms where "ms = sort_key fst (map (\<lambda>(k, v). (k, sort_keys v)) (record_rows r))"
  have loads: "loads (dump_record r) = Some (JObj ms)"
    using loads_compact [OF plain_record [OF wf]] unfolding dump_record_def record_rows by (simp add: ms_def)
  have at: "map_of ms k = map_option sort_keys (map_of (record_rows r) k)" for k
    unfolding ms_def by (rule map_of_sorted [OF wf_record_rows])
  have get: "get_json ms k d = (case map_of (record_rows r) k of Some v \<Rightarrow> sort_keys v | None \<Rightarrow> d)" for k d
    unfolding ms_def by (rule get_sorted [OF wf_record_rows])
  obtain raw where raw: "sort_keys (JObj (map (\<lambda>(n, p). (n, state_json p)) (sort_key fst (pr_pools r)))) = JObj raw"
    "all_some named_state raw = Some (map (\<lambda>(n, p). (n, sorted_state p)) (sort_key fst (pr_pools r)))"
    using pools_round [of "pr_pools r"] wf by (auto simp: wf_record_def)
  have pools: "map_of ms ''pools'' = Some (JObj raw)" by (simp add: at record_lookup raw(1) del: sort_keys.simps)
  have boot: "boot_part ms = (pr_boot r, '''')"
  proof (cases "pr_boot r")
    case (Some b)
    then have "wf_boot b" using wf by (simp add: wf_record_def)
    with Some show ?thesis by (simp add: boot_part_def at record_lookup boot_round del: sort_keys.simps)
  qed (simp add: boot_part_def at record_lookup)
  have vers: "versions (dump_record r) = (pr_written_by r, pr_min_recover r)"
    by (simp add: versions_def loads get record_lookup version_text_def)
  have "is_format (get_json ms ''format'' JNull)" by (simp add: get record_lookup is_format_def)
  then show ?thesis
    using wf by (simp add: parse_record_def loads pools get record_lookup raw(2) boot vers sorted_record_def wf_record_def)
qed

lemma wf_get_line: "wf_state st \<Longrightarrow> wf_state (get_line st line)"
proof -
  assume wf: "wf_state st"
  have "v \<in> set ON_STATES" if "map_of UNKNOWN_STATE x = Some v" for x v
    using that by (auto simp: UNKNOWN_STATE_def ON_STATES_def split: if_splits)
  then show ?thesis
    using wf by (auto simp: get_line_def wf_state_def Let_def list_all_iff set_dict_set split: prod.split option.split)
qed


lemma wf_parse_get: "wf_state (parse_get out)"
proof -
  have "wf_state (foldl get_line st ls)" if "wf_state st" for st ls
    using that by (induction ls arbitrary: st) (simp_all add: wf_get_line)
  then show ?thesis unfolding parse_get_def by (simp add: wf_state_def wf_dict_def dict_keys_def)
qed

lemma returns_cmd: "returns (run exec c) (\<lambda>r. \<exists>w. r = fst (exec c w))"
  by (auto simp: returns_def run_def split: prod.split) (metis fst_conv)

lemma returns_pool_states:
  "returns (pool_states exec ps) (\<lambda>st. case st of None \<Rightarrow> True | Some s \<Rightarrow> map fst s = ps \<and> list_all (\<lambda>(n, p). wf_state p) s)"
proof (induction ps)
  case (Cons p ps)
  show ?case unfolding pool_states.simps
    by (rule returns_bind_any, rule returns_if, simp add: returns_return, rule returns_bind [OF Cons.IH])
       (auto intro!: returns_return simp: wf_parse_get split: option.splits)
qed (simp add: returns_return)

text \<open>The sizes \<open>lsblk\<close> and \<open>tune2fs\<close> print are positive and can be converted.\<close>

definition sizes_fit :: "'w shell \<Rightarrow> bool" where
  "sizes_fit exec = (\<forall>d w.
     (case words_of (rr_output (fst (exec (Line (''lsblk -b -n -d -o SIZE,PARTTYPE,PARTUUID '' @ quote d)) w))) of
        a # _ \<Rightarrow> isdigit a \<longrightarrow> small_int (int (dec_val a)) | [] \<Rightarrow> True)
     \<and> (let n = snd (tune2fs (rr_stdout (fst (exec (Line (''tune2fs -l '' @ quote d)) w)))) in n \<noteq> 0 \<longrightarrow> small_int n))"

lemma returns_lsblk:
  "sizes_fit exec \<Longrightarrow> returns (lsblk_part exec d) (\<lambda>p. case p of Some (n, _) \<Rightarrow> small_int n | None \<Rightarrow> True)"
  unfolding lsblk_part_def
  by (rule returns_bind [OF returns_cmd]) (fastforce simp: sizes_fit_def intro!: returns_return split: list.splits)

lemma returns_esp: "sizes_fit exec \<Longrightarrow> returns (read_esp exec) (\<lambda>e. case e of Some x \<Rightarrow> small_int (es_size_bytes x) | None \<Rightarrow> True)"
  unfolding read_esp_def
  by (rule returns_bind_any)
     (auto intro!: returns_return returns_bind [OF returns_lsblk] split: list.split option.split)

lemma returns_swap: "sizes_fit exec \<Longrightarrow> returns (read_swap exec t) (\<lambda>e. case e of Some x \<Rightarrow> small_int (sw_size_bytes x) | None \<Rightarrow> True)"
  unfolding read_swap_def
  by (auto intro!: returns_return returns_bind [OF returns_lsblk] split: prod.split option.split)

lemma returns_boot_of:
  "sizes_fit exec \<Longrightarrow> small_int bytes \<Longrightarrow> small_int (fst part) \<Longrightarrow> returns (boot_of exec files mt be fs bytes part) wf_boot"
  unfolding boot_of_def Let_def
  by (rule returns_bind_any, rule returns_bind_any, rule returns_bind [OF returns_esp], assumption, rule returns_bind_any,
      rule returns_bind [OF returns_swap], assumption)
     (simp add: returns_return wf_boot_def)

lemma returns_capture_boot:
  assumes fit: "sizes_fit exec"
  shows "returns (capture_boot exec files) (\<lambda>b. case b of Inr x \<Rightarrow> wf_boot x | Inl _ \<Rightarrow> True)"
proof -
  have last_step: "returns (State_Monad.bind (boot_of exec files mt be fs bytes p) (\<lambda>b. State_Monad.return (Inr b)))
      (\<lambda>b. case b of Inr x \<Rightarrow> wf_boot x | Inl _ \<Rightarrow> True)" if "small_int bytes" "small_int (fst p)" for mt be fs bytes p
    by (rule returns_bind [OF returns_boot_of [OF fit that]]) (simp add: returns_return)
  have tune: "small_int bytes" if "tune2fs (rr_stdout (fst (exec (Line (''tune2fs -l '' @ quote d)) w))) = (fs, bytes)" "bytes \<noteq> 0"
    for d w fs bytes
    using conjunct2 [OF fit [unfolded sizes_fit_def, THEN spec [of _ d], THEN spec [of _ w]]] that by (simp add: Let_def)
  show ?thesis
    unfolding capture_boot_def
    apply (rule returns_bind_any)
    apply (split option.split, intro conjI allI impI)
     apply (simp add: returns_return)
    apply (rule returns_bind_any)
    apply (rule returns_if, simp add: returns_return)
    apply (rule returns_bind [OF returns_cmd])
    apply (rule returns_if, simp add: returns_return)
    apply (rule returns_bind [OF returns_lsblk [OF fit]])
    apply (auto intro!: returns_return last_step dest: tune [simplified] split: prod.split option.split)
    done
qed

definition recovers_as :: "layout \<Rightarrow> string \<Rightarrow> bool" where
  "recovers_as l mark = (\<exists>r. parse_record mark = Some r \<and> layout_of (Some r) = l \<and> refuse_unrecoverable (Some r) l)"

lemma returns_finish_capture:
  assumes "wf_dict st" and "list_all (\<lambda>(n, p). wf_state p) st" and "case boot of Some b \<Rightarrow> wf_boot b | None \<Rightarrow> True"
    and "l = (if boot = None then BPOOL else EXT4)"
  shows "returns (finish_capture exec files st boot) (recovers_as l)"
proof -
  have v: "recovers MIN_RECOVER_EXT4 VERSION" by code_simp
  have "recovers_as l (dump_record r)"
    if r: "pr_pools r = st" "pr_boot r = boot" "pr_boot_problem r = ''''" "pr_min_recover r = (if boot \<noteq> None then MIN_RECOVER_EXT4 else '''')" for r
  proof -
    have "wf_record r" using assms r by (simp add: wf_record_def)
    from record_round [OF this] show ?thesis
      using r assms(4) v
      by (auto simp: recovers_as_def sorted_record_def layout_of_def refuse_unrecoverable_def refuse_min_recover_def recovers_def)
  qed
  then show ?thesis unfolding finish_capture_def Let_def by (intro returns_bind_any returns_return) simp
qed


text \<open>The record of origin's pools round trip. What a run writes about the pools, an ext4 \<open>/boot\<close>, the ESP and
  the swap is read back as exactly that, the pools and features in the order of their names.\<close>

lemma pool_record_round_trip:
  assumes "wf_record r"
  shows "parse_record (dump_record r) = Some (sorted_record r)"
  using assms by (rule record_round)

definition ex_boot :: boot_record where
  "ex_boot = \<lparr>br_dataset = ''rpool/ROOT/u/zark-boot'', br_fstype = ''ext4'', br_uuid = ''ab'', br_label = '''', br_size_bytes = 7,
     br_features = [''extent''], br_mount_options = ''defaults'', br_partition = \<lparr>pa_size_bytes = 8, pa_type_guid = ''g''\<rparr>,
     br_esp = Some \<lparr>es_size_bytes = 5, es_uuid = ''e''\<rparr>, br_swap = None\<rparr>"

definition ex_record :: pool_record where
  "ex_record = \<lparr>pr_ubuntu = ''26.10'', pr_zfs = ''zfs-2.4.1'', pr_kmod = ''zfs-kmod-2.4.1'',
     pr_pools = [(''rpool'', \<lparr>st_compatibility = ''off'', st_features = [(''lz4_compress'', ''active''), (''encryption'', ''active'')]\<rparr>)],
     pr_boot = Some ex_boot, pr_written_by = ''2.2.0'', pr_min_recover = ''2.2.0'', pr_boot_problem = ''''\<rparr>"



definition ex_ext4 :: "unit shell" where
  "ex_ext4 c w = (\<lparr>rr_returncode = 0, rr_stdout = (case c of Line l \<Rightarrow>
       if startswith l ''lsblk'' then ''8 g p''
       else if startswith l ''tune2fs'' then ''Block count: 4'' @ [CHR 0x0A] @ ''Block size: 2''
       else if l = ''findmnt -n -o SOURCE /'' then ''rpool/ROOT/u''
       else if l = ''findmnt -n -o FSTYPE,SOURCE,UUID /boot'' then ''ext4 /dev/sda2 ab''
       else '''' | Argv _ \<Rightarrow> ''''), rr_stderr = ''''\<rparr>, w)"

lemma ex_sizes_fit: "sizes_fit ex_ext4"
proof -
  have "small_int (int (dec_val ''8''))" "isdigit ''8''" "words_of (strip ''8 g p'') = [''8'', ''g'', ''p'']"
    "small_int (snd (tune2fs (''Block count: 4'' @ [CHR 0x0A] @ ''Block size: 2'')))" by code_simp+
  then show ?thesis by (simp add: sizes_fit_def ex_ext4_def startswith_def rr_output_def)
qed

lemma ex_captured: "fst (run_state (capture ex_ext4 (\<lambda>_ _. None) EXT4) (\<lparr>m_world = (), m_issued = []\<rparr> :: unit machine)) \<noteq> ''''"
  by code_simp




section \<open>Refusals and creation\<close>

text \<open>A record whose \<open>/boot\<close> entry is there but cannot be read is never recovered, nor is one that is
  not a record, nor a point of an ext4 system without one.\<close>

lemma may_recover_safe:
  assumes "may_recover r snaps be meta"
  shows "case r of
      RecordError _ _ \<Rightarrow> False
    | NoRecord \<Rightarrow> map_of meta ORIGIN_LAYOUT \<noteq> Some ''ext4'' \<and> \<not> list_ex (\<lambda>s. s_dataset s = boot_copy be) snaps
    | ReadRecord p \<Rightarrow> recovers (pr_min_recover p) VERSION \<and> (pr_boot_problem p \<noteq> '''' \<longrightarrow> pr_boot p \<noteq> None)"
  using assms
  by (auto simp: may_recover_def refuse_unrecoverable_def refuse_min_recover_def point_layout_def layout_of_def
      split: read_record.splits if_splits)

lemma parsed_problem: "parse_record value = Some p \<Longrightarrow> pr_boot_problem p \<noteq> '''' \<Longrightarrow> pr_boot p = None"
  by (auto simp: parse_record_def boot_part_def split: option.splits json.splits sum.splits if_splits)

text \<open>A pool is created with features this ZFS has, and every feature origin had is enabled or named as
  lacking.\<close>

lemma create_spec_known: "f \<in> set (cr_features (create_spec is_file state known)) \<Longrightarrow> f \<in> set known"
  by (auto simp: create_spec_def Let_def)

lemma create_spec_partition:
  "mset (cr_features (create_spec is_file state known)) + mset (cr_lacking_active (create_spec is_file state known))
     + mset (cr_lacking_enabled (create_spec is_file state known)) = mset (map (feature_name \<circ> fst) (st_features state))"
proof -
  let ?fs = "map (\<lambda>(k, s). (feature_name k, s)) (sort_key fst (st_features state))"
  have "mset (map fst (filter (\<lambda>(n, s). n \<in> set known) xs)) + mset (map fst (filter (\<lambda>(n, s). n \<notin> set known \<and> s = ''active'') xs))
      + mset (map fst (filter (\<lambda>(n, s). n \<notin> set known \<and> s \<noteq> ''active'') xs)) = mset (map fst xs)" for xs :: "(string \<times> string) list"
    by (induction xs) auto
  from this [of ?fs] show ?thesis by (simp add: create_spec_def Let_def multiset.map_comp comp_def split_def)
qed

text \<open>A root property is set only when the new pool has the feature it needs.\<close>

lemma root_options_left:
  "p \<in> set (snd (root_options (Some c) ps)) \<longleftrightarrow> p \<in> set ps \<and> (\<exists>f. map_of NEEDS_FEATURE p = Some f \<and> f \<notin> set (cr_features c))"
  by (auto simp: root_options_def Let_def split: option.splits)

end
