(* ===== verification/Origin_Prune.thy ===== *)
theory Origin_Prune
  imports Replication
begin

text \<open>
  \<open>lib/origin_prune.py\<close>: what \<open>zark prune\<close> can remove in origin, by kind, over the listing of origin. A
  drive that has no anchor on a dataset may have a residue there as its base, which is then kept.
\<close>

section \<open>Names\<close>

text \<open>\<open>AUTOSNAP_TYPE.match(name).group(1)\<close>; a dot matches no newline, and \<open>$\<close> allows one at the end.\<close>

definition typed_as :: "string \<Rightarrow> string \<Rightarrow> bool" where
  "typed_as s t = (prefix ''autosnap_'' s \<and> suffix (CHR ''_'' # t) s \<and> length s \<ge> 9 + Suc (length t)
     \<and> CHR 0x0A \<notin> set (take (length s - Suc (length t) - 9) (drop 9 s)))"

definition AUTOSNAP_TYPE :: "string \<Rightarrow> string option" where
  "AUTOSNAP_TYPE s = find (\<lambda>t. typed_as s t \<or> typed_as (chop_newline s) t) SANOID_TYPES"

definition SYNCOID :: "string \<Rightarrow> bool" where
  "SYNCOID s = startswith s ''syncoid_''"

definition KEYSTORE_PREPARE :: "string \<Rightarrow> bool" where
  "KEYSTORE_PREPARE s = startswith s ''prepare_''"


section \<open>The inventory\<close>

record item =
  it_target :: string
  it_creation :: int
  it_reason :: string

record inventory =
  iv_autosnaps :: "(string, item list) dict"
  iv_residues :: "item list"
  iv_residues_kept :: "item list"
  iv_points :: "item list"
  iv_anchors :: "(string, item list) dict"
  iv_unanchored :: "(string, string list) dict"

definition Inventory :: inventory where
  "Inventory = \<lparr>iv_autosnaps = [], iv_residues = [], iv_residues_kept = [], iv_points = [], iv_anchors = [], iv_unanchored = []\<rparr>"

definition Item :: "string \<Rightarrow> ref \<Rightarrow> string \<Rightarrow> item" where
  "Item rel s why = \<lparr>it_target = rel @ ''@'' @ r_name s, it_creation = r_creation s, it_reason = why\<rparr>"

definition anchored_of :: "origin \<Rightarrow> string list" where
  "anchored_of x = filter (\<lambda>g. g \<noteq> '''') (map (\<lambda>r. anchor_disk (r_name r)) (o_bookmarks x @ o_snaps x))"

definition missing_drives :: "(string, string) dict \<Rightarrow> string list \<Rightarrow> string list" where
  "missing_drives drives anchored = sort (map snd (filter (\<lambda>(guid, name). guid \<notin> set anchored) drives))"

definition file_snap :: "(string, string) dict \<Rightarrow> string \<Rightarrow> string list \<Rightarrow> inventory \<Rightarrow> ref \<Rightarrow> inventory" where
  "file_snap drives rel anchored iv s =
     (case AUTOSNAP_TYPE (r_name s) of
        Some t \<Rightarrow> iv\<lparr>iv_autosnaps := dict_push t (Item rel s '''') (iv_autosnaps iv)\<rparr>
      | None \<Rightarrow>
          if POINT_RE (r_name s) then
            iv\<lparr>iv_points := iv_points iv
              @ [Item rel s ''left in origin by an interrupted run, or by a run whose anchor failed'']\<rparr>
          else if anchor_disk (r_name s) \<noteq> '''' then
            (if is_bpool rel
             then iv\<lparr>iv_anchors := dict_push (anchor_disk (r_name s)) (Item rel s '''') (iv_anchors iv)\<rparr> else iv)
          else if rel = KEYSTORE \<and> KEYSTORE_PREPARE (r_name s) then
            iv\<lparr>iv_residues := iv_residues iv @ [Item rel s ''keystore snapshot left by prepare'']\<rparr>
          else if SYNCOID (r_name s) \<and> rel \<in> set STRUCTURAL then
            iv\<lparr>iv_residues := iv_residues iv @ [Item rel s ''syncoid residue on a container zark 2 does not replicate'']\<rparr>
          else if SYNCOID (r_name s) then
            (let missing = missing_drives drives anchored in
             if missing \<noteq> [] then
               iv\<lparr>iv_residues_kept := iv_residues_kept iv
                 @ [Item rel s (join_on '', '' missing @ '' has no anchor on '' @ rel @ '': it may be its base'')]\<rparr>
             else iv\<lparr>iv_residues := iv_residues iv
                 @ [Item rel s ''syncoid residue; every registered drive has an anchor here'']\<rparr>)
          else iv)"

definition file_dataset :: "(string, string) dict \<Rightarrow> string list \<Rightarrow> inventory \<Rightarrow> string \<times> origin \<Rightarrow> inventory" where
  "file_dataset drives backed_up iv row = (case row of (rel, x) \<Rightarrow>
     (let anchored = anchored_of x; missing = missing_drives drives anchored;
          jv = (if missing \<noteq> [] \<and> rel \<in> set backed_up
                  then iv\<lparr>iv_unanchored := dict_set rel missing (iv_unanchored iv)\<rparr> else iv)
      in foldl (file_snap drives rel anchored) jv (o_snaps x)))"

definition inventory_of :: "(string, origin) dict \<Rightarrow> (string, string) dict \<Rightarrow> string list \<Rightarrow> inventory" where
  "inventory_of ori drives skip = foldl (file_dataset drives (expected ori skip)) Inventory (sort_key fst ori)"

definition older_than :: "inventory \<Rightarrow> int \<Rightarrow> item list" where
  "older_than iv cutoff =
     sort_key (\<lambda>i. (it_creation i, it_target i)) (filter (\<lambda>i. it_creation i < cutoff) (concat (map snd (iv_autosnaps iv))))"


section \<open>Lemmas\<close>

text \<open>What a residue that may go must be.\<close>

definition removable :: "(string, string) dict \<Rightarrow> string \<Rightarrow> origin \<Rightarrow> ref \<Rightarrow> bool" where
  "removable drives rel x s =
     (AUTOSNAP_TYPE (r_name s) = None \<and> \<not> POINT_RE (r_name s) \<and> anchor_disk (r_name s) = ''''
      \<and> (rel = KEYSTORE \<and> KEYSTORE_PREPARE (r_name s)
         \<or> SYNCOID (r_name s) \<and> (rel \<in> set STRUCTURAL \<or> list_all (\<lambda>(g, n). g \<in> set (anchored_of x)) drives)))"

definition residues_ok :: "(string, origin) dict \<Rightarrow> (string, string) dict \<Rightarrow> inventory \<Rightarrow> bool" where
  "residues_ok ori drives iv = (\<forall>i \<in> set (iv_residues iv). \<exists>rel x s. (rel, x) \<in> set ori \<and> s \<in> set (o_snaps x)
     \<and> it_target i = rel @ ''@'' @ r_name s \<and> removable drives rel x s)"

lemma missing_none: "missing_drives drives anchored = [] \<longleftrightarrow> list_all (\<lambda>(g, n). g \<in> set anchored) drives"
proof -
  let ?fs = "filter (\<lambda>(g, n). g \<notin> set anchored) drives"
  have "length (missing_drives drives anchored) = length ?fs" by (simp add: missing_drives_def)
  then have "missing_drives drives anchored = [] \<longleftrightarrow> ?fs = []" by (simp only: length_0_conv [symmetric])
  also have "\<dots> \<longleftrightarrow> list_all (\<lambda>(g, n). g \<in> set anchored) drives" by (auto simp: list_all_iff filter_empty_conv)
  finally show ?thesis .
qed

lemma file_snap_residues:
  "iv_residues (file_snap drives rel (anchored_of x) iv s) = iv_residues iv
   \<or> (\<exists>why. iv_residues (file_snap drives rel (anchored_of x) iv s) = iv_residues iv @ [Item rel s why] \<and> removable drives rel x s)"
proof (cases "AUTOSNAP_TYPE (r_name s)")
  case None
  then show ?thesis by (simp add: file_snap_def removable_def Let_def missing_none) blast
qed (simp add: file_snap_def)

lemma file_snap_ok:
  assumes "residues_ok ori drives iv" and "(rel, x) \<in> set ori" and "s \<in> set (o_snaps x)"
  shows "residues_ok ori drives (file_snap drives rel (anchored_of x) iv s)"
proof -
  consider "iv_residues (file_snap drives rel (anchored_of x) iv s) = iv_residues iv"
    | why where "iv_residues (file_snap drives rel (anchored_of x) iv s) = iv_residues iv @ [Item rel s why]" "removable drives rel x s"
    using file_snap_residues by blast
  then show ?thesis
  proof cases
    case 1
    then show ?thesis using assms(1) by (simp only: residues_ok_def)
  next
    case 2
    then have "\<exists>r y t. (r, y) \<in> set ori \<and> t \<in> set (o_snaps y) \<and> it_target (Item rel s why) = r @ ''@'' @ r_name t \<and> removable drives r y t"
      using assms(2,3) by (auto simp: Item_def)
    then show ?thesis using assms(1) 2(1) unfolding residues_ok_def by (metis UnE empty_iff insert_iff list.set set_append)
  qed
qed

lemma foldl_keeps: "I a \<Longrightarrow> (\<And>a x. I a \<Longrightarrow> x \<in> set xs \<Longrightarrow> I (f a x)) \<Longrightarrow> I (foldl f a xs)"
  by (induction xs arbitrary: a) auto

lemma inventory_residues: "residues_ok ori drives (inventory_of ori drives skip)"
  unfolding inventory_of_def
proof (rule foldl_keeps)
  show "residues_ok ori drives Inventory" by (simp add: residues_ok_def Inventory_def)
  fix iv row assume I: "residues_ok ori drives iv" and row: "row \<in> set (sort_key fst ori)"
  obtain rel x where rx: "row = (rel, x)" by (rule prod.exhaust)
  with row have mem: "(rel, x) \<in> set ori" by simp
  show "residues_ok ori drives (file_dataset drives (expected ori skip) iv row)"
    unfolding file_dataset_def rx prod.case Let_def
    by (rule foldl_keeps) (use I mem file_snap_ok in \<open>auto simp: residues_ok_def\<close>)
qed


definition autosnaps_ok :: "(string \<times> origin) list \<Rightarrow> inventory \<Rightarrow> bool" where
  "autosnaps_ok rows iv = (wf_dict (iv_autosnaps iv) \<and> (\<forall>i. i \<in> set (concat (map snd (iv_autosnaps iv))) \<longleftrightarrow>
     (\<exists>rel x s. (rel, x) \<in> set rows \<and> s \<in> set (o_snaps x) \<and> AUTOSNAP_TYPE (r_name s) \<noteq> None \<and> i = Item rel s '''')))"

lemma dict_push_items:
  assumes "wf_dict m"
  shows "set (concat (map snd (dict_push k x m))) = insert x (set (concat (map snd m)))" "wf_dict (dict_push k x m)"
proof -
  have at: "(a, b) \<in> set m \<longleftrightarrow> map_of m a = Some b" for a b using assms by (simp add: wf_dict_map_of)
  show wf: "wf_dict (dict_push k x m)" using assms by (simp add: dict_push_def)
  have "(a, b) \<in> set (dict_push k x m) \<longleftrightarrow> map_of (dict_push k x m) a = Some b" for a b using wf by (simp add: wf_dict_map_of)
  then have mem: "(a, b) \<in> set (dict_push k x m) \<longleftrightarrow> (if a = k then b = dict_get_or m k [] @ [x] else (a, b) \<in> set m)" for a b
    by (auto simp: dict_push_def at)
  show "set (concat (map snd (dict_push k x m))) = insert x (set (concat (map snd m)))"
  proof (intro set_eqI iffI)
    fix i assume "i \<in> set (concat (map snd (dict_push k x m)))"
    then obtain a b where ab: "(a, b) \<in> set (dict_push k x m)" "i \<in> set b" by auto
    show "i \<in> insert x (set (concat (map snd m)))"
    proof (cases "a = k")
      case True
      with ab mem have "i = x \<or> i \<in> set (dict_get_or m k [])" by auto
      then show ?thesis using map_of_SomeD [of m k] by (cases "map_of m k") (force simp: dict_get_or_def)+
    qed (use ab mem in force)
  next
    fix i assume i: "i \<in> insert x (set (concat (map snd m)))"
    show "i \<in> set (concat (map snd (dict_push k x m)))"
    proof (cases "i = x \<or> i \<in> set (dict_get_or m k [])")
      case True
      then have "i \<in> set (dict_get_or m k [] @ [x])" by auto
      moreover have "(k, dict_get_or m k [] @ [x]) \<in> set (dict_push k x m)" by (simp add: mem)
      ultimately show ?thesis by force
    next
      case False
      with i obtain a b where ab: "(a, b) \<in> set m" "i \<in> set b" by auto
      then have "a \<noteq> k" using False at by (auto simp: dict_get_or_def)
      with ab have "(a, b) \<in> set (dict_push k x m)" by (simp add: mem)
      then show ?thesis using ab(2) by force
    qed
  qed
qed


lemma file_snap_autosnaps:
  "iv_autosnaps (file_snap drives rel anchored iv s) =
     (case AUTOSNAP_TYPE (r_name s) of Some t \<Rightarrow> dict_push t (Item rel s '''') (iv_autosnaps iv) | None \<Rightarrow> iv_autosnaps iv)"
  by (simp add: file_snap_def Let_def split: option.split)

lemma file_snaps_autosnaps:
  assumes "wf_dict (iv_autosnaps iv)"
  shows "wf_dict (iv_autosnaps (foldl (file_snap drives rel anchored) iv ss))
    \<and> set (concat (map snd (iv_autosnaps (foldl (file_snap drives rel anchored) iv ss))))
        = set (concat (map snd (iv_autosnaps iv))) \<union> {Item rel s '''' | s. s \<in> set ss \<and> AUTOSNAP_TYPE (r_name s) \<noteq> None}"
  using assms
proof (induction ss arbitrary: iv)
  case (Cons s ss)
  let ?jv = "file_snap drives rel anchored iv s"
  have jv: "wf_dict (iv_autosnaps ?jv)" "set (concat (map snd (iv_autosnaps ?jv))) = set (concat (map snd (iv_autosnaps iv)))
      \<union> (if AUTOSNAP_TYPE (r_name s) \<noteq> None then {Item rel s ''''} else {})"
    using Cons.prems dict_push_items [OF Cons.prems] by (auto simp: file_snap_autosnaps simp del: set_concat split: option.split)
  show ?case using Cons.IH [OF jv(1)] jv(2) by (auto simp del: set_concat)
qed simp

lemma inventory_autosnaps: "autosnaps_ok ori (inventory_of ori drives skip)"
proof -
  have "autosnaps_ok (done_rows @ rows) (foldl (file_dataset drives b) iv rows)" if "autosnaps_ok done_rows iv" for done_rows rows iv b
    using that
  proof (induction rows arbitrary: done_rows iv)
    case (Cons row rows)
    obtain rel x where rx: "row = (rel, x)" by (rule prod.exhaust)
    let ?iv = "if missing_drives drives (anchored_of x) \<noteq> [] \<and> rel \<in> set b
      then iv\<lparr>iv_unanchored := dict_set rel (missing_drives drives (anchored_of x)) (iv_unanchored iv)\<rparr> else iv"
    have "wf_dict (iv_autosnaps ?iv)" using Cons.prems by (simp add: autosnaps_ok_def)
    from file_snaps_autosnaps [OF this, of drives rel "anchored_of x" "o_snaps x"] Cons.prems
    have "autosnaps_ok (done_rows @ [(rel, x)]) (file_dataset drives b iv row)"
      by (auto simp: autosnaps_ok_def file_dataset_def rx Let_def simp del: set_concat)
    from Cons.IH [OF this] show ?case by (simp add: rx)
  qed simp
  from this [where done_rows = "[]" and iv = Inventory and b = "expected ori skip" and rows = "sort_key fst ori"] show ?thesis
    by (simp add: inventory_of_def autosnaps_ok_def Inventory_def wf_dict_def dict_keys_def)
qed


section \<open>Properties\<close>

text \<open>Nothing a registered drive may still need is offered as a residue. Each residue \<open>zark prune\<close> may remove is no
  sanoid snapshot, no backup point and no anchor: it is a snapshot \<open>prepare\<close> left on the keystore, or
  a \<open>syncoid_\<close> one on a container that is not replicated or on a dataset where every registered drive
  has an anchor of its own.\<close>

lemma residues_needed_by_none:
  assumes "i \<in> set (iv_residues (inventory_of ori drives skip))"
  shows "\<exists>rel x s. (rel, x) \<in> set ori \<and> s \<in> set (o_snaps x) \<and> it_target i = rel @ ''@'' @ r_name s \<and> removable drives rel x s"
  using inventory_residues [of ori drives skip] assms unfolding residues_ok_def by blast

definition ex_ref :: "string \<Rightarrow> ref" where
  "ex_ref n = \<lparr>r_name = n, r_guid = ''1'', r_createtxg = 1, r_creation = 5\<rparr>"


definition ex_ori :: "(string, origin) dict" where
  "ex_ori = [(''rpool/var'', \<lparr>o_rel = ''rpool/var'', o_kind = ''filesystem'', o_canmount = ''on'', o_mountpoint = ''/var'', o_referenced = 1,
     o_snaps = [ex_ref ''syncoid_old'', ex_ref ''autosnap_2026-01-01_00:00:00_daily''],
     o_bookmarks = [ex_ref ''zark_77_2026-01-02_00:00:00Z''], o_clone_of = ''''\<rparr>)]"

text \<open>The age cut offers exactly sanoid's own snapshots created before it, oldest first.\<close>

lemma older_than_exact:
  "i \<in> set (older_than (inventory_of ori drives skip) cutoff) \<longleftrightarrow>
     (\<exists>rel x s. (rel, x) \<in> set ori \<and> s \<in> set (o_snaps x) \<and> AUTOSNAP_TYPE (r_name s) \<noteq> None \<and> r_creation s < cutoff
        \<and> i = Item rel s '''')"
proof -
  have "it_creation (Item rel s '''') = r_creation s" for rel s by (simp add: Item_def)
  moreover have "i \<in> set (concat (map snd (iv_autosnaps (inventory_of ori drives skip)))) \<longleftrightarrow>
      (\<exists>rel x s. (rel, x) \<in> set ori \<and> s \<in> set (o_snaps x) \<and> AUTOSNAP_TYPE (r_name s) \<noteq> None \<and> i = Item rel s '''')"
    using inventory_autosnaps [of ori drives skip] unfolding autosnaps_ok_def by blast
  ultimately show ?thesis unfolding older_than_def set_sort set_filter mem_Collect_eq by metis
qed

lemma older_than_sorted: "sorted (map it_creation (older_than iv cutoff))"
proof -
  have "sorted (map (\<lambda>i. (it_creation i, it_target i)) (older_than iv cutoff))" by (simp add: older_than_def)
  then show ?thesis by (auto simp: sorted_map less_eq_prod_def elim!: sorted_wrt_mono_rel [rotated])
qed

end
