(* ===== verification/Registry.thy ===== *)
theory Registry
  imports Json Retention
begin

text \<open>
  \<open>lib/registry.py\<close> and the parts of \<open>lib/config.py\<close> around it: \<open>known_drives.json\<close>, parsed strictly,
  rendered with every key, validated by parsing it back and replaced atomically. An entry is a JSON
  object; \<open>RegistryError\<close> carries what was wrong instead of its message. The file system of a write
  keeps what a crash may leave behind: the contents of a file not yet synced are lost, and a directory change
  not yet synced may or may not be there.
\<close>

section \<open>Keys\<close>

definition KNOWN_KEYS :: "string list" where
  "KNOWN_KEYS = [''guid'', ''drive_id'', ''last_backup_at'', ''autoeject'']"

definition ENCLOSURE_KEY :: string where "ENCLOSURE_KEY = ''enclosure_id''"

definition RETENTION_KEY :: string where "RETENTION_KEY = ''retention''"

definition RETENTION_LIMITS :: "(string, int \<times> int) dict" where
  "RETENTION_LIMITS = [(''window_days'', 1, 3650), (''max_age_days'', 0, 36500), (''margin_pct'', 0, 50)]"

definition SHARED_KEY :: string where "SHARED_KEY = ''shared''"

definition TEXT_KEYS :: "string list" where
  "TEXT_KEYS = [''prepared_at'', ''prepared_version'', ''last_backup_version'']"

definition Policy :: policy where
  "Policy = \<lparr>window_days = 30, max_age_days = 0, margin_pct = 10\<rparr>"


section \<open>Validation\<close>

datatype problem =
    NotObject
  | BadGuid
  | BadDriveId
  | BadEnclosure
  | BadAutoeject
  | BadLastBackup
  | BadRetention
  | UnknownSetting string
  | BadSetting string
  | AgeWithinWindow
  | BadText string
  | BadShared
  | BadSharedList string
  | BadSharedEntry string

datatype reg_error =
    RegistryError string problem
  | EmptyName
  | BadTop
  | BadJson
  | CannotRead
  | Refused
  | Escaped py_error

type_synonym entry = "(string, json) dict"

text \<open>The checks run in order and the first that fails raises.\<close>

fun first_problem :: "'e option list \<Rightarrow> 'e option" where
  "first_problem [] = None"
| "first_problem (None # ps) = first_problem ps"
| "first_problem (Some e # ps) = Some e"

definition demand :: "bool \<Rightarrow> 'e \<Rightarrow> 'e option" where
  "demand b e = (if b then None else Some e)"

definition filled :: "json \<Rightarrow> bool" where
  "filled v = (case v of JStr s \<Rightarrow> strip s \<noteq> '''' | _ \<Rightarrow> False)"

definition is_text :: "json \<Rightarrow> bool" where
  "is_text v = (case v of JStr _ \<Rightarrow> True | _ \<Rightarrow> False)"

definition shared_ok :: "json \<Rightarrow> bool" where
  "shared_ok snap = (case snap of JArr [JStr n, JStr g, JInt c] \<Rightarrow> isdigit g | _ \<Rightarrow> False)"

definition shared_problem :: "string \<times> json \<Rightarrow> problem option" where
  "shared_problem row = (case row of
     (rel, JArr snaps) \<Rightarrow> demand (list_all shared_ok snaps) (BadSharedEntry rel)
   | (rel, _) \<Rightarrow> Some (BadSharedList rel))"

definition check_shared :: "json \<Rightarrow> problem option" where
  "check_shared v = (case v of JObj rows \<Rightarrow> first_problem (map shared_problem rows) | _ \<Rightarrow> Some BadShared)"

definition setting_problem :: "string \<times> json \<Rightarrow> problem option" where
  "setting_problem row = (case row of (key, n) \<Rightarrow>
     (case map_of RETENTION_LIMITS key of
        None \<Rightarrow> Some (UnknownSetting key)
      | Some (lo, hi) \<Rightarrow> demand (case n of JInt i \<Rightarrow> lo \<le> i \<and> i \<le> hi | _ \<Rightarrow> False) (BadSetting key)))"

definition setting :: "entry \<Rightarrow> string \<Rightarrow> int \<Rightarrow> int" where
  "setting rows key d = (case map_of rows key of Some (JInt i) \<Rightarrow> i | _ \<Rightarrow> d)"

definition check_retention :: "json \<Rightarrow> problem option" where
  "check_retention v = (case v of
     JObj rows \<Rightarrow>
       (case first_problem (map setting_problem rows) of
          Some e \<Rightarrow> Some e
        | None \<Rightarrow>
            (let window = setting rows ''window_days'' (window_days Policy); max_age = setting rows ''max_age_days'' 0
             in demand (\<not> (0 < max_age \<and> max_age \<le> window)) AgeWithinWindow))
   | _ \<Rightarrow> Some BadRetention)"

definition guid_ok :: "json option \<Rightarrow> bool" where
  "guid_ok g = (case g of Some (JInt i) \<Rightarrow> isdigit (py_str i) | Some (JStr s) \<Rightarrow> isdigit s | _ \<Rightarrow> False)"

definition when_set :: "entry \<Rightarrow> string \<Rightarrow> (json \<Rightarrow> problem option) \<Rightarrow> problem option" where
  "when_set e key f = (case map_of e key of None \<Rightarrow> None | Some v \<Rightarrow> f v)"

definition check_entry :: "json \<Rightarrow> problem option" where
  "check_entry v = (case v of
     JObj e \<Rightarrow> first_problem
       ([demand (guid_ok (map_of e ''guid'')) BadGuid,
         demand (case map_of e ''drive_id'' of Some d \<Rightarrow> filled d | None \<Rightarrow> False) BadDriveId,
         when_set e ENCLOSURE_KEY (\<lambda>x. demand (filled x) BadEnclosure),
         when_set e ''autoeject'' (\<lambda>x. demand (case x of JBool _ \<Rightarrow> True | _ \<Rightarrow> False) BadAutoeject),
         when_set e ''last_backup_at'' (\<lambda>x. demand (x = JNull \<or> is_text x) BadLastBackup),
         when_set e RETENTION_KEY check_retention]
        @ map (\<lambda>key. when_set e key (\<lambda>x. demand (is_text x) (BadText key))) TEXT_KEYS
        @ [when_set e SHARED_KEY check_shared])
   | _ \<Rightarrow> Some NotObject)"

definition row_error :: "string \<times> json \<Rightarrow> reg_error option" where
  "row_error row = (case row of (name, e) \<Rightarrow>
     if name = '''' then Some EmptyName else map_option (RegistryError name) (check_entry e))"

definition entries_of_json :: "(string \<times> json) list \<Rightarrow> (string, entry) dict" where
  "entries_of_json rows = map (\<lambda>(name, v). (name, case v of JObj e \<Rightarrow> e | _ \<Rightarrow> [])) rows"

text \<open>A number of more digits than the interpreter converts is malformed text here; Python raises a
  bare \<open>ValueError\<close> for it.\<close>

definition parse_registry :: "string \<Rightarrow> reg_error + (string, entry) dict" where
  "parse_registry text = (case loads text of
     None \<Rightarrow> Inl BadJson
   | Some (JObj rows) \<Rightarrow>
       (case first_problem (map row_error rows) of Some e \<Rightarrow> Inl e | None \<Rightarrow> Inr (entries_of_json rows))
   | Some _ \<Rightarrow> Inl BadTop)"

text \<open>What is found at a path. \<open>read_text\<close> raises \<open>UnicodeDecodeError\<close>, a \<open>ValueError\<close>, for bytes
  that are no UTF-8.\<close>

datatype found = Absent | Unreadable | Undecodable | Contents string

definition load_registry :: "found \<Rightarrow> reg_error + (string, entry) dict" where
  "load_registry f = (case f of
     Absent \<Rightarrow> Inr [] | Unreadable \<Rightarrow> Inl CannotRead | Undecodable \<Rightarrow> Inl (Escaped ValueError)
   | Contents t \<Rightarrow> parse_registry t)"


section \<open>Rendering\<close>

text \<open>Python's truth of a value; a float is false when its digits are zeros.\<close>

definition truthy :: "json \<Rightarrow> bool" where
  "truthy v = (case v of
     JNull \<Rightarrow> False | JBool b \<Rightarrow> b | JInt i \<Rightarrow> i \<noteq> 0 | JStr s \<Rightarrow> s \<noteq> '''' | JArr xs \<Rightarrow> xs \<noteq> [] | JObj ms \<Rightarrow> ms \<noteq> []
   | JFloat t \<Rightarrow> \<not> list_all (\<lambda>c. c \<in> set ''-0.'') (takeWhile (\<lambda>c. c \<noteq> CHR ''e'' \<and> c \<noteq> CHR ''E'') t))"

definition full_entry :: "entry \<Rightarrow> entry option" where
  "full_entry e = (case (map_of e ''guid'', map_of e ''drive_id'') of
     (Some g, Some d) \<Rightarrow>
       Some ([(''guid'', JStr (str_json g)), (''drive_id'', d),
              (''last_backup_at'', case map_of e ''last_backup_at'' of Some v \<Rightarrow> v | None \<Rightarrow> JNull),
              (''autoeject'', JBool (case map_of e ''autoeject'' of Some v \<Rightarrow> truthy v | None \<Rightarrow> False))]
             @ (case map_of e ENCLOSURE_KEY of Some v \<Rightarrow> if truthy v then [(ENCLOSURE_KEY, v)] else [] | None \<Rightarrow> [])
             @ filter (\<lambda>(k, v). k \<notin> set KNOWN_KEYS \<and> k \<noteq> ENCLOSURE_KEY) e)
   | _ \<Rightarrow> None)"

fun full_entries :: "(string, entry) dict \<Rightarrow> (string \<times> json) list option" where
  "full_entries [] = Some []"
| "full_entries ((name, e) # es) = (case (full_entry e, full_entries es) of
     (Some f, Some fs) \<Rightarrow> Some ((name, JObj f) # fs) | _ \<Rightarrow> None)"

definition serialize :: "(string, entry) dict \<Rightarrow> reg_error + string" where
  "serialize entries = (case full_entries (sort_key fst entries) of
     None \<Rightarrow> Inl (Escaped KeyError)
   | Some out \<Rightarrow>
       (let text = dumps_indent (JObj out) @ [CHR 0x0A]
        in case parse_registry text of Inl e \<Rightarrow> Inl e | Inr _ \<Rightarrow> Inr text))"



section \<open>The atomic write\<close>

text \<open>
  \<open>dk_names\<close> is the directory, \<open>dk_past\<close> every directory a crash may leave (those since its last
  \<open>fsync\<close>), \<open>dk_text\<close> and \<open>dk_mode\<close> the files by inode, \<open>dk_synced\<close> the inodes whose contents are on disk.
\<close>

record disk =
  dk_names :: "(string, nat) dict"
  dk_past :: "(string, nat) dict list"
  dk_text :: "(nat, string) dict"
  dk_mode :: "(nat, nat) dict"
  dk_synced :: "nat list"

definition set_names :: "(string, nat) dict \<Rightarrow> disk \<Rightarrow> disk" where
  "set_names ns d = d\<lparr>dk_names := ns, dk_past := dk_past d @ [ns]\<rparr>"

definition drop_name :: "string \<Rightarrow> (string, nat) dict \<Rightarrow> (string, nat) dict" where
  "drop_name p ns = filter (\<lambda>(k, _). k \<noteq> p) ns"

definition mkstemp :: "string \<Rightarrow> nat \<Rightarrow> disk \<Rightarrow> disk" where
  "mkstemp tmp i d = (set_names (dict_set tmp i (dk_names d)) d)
     \<lparr>dk_text := dict_set i '''' (dk_text d), dk_mode := dict_set i 384 (dk_mode d), dk_synced := removeAll i (dk_synced d)\<rparr>"

definition write_file :: "nat \<Rightarrow> string \<Rightarrow> disk \<Rightarrow> disk" where
  "write_file i t d = d\<lparr>dk_text := dict_set i t (dk_text d), dk_synced := removeAll i (dk_synced d)\<rparr>"

definition fsync_file :: "nat \<Rightarrow> disk \<Rightarrow> disk" where
  "fsync_file i d = d\<lparr>dk_synced := i # dk_synced d\<rparr>"

definition chmod :: "nat \<Rightarrow> nat \<Rightarrow> disk \<Rightarrow> disk" where
  "chmod i mode d = d\<lparr>dk_mode := dict_set i mode (dk_mode d)\<rparr>"

definition replace_name :: "string \<Rightarrow> string \<Rightarrow> disk \<Rightarrow> disk" where
  "replace_name a b d = (case map_of (dk_names d) a of
     None \<Rightarrow> d | Some i \<Rightarrow> set_names (dict_set b i (drop_name a (dk_names d))) d)"

definition unlink :: "string \<Rightarrow> disk \<Rightarrow> disk" where
  "unlink p d = set_names (drop_name p (dk_names d)) d"

definition fsync_dir :: "disk \<Rightarrow> disk" where
  "fsync_dir d = d\<lparr>dk_past := [dk_names d]\<rparr>"

text \<open>
  The system calls of a write, in order; \<open>fails\<close> says which raises. A write that fails has put its
  first \<open>part\<close> characters. \<open>run_calls\<close> gives every state on the way and whether all of them returned.
\<close>

datatype call = Mkdir | Mkstemp | Write | Fsync | Chmod | Replace | Unlink | FsyncDir

fun run_calls :: "(call \<Rightarrow> bool) \<Rightarrow> (call \<times> (disk \<Rightarrow> disk) \<times> (disk \<Rightarrow> disk)) list \<Rightarrow> disk \<Rightarrow> disk list \<times> bool" where
  "run_calls fails [] d = ([], True)"
| "run_calls fails ((c, f, g) # cs) d =
     (if fails c then ([g d], False)
      else (case run_calls fails cs (f d) of (ds, fine) \<Rightarrow> (f d # ds, fine)))"

definition write_calls :: "string \<Rightarrow> string \<Rightarrow> nat \<Rightarrow> nat \<Rightarrow> string \<Rightarrow> nat \<Rightarrow> (call \<times> (disk \<Rightarrow> disk) \<times> (disk \<Rightarrow> disk)) list" where
  "write_calls path tmp i mode text part =
     [(Write, write_file i text, write_file i (take part text)), (Fsync, fsync_file i, id), (Chmod, chmod i mode, id),
      (Replace, replace_name tmp path, id)]"

definition mode_of :: "string \<Rightarrow> disk \<Rightarrow> nat" where
  "mode_of path d = (case map_of (dk_names d) path of
     Some j \<Rightarrow> dict_get_or (dk_mode d) j 0 mod 512 | None \<Rightarrow> 420)"

text \<open>\<open>tmp\<close> and \<open>i\<close> are the name and the inode \<open>mkstemp\<close> makes.\<close>

definition put_text ::
    "(call \<Rightarrow> bool) \<Rightarrow> nat \<Rightarrow> string \<Rightarrow> string \<Rightarrow> nat \<Rightarrow> string \<Rightarrow> disk \<Rightarrow> disk list \<times> bool" where
  "put_text fails part path tmp i text d =
     (if fails Mkdir \<or> fails Mkstemp then ([], False)
      else (let d1 = mkstemp tmp i d in
        case run_calls fails (write_calls path tmp i (mode_of path d) text part) d1 of (ds, fine) \<Rightarrow>
        (let d2 = last (d1 # ds) in
         if fine then (d1 # ds @ (if fails FsyncDir then [] else [fsync_dir d2]), \<not> fails FsyncDir)
         else if tmp \<in> set (dict_keys (dk_names d2)) \<and> \<not> fails Unlink then (d1 # ds @ [unlink tmp d2], False)
         else (d1 # ds, False))))"

definition write_atomic ::
    "(call \<Rightarrow> bool) \<Rightarrow> nat \<Rightarrow> string \<Rightarrow> string \<Rightarrow> nat \<Rightarrow> (string, entry) dict \<Rightarrow> disk \<Rightarrow> reg_error + (disk list \<times> bool)" where
  "write_atomic fails part path tmp i entries d =
     (case serialize entries of Inl e \<Rightarrow> Inl e | Inr text \<Rightarrow> Inr (put_text fails part path tmp i text d))"

text \<open>What a reader may find at \<open>path\<close> after a crash in state \<open>d\<close>.\<close>

definition survives :: "disk \<Rightarrow> string \<Rightarrow> string option \<Rightarrow> bool" where
  "survives d path x = list_ex (\<lambda>ns. case map_of ns path of
     None \<Rightarrow> x = None
   | Some i \<Rightarrow> i \<in> set (dk_synced d) \<longrightarrow> x = map_of (dk_text d) i) (dk_past d)"

definition text_at :: "disk \<Rightarrow> string \<Rightarrow> string option" where
  "text_at d path = Option.bind (map_of (dk_names d) path) (map_of (dk_text d))"

text \<open>Nothing is pending, and the file at \<open>path\<close>, when there is one, is on disk.\<close>

definition settled :: "disk \<Rightarrow> string \<Rightarrow> bool" where
  "settled d path = (dk_past d = [dk_names d]
     \<and> (case map_of (dk_names d) path of None \<Rightarrow> True | Some j \<Rightarrow> j \<in> set (dk_synced d)))"


section \<open>The drives of a configuration\<close>

record drive_info =
  di_name :: string
  di_guid :: string
  di_drive_id :: string
  di_last_backup_at :: "string option"
  di_autoeject :: bool
  di_extra :: entry
  di_enclosure_id :: string

definition drive_of :: "string \<Rightarrow> entry \<Rightarrow> drive_info" where
  "drive_of name e =
     (let text = (\<lambda>k. case map_of e k of Some v \<Rightarrow> str_json v | None \<Rightarrow> '''') in
      \<lparr>di_name = name, di_guid = text ''guid'', di_drive_id = text ''drive_id'',
       di_last_backup_at = (case map_of e ''last_backup_at'' of Some (JStr s) \<Rightarrow> Some s | _ \<Rightarrow> None),
       di_autoeject = (case map_of e ''autoeject'' of Some v \<Rightarrow> truthy v | None \<Rightarrow> False),
       di_extra = filter (\<lambda>(k, v). k \<notin> set KNOWN_KEYS \<and> k \<noteq> ENCLOSURE_KEY) e,
       di_enclosure_id = text ENCLOSURE_KEY\<rparr>)"

record config =
  cf_known_drives :: "(string, drive_info) dict"
  cf_load_error :: "reg_error option"

text \<open>\<open>Config.load\<close>: only a \<open>RegistryError\<close> is caught; \<open>Inl\<close> is what escapes.\<close>

definition config_load :: "found \<Rightarrow> py_error + config" where
  "config_load f = (case load_registry f of
     Inl (Escaped e) \<Rightarrow> Inl e
   | Inl e \<Rightarrow> Inr \<lparr>cf_known_drives = [], cf_load_error = Some e\<rparr>
   | Inr data \<Rightarrow> Inr \<lparr>cf_known_drives = map (\<lambda>(name, e). (name, drive_of name e)) data, cf_load_error = None\<rparr>)"

definition entry_of :: "drive_info \<Rightarrow> entry" where
  "entry_of d = foldl (\<lambda>m (k, v). dict_set k v m) (di_extra d)
     ([(''guid'', JStr (di_guid d)), (''drive_id'', JStr (di_drive_id d)),
       (''last_backup_at'', case di_last_backup_at d of Some s \<Rightarrow> JStr s | None \<Rightarrow> JNull),
       (''autoeject'', JBool (di_autoeject d))]
      @ (if di_enclosure_id d \<noteq> '''' then [(ENCLOSURE_KEY, JStr (di_enclosure_id d))] else []))"

definition save_drives ::
    "(call \<Rightarrow> bool) \<Rightarrow> nat \<Rightarrow> string \<Rightarrow> string \<Rightarrow> nat \<Rightarrow> config \<Rightarrow> disk \<Rightarrow> reg_error + (disk list \<times> bool)" where
  "save_drives fails part path tmp i c d =
     (case cf_load_error c of Some e \<Rightarrow> Inl Refused
      | None \<Rightarrow> write_atomic fails part path tmp i (map (\<lambda>(name, info). (name, entry_of info)) (cf_known_drives c)) d)"

text \<open>\<open>replace\<close> is given the validated settings of the drive's entry; another type of value means the defaults.\<close>

definition drive_policy :: "config \<Rightarrow> string \<Rightarrow> policy" where
  "drive_policy c pool =
     (case Option.bind (map_of (cf_known_drives c) pool) (\<lambda>info. map_of (di_extra info) RETENTION_KEY) of
        Some (JObj rows) \<Rightarrow> \<lparr>window_days = setting rows ''window_days'' (window_days Policy),
          max_age_days = setting rows ''max_age_days'' (max_age_days Policy),
          margin_pct = setting rows ''margin_pct'' (margin_pct Policy)\<rparr>
      | _ \<Rightarrow> Policy)"

definition drive_autoeject :: "config \<Rightarrow> string \<Rightarrow> bool" where
  "drive_autoeject c pool = (case map_of (cf_known_drives c) pool of Some info \<Rightarrow> di_autoeject info | None \<Rightarrow> False)"



section \<open>Lemmas: rendering and parsing\<close>

context json_layout
begin

lemma loads_print_blank:
  assumes v: "plain_json v" and w: "blank w"
  shows "loads (print_json nl colon l v @ w) = Some v"
proof -
  let ?t = "print_json nl colon l v @ w"
  have ends: "ends w" using w by (cases w) (simp_all add: ends_def blank_def)
  have "take_value (Suc (2 * length ?t)) ?t = Some (v, w)"
    using print_reads_back [OF v] ends unfolding reads_back_def by (simp del: take_value.simps)
  moreover have "skip_space ?t = ?t" by (rule skip_starts [OF starts_print [OF v]])
  moreover have "skip_space w = []" using skip_blank [OF w, of "[]"] by (simp add: skip_space_def)
  ultimately show ?thesis by (simp add: loads_def del: take_value.simps)
qed

end

lemma dict_set_new: "k \<notin> set (dict_keys m) \<Longrightarrow> dict_set k v m = m @ [(k, v)]"
  by (induction m) (auto simp: dict_set_def dict_keys_def)

lemma add_new_keys:
  "distinct (dict_keys m @ map fst kvs) \<Longrightarrow> foldl (\<lambda>m (k, v). dict_set k v m) m kvs = m @ kvs"
proof (induction kvs arbitrary: m)
  case (Cons kv kvs)
  obtain k v where kv: "kv = (k, v)" by (rule prod.exhaust)
  have "dict_set k v m = m @ [(k, v)]" using Cons.prems kv by (intro dict_set_new) auto
  then show ?case using Cons.prems Cons.IH [of "m @ [(k, v)]"] kv by (simp add: dict_keys_def)
qed simp

definition foreign_key :: "string \<Rightarrow> bool" where
  "foreign_key k = (k \<notin> set KNOWN_KEYS \<and> k \<noteq> ENCLOSURE_KEY)"

definition own_part :: "drive_info \<Rightarrow> entry" where
  "own_part d = [(''guid'', JStr (di_guid d)), (''drive_id'', JStr (di_drive_id d)),
     (''last_backup_at'', case di_last_backup_at d of Some s \<Rightarrow> JStr s | None \<Rightarrow> JNull), (''autoeject'', JBool (di_autoeject d))]
     @ (if di_enclosure_id d \<noteq> '''' then [(ENCLOSURE_KEY, JStr (di_enclosure_id d))] else [])"

text \<open>What \<open>Config\<close> holds of a drive: its own name, and beside it keys this version does not know.\<close>

definition sane_drive :: "string \<times> drive_info \<Rightarrow> bool" where
  "sane_drive row = (case row of (name, d) \<Rightarrow> di_name d = name \<and> wf_dict (di_extra d)
     \<and> list_all (\<lambda>(k, v). foreign_key k \<and> plain_json v) (di_extra d))"

lemma own_filter: "filter (\<lambda>(k, v). foreign_key k) (own_part d) = []"
  by (simp add: own_part_def foreign_key_def KNOWN_KEYS_def ENCLOSURE_KEY_def)

lemma extra_filter: "sane_drive (name, d) \<Longrightarrow> filter (\<lambda>(k, v). foreign_key k) (di_extra d) = di_extra d"
  by (auto simp: sane_drive_def list_all_iff filter_id_conv)

lemma own_distinct: "distinct (map fst (own_part d))"
  by (simp add: own_part_def ENCLOSURE_KEY_def)

lemma extra_none: "sane_drive (name, d) \<Longrightarrow> \<not> foreign_key k \<Longrightarrow> map_of (di_extra d) k = None"
  by (auto simp: sane_drive_def list_all_iff map_of_eq_None_iff)

lemma keys_disjoint: "sane_drive (name, d) \<Longrightarrow> set (dict_keys (di_extra d)) \<inter> set (map fst (own_part d)) = {}"
proof -
  assume s: "sane_drive (name, d)"
  have "k \<notin> set (dict_keys (di_extra d))" if "(k, v) \<in> set (own_part d)" for k v
  proof -
    have "\<not> foreign_key k" using own_filter [of d] that by (auto simp: filter_empty_conv)
    with extra_none [OF s] have "map_of (di_extra d) k = None" by blast
    then show ?thesis by (simp only: map_of_eq_None_iff dict_keys_def set_map not_False_eq_True)
  qed
  then show ?thesis by fastforce
qed

lemma entry_of_append: "sane_drive (name, d) \<Longrightarrow> entry_of d = di_extra d @ own_part d"
proof -
  assume s: "sane_drive (name, d)"
  then have "distinct (dict_keys (di_extra d) @ map fst (own_part d))"
    using own_distinct [of d] keys_disjoint [OF s] by (simp add: sane_drive_def wf_dict_def)
  moreover have "entry_of d = foldl (\<lambda>m (k, v). dict_set k v m) (di_extra d) (own_part d)"
    by (simp only: entry_of_def own_part_def)
  ultimately show ?thesis by (simp only: add_new_keys)
qed

lemma known_not_foreign: "\<not> foreign_key ''guid''" "\<not> foreign_key ''drive_id''" "\<not> foreign_key ''last_backup_at''"
    "\<not> foreign_key ''autoeject''" "\<not> foreign_key ENCLOSURE_KEY"
  by (simp_all add: foreign_key_def KNOWN_KEYS_def)

text \<open>What the rendering looks up in an entry of its own making.\<close>

lemma own_lookup:
  "map_of (own_part d) ''guid'' = Some (JStr (di_guid d))" "map_of (own_part d) ''drive_id'' = Some (JStr (di_drive_id d))"
  "map_of (own_part d) ''last_backup_at'' = Some (case di_last_backup_at d of Some s \<Rightarrow> JStr s | None \<Rightarrow> JNull)"
  "map_of (own_part d) ''autoeject'' = Some (JBool (di_autoeject d))"
  "map_of (own_part d) ENCLOSURE_KEY = (if di_enclosure_id d = '''' then None else Some (JStr (di_enclosure_id d)))"
  by (simp_all add: own_part_def ENCLOSURE_KEY_def)

lemma full_entry_of:
  assumes "sane_drive (name, d)"
  shows "full_entry (entry_of d) = Some (own_part d @ di_extra d)"
  unfolding full_entry_def entry_of_append [OF assms] foreign_key_def [symmetric]
  by (simp add: map_add_def own_lookup extra_none [OF assms] known_not_foreign own_filter extra_filter [OF assms] str_json_def truthy_def)
     (simp add: own_part_def)

lemma drive_of_entry:
  assumes "sane_drive (name, d)"
  shows "drive_of name (own_part d @ di_extra d) = d"
proof -
  have "di_name d = name" using assms by (simp add: sane_drive_def)
  then show ?thesis
    unfolding drive_of_def Let_def foreign_key_def [symmetric]
    by (simp add: map_add_def own_lookup extra_none [OF assms] known_not_foreign own_filter extra_filter [OF assms]
        str_json_def truthy_def split: option.split)
qed


definition rendered :: "(string, drive_info) dict \<Rightarrow> (string \<times> json) list" where
  "rendered drives = map (\<lambda>(name, d). (name, JObj (own_part d @ di_extra d))) drives"

lemma full_entries_of:
  "list_all sane_drive drives \<Longrightarrow> full_entries (map (\<lambda>(name, d). (name, entry_of d)) drives) = Some (rendered drives)"
  by (induction drives) (auto simp: rendered_def full_entry_of)

lemma drives_of_rendered:
  "list_all sane_drive drives \<Longrightarrow> map (\<lambda>(name, e). (name, drive_of name e)) (entries_of_json (rendered drives)) = drives"
  by (induction drives) (auto simp: rendered_def entries_of_json_def drive_of_entry)

lemma plain_own: "plain_json (JObj (own_part d))"
  by (auto simp: own_part_def wf_dict_def dict_keys_def ENCLOSURE_KEY_def split: option.split)

lemma plain_rendered:
  assumes "wf_dict drives" and "list_all sane_drive drives"
  shows "plain_json (JObj (rendered drives))"
proof -
  have one: "plain_json (JObj (own_part d @ di_extra d))" if s: "sane_drive (name, d)" for name d
  proof -
    have "distinct (dict_keys (own_part d @ di_extra d))"
      using s own_distinct [of d] keys_disjoint [OF s] by (auto simp: sane_drive_def wf_dict_def dict_keys_def)
    then show ?thesis using s plain_own [of d] by (auto simp: sane_drive_def list_all_iff wf_dict_def)
  qed
  have "dict_keys (rendered drives) = dict_keys drives" by (auto simp: rendered_def dict_keys_def)
  then have "wf_dict (rendered drives)" using assms(1) by (simp add: wf_dict_def)
  moreover have "plain_json v" if "(k, v) \<in> set (rendered drives)" for k v
    using that one assms(2) by (auto simp: rendered_def list_all_iff simp del: plain_json.simps(4))
  ultimately show ?thesis by (auto simp: list_all_iff)
qed

lemma sort_drives:
  fixes drives :: "(string, drive_info) dict"
  shows "sort_key fst (map (\<lambda>(name, d). (name, entry_of d)) drives) = map (\<lambda>(name, d). (name, entry_of d)) (sort_key fst drives)"
proof -
  have "(\<lambda>x. fst (case x of (name :: string, d) \<Rightarrow> (name, entry_of d))) = fst" by auto
  then show ?thesis by (simp only: sort_key_map)
qed



section \<open>Properties: the registry read back\<close>

text \<open>C35: the registry round trip. What \<open>save_drives\<close> renders for any set of drives, unknown keys of newer
  versions included, is read by \<open>Config.load\<close> as exactly those drives, in the order of their
  names.\<close>

theorem registry_round_trip:
  assumes "wf_dict drives" and "list_all sane_drive drives"
    and "serialize (map (\<lambda>(name, d). (name, entry_of d)) drives) = Inr text"
  shows "config_load (Contents text) = Inr \<lparr>cf_known_drives = sort_key fst drives, cf_load_error = None\<rparr>"
proof -
  let ?ds = "sort_key fst drives"
  have sane: "list_all sane_drive ?ds" using assms(2) by (simp add: list_all_iff)
  have "full_entries (sort_key fst (map (\<lambda>(name, d). (name, entry_of d)) drives)) = Some (rendered ?ds)"
    unfolding sort_drives using sane by (rule full_entries_of)
  then have out: "text = dumps_indent (JObj (rendered ?ds)) @ [CHR 0x0A]" and ok: "\<exists>x. parse_registry text = Inr x"
    using assms(3) by (auto simp: serialize_def Let_def split: sum.splits)
  have "plain_json (JObj (rendered ?ds))" using assms(1) sane by (intro plain_rendered) simp_all
  then have "loads text = Some (JObj (rendered ?ds))"
    unfolding out dumps_indent_def by (rule indented.loads_print_blank) (simp add: is_json_space_def)
  with ok have "parse_registry text = Inr (entries_of_json (rendered ?ds))"
    by (auto simp: parse_registry_def split: option.splits)
  then show ?thesis using drives_of_rendered [OF sane] by (simp add: config_load_def load_registry_def)
qed

definition ex_drive_blue :: drive_info where
  "ex_drive_blue = \<lparr>di_name = ''blue'', di_guid = ''77'', di_drive_id = ''ata-X'', di_last_backup_at = None,
     di_autoeject = True, di_extra = [(''shared'', JObj [])], di_enclosure_id = ''''\<rparr>"

lemma ex_serialized: "\<exists>text. serialize [(''blue'', entry_of ex_drive_blue)] = Inr text"
proof -
  have "sane_drive (''blue'', ex_drive_blue)" by code_simp
  then have full: "full_entry (entry_of ex_drive_blue) = Some (own_part ex_drive_blue @ di_extra ex_drive_blue)"
    by (rule full_entry_of)
  have "plain_json (JObj [(''blue'', JObj (own_part ex_drive_blue @ di_extra ex_drive_blue))])" by code_simp
  then have l: "loads (dumps_indent (JObj [(''blue'', JObj (own_part ex_drive_blue @ di_extra ex_drive_blue))]) @ [CHR 0x0A])
      = Some (JObj [(''blue'', JObj (own_part ex_drive_blue @ di_extra ex_drive_blue))])"
    unfolding dumps_indent_def by (rule indented.loads_print_blank) (simp add: is_json_space_def)
  have "row_error (''blue'', JObj (own_part ex_drive_blue @ di_extra ex_drive_blue)) = None" by code_simp
  with l full show ?thesis by (simp add: serialize_def Let_def parse_registry_def)
qed

theorem registry_round_trip_witness:
  "\<exists>text. serialize [(''blue'', entry_of ex_drive_blue)] = Inr text
     \<and> config_load (Contents text) = Inr \<lparr>cf_known_drives = [(''blue'', ex_drive_blue)], cf_load_error = None\<rparr>"
proof -
  obtain out where t: "serialize [(''blue'', entry_of ex_drive_blue)] = Inr out" using ex_serialized by blast
  have "wf_dict [(''blue'', ex_drive_blue)]" "list_all sane_drive [(''blue'', ex_drive_blue)]" by code_simp+
  from registry_round_trip [OF this, of out] t show ?thesis by simp
qed



section \<open>Properties: a crash during a write\<close>

text \<open>The file a reader finds at \<open>path\<close> is the old one, or the new one in full.\<close>

definition old_kept :: "disk \<Rightarrow> string \<Rightarrow> nat \<Rightarrow> disk \<Rightarrow> bool" where
  "old_kept d0 path i d = (case map_of (dk_names d0) path of None \<Rightarrow> True
     | Some j \<Rightarrow> j \<noteq> i \<and> j \<in> set (dk_synced d) \<and> map_of (dk_text d) j = map_of (dk_text d0) j)"

definition new_there :: "nat \<Rightarrow> string \<Rightarrow> disk \<Rightarrow> bool" where
  "new_there i t d = (i \<in> set (dk_synced d) \<and> map_of (dk_text d) i = Some t)"

definition whole :: "disk \<Rightarrow> string \<Rightarrow> nat \<Rightarrow> string \<Rightarrow> disk \<Rightarrow> bool" where
  "whole d0 path i t d = (old_kept d0 path i d \<and> (\<forall>ns \<in> set (dk_past d).
     map_of ns path = map_of (dk_names d0) path \<or> (map_of ns path = Some i \<and> new_there i t d)))"

text \<open>Before the rename the name is untouched; \<open>ready\<close> is the state in which it may be made.\<close>

definition aside :: "disk \<Rightarrow> string \<Rightarrow> string \<Rightarrow> nat \<Rightarrow> disk \<Rightarrow> bool" where
  "aside d0 path tmp i d = (old_kept d0 path i d \<and> map_of (dk_names d) tmp = Some i
     \<and> map_of (dk_names d) path = map_of (dk_names d0) path
     \<and> (\<forall>ns \<in> set (dk_past d). map_of ns path = map_of (dk_names d0) path))"

lemma whole_survives:
  "whole d0 path i t d \<Longrightarrow> survives d path x \<Longrightarrow> x = text_at d0 path \<or> x = Some t"
  by (fastforce simp: whole_def survives_def list_ex_iff old_kept_def new_there_def text_at_def split: option.splits)

lemma aside_whole: "aside d0 path tmp i d \<Longrightarrow> whole d0 path i t d"
  by (auto simp: aside_def whole_def)

lemma fresh_inode: "i \<notin> snd ` set m \<Longrightarrow> map_of m p \<noteq> Some i"
  by (auto dest!: map_of_SomeD) force

lemma settled_whole: "settled d path \<Longrightarrow> i \<notin> snd ` set (dk_names d) \<Longrightarrow> whole d path i t d"
  using fresh_inode [of i "dk_names d" path] by (auto simp: settled_def whole_def old_kept_def split: option.splits)

lemma aside_mkstemp:
  "settled d path \<Longrightarrow> tmp \<noteq> path \<Longrightarrow> i \<notin> snd ` set (dk_names d) \<Longrightarrow> aside d path tmp i (mkstemp tmp i d)"
  using fresh_inode [of i "dk_names d" path]
  by (auto simp: settled_def aside_def old_kept_def mkstemp_def set_names_def split: option.splits)

lemma aside_steps:
  "aside d0 path tmp i d \<Longrightarrow> aside d0 path tmp i (write_file i s d)"
  "aside d0 path tmp i d \<Longrightarrow> aside d0 path tmp i (fsync_file i d)"
  "aside d0 path tmp i d \<Longrightarrow> aside d0 path tmp i (chmod i mode d)"
  by (auto simp: aside_def old_kept_def write_file_def fsync_file_def chmod_def split: option.splits)

lemma map_of_drop_name: "map_of (drop_name p ns) = (map_of ns)(p := None)"
  by (induction ns) (auto simp: drop_name_def)

lemma whole_unlink: "aside d0 path tmp i d \<Longrightarrow> tmp \<noteq> path \<Longrightarrow> whole d0 path i t (unlink tmp d)"
  by (auto simp: aside_def whole_def old_kept_def unlink_def set_names_def map_of_drop_name split: option.splits)

lemma new_ready: "new_there i t (chmod i mode (fsync_file i (write_file i t d)))"
  by (simp add: new_there_def write_file_def fsync_file_def chmod_def)

lemma whole_replace:
  assumes "aside d0 path tmp i d" and "new_there i t d"
  shows "whole d0 path i t (replace_name tmp path d)" and "map_of (dk_names (replace_name tmp path d)) path = Some i"
    and "new_there i t (replace_name tmp path d)"
  using assms by (auto simp: aside_def whole_def old_kept_def new_there_def replace_name_def set_names_def map_of_drop_name
      split: option.splits)

lemma new_survives:
  "map_of (dk_names d) path = Some i \<Longrightarrow> new_there i t d \<Longrightarrow> survives (fsync_dir d) path x \<Longrightarrow> x = Some t"
  by (simp add: survives_def fsync_dir_def new_there_def)

lemma whole_fsync_dir:
  "map_of (dk_names d) path = Some i \<Longrightarrow> new_there i t d \<Longrightarrow> old_kept d0 path i d \<Longrightarrow> whole d0 path i t (fsync_dir d)"
  by (auto simp: whole_def fsync_dir_def new_there_def old_kept_def split: option.splits)

lemma put_text_whole:
  assumes "put_text fails part path tmp i t d = (ds, fine)" and "settled d path" and "tmp \<noteq> path"
    and "i \<notin> snd ` set (dk_names d)"
  shows "list_all (whole d path i t) ds \<and> (fine \<longrightarrow> ds \<noteq> [] \<and> (\<forall>x. survives (last ds) path x \<longrightarrow> x = Some t))"
proof (cases "fails Mkdir \<or> fails Mkstemp")
  case True
  with assms(1) show ?thesis by (auto simp: put_text_def)
next
  case False
  define mode where "mode = mode_of path d"
  define d1 where "d1 = mkstemp tmp i d"
  define d2 where "d2 = write_file i t d1"
  define d3 where "d3 = fsync_file i d2"
  define d4 where "d4 = chmod i mode d3"
  define d5 where "d5 = replace_name tmp path d4"
  let ?d2 = "write_file i (take part t) d1"
  have a: "aside d path tmp i d1" "aside d path tmp i d2" "aside d path tmp i d3" "aside d path tmp i d4" "aside d path tmp i ?d2"
    using aside_mkstemp [OF assms(2-4)] by (simp_all add: d1_def d2_def d3_def d4_def aside_steps)
  have n: "new_there i t d4" by (simp add: d4_def d3_def d2_def new_ready)
  note r = whole_replace [OF a(4) n, folded d5_def]
  have kept: "old_kept d path i d5" using r(1) by (simp add: whole_def)
  have w: "whole d path i t e" if "aside d path tmp i e" for e using that by (rule aside_whole)
  have u: "whole d path i t (unlink tmp e)" if "aside d path tmp i e" for e by (rule whole_unlink [OF that assms(3)])
  have calls: "run_calls fails (write_calls path tmp i mode t part) d1 =
     (if fails Write then ([?d2], False) else if fails Fsync then ([d2, d2], False)
      else if fails Chmod then ([d2, d3, d3], False) else if fails Replace then ([d2, d3, d4, d4], False)
      else ([d2, d3, d4, d5], True))"
    by (simp add: write_calls_def d2_def d3_def d4_def d5_def)
  show ?thesis
  proof (cases "fails Write \<or> fails Fsync \<or> fails Chmod \<or> fails Replace")
    case True
    define es where "es = fst (run_calls fails (write_calls path tmp i mode t part) d1)"
    have es: "run_calls fails (write_calls path tmp i mode t part) d1 = (es, False)"
      using True by (auto simp: es_def calls)
    have all: "list_all (aside d path tmp i) (d1 # es)" using True a by (auto simp: es_def calls)
    have "aside d path tmp i (last (d1 # es))" using all by (metis last_in_set list.discI list_all_iff)
    with all u w have "list_all (whole d path i t) (d1 # es @ [unlink tmp (last (d1 # es))])"
      by (simp add: list_all_iff)
    with assms(1) False es show ?thesis by (auto simp: put_text_def d1_def [symmetric] mode_def [symmetric] Let_def split: if_splits)
  next
    case ok: False
    then have "run_calls fails (write_calls path tmp i mode t part) d1 = ([d2, d3, d4, d5], True)" by (simp add: calls)
    then have "ds = [d1, d2, d3, d4, d5] @ (if fails FsyncDir then [] else [fsync_dir d5])" and "fine = (\<not> fails FsyncDir)"
      using assms(1) False by (auto simp: put_text_def d1_def [symmetric] mode_def [symmetric] Let_def)
    then show ?thesis using w [OF a(1)] w [OF a(2)] w [OF a(3)] w [OF a(4)] r(1) whole_fsync_dir [OF r(2,3) kept] new_survives [OF r(2,3)]
      by simp
  qed
qed

text \<open>C34: a crash, a full disk or a failing call at any moment of a write never leaves a truncated
  registry. Whatever state the write was in, what is found afterwards is the registry from before or
  the new one in full; and once \<open>write_atomic\<close> has returned, only the new one.\<close>

theorem registry_crash_safe:
  assumes "serialize entries = Inr t" and "write_atomic fails part path tmp i entries d = Inr (ds, fine)"
    and "settled d path" and "tmp \<noteq> path" and "i \<notin> snd ` set (dk_names d)"
    and "d' \<in> set (d # ds)" and "survives d' path x"
  shows "x = Some t \<or> (x = text_at d path \<and> \<not> (fine \<and> d' = last ds))"
proof -
  from assms(1,2) have put: "put_text fails part path tmp i t d = (ds, fine)" by (simp add: write_atomic_def)
  note w = put_text_whole [OF put assms(3-5)]
  have "whole d path i t d'" using w assms(6) settled_whole [OF assms(3,5)] by (auto simp: list_all_iff)
  from whole_survives [OF this assms(7)] w assms(7) show ?thesis by auto
qed


definition ex_disk :: disk where
  "ex_disk = \<lparr>dk_names = [(''known_drives.json'', 1)], dk_past = [[(''known_drives.json'', 1)]], dk_text = [(1, ''{}'')],
     dk_mode = [(1, 420)], dk_synced = [1]\<rparr>"

theorem registry_crash_safe_witness:
  "\<exists>t ds fine. serialize [(''blue'', entry_of ex_drive_blue)] = Inr t
     \<and> write_atomic (\<lambda>c. c = Replace) 0 ''known_drives.json'' ''.known_drives.json.x'' 2
          [(''blue'', entry_of ex_drive_blue)] ex_disk = Inr (ds, fine)
     \<and> survives (last ds) ''known_drives.json'' (Some ''{}'')
     \<and> (Some ''{}'' = Some t \<or> Some ''{}'' = text_at ex_disk ''known_drives.json'')"
proof -
  obtain t where t: "serialize [(''blue'', entry_of ex_drive_blue)] = Inr t" using ex_serialized by blast
  obtain ds fine where put: "put_text (\<lambda>c. c = Replace) 0 ''known_drives.json'' ''.known_drives.json.x'' 2 t ex_disk = (ds, fine)"
    by (rule prod.exhaust)
  then have w: "write_atomic (\<lambda>c. c = Replace) 0 ''known_drives.json'' ''.known_drives.json.x'' 2
      [(''blue'', entry_of ex_drive_blue)] ex_disk = Inr (ds, fine)" by (simp add: write_atomic_def t)
  have s: "survives (last ds) ''known_drives.json'' (Some ''{}'')" and m: "last ds \<in> set (ex_disk # ds)"
    using put by (auto simp: put_text_def write_calls_def ex_disk_def mkstemp_def write_file_def fsync_file_def chmod_def
        unlink_def set_names_def drop_name_def survives_def dict_set_def Let_def)
  have "settled ex_disk ''known_drives.json''" "2 \<notin> snd ` set (dk_names ex_disk)"
    by (simp_all add: settled_def ex_disk_def)
  from registry_crash_safe [OF t w this(1) _ this(2) m s] show ?thesis using t w s by auto
qed

text \<open>\<open>Config.load\<close> does raise, against its own contract, for a registry that is no UTF-8.\<close>

lemma undecodable_registry_escapes: "config_load Undecodable = Inl ValueError"
  by (simp add: config_load_def load_registry_def)

end
