(* ===== verification/Identity.thy ===== *)
theory Identity
  imports Registry Backup_Layout
begin

text \<open>
  \<open>lib/identity.py\<close> and the parts of \<open>lib/drives.py\<close> that decide which disk is which: the kinds of
  \<open>/dev/disk/by-id\<close> names, the label of a disk, which registry entry describes it and on what evidence,
  and the disks a destructive command must never touch. What the kernel says of a path is the record
  \<open>paths\<close>: its real path, whether it is there, whether it is a block device and how long it is.
  \<open>usb_ids\<close> only reads sysfs and is left out.
\<close>

section \<open>Names of a disk\<close>

definition BY_ID_DIR :: string where "BY_ID_DIR = ''/dev/disk/by-id''"

definition BY_ID_RANK :: "string list" where
  "BY_ID_RANK = [''usb-'', ''ata-'', ''nvme-'', ''mmc-'', ''virtio-'', ''dm-'', ''md-'', '''']"

definition BY_ID_WEAK :: "string list" where
  "BY_ID_WEAK = [''wwn-'', ''scsi-'', ''nvme-eui.'', ''nvme-nvme.'']"

definition DISK_PREFIXES :: "string list" where "DISK_PREFIXES = [''ata-'', ''nvme-'', ''mmc-'', ''virtio-'']"

definition BUS_PREFIXES :: "string list" where "BUS_PREFIXES = [''usb-'', ''ieee1394-'']"

datatype kind = DISK | BUS | WEAK | OTHER

definition starts_any :: "string \<Rightarrow> string list \<Rightarrow> bool" where
  "starts_any s ps = list_ex (startswith s) ps"

definition classify :: "string \<Rightarrow> kind" where
  "classify name =
     (if starts_any name BY_ID_WEAK then WEAK
      else if starts_any name DISK_PREFIXES then DISK
      else if starts_any name BUS_PREFIXES then BUS
      else OTHER)"

definition rank_in :: "string list \<Rightarrow> string \<Rightarrow> nat" where
  "rank_in order n = (case find (\<lambda>i. startswith n (order ! i)) [0..<length order] of Some i \<Rightarrow> i | None \<Rightarrow> length order)"

text \<open>\<open>min(..., key=lambda n: (rank, n))\<close>.\<close>

definition min_ranked :: "string list \<Rightarrow> string list \<Rightarrow> string" where
  "min_ranked order names = (case sort_key (\<lambda>n. (rank_in order n, n)) names of [] \<Rightarrow> '''' | n # _ \<Rightarrow> n)"

definition best :: "string list \<Rightarrow> kind \<Rightarrow> string list \<Rightarrow> string" where
  "best names k order = min_ranked order (filter (\<lambda>n. classify n = k) names)"

record pool_label =
  pl_name :: string
  pl_guid :: string
  pl_hostid :: string
  pl_hostname :: string

record disk_identity =
  id_disk :: string
  id_by_id :: string
  id_model :: string
  id_serial :: string
  id_size :: string
  id_transport :: string
  id_label :: "pool_label option"
  id_aliases :: "string list"

definition DiskIdentity :: "string \<Rightarrow> string \<Rightarrow> string list \<Rightarrow> disk_identity" where
  "DiskIdentity disk by_id aliases = \<lparr>id_disk = disk, id_by_id = by_id, id_model = '''', id_serial = '''', id_size = '''',
     id_transport = '''', id_label = None, id_aliases = aliases\<rparr>"

definition by_id_path :: "disk_identity \<Rightarrow> string" where
  "by_id_path x = (if id_by_id x \<noteq> '''' then BY_ID_DIR @ ''/'' @ id_by_id x else '''')"

definition disk_id :: "disk_identity \<Rightarrow> string" where
  "disk_id x = best (id_by_id x # id_aliases x) DISK DISK_PREFIXES"

definition bus_id :: "disk_identity \<Rightarrow> string" where
  "bus_id x = best (id_by_id x # id_aliases x) BUS BUS_PREFIXES"

definition part1 :: "disk_identity \<Rightarrow> py_error + string" where
  "part1 x = (if id_by_id x \<noteq> '''' then Inr (BY_ID_DIR @ ''/'' @ id_by_id x @ ''-part1'') else part_path (id_disk x) 1)"

definition registry_names :: "disk_identity \<Rightarrow> string \<times> string" where
  "registry_names x = (if disk_id x \<noteq> '''' then (disk_id x, bus_id x) else (id_by_id x, ''''))"

definition preferred_by_id :: "string list \<Rightarrow> string" where
  "preferred_by_id names =
     (let strong = filter (\<lambda>n. \<not> starts_any n BY_ID_WEAK) names
      in min_ranked BY_ID_RANK (if strong = [] then names else strong))"


section \<open>Reading a disk\<close>

text \<open>\<open>Path(p).name\<close>.\<close>

definition base_name :: "string \<Rightarrow> string" where
  "base_name p = (case filter (\<lambda>w. w \<noteq> '''' \<and> w \<noteq> ''.'') (split_on CHR ''/'' p) of [] \<Rightarrow> '''' | ws \<Rightarrow> last ws)"

text \<open>\<open>(\w+)="((?:[^"\\]|\\.)*)"\<close>, all matches from the left.\<close>

definition is_word :: "char \<Rightarrow> bool" where
  "is_word c = (is_digit c \<or> c = CHR ''_'' \<or> c \<in> set ''ABCDEFGHIJKLMNOPQRSTUVWXYZabcdefghijklmnopqrstuvwxyz'')"

fun take_quoted :: "string \<Rightarrow> (string \<times> string) option" where
  "take_quoted [] = None"
| "take_quoted (c # cs) =
     (if c = QUOTE then Some ([], cs)
      else if c = BACKSLASH then
        (case cs of d # ds \<Rightarrow> if d = CHR 0x0A then None else map_option (\<lambda>(v, r). (c # d # v, r)) (take_quoted ds) | [] \<Rightarrow> None)
      else map_option (\<lambda>(v, r). (c # v, r)) (take_quoted cs))"

lemma take_quoted_shorter: "take_quoted s = Some (v, r) \<Longrightarrow> length r < length s"
  by (induction s arbitrary: v rule: take_quoted.induct) (fastforce split: if_splits list.splits)+

definition quoted_at :: "string \<Rightarrow> (string \<times> string) option" where
  "quoted_at s = (case s of a # b # r \<Rightarrow> if a = CHR ''='' \<and> b = QUOTE then take_quoted r else None | _ \<Rightarrow> None)"

lemma quoted_at_shorter: "quoted_at s = Some (v, r) \<Longrightarrow> length r < length s"
  by (auto simp: quoted_at_def split: list.splits if_splits dest!: take_quoted_shorter)

function lsblk_pairs :: "string \<Rightarrow> (string \<times> string) list" where
  "lsblk_pairs s =
     (if s = [] then []
      else if \<not> is_word (hd s) then lsblk_pairs (tl s)
      else (case quoted_at (dropWhile is_word s) of
              Some (v, r) \<Rightarrow> (takeWhile is_word s, v) # lsblk_pairs r
            | None \<Rightarrow> lsblk_pairs (dropWhile is_word s)))"
  by pat_completeness auto
termination
proof (relation "measure length")
  fix s :: string
  have le: "length (dropWhile is_word s) \<le> length s" by (rule length_dropWhile_le)
  show "(r, s) \<in> measure length" if "quoted_at (dropWhile is_word s) = Some x" "(v, r) = x" for x v r
    using quoted_at_shorter [of "dropWhile is_word s" v r] that le by simp
  show "(dropWhile is_word s, s) \<in> measure length" if "s \<noteq> []" "\<not> \<not> is_word (hd s)"
    using that by (cases s) (simp_all add: le_imp_less_Suc length_dropWhile_le)
qed auto

fun unquote_pairs :: "string \<Rightarrow> string" where
  "unquote_pairs (c # d # cs) = (if c = BACKSLASH \<and> d = QUOTE then QUOTE # unquote_pairs cs else c # unquote_pairs (d # cs))"
| "unquote_pairs s = s"

definition lsblk_fields :: "'w shell \<Rightarrow> string \<Rightarrow> (('w, 'z) machine_scheme, (string, string) dict) action" where
  "lsblk_fields exec node = do {
     r \<leftarrow> run exec (Line (''lsblk -dn -P -o NAME,TYPE,PKNAME,MODEL,SERIAL,SIZE,TRAN '' @ quote node));
     State_Monad.return (if \<not> ok r \<or> rr_output r = '''' then []
       else dict_of (map (\<lambda>(k, v). (k, strip (unquote_pairs v))) (lsblk_pairs (hd (split_lines (rr_output r))))))
   }"

text \<open>\<open>-part\d+$\<close> at the end of a name.\<close>

definition is_partition_name :: "string \<Rightarrow> bool" where
  "is_partition_name n =
     (let d = rev (takeWhile is_digit (rev n)) in d \<noteq> '''' \<and> endswith (take (length n - length d) n) ''-part'')"

definition by_id_names :: "'w shell \<Rightarrow> string \<Rightarrow> (('w, 'z) machine_scheme, string list) action" where
  "by_id_names exec disk = do {
     r \<leftarrow> run exec (Line (''find '' @ BY_ID_DIR @ ''/ -maxdepth 1 -type l -printf '' @ [CHR 0x27] @ ''%f'' @ [BACKSLASH] @ ''t%l'' @ [BACKSLASH] @ ''n'' @ [CHR 0x27]));
     State_Monad.return (if \<not> ok r then []
       else sort (List.map_filter (\<lambda>l. case tabs (strip l) of
                [name, link] \<Rightarrow> if base_name link = base_name disk \<and> \<not> is_partition_name name then Some name else None
              | _ \<Rightarrow> None) (result_lines r)))
   }"

text \<open>\<open>^\s+(name|pool_guid|hostid|hostname):\s+'?([^']*)'?\s*$\<close>\<close>

definition label_value :: "string \<Rightarrow> string option" where
  "label_value v =
     (if v = '''' \<or> \<not> is_space (hd v) then None
      else (let t = dropWhile is_space v; u = (if startswith t [CHR 0x27] then tl t else t);
                g = takeWhile (\<lambda>c. c \<noteq> CHR 0x27) u; rest = dropWhile (\<lambda>c. c \<noteq> CHR 0x27) u
            in if rest = [] \<or> list_all is_space (tl rest) then Some g else None))"

definition label_line :: "(string, string) dict \<Rightarrow> string \<Rightarrow> (string, string) dict" where
  "label_line found line =
     (if line = '''' \<or> \<not> is_space (hd line) then found
      else (case partition_on CHR '':'' (dropWhile is_space line) of (k, sep, v) \<Rightarrow>
        if sep \<and> k \<in> {''name'', ''pool_guid'', ''hostid'', ''hostname''}
        then (case label_value v of Some g \<Rightarrow> dict_setdefault k g found | None \<Rightarrow> found) else found))"

definition read_pool_label :: "'w shell \<Rightarrow> string \<Rightarrow> (('w, 'z) machine_scheme, pool_label option) action" where
  "read_pool_label exec device = do {
     r \<leftarrow> run exec (Line (''zdb -l '' @ quote device));
     State_Monad.return (if \<not> ok r then None
       else (let f = foldl label_line [] (result_lines r)
             in case (map_of f ''name'', map_of f ''pool_guid'') of
                  (Some n, Some g) \<Rightarrow> Some \<lparr>pl_name = n, pl_guid = g, pl_hostid = dict_get_or f ''hostid'' '''',
                    pl_hostname = dict_get_or f ''hostname'' ''''\<rparr>
                | _ \<Rightarrow> None))
   }"

definition names_of :: "'w shell \<Rightarrow> string \<Rightarrow> (('w, 'z) machine_scheme, disk_identity) action" where
  "names_of exec disk = do {
     names \<leftarrow> by_id_names exec disk;
     State_Monad.return (DiskIdentity disk (preferred_by_id names) names)
   }"



section \<open>Resolving a device\<close>

record 'w paths =
  at_real :: "'w \<Rightarrow> string \<Rightarrow> string"
  at_there :: "'w \<Rightarrow> string \<Rightarrow> bool"
  at_block :: "'w \<Rightarrow> string \<Rightarrow> bool"
  at_sectors :: "'w \<Rightarrow> string \<Rightarrow> nat option"

text \<open>Asking the kernel about a path in the present world.\<close>

definition ask_path :: "('w \<Rightarrow> 'a) \<Rightarrow> (('w, 'z) machine_scheme, 'a) action" where
  "ask_path f = State_Monad.bind State_Monad.get (\<lambda>m. State_Monad.return (f (m_world m)))"

definition whole_disk :: "'w shell \<Rightarrow> 'w paths \<Rightarrow> string \<Rightarrow> (('w, 'z) machine_scheme, string) action" where
  "whole_disk exec ps device = do {
     node \<leftarrow> ask_path (\<lambda>w. at_real ps w device);
     info \<leftarrow> lsblk_fields exec node;
     State_Monad.return
       (if map_of info ''TYPE'' = Some ''part'' \<and> dict_get_or info ''PKNAME'' '''' \<noteq> '''' then ''/dev/'' @ dict_get_or info ''PKNAME'' ''''
        else if map_of info ''TYPE'' = Some ''disk'' then node else '''')
   }"

datatype identity_error = NotKnown | IsPartition string | NotDisk string | NoMedium | BadPath py_error

definition read_label_of :: "'w shell \<Rightarrow> 'w paths \<Rightarrow> disk_identity \<Rightarrow> (('w, 'z) machine_scheme, identity_error + disk_identity) action" where
  "read_label_of exec ps x =
     (case part1 x of
        Inl e \<Rightarrow> State_Monad.return (Inl (BadPath e))
      | Inr p \<Rightarrow> do {
          there \<leftarrow> ask_path (\<lambda>w. at_there ps w p);
          l1 \<leftarrow> (if there then read_pool_label exec p else State_Monad.return None);
          l2 \<leftarrow> (case l1 of Some l \<Rightarrow> State_Monad.return (Some l) | None \<Rightarrow> read_pool_label exec (id_disk x));
          State_Monad.return (Inr (x\<lparr>id_label := l2\<rparr>))
        })"

definition identify :: "'w shell \<Rightarrow> 'w paths \<Rightarrow> string \<Rightarrow> (string, string) dict
      \<Rightarrow> (('w, 'z) machine_scheme, identity_error + disk_identity) action" where
  "identify exec ps node info =
     (if map_of info ''TYPE'' \<noteq> Some ''disk'' then State_Monad.return (Inl (NotDisk (dict_get_or info ''TYPE'' ''?'')))
      else do {
        sectors \<leftarrow> ask_path (\<lambda>w. at_sectors ps w (base_name node));
        if sectors = Some 0 then State_Monad.return (Inl NoMedium)
        else do {
          aliases \<leftarrow> by_id_names exec node;
          read_label_of exec ps \<lparr>id_disk = node, id_by_id = preferred_by_id aliases, id_model = dict_get_or info ''MODEL'' '''',
            id_serial = dict_get_or info ''SERIAL'' '''', id_size = dict_get_or info ''SIZE'' '''',
            id_transport = dict_get_or info ''TRAN'' '''', id_label = None, id_aliases = aliases\<rparr>
        }
      })"

definition resolve_disk ::
    "'w shell \<Rightarrow> 'w paths \<Rightarrow> string \<Rightarrow> bool \<Rightarrow> (('w, 'z) machine_scheme, identity_error + disk_identity) action" where
  "resolve_disk exec ps device allow_partition = do {
     node \<leftarrow> ask_path (\<lambda>w. at_real ps w device);
     info \<leftarrow> lsblk_fields exec node;
     if info = [] then State_Monad.return (Inl NotKnown)
     else if map_of info ''TYPE'' = Some ''part'' then
       (let up = ''/dev/'' @ dict_get_or info ''PKNAME'' '''' in
        if \<not> allow_partition then State_Monad.return (Inl (IsPartition up))
        else do { info2 \<leftarrow> lsblk_fields exec up; identify exec ps up info2 })
     else identify exec ps node info
   }"


section \<open>Which entry describes a disk\<close>

datatype evidence = EvLabel | EvDisk | EvBus

definition evidence_of :: "drive_info \<Rightarrow> disk_identity \<Rightarrow> string list \<Rightarrow> evidence option" where
  "evidence_of info x aliases =
     (let own = (classify (di_drive_id info) = DISK) in
      if (case id_label x of Some l \<Rightarrow> di_guid info = pl_guid l | None \<Rightarrow> False) then Some EvLabel
      else if own \<and> di_drive_id info \<in> set aliases then Some EvDisk
      else if own \<and> disk_id x \<noteq> '''' then None
      else if list_ex (\<lambda>n. n \<in> set aliases \<and> classify n = BUS) [di_drive_id info, di_enclosure_id info] then Some EvBus
      else None)"

definition aliases_of :: "disk_identity \<Rightarrow> string list" where
  "aliases_of x = id_aliases x @ (if id_by_id x \<noteq> '''' then [id_by_id x] else [])"

definition recognise :: "disk_identity \<Rightarrow> (string, drive_info) dict \<Rightarrow> (string \<times> evidence) list" where
  "recognise x drives = List.map_filter (\<lambda>(name, info). map_option (Pair name) (evidence_of info x (aliases_of x))) drives"

definition enclosure_mates :: "disk_identity \<Rightarrow> (string, drive_info) dict \<Rightarrow> string list" where
  "enclosure_mates x drives =
     map fst (filter (\<lambda>(name, info). evidence_of info x (aliases_of x) = None
       \<and> list_ex (\<lambda>n. n \<in> set (aliases_of x) \<and> classify n = BUS) [di_drive_id info, di_enclosure_id info]) drives)"


section \<open>Disks a command must not touch\<close>

definition disks_cmd :: "string \<Rightarrow> cmd" where
  "disks_cmd device = Line (''lsblk -nrs -o NAME,TYPE '' @ quote device)"

definition disk_lines :: "run_result \<Rightarrow> string list" where
  "disk_lines r = List.map_filter (\<lambda>l. case words_of l of a # b # _ \<Rightarrow> if b = ''disk'' then Some (''/dev/'' @ a) else None | _ \<Rightarrow> None) (ok_lines r)"

definition disks_under :: "'w shell \<Rightarrow> string \<Rightarrow> (('w, 'z) machine_scheme, string list) action" where
  "disks_under exec device = do { r \<leftarrow> run exec (disks_cmd device); State_Monad.return (disk_lines r) }"

text \<open>For each device its disks are added to the reasons, the first reason of a disk staying.\<close>

fun add_reasons :: "'w shell \<Rightarrow> (string \<times> string) list \<Rightarrow> (string, string) dict \<Rightarrow> (('w, 'z) machine_scheme, (string, string) dict) action" where
  "add_reasons exec [] reasons = State_Monad.return reasons"
| "add_reasons exec ((dev, why) # rest) reasons = do {
     ds \<leftarrow> disks_under exec dev;
     add_reasons exec rest (foldl (\<lambda>m d. dict_setdefault d why m) reasons ds)
   }"

definition vdevs_cmd :: "string \<Rightarrow> cmd" where
  "vdevs_cmd pool = Line (''zpool list -vHP '' @ quote pool)"

text \<open>\<open>line.strip().split("\t")[0].split()[0]\<close>: no line of a result is blank.\<close>

definition first_field :: "string \<Rightarrow> string" where
  "first_field line = (case words_of (hd (tabs (strip line))) of w # _ \<Rightarrow> w | [] \<Rightarrow> '''')"

definition vdev_devices :: "string \<Rightarrow> run_result \<Rightarrow> (string \<times> string) list" where
  "vdev_devices pool r = map (\<lambda>d. (d, ''holds a vdev of imported pool '' @ [CHR 0x27] @ pool @ [CHR 0x27]))
     (filter (\<lambda>d. startswith d ''/dev/'') (map first_field (ok_lines r)))"

fun pool_reasons :: "'w shell \<Rightarrow> string option \<Rightarrow> string list \<Rightarrow> (string, string) dict \<Rightarrow> (('w, 'z) machine_scheme, (string, string) dict) action" where
  "pool_reasons exec own [] reasons = State_Monad.return reasons"
| "pool_reasons exec own (p # ps) reasons =
     (if p = '''' \<or> Some p = own then pool_reasons exec own ps reasons
      else do {
        r \<leftarrow> run exec (vdevs_cmd p);
        m \<leftarrow> add_reasons exec (vdev_devices p r) reasons;
        pool_reasons exec own ps m
      })"

definition mount_devices :: "run_result \<Rightarrow> (string \<times> string) list" where
  "mount_devices r = List.map_filter (\<lambda>l. case words_of l of a # b # _ \<Rightarrow>
       if startswith a ''/dev/'' then Some (a, ''has a mounted filesystem ('' @ b @ '')'') else None | _ \<Rightarrow> None) (ok_lines r)"

definition swap_devices :: "run_result \<Rightarrow> (string \<times> string) list" where
  "swap_devices r = map (\<lambda>d. (d, ''holds active swap'')) (filter (\<lambda>d. startswith d ''/dev/'') (map strip (ok_lines r)))"

definition POOLS_LIST :: cmd where "POOLS_LIST = Line ''zpool list -H -o name''"
definition MOUNTS_LIST :: cmd where "MOUNTS_LIST = Line ''findmnt -rn -o SOURCE,TARGET''"
definition SWAPS_LIST :: cmd where "SWAPS_LIST = Line ''swapon --show=NAME --noheadings --raw''"

definition protected_disks :: "'w shell \<Rightarrow> string option \<Rightarrow> (('w, 'z) machine_scheme, (string, string) dict) action" where
  "protected_disks exec own = do {
     pools \<leftarrow> run exec POOLS_LIST;
     r1 \<leftarrow> pool_reasons exec own (map strip (ok_lines pools)) [];
     mounts \<leftarrow> run exec MOUNTS_LIST;
     r2 \<leftarrow> add_reasons exec (mount_devices mounts) r1;
     swaps \<leftarrow> run exec SWAPS_LIST;
     add_reasons exec (swap_devices swaps) r2
   }"

definition SYSTEM_POOLS :: "string list" where "SYSTEM_POOLS = [''rpool'', ''bpool'']"

text \<open>\<open>validate_external_block_device\<close>: \<open>None\<close> is the exit of \<open>log.fatal\<close>.\<close>

definition own_pool_of :: "string option \<Rightarrow> disk_identity \<Rightarrow> string option" where
  "own_pool_of own x = (case own of Some p \<Rightarrow> Some p | None \<Rightarrow>
     (case id_label x of Some l \<Rightarrow> if pl_name l \<notin> set SYSTEM_POOLS then Some (pl_name l) else None | None \<Rightarrow> None))"

definition validate_external_block_device ::
    "'w shell \<Rightarrow> 'w paths \<Rightarrow> string \<Rightarrow> string option \<Rightarrow> (('w, 'z) machine_scheme, disk_identity option) action" where
  "validate_external_block_device exec ps dev own = do {
     there \<leftarrow> ask_path (\<lambda>w. at_there ps w dev);
     block \<leftarrow> ask_path (\<lambda>w. at_block ps w dev);
     if dev = '''' \<or> \<not> there \<or> \<not> block then State_Monad.return None
     else do {
       r \<leftarrow> resolve_disk exec ps dev False;
       case r of
         Inl _ \<Rightarrow> State_Monad.return None
       | Inr x \<Rightarrow> do {
           reasons \<leftarrow> protected_disks exec (own_pool_of own x);
           State_Monad.return (if dict_get_or reasons (id_disk x) '''' \<noteq> '''' then None else Some x)
         }
     }
   }"



section \<open>Lemmas: what is in use\<close>

text \<open>The listings of these checks only read.\<close>

definition listing_cmd :: "cmd \<Rightarrow> bool" where
  "listing_cmd c = (case c of Line l \<Rightarrow> starts_any l [''lsblk '', ''findmnt '', ''zpool list '', ''zdb -l '', ''find '', ''swapon ''] | Argv _ \<Rightarrow> False)"

definition steady :: "'w shell \<Rightarrow> 'w \<Rightarrow> bool" where
  "steady exec w = (\<forall>c. listing_cmd c \<longrightarrow> snd (exec c w) = w)"

abbreviation at_world :: "'w \<Rightarrow> ('w, 'z) machine_scheme \<Rightarrow> bool" where
  "at_world w m \<equiv> m_world m = w"

lemma listing_cmds:
  "listing_cmd (disks_cmd d)" "listing_cmd (vdevs_cmd p)" "listing_cmd POOLS_LIST" "listing_cmd MOUNTS_LIST" "listing_cmd SWAPS_LIST"
  "listing_cmd (Line (''zdb -l '' @ x))" "listing_cmd (Line (''lsblk '' @ x))" "listing_cmd (Line (''find '' @ x))"
  by (simp_all add: listing_cmd_def starts_any_def startswith_def disks_cmd_def vdevs_cmd_def POOLS_LIST_def MOUNTS_LIST_def SWAPS_LIST_def)

lemma run_steady:
  "steady exec w \<Longrightarrow> listing_cmd c \<Longrightarrow> ensures (at_world w) (run exec c) (\<lambda>r m. r = fst (exec c w) \<and> m_world m = w)"
  by (auto simp: ensures_def run_def steady_def split: prod.split)

lemma bind_steady:
  assumes "steady exec w" and "listing_cmd c" and "ensures (at_world w) (f (fst (exec c w))) Q"
  shows "ensures (at_world w) (State_Monad.bind (run exec c) f) Q"
proof -
  have "ensures (\<lambda>m. x = fst (exec c w) \<and> m_world m = w) (f x) Q" for x
    using assms(3) by (auto simp: ensures_def)
  from ensures_bind [OF run_steady [OF assms(1,2)] this] show ?thesis .
qed

lemma keeps_steady: "steady exec w \<Longrightarrow> listing_cmd c \<Longrightarrow> keeps (at_world w) (run exec c)"
  by (auto simp: keeps_def run_def steady_def split: prod.split)

lemma keeps_ask: "keeps I (ask_path f)"
  by (simp add: keeps_def ask_path_def)

definition nonblank :: "(string, string) dict \<Rightarrow> bool" where
  "nonblank m = (\<forall>d. map_of m d \<noteq> Some '''')"

lemma setdefault_dom [simp]: "dom (map_of (dict_setdefault d why m)) = insert d (dom (map_of m))"
  by (auto simp: dict_setdefault_def split: option.splits)

lemma fold_setdefault:
  "set (dict_keys (foldl (\<lambda>m d. dict_setdefault d why m) m ds)) = set (dict_keys m) \<union> set ds"
  by (induction ds arbitrary: m) auto

lemma fold_nonblank: "nonblank m \<Longrightarrow> why \<noteq> '''' \<Longrightarrow> nonblank (foldl (\<lambda>m d. dict_setdefault d why m) m ds)"
proof (induction ds arbitrary: m)
  case (Cons d ds)
  have "nonblank (dict_setdefault d why m)" using Cons.prems by (auto simp: nonblank_def dict_setdefault_def split: option.split)
  then show ?case using Cons.IH Cons.prems(2) by simp
qed simp

text \<open>The disks below the listed devices, in the world the checks read.\<close>

definition disks_of :: "'w shell \<Rightarrow> 'w \<Rightarrow> (string \<times> string) list \<Rightarrow> string set" where
  "disks_of exec w devs = (\<Union>(dev, why) \<in> set devs. set (disk_lines (fst (exec (disks_cmd dev) w))))"

lemma add_reasons_steady:
  assumes "steady exec w"
  shows "ensures (at_world w) (add_reasons exec devs reasons) (\<lambda>out m. m_world m = w
    \<and> set (dict_keys out) = set (dict_keys reasons) \<union> disks_of exec w devs
    \<and> (nonblank reasons \<longrightarrow> list_all (\<lambda>(dev, why). why \<noteq> '''') devs \<longrightarrow> nonblank out))"
proof (induction devs arbitrary: reasons)
  case (Cons dw devs)
  obtain dev why where dw: "dw = (dev, why)" by (rule prod.exhaust)
  show ?case
    unfolding dw add_reasons.simps disks_under_def State_Monad.bind_assoc State_Monad.bind_left_identity
    by (rule bind_steady [OF assms listing_cmds(1)], rule ensures_post [OF Cons.IH])
       (auto simp: fold_setdefault [simplified] disks_of_def fold_nonblank)
qed (auto intro!: ensures_return simp: disks_of_def)


definition pools_watched :: "'w shell \<Rightarrow> 'w \<Rightarrow> string option \<Rightarrow> string list" where
  "pools_watched exec w own = filter (\<lambda>p. p \<noteq> '''' \<and> Some p \<noteq> own) (map strip (ok_lines (fst (exec POOLS_LIST w))))"

definition busy_devices :: "'w shell \<Rightarrow> 'w \<Rightarrow> string option \<Rightarrow> (string \<times> string) list" where
  "busy_devices exec w own =
     concat (map (\<lambda>p. vdev_devices p (fst (exec (vdevs_cmd p) w))) (pools_watched exec w own))
     @ mount_devices (fst (exec MOUNTS_LIST w)) @ swap_devices (fst (exec SWAPS_LIST w))"

lemma disks_of_append: "disks_of exec w (xs @ ys) = disks_of exec w xs \<union> disks_of exec w ys"
  by (simp add: disks_of_def)

lemma pool_reasons_steady:
  assumes "steady exec w"
  shows "ensures (at_world w) (pool_reasons exec own ps reasons) (\<lambda>out (m :: ('w, 'z) machine_scheme). m_world m = w
    \<and> set (dict_keys out) = set (dict_keys reasons)
        \<union> disks_of exec w (concat (map (\<lambda>p. vdev_devices p (fst (exec (vdevs_cmd p) w))) (filter (\<lambda>p. p \<noteq> '''' \<and> Some p \<noteq> own) ps)))
    \<and> (nonblank reasons \<longrightarrow> nonblank out))"
proof (induction ps arbitrary: reasons)
  case (Cons p ps)
  show ?case
  proof (cases "p = '''' \<or> Some p = own")
    case False
    let ?Q = "\<lambda>out (m :: ('w, 'z) machine_scheme). m_world m = w \<and> set (dict_keys out) = set (dict_keys reasons) \<union> disks_of exec w (vdev_devices p (fst (exec (vdevs_cmd p) w)))
      \<and> (nonblank reasons \<longrightarrow> nonblank out)"
    have whys: "list_all (\<lambda>(dev, why). why \<noteq> '''') (vdev_devices p r)" for r by (simp add: vdev_devices_def list_all_iff)
    have one: "ensures (at_world w) (add_reasons exec (vdev_devices p (fst (exec (vdevs_cmd p) w))) reasons) ?Q"
      by (rule ensures_post [OF add_reasons_steady [OF assms]]) (use whys in auto)
    let ?R = "\<lambda>out (m :: ('w, 'z) machine_scheme). m_world m = w \<and> set (dict_keys out) = set (dict_keys reasons)
        \<union> disks_of exec w (concat (map (\<lambda>p. vdev_devices p (fst (exec (vdevs_cmd p) w))) (filter (\<lambda>p. p \<noteq> '''' \<and> Some p \<noteq> own) (p # ps))))
        \<and> (nonblank reasons \<longrightarrow> nonblank out)"
    have rest: "ensures (?Q x) (pool_reasons exec own ps x) ?R" for x
    proof (cases "set (dict_keys x) = set (dict_keys reasons) \<union> disks_of exec w (vdev_devices p (fst (exec (vdevs_cmd p) w)))
        \<and> (nonblank reasons \<longrightarrow> nonblank x)")
      case True
      have "ensures (at_world w) (pool_reasons exec own ps x) ?R"
        by (rule ensures_post [OF Cons.IH]) (use True False in \<open>simp add: disks_of_append Un_assoc\<close>)
      then show ?thesis by (rule ensures_pre) simp
    qed (unfold ensures_def, blast)
    have "ensures (at_world w) (pool_reasons exec own (p # ps) reasons) ?R"
      unfolding pool_reasons.simps if_not_P [OF False]
      by (rule bind_steady [OF assms listing_cmds(2)], rule ensures_bind [OF one rest])
    then show ?thesis .
  qed (use Cons.IH in \<open>auto simp: ensures_def\<close>)
qed (auto intro!: ensures_return simp: disks_of_def)

lemma listing_step:
  assumes "steady exec w" and "listing_cmd c" and whys: "list_all (\<lambda>(dev, why). why \<noteq> '''') (f (fst (exec c w)))"
  shows "ensures (\<lambda>m. m_world m = w \<and> set (dict_keys r1) = S \<and> nonblank r1)
      (State_Monad.bind (run exec c) (\<lambda>x. add_reasons exec (f x) r1))
      (\<lambda>out m. m_world m = w \<and> set (dict_keys out) = S \<union> disks_of exec w (f (fst (exec c w))) \<and> nonblank out)"
proof (cases "set (dict_keys r1) = S \<and> nonblank r1")
  case True
  have "ensures (at_world w) (State_Monad.bind (run exec c) (\<lambda>x. add_reasons exec (f x) r1))
      (\<lambda>out m. m_world m = w \<and> set (dict_keys out) = S \<union> disks_of exec w (f (fst (exec c w))) \<and> nonblank out)"
    by (rule bind_steady [OF assms(1,2)], rule ensures_post [OF add_reasons_steady [OF assms(1)]]) (use True whys in blast)
  then show ?thesis by (rule ensures_pre) simp
qed (auto simp: ensures_def)

lemma protected_steady:
  assumes "steady exec w"
  shows "ensures (at_world w) (protected_disks exec own)
    (\<lambda>out m. set (dict_keys out) = disks_of exec w (busy_devices exec w own) \<and> nonblank out)"
proof -
  have whys: "list_all (\<lambda>(dev, why). why \<noteq> '''') (mount_devices r)" "list_all (\<lambda>(dev, why). why \<noteq> '''') (swap_devices r)" for r
    by (auto simp: mount_devices_def swap_devices_def list_all_iff List.map_filter_def split: list.splits if_splits)
  let ?P = "disks_of exec w (concat (map (\<lambda>p. vdev_devices p (fst (exec (vdevs_cmd p) w))) (pools_watched exec w own)))"
  have p: "ensures (at_world w) (pool_reasons exec own (map strip (ok_lines (fst (exec POOLS_LIST w)))) [])
      (\<lambda>out m. m_world m = w \<and> set (dict_keys out) = ?P \<and> nonblank out)"
    by (rule ensures_post [OF pool_reasons_steady [OF assms]]) (auto simp: pools_watched_def nonblank_def dict_keys_def)
  have eq: "protected_disks exec own = State_Monad.bind (run exec POOLS_LIST) (\<lambda>pools.
      State_Monad.bind (pool_reasons exec own (map strip (ok_lines pools)) []) (\<lambda>r1.
      State_Monad.bind (State_Monad.bind (run exec MOUNTS_LIST) (\<lambda>x. add_reasons exec (mount_devices x) r1)) (\<lambda>r2.
      State_Monad.bind (run exec SWAPS_LIST) (\<lambda>y. add_reasons exec (swap_devices y) r2))))"
    by (simp add: protected_disks_def)
  show ?thesis
    unfolding eq
    by (rule bind_steady [OF assms listing_cmds(3)], rule ensures_bind [OF p],
        rule ensures_bind [OF listing_step [OF assms listing_cmds(4) whys(1)]],
        rule ensures_post [OF listing_step [OF assms listing_cmds(5) whys(2)]])
       (simp add: busy_devices_def disks_of_append Un_assoc)
qed

lemma keeps_reading:
  assumes "steady exec w"
  shows "keeps (at_world w) (lsblk_fields exec node)" and "keeps (at_world w) (by_id_names exec disk)"
    and "keeps (at_world w) (read_pool_label exec dev)"
  unfolding lsblk_fields_def by_id_names_def read_pool_label_def
  by (rule keeps_bind [OF keeps_steady [OF assms]]; simp add: keeps_return listing_cmd_def starts_any_def startswith_def)+

lemma keeps_resolve:
  assumes "steady exec w"
  shows "keeps (at_world w) (resolve_disk exec ps dev allow)"
proof -
  note reads = keeps_reading [OF assms]
  have label: "keeps (at_world w) (read_label_of exec ps x)" for x
    unfolding read_label_of_def by (intro keeps_rules keeps_ask reads)
  have ident: "keeps (at_world w) (identify exec ps node info)" for node info
    unfolding identify_def by (intro keeps_rules keeps_ask reads label)
  show ?thesis unfolding resolve_disk_def by (intro keeps_rules keeps_ask reads ident)
qed


section \<open>Properties\<close>




definition ex_disks :: "unit shell" where
  "ex_disks c w = (let out = (case c of Line l \<Rightarrow>
       if startswith l ''lsblk -dn'' then ''NAME='' @ [QUOTE] @ ''sdb'' @ [QUOTE] @ '' TYPE='' @ [QUOTE] @ ''disk'' @ [QUOTE]
       else if l = ''zpool list -H -o name'' then ''rpool''
       else if l = ''zpool list -vHP rpool'' then ''/dev/sda3''
       else if startswith l ''lsblk -nrs'' then ''sda disk''
       else if startswith l ''findmnt'' then ''/dev/sda2 /boot''
       else '''' | Argv _ \<Rightarrow> '''') in (\<lparr>rr_returncode = 0, rr_stdout = out, rr_stderr = ''''\<rparr>, w))"

definition ex_paths :: "unit paths" where
  "ex_paths = \<lparr>at_real = (\<lambda>_ p. p), at_there = (\<lambda>_ _. True), at_block = (\<lambda>_ _. True), at_sectors = (\<lambda>_ _. None)\<rparr>"

abbreviation ex_start :: "unit machine" where
  "ex_start \<equiv> \<lparr>m_world = (), m_issued = []\<rparr>"

lemma ex_accepted: "fst (run_state (validate_external_block_device ex_disks ex_paths ''/dev/sdb'' None) ex_start)
    = Some (DiskIdentity ''/dev/sdb'' '''' [])"
proof -
  let ?r = "run_state (resolve_disk ex_disks ex_paths ''/dev/sdb'' False) ex_start"
  have r: "fst ?r = Inr (DiskIdentity ''/dev/sdb'' '''' [])" by code_simp
  have p: "dict_get_or (fst (run_state (protected_disks ex_disks None) (snd ?r))) ''/dev/sdb'' '''' = ''''" by code_simp
  have "id_disk (DiskIdentity ''/dev/sdb'' '''' []) = ''/dev/sdb''" "own_pool_of None (DiskIdentity ''/dev/sdb'' '''' []) = None"
    "at_there ex_paths () ''/dev/sdb''" "at_block ex_paths () ''/dev/sdb''"
    by (simp_all add: DiskIdentity_def own_pool_of_def ex_paths_def)
  with r p show ?thesis
    by (simp add: validate_external_block_device_def State_Monad.bind_def ask_path_def State_Monad.get_def case_prod_beta)
qed


end
