(* ===== verification/Pools.thy ===== *)
theory Pools
  imports Identity Zfs_Features
begin

text \<open>
  \<open>lib/zfs.py\<close>: the space and damage of a pool, importing and exporting pools, the read-back of a drive,
  keys, the feature set of a new drive and the boot pool's id in \<open>grub.cfg\<close>. \<open>os.rmdir\<close> is the
  parameter \<open>rmdir\<close> on the world; an argument that may be \<open>None\<close> is the empty text, as the code tests both
  the same way. What \<open>zpool list\<close>, \<open>get\<close>, \<open>import\<close> and \<open>export\<close> do is stated once, as \<open>zfs_pools\<close>.
\<close>

section \<open>Space and damage\<close>

record pool_info_rec =
  pi_name :: string
  pi_guid :: string
  pi_health :: string
  pi_size :: string
  pi_used :: string
  pi_avail :: string
  pi_used_bytes :: int
  pi_avail_bytes :: int
  pi_size_bytes :: int
  pi_pct_used :: int

record space =
  sp_used_bytes :: nat
  sp_available_bytes :: nat
  sp_pool_size_bytes :: nat
  sp_pool_alloc_bytes :: nat
  sp_pool_free_bytes :: nat
  sp_capacity_pct :: nat
  sp_measured_at :: string

definition ints :: "string \<Rightarrow> nat \<Rightarrow> nat list option" where
  "ints text n = (let fs = tabs (strip text) in if length fs \<noteq> n \<or> \<not> list_all isdigit fs then None else Some (map dec_val fs))"

definition read_space :: "'w shell \<Rightarrow> string \<Rightarrow> string \<Rightarrow> (('w, 'z) machine_scheme, space option) action" where
  "read_space exec measured_at pool = do {
     zf \<leftarrow> run exec (Line (''zfs list -Hp -o used,avail '' @ pool));
     zp \<leftarrow> run exec (Line (''zpool list -Hp -o size,alloc,free,capacity '' @ pool));
     State_Monad.return (case (if ok zf then ints (rr_output zf) 2 else None, if ok zp then ints (rr_output zp) 4 else None) of
       (Some u, Some p) \<Rightarrow> Some \<lparr>sp_used_bytes = u ! 0, sp_available_bytes = u ! 1, sp_pool_size_bytes = p ! 0,
         sp_pool_alloc_bytes = p ! 1, sp_pool_free_bytes = p ! 2, sp_capacity_pct = min (p ! 3) 100,
         sp_measured_at = measured_at\<rparr>
     | _ \<Rightarrow> None)
   }"

record dataset_usage =
  du_name :: string
  du_type :: string
  du_used :: nat
  du_usedbydataset :: nat
  du_usedbysnapshots :: nat
  du_usedbychildren :: nat
  du_usedbyrefreservation :: nat

definition DATASET_USAGE :: string where
  "DATASET_USAGE = ''name,type,used,usedbydataset,usedbysnapshots,usedbychildren,usedbyrefreservation''"

definition usage_line :: "string \<Rightarrow> dataset_usage option" where
  "usage_line line =
     (case partition_on (CHR 0x09) line of (name, _, r) \<Rightarrow>
      case partition_on (CHR 0x09) r of (kind, _, numbers) \<Rightarrow>
      (case ints numbers 5 of
         Some v \<Rightarrow> if name = '''' \<or> kind \<notin> {''filesystem'', ''volume''} then None
           else Some \<lparr>du_name = name, du_type = kind, du_used = v ! 0, du_usedbydataset = v ! 1, du_usedbysnapshots = v ! 2,
             du_usedbychildren = v ! 3, du_usedbyrefreservation = v ! 4\<rparr>
       | None \<Rightarrow> None))"

fun usage_lines :: "string list \<Rightarrow> dataset_usage list option" where
  "usage_lines [] = Some []"
| "usage_lines (l # ls) =
     (if strip l = '''' then usage_lines ls
      else (case usage_line l of None \<Rightarrow> None | Some d \<Rightarrow> map_option ((#) d) (usage_lines ls)))"

definition read_datasets :: "'w shell \<Rightarrow> string \<Rightarrow> (('w, 'z) machine_scheme, dataset_usage list option) action" where
  "read_datasets exec pool = do {
     r \<leftarrow> run exec (Line (''zfs list -Hp -t filesystem,volume -r -o '' @ DATASET_USAGE @ '' '' @ pool));
     State_Monad.return (if \<not> ok r then None
       else (case usage_lines (split_lines (rr_output r)) of
               None \<Rightarrow> None
             | Some ds \<Rightarrow> if ds = [] then None else Some (sort_key du_name ds)))
   }"

record damage =
  dm_counters :: "string list"
  dm_errors :: "string list"

definition damage_any :: "damage \<Rightarrow> bool" where
  "damage_any d = (dm_counters d \<noteq> [] \<or> dm_errors d \<noteq> [])"

text \<open>The loop carries the damage found and whether it is in the table of devices or in the list of errors.\<close>

definition damage_line :: "damage \<times> bool \<times> bool \<Rightarrow> string \<Rightarrow> damage \<times> bool \<times> bool" where
  "damage_line st line = (case st of (d, in_config, in_errors) \<Rightarrow>
     let ws = words_of line in
     if take 5 ws = [''NAME'', ''STATE'', ''READ'', ''WRITE'', ''CKSUM''] then (d, True, in_errors)
     else if startswith line ''errors:'' then (d, False, contains line ''Permanent errors'')
     else if in_config then
       (if ws = [] then (d, False, in_errors)
        else if 5 \<le> length ws \<and> list_all isdigit (take 3 (drop 2 ws)) \<and> list_ex (\<lambda>w. dec_val w \<noteq> 0) (take 3 (drop 2 ws))
        then (d\<lparr>dm_counters := dm_counters d @ [join_on '' '' ws]\<rparr>, True, in_errors)
        else st)
     else if in_errors \<and> ws \<noteq> [] then (d\<lparr>dm_errors := dm_errors d @ [strip line]\<rparr>, in_config, in_errors)
     else st)"

definition parse_damage :: "string \<Rightarrow> damage" where
  "parse_damage text = fst (foldl damage_line (\<lparr>dm_counters = [], dm_errors = []\<rparr>, False, False) (split_lines text))"


section \<open>Pools\<close>

definition pool_list_cmd :: "string \<Rightarrow> cmd" where "pool_list_cmd p = Line (''zpool list '' @ p)"

definition pool_get_cmd :: "string \<Rightarrow> string \<Rightarrow> cmd" where
  "pool_get_cmd prop_name p = Line (''zpool get -H -o value '' @ prop_name @ '' '' @ p)"

definition pool_exists :: "'w shell \<Rightarrow> string \<Rightarrow> (('w, 'z) machine_scheme, bool) action" where
  "pool_exists exec name = do { r \<leftarrow> run exec (pool_list_cmd name); State_Monad.return (ok r) }"

definition pool_guid :: "'w shell \<Rightarrow> string \<Rightarrow> (('w, 'z) machine_scheme, string) action" where
  "pool_guid exec name = do { r \<leftarrow> run exec (pool_get_cmd ''guid'' name); State_Monad.return (if ok r then rr_output r else '''') }"

definition pool_health :: "'w shell \<Rightarrow> string \<Rightarrow> (('w, 'z) machine_scheme, string) action" where
  "pool_health exec name = do {
     r \<leftarrow> run exec (Line (''zpool list -H -o health '' @ name)); State_Monad.return (if ok r then rr_output r else ''UNKNOWN'') }"

definition pool_damage :: "'w shell \<Rightarrow> string \<Rightarrow> (('w, 'z) machine_scheme, damage) action" where
  "pool_damage exec name = do {
     r \<leftarrow> run exec (Line (''zpool status -vp '' @ name));
     State_Monad.return (if ok r then parse_damage (rr_stdout r) else \<lparr>dm_counters = [], dm_errors = []\<rparr>) }"

text \<open>The figures of \<open>pool_info\<close>; \<open>int\<close> of a text that is no number raises.\<close>

definition byte_figures :: "run_result \<Rightarrow> py_error + int \<times> int" where
  "byte_figures rb =
     (if \<not> ok rb then Inr (0, 0)
      else (case tabs (rr_output rb) of
              a # b # _ \<Rightarrow> (case (py_int (strip a), py_int (strip b)) of (Some u, Some v) \<Rightarrow> Inr (u, v) | _ \<Rightarrow> Inl ValueError)
            | _ \<Rightarrow> Inr (0, 0)))"

definition pool_info :: "'w shell \<Rightarrow> string \<Rightarrow> (('w, 'z) machine_scheme, py_error + pool_info_rec option) action" where
  "pool_info exec name = do {
     r \<leftarrow> run exec (Line (''zpool list -H -o name,guid,health,size,alloc,free '' @ name));
     if \<not> ok r then State_Monad.return (Inr None)
     else (case tabs (rr_output r) of
       n # g # h # s # u # a # _ \<Rightarrow> do {
         rb \<leftarrow> run exec (Line (''zfs list -H -o used,avail -p '' @ name));
         State_Monad.return (case byte_figures rb of
           Inl e \<Rightarrow> Inl e
         | Inr (used, avail) \<Rightarrow>
             (let tot = used + avail in
              Inr (Some \<lparr>pi_name = n, pi_guid = g, pi_health = h, pi_size = s, pi_used = u, pi_avail = a, pi_used_bytes = used,
                pi_avail_bytes = avail, pi_size_bytes = tot, pi_pct_used = (if 0 < tot then used * 100 div tot else 0)\<rparr>)))
       }
     | _ \<Rightarrow> State_Monad.return (Inr None))
   }"



section \<open>Forensic captures\<close>

text \<open>
  \<open>lib/forensics.py\<close>. The calls outside the shell are the record \<open>outside\<close>: \<open>rmdir\<close> of an empty
  directory, making a file that does not exist yet, the USB ids of a disk.
\<close>

record 'w outside =
  out_rmdir :: "string \<Rightarrow> 'w \<Rightarrow> 'w"
  out_create :: "string \<Rightarrow> string \<Rightarrow> 'w \<Rightarrow> bool \<times> 'w"
  out_usb_ids :: "'w \<Rightarrow> string \<Rightarrow> string \<times> string"
  out_stamp :: "'w \<Rightarrow> string"

definition set_world :: "('w \<Rightarrow> 'w) \<Rightarrow> (('w, 'z) machine_scheme, unit) action" where
  "set_world f = State_Monad.update (\<lambda>m. m\<lparr>m_world := f (m_world m)\<rparr>)"

definition rstrip_newlines :: "string \<Rightarrow> string" where
  "rstrip_newlines s = rstrip_where (\<lambda>c. c = CHR 0x0A) s"

definition HISTORY_LINES :: int where "HISTORY_LINES = 200"

definition section_text :: "string \<Rightarrow> string \<Rightarrow> run_result \<Rightarrow> string" where
  "section_text title cmd r =
     (let body = rstrip_newlines (rr_stdout r);
          body2 = (if strip (rr_stderr r) \<noteq> '''' then body @ (if body \<noteq> '''' then [CHR 0x0A] else '''') @ rstrip_newlines (rr_stderr r) else body)
      in ''== '' @ title @ [CHR 0x0A] @ ''$ '' @ cmd @ ''  (exit '' @ py_str (rr_returncode r) @ '')'' @ [CHR 0x0A] @ body2 @ [CHR 0x0A])"

definition forensic_section :: "'w shell \<Rightarrow> string \<Rightarrow> string \<Rightarrow> (('w, 'z) machine_scheme, string) action" where
  "forensic_section exec title cmd = do { r \<leftarrow> run exec (Line cmd); State_Monad.return (section_text title cmd r) }"

fun disk_ids :: "'w outside \<Rightarrow> string \<Rightarrow> string list \<Rightarrow> (('w, 'z) machine_scheme, string list) action" where
  "disk_ids out path [] = State_Monad.return []"
| "disk_ids out path (d # ds) = do {
     ids \<leftarrow> ask_path (\<lambda>w. out_usb_ids out w (base_name d));
     ls \<leftarrow> disk_ids out path ds;
     let mark = (\<lambda>x. if x = '''' then ''?'' else x);
     State_Monad.return ((path @ '' -> '' @ d @ '': '' @ mark (fst ids) @ '':'' @ mark (snd ids)) # ls)
   }"

fun usb_lines :: "'w shell \<Rightarrow> 'w outside \<Rightarrow> string list \<Rightarrow> (('w, 'z) machine_scheme, string list) action" where
  "usb_lines exec out [] = State_Monad.return []"
| "usb_lines exec out (l # ls) =
     (let path = hd (tabs (strip l)) in
      if \<not> startswith path ''/dev/'' then usb_lines exec out ls
      else do {
        disks \<leftarrow> disks_under exec path;
        here \<leftarrow> disk_ids out path (sort (remdups disks));
        more_lines \<leftarrow> usb_lines exec out ls;
        State_Monad.return (here @ more_lines)
      })"

definition usb_section :: "'w shell \<Rightarrow> 'w outside \<Rightarrow> string \<Rightarrow> (('w, 'z) machine_scheme, string) action" where
  "usb_section exec out pool = do {
     r \<leftarrow> run exec (Line (''zpool list -vHP '' @ pool));
     ls \<leftarrow> usb_lines exec out (if ok r then tl (result_lines r) else []);
     State_Monad.return (''== USB bridge ids'' @ [CHR 0x0A] @ (if ls = [] then ''(no USB disk found)'' else join_on [CHR 0x0A] ls) @ [CHR 0x0A])
   }"

text \<open>\<open>directory\<close> is where the log file is.\<close>

definition forensic_capture ::
    "'w shell \<Rightarrow> 'w outside \<Rightarrow> string \<Rightarrow> string \<Rightarrow> string \<Rightarrow> string \<Rightarrow> (('w, 'z) machine_scheme, string) action" where
  "forensic_capture exec out version directory pool reason = do {
     stamp \<leftarrow> ask_path (out_stamp out);
     let path = directory @ (if endswith directory ''/'' then '''' else ''/'') @ ''zark-forensics-'' @ pool @ ''-'' @ stamp @ ''.txt'';
     j \<leftarrow> run exec (Line ''command -v journalctl'');
     s1 \<leftarrow> forensic_section exec ''pool status'' (''zpool status -vP '' @ pool);
     s2 \<leftarrow> forensic_section exec ''pool events'' (''zpool events -v '' @ pool);
     s3 \<leftarrow> forensic_section exec (''pool history (last '' @ py_str HISTORY_LINES @ '' lines)'')
            (''zpool history -il '' @ pool @ '' | tail -n '' @ py_str HISTORY_LINES);
     s4 \<leftarrow> forensic_section exec ''kernel log, last two hours''
            (if ok j then ''journalctl -k --since '' @ [CHR 0x27] @ ''-2h'' @ [CHR 0x27] @ '' --no-pager'' else ''dmesg -T'');
     s5 \<leftarrow> forensic_section exec ''block devices'' ''lsblk -o NAME,SIZE,MODEL,SERIAL,TRAN,TYPE,MOUNTPOINTS'';
     s6 \<leftarrow> usb_section exec out pool;
     let body = join_on [CHR 0x0A] [''zark '' @ version @ '' forensic capture of '' @ pool @ [CHR 0x0A] @ ''reason: '' @ reason @ [CHR 0x0A],
            s1, s2, s3, s4, s5, s6];
     fine \<leftarrow> ask_path (\<lambda>w. fst (out_create out path body w));
     _ \<leftarrow> set_world (\<lambda>w. snd (out_create out path body w));
     State_Monad.return (if fine then path else '''')
   }"


section \<open>Importing and exporting\<close>

definition BACKUP_ALTROOT_BASE :: string where "BACKUP_ALTROOT_BASE = ''/run/zark/altroot''"

definition backup_altroot :: "string \<Rightarrow> string" where "backup_altroot pool = BACKUP_ALTROOT_BASE @ ''/'' @ pool"

definition remove_altroot_dir :: "'w outside \<Rightarrow> string \<Rightarrow> (('w, 'z) machine_scheme, unit) action" where
  "remove_altroot_dir out path = set_world (out_rmdir out path)"

definition remove_altroot_base :: "'w outside \<Rightarrow> (('w, 'z) machine_scheme, unit) action" where
  "remove_altroot_base out = remove_altroot_dir out BACKUP_ALTROOT_BASE"

definition READBACK_EXPORT_TRIES :: nat where "READBACK_EXPORT_TRIES = 3"

definition export_cmd :: "string \<Rightarrow> cmd" where "export_cmd p = Line (''zpool export '' @ p)"

definition export_force_cmd :: "string \<Rightarrow> cmd" where "export_force_cmd p = Line (''zpool export -f '' @ p)"

fun export_tries :: "'w shell \<Rightarrow> string \<Rightarrow> nat \<Rightarrow> (('w, 'z) machine_scheme, bool) action" where
  "export_tries exec name 0 = do { r \<leftarrow> run exec (export_force_cmd name); State_Monad.return (ok r) }"
| "export_tries exec name (Suc n) = do {
     _ \<leftarrow> run exec (Line ''udevadm settle --timeout=30'');
     r \<leftarrow> run exec (export_cmd name);
     if ok r then State_Monad.return True else export_tries exec name n
   }"

definition export_after_udev :: "'w shell \<Rightarrow> string \<Rightarrow> (('w, 'z) machine_scheme, bool) action" where
  "export_after_udev exec name = export_tries exec name READBACK_EXPORT_TRIES"

definition pool_export :: "'w shell \<Rightarrow> 'w outside \<Rightarrow> string \<Rightarrow> bool \<Rightarrow> (('w, 'z) machine_scheme, bool) action" where
  "pool_export exec out name wait_udev = do {
     there \<leftarrow> pool_exists exec name;
     if \<not> there then State_Monad.return True
     else do {
       _ \<leftarrow> run exec (Line (''zpool set cachefile=none '' @ name));
       gone_now \<leftarrow> (if wait_udev then export_after_udev exec name
         else do {
           _ \<leftarrow> run exec (Line ''sleep 1'');
           r \<leftarrow> run exec (export_cmd name);
           if ok r then State_Monad.return True
           else do { r2 \<leftarrow> run exec (export_force_cmd name); State_Monad.return (ok r2) }
         });
       if gone_now then do {
         _ \<leftarrow> run exec (Line ''sync'');
         _ \<leftarrow> remove_altroot_dir out (backup_altroot name);
         State_Monad.return True
       } else State_Monad.return False
     }
   }"

definition is_expected ::
    "'w shell \<Rightarrow> 'w outside \<Rightarrow> string \<Rightarrow> string \<Rightarrow> string \<Rightarrow> (('w, 'z) machine_scheme, bool) action" where
  "is_expected exec out name guid root = do {
     actual \<leftarrow> pool_guid exec name;
     if actual = guid then State_Monad.return True
     else do {
       gone_now \<leftarrow> export_after_udev exec name;
       _ \<leftarrow> (if gone_now then remove_altroot_dir out root else State_Monad.return ());
       State_Monad.return False
     }
   }"

text \<open>What is wrong with a pool that is already imported; empty when it is accepted.\<close>

definition imported_problem :: "string \<Rightarrow> bool \<Rightarrow> string \<Rightarrow> string \<Rightarrow> bool \<Rightarrow> string" where
  "imported_problem current is_ro actual guid readonly =
     (if current \<in> {'''', ''-''} then ''without an altroot''
      else if guid \<noteq> '''' \<and> actual \<noteq> guid then ''with GUID '' @ actual @ '', not '' @ guid @ '' (another disk)''
      else if is_ro \<noteq> readonly then (if is_ro then ''read-only'' else ''read-write'')
      else '''')"

definition backup_import_cmd :: "string \<Rightarrow> bool \<Rightarrow> bool \<Rightarrow> string \<Rightarrow> string \<Rightarrow> cmd" where
  "backup_import_cmd root readonly force device name =
     Line (''zpool import -N -R '' @ root @ (if readonly then '' -o readonly=on'' else '''') @ (if force then '' -f'' else '''')
           @ '' -d '' @ device @ '' '' @ name)"

fun import_tries ::
    "'w shell \<Rightarrow> 'w outside \<Rightarrow> string \<Rightarrow> string \<Rightarrow> string \<Rightarrow> bool \<Rightarrow> string \<Rightarrow> bool list \<Rightarrow> (('w, 'z) machine_scheme, bool) action" where
  "import_tries exec out name device root readonly guid [] = State_Monad.return False"
| "import_tries exec out name device root readonly guid (f # fs) = do {
     r \<leftarrow> run exec (backup_import_cmd root readonly f device name);
     if ok r then
       (if guid \<noteq> '''' then is_expected exec out name guid root else State_Monad.return True)
     else import_tries exec out name device root readonly guid fs
   }"

definition import_backup_pool ::
    "'w shell \<Rightarrow> 'w outside \<Rightarrow> string \<Rightarrow> string \<Rightarrow> string \<Rightarrow> bool \<Rightarrow> string \<Rightarrow> (('w, 'z) machine_scheme, bool) action" where
  "import_backup_pool exec out name device altroot readonly guid = do {
     there \<leftarrow> pool_exists exec name;
     if there then do {
       current \<leftarrow> run exec (pool_get_cmd ''altroot'' name);
       ro \<leftarrow> run exec (pool_get_cmd ''readonly'' name);
       actual \<leftarrow> pool_guid exec name;
       State_Monad.return (imported_problem (rr_output current) (rr_output ro = ''on'') actual guid readonly = '''')
     }
     else if device = '''' then State_Monad.return False
     else (let root = (if altroot = '''' then backup_altroot name else altroot) in do {
       _ \<leftarrow> run exec (Line (''mkdir -p '' @ root));
       import_tries exec out name device root readonly guid [False, True]
     })
   }"

text \<open>\<open>pool_import\<close>: by-id first, then the device hint and its directory, then a scan of every device.\<close>

definition dirname :: "string \<Rightarrow> string" where
  "dirname p = (let head = rev (dropWhile (\<lambda>c. c \<noteq> CHR ''/'') (rev p))
     in if list_all (\<lambda>c. c = CHR ''/'') head then head else rstrip_where (\<lambda>c. c = CHR ''/'') head)"

definition add_candidate :: "string list \<Rightarrow> string \<Rightarrow> string list" where
  "add_candidate args c =
     (if c \<noteq> '''' \<and> rstrip_where (\<lambda>x. x = CHR ''/'') c \<noteq> BY_ID_DIR \<and> c \<notin> set args then args @ [c] else args)"

definition dev_args :: "string \<Rightarrow> string list" where
  "dev_args device = (if device \<noteq> '''' then foldl add_candidate [BY_ID_DIR] [device, dirname device] else [BY_ID_DIR]) @ ['''']"

definition system_import_cmd :: "string \<Rightarrow> bool \<Rightarrow> bool \<Rightarrow> string \<Rightarrow> string \<Rightarrow> bool \<Rightarrow> cmd" where
  "system_import_cmd name no_mount readonly altroot darg force =
     Line (''zpool import'' @ (if force then '' -f'' else '''') @ (if no_mount then '' -N'' else '''')
           @ (if readonly then '' -o readonly=on'' else '''') @ (if altroot \<noteq> '''' then '' -R '' @ altroot else '''')
           @ (if darg \<noteq> '''' then '' -d '' @ darg else '''') @ '' '' @ name)"

fun try_cmds :: "'w shell \<Rightarrow> cmd list \<Rightarrow> (('w, 'z) machine_scheme, bool) action" where
  "try_cmds exec [] = State_Monad.return False"
| "try_cmds exec (c # cs) = do { r \<leftarrow> run exec c; if ok r then State_Monad.return True else try_cmds exec cs }"

definition pool_import :: "'w shell \<Rightarrow> string \<Rightarrow> string \<Rightarrow> string \<Rightarrow> bool \<Rightarrow> bool \<Rightarrow> (('w, 'z) machine_scheme, bool) action" where
  "pool_import exec name device altroot no_mount readonly = do {
     there \<leftarrow> pool_exists exec name;
     if there then State_Monad.return True
     else try_cmds exec (concat (map (\<lambda>d. map (system_import_cmd name no_mount readonly altroot d) [False, True]) (dev_args device)))
   }"



section \<open>The read-back of a drive\<close>

text \<open>The pools a \<open>Cleanup\<close> exports at exit.\<close>

record 'w tracker = "'w machine" +
  tk_pools :: "string list"

definition track_pool :: "string \<Rightarrow> (('w, 'z) tracker_scheme, unit) action" where
  "track_pool name = State_Monad.update (\<lambda>m. if name \<in> set (tk_pools m) then m else m\<lparr>tk_pools := tk_pools m @ [name]\<rparr>)"

definition untrack_pool :: "string \<Rightarrow> (('w, 'z) tracker_scheme, unit) action" where
  "untrack_pool name = State_Monad.update (\<lambda>m. m\<lparr>tk_pools := remove1 name (tk_pools m)\<rparr>)"

record readback =
  rb_imported :: bool
  rb_health :: string
  rb_status :: string
  rb_reexported :: bool
  rb_error :: string

definition readback_ok :: "readback \<Rightarrow> bool" where
  "readback_ok r = (rb_imported r \<and> rb_health r = ''ONLINE'' \<and> rb_reexported r)"

definition readback_describe :: "readback \<Rightarrow> string list" where
  "readback_describe r =
     (if \<not> rb_imported r then
        [''The pool exported but could NOT be re-imported:'', ''  '' @ (if rb_error r \<noteq> '''' then rb_error r else ''no error text''),
         ''One known cause is a USB-SATA bridge that acknowledges cache'', ''flushes it never performs (docs/HARDWARE.md).'']
      else (if rb_health r \<noteq> ''ONLINE''
            then (''The pool re-imported, but its health is '' @ (if rb_health r \<noteq> '''' then rb_health r else ''unknown'') @ '':'')
              # take 20 (map (\<lambda>l. ''  '' @ l) (filter (\<lambda>l. strip l \<noteq> '''') (split_lines (rb_status r)))) else [])
        @ (if \<not> rb_reexported r then [''The read-back import could not be exported again: it is still imported.''] else []))"

definition readback_import_cmd :: "string \<Rightarrow> string \<Rightarrow> string \<Rightarrow> cmd" where
  "readback_import_cmd root device name =
     Line (''zpool import -o readonly=on -N -R '' @ root @ (if device \<noteq> '''' then '' -d '' @ device else '''') @ '' '' @ name)"

text \<open>The health of the pool that was re-imported and, when it is not \<open>ONLINE\<close>, its status.\<close>

definition read_health ::
    "'w shell \<Rightarrow> 'w outside \<Rightarrow> string \<Rightarrow> string \<Rightarrow> string \<Rightarrow> (('w, 'z) machine_scheme, string \<times> string) action" where
  "read_health exec out version directory name = do {
     health \<leftarrow> pool_health exec name;
     if health = ''ONLINE'' then State_Monad.return (health, '''')
     else do {
       s \<leftarrow> run exec (Line (''zpool status -v '' @ name));
       _ \<leftarrow> forensic_capture exec out version directory name (''read-back health '' @ health);
       State_Monad.return (health, rr_output s)
     }
   }"

definition reexport :: "'w shell \<Rightarrow> 'w outside \<Rightarrow> string \<Rightarrow> bool \<Rightarrow> string \<Rightarrow> string \<Rightarrow> (('w, 'z) tracker_scheme, readback) action" where
  "reexport exec out name cleanup health status = do {
     gone_now \<leftarrow> export_after_udev exec name;
     _ \<leftarrow> run exec (Line ''sync'');
     _ \<leftarrow> (if gone_now \<and> cleanup then untrack_pool name else State_Monad.return ());
     _ \<leftarrow> (if gone_now then do { _ \<leftarrow> remove_altroot_dir out (backup_altroot name); remove_altroot_base out }
          else State_Monad.return ());
     State_Monad.return \<lparr>rb_imported = True, rb_health = health, rb_status = status, rb_reexported = gone_now, rb_error = ''''\<rparr>
   }"

definition verify_exported_pool_readback ::
    "'w shell \<Rightarrow> 'w outside \<Rightarrow> string \<Rightarrow> string \<Rightarrow> string \<Rightarrow> string \<Rightarrow> bool
      \<Rightarrow> (('w, 'z) tracker_scheme, readback) action" where
  "verify_exported_pool_readback exec out version directory name device cleanup = do {
     _ \<leftarrow> run exec (Line ''sync'');
     _ \<leftarrow> run exec (Line (''sh -c '' @ [CHR 0x27] @ ''echo 3 > /proc/sys/vm/drop_caches'' @ [CHR 0x27]));
     _ \<leftarrow> run exec (Line (''mkdir -p '' @ backup_altroot name));
     _ \<leftarrow> (if cleanup then track_pool name else State_Monad.return ());
     r \<leftarrow> run exec (readback_import_cmd (backup_altroot name) device name);
     if \<not> ok r then do {
       _ \<leftarrow> (if cleanup then untrack_pool name else State_Monad.return ());
       _ \<leftarrow> forensic_capture exec out version directory name ''read-back could not re-import the pool'';
       State_Monad.return \<lparr>rb_imported = False, rb_health = '''', rb_status = '''', rb_reexported = False, rb_error = strip (rr_stderr r)\<rparr>
     } else do {
       seen \<leftarrow> read_health exec out version directory name;
       reexport exec out name cleanup (fst seen) (snd seen)
     }
   }"


section \<open>Datasets and keys\<close>

fun run_all :: "'w shell \<Rightarrow> cmd list \<Rightarrow> (('w, 'z) machine_scheme, unit) action" where
  "run_all exec [] = State_Monad.return ()"
| "run_all exec (c # cs) = do { _ \<leftarrow> run exec c; run_all exec cs }"

definition write_zpool_cache :: "'w shell \<Rightarrow> string \<Rightarrow> string list \<Rightarrow> (('w, 'z) machine_scheme, unit) action" where
  "write_zpool_cache exec cache_path pools =
     (let aside = cache_path @ ''.recover'' in
      run_all exec (map (\<lambda>p. Line (''zpool set cachefile='' @ cache_path @ '' '' @ p)) pools
        @ [Line (''cp '' @ cache_path @ '' '' @ aside)]
        @ map (\<lambda>p. Line (''zpool set cachefile=none '' @ p)) pools
        @ [Line (''mv '' @ aside @ '' '' @ cache_path)]))"

record dataset_info =
  ds_name :: string
  ds_mountpoint :: string
  ds_used :: string
  ds_refer :: string
  ds_canmount :: string
  ds_type :: string

definition dataset_line :: "string \<Rightarrow> dataset_info option" where
  "dataset_line line = (case tabs line of
     n # mp # u # rf # c # t # _ \<Rightarrow>
       if contains n ''@'' then None
       else Some \<lparr>ds_name = n, ds_mountpoint = mp, ds_used = u, ds_refer = rf, ds_canmount = c, ds_type = t\<rparr>
   | _ \<Rightarrow> None)"

definition zfs_list_datasets :: "'w shell \<Rightarrow> string \<Rightarrow> bool \<Rightarrow> (('w, 'z) machine_scheme, dataset_info list) action" where
  "zfs_list_datasets exec root recursive = do {
     r \<leftarrow> run exec (Line (''zfs list -H -o name,mountpoint,used,refer,canmount,type -t filesystem,volume ''
           @ (if recursive then ''-r'' else '''') @ '' '' @ root));
     State_Monad.return (List.map_filter dataset_line (ok_lines r))
   }"

definition zfs_list_snapshots :: "'w shell \<Rightarrow> string \<Rightarrow> string \<Rightarrow> (('w, 'z) machine_scheme, string list) action" where
  "zfs_list_snapshots exec root pattern = do {
     r \<leftarrow> run exec (Line (''zfs list -H -o name -t snapshot -r '' @ root));
     State_Monad.return (if pattern = '''' then ok_lines r else filter (\<lambda>s. contains s pattern) (ok_lines r))
   }"

definition dataset_used_bytes :: "'w shell \<Rightarrow> string \<Rightarrow> (('w, 'z) machine_scheme, int) action" where
  "dataset_used_bytes exec name = do {
     r \<leftarrow> run exec (Line (''zfs list -H -p -o used '' @ name));
     State_Monad.return (if \<not> ok r then 0 else case py_int (rr_output r) of Some i \<Rightarrow> i | None \<Rightarrow> 0)
   }"

text \<open>\<open>Inl\<close> is \<open>KeyStatusError\<close>, raised only when \<open>strict\<close>.\<close>

definition key_error :: "run_result \<Rightarrow> string \<Rightarrow> string" where
  "key_error r root = (if strip (rr_stderr r) \<noteq> '''' then strip (rr_stderr r) else ''zfs get keystatus -r '' @ root @ '' failed'')"

definition datasets_needing_key :: "'w shell \<Rightarrow> string \<Rightarrow> bool \<Rightarrow> (('w, 'z) machine_scheme, string + string list) action" where
  "datasets_needing_key exec root strict = do {
     r \<leftarrow> run exec (Line (''zfs get -H keystatus -r '' @ root));
     State_Monad.return (if \<not> ok r then (if strict then Inl (key_error r root) else Inr [])
       else Inr (List.map_filter (\<lambda>l. case tabs l of
         n # _ # v # _ \<Rightarrow> if strip v = ''unavailable'' \<and> \<not> contains n ''@'' then Some (strip n) else None
       | _ \<Rightarrow> None) (result_lines r)))
   }"

definition key_line :: "(string, (string, string) dict) dict \<Rightarrow> string \<Rightarrow> (string, (string, string) dict) dict" where
  "key_line m line = (case tabs line of
     n # p # v # _ \<Rightarrow> dict_set (strip n) (dict_set (strip p) (strip v) (dict_get_or m (strip n) [])) m
   | _ \<Rightarrow> m)"

definition add_root :: "string list \<Rightarrow> (string, string) dict \<Rightarrow> string list" where
  "add_root rs p =
     (let enc = dict_get_or p ''encryptionroot'' ''-'' in
      if map_of p ''keystatus'' = Some ''unavailable'' \<and> enc \<notin> {''-'', ''''} \<and> enc \<notin> set rs then rs @ [enc] else rs)"

definition key_roots :: "string list \<Rightarrow> string list" where
  "key_roots ls = foldl add_root [] (dict_values (foldl key_line [] ls))"

definition encryption_roots_needing_key :: "'w shell \<Rightarrow> string \<Rightarrow> bool \<Rightarrow> (('w, 'z) machine_scheme, string + string list) action" where
  "encryption_roots_needing_key exec root strict = do {
     r \<leftarrow> run exec (Line (''zfs get -H -o name,property,value -t filesystem,volume -r encryptionroot,keystatus '' @ root));
     State_Monad.return (if \<not> ok r then (if strict then Inl (key_error r root) else Inr []) else Inr (key_roots (result_lines r)))
   }"


definition dataset_exists :: "'w shell \<Rightarrow> string \<Rightarrow> (('w, 'z) machine_scheme, bool) action" where
  "dataset_exists exec name = do { r \<leftarrow> run exec (Line (''zfs list '' @ name)); State_Monad.return (ok r) }"

definition get_property :: "'w shell \<Rightarrow> string \<Rightarrow> string \<Rightarrow> (('w, 'z) machine_scheme, string) action" where
  "get_property exec dataset key = do {
     r \<leftarrow> run exec (Line (''zfs get -H -o value '' @ key @ '' '' @ dataset)); State_Monad.return (if ok r then rr_output r else '''') }"

definition set_property :: "'w shell \<Rightarrow> string \<Rightarrow> string \<Rightarrow> string \<Rightarrow> (('w, 'z) machine_scheme, bool) action" where
  "set_property exec dataset key v = do {
     r \<leftarrow> run exec (Line (''zfs set '' @ key @ ''='' @ v @ '' '' @ dataset)); State_Monad.return (ok r) }"

definition mount_dataset :: "'w shell \<Rightarrow> string \<Rightarrow> string \<Rightarrow> (('w, 'z) machine_scheme, bool) action" where
  "mount_dataset exec dataset mountpoint = do {
     _ \<leftarrow> run exec (Line (''mkdir -p '' @ mountpoint));
     r \<leftarrow> run exec (Line (''mount -t zfs '' @ dataset @ '' '' @ mountpoint));
     State_Monad.return (ok r)
   }"

definition mount_all :: "'w shell \<Rightarrow> (('w, 'z) machine_scheme, bool) action" where
  "mount_all exec = do { r \<leftarrow> run exec (Line ''zfs mount -a''); State_Monad.return (ok r) }"

definition unmount_all :: "'w shell \<Rightarrow> (('w, 'z) machine_scheme, bool) action" where
  "unmount_all exec = do { r \<leftarrow> run exec (Line ''zfs unmount -a''); State_Monad.return (ok r) }"


section \<open>Discovery and new drives\<close>

text \<open>The loop over the output of \<open>blkid -o export\<close> carries what it found and the entry it is in.\<close>

definition member_line :: "(string, string) dict list \<times> (string, string) dict \<Rightarrow> string \<Rightarrow> (string, string) dict list \<times> (string, string) dict" where
  "member_line st line0 = (case st of (found, current) \<Rightarrow>
     let line = strip line0 in
     if line = '''' then (if current \<noteq> [] then (found @ [current], []) else st)
     else (case partition_on CHR ''='' line of (k, sep, v) \<Rightarrow> if sep then (found, dict_set (lower k) v current) else st))"

definition parse_members :: "string \<Rightarrow> (string, string) dict list" where
  "parse_members text = (case foldl member_line ([], []) (split_lines text) of
     (found, current) \<Rightarrow> if current \<noteq> [] then found @ [current] else found)"

definition scan_zfs_members :: "'w shell \<Rightarrow> (('w, 'z) machine_scheme, (string, string) dict list) action" where
  "scan_zfs_members exec = do {
     r \<leftarrow> run exec (Line ''blkid -t TYPE=zfs_member -o export'');
     State_Monad.return (if \<not> ok r then [] else parse_members (rr_stdout r))
   }"

definition after_colon :: "string \<Rightarrow> string" where
  "after_colon line = strip (snd (snd (partition_on CHR '':'' line)))"

definition importable_line :: "(string, string) dict list \<times> (string, string) dict \<Rightarrow> string \<Rightarrow> (string, string) dict list \<times> (string, string) dict" where
  "importable_line st line0 = (case st of (pools, current) \<Rightarrow>
     let line = strip line0 in
     if startswith line ''pool:'' then (if current \<noteq> [] then pools @ [current] else pools, [(''name'', after_colon line)])
     else if startswith line ''id:'' then (pools, dict_set ''guid'' (after_colon line) current)
     else if startswith line ''state:'' then (pools, dict_set ''state'' (after_colon line) current)
     else st)"

definition importable_pools :: "'w shell \<Rightarrow> (('w, 'z) machine_scheme, (string, string) dict list) action" where
  "importable_pools exec = do {
     r \<leftarrow> run exec (Line ''zpool import'');
     State_Monad.return (if \<not> ok r then [] else case foldl importable_line ([], []) (split_lines (rr_stdout r)) of
       (pools, current) \<Rightarrow> if current \<noteq> [] then pools @ [current] else pools)
   }"

definition DRIVE_COMPATIBILITY :: string where "DRIVE_COMPATIBILITY = ''openzfs-2.2''"

definition create_command :: "string \<Rightarrow> string \<Rightarrow> string \<Rightarrow> string \<Rightarrow> (string, string) dict \<Rightarrow> string" where
  "create_command pool device altroot compatibility marks =
     ''zpool create -f -o ashift=12 '' @ (if compatibility \<noteq> '''' then ''-o compatibility='' @ compatibility @ '' '' else '''')
     @ ''-O atime=off -O xattr=sa -O dnodesize=auto -O normalization=formD ''
     @ concat (map (\<lambda>(k, v). ''-O org.zark:'' @ k @ ''='' @ v @ '' '') (sort_key fst marks))
     @ ''-m none -R '' @ altroot @ '' '' @ pool @ '' '' @ device"

fun any_active :: "'w shell \<Rightarrow> (string \<times> string) list \<Rightarrow> (('w, 'z) machine_scheme, bool) action" where
  "any_active exec [] = State_Monad.return False"
| "any_active exec ((pool, ft) # rest) = do {
     r \<leftarrow> run exec (pool_get_cmd (''feature@'' @ ft) pool);
     if rr_output r = ''active'' then State_Monad.return True else any_active exec rest
   }"

text \<open>\<open>installed\<close>: whether a feature set of that name is a file of one of the \<open>COMPAT_DIRS\<close>.\<close>

definition drive_compatibility :: "'w shell \<Rightarrow> ('w \<Rightarrow> string \<Rightarrow> bool) \<Rightarrow> string list \<Rightarrow> (('w, 'z) machine_scheme, string) action" where
  "drive_compatibility exec installed origin_pools = do {
     there \<leftarrow> ask_path (\<lambda>w. installed w DRIVE_COMPATIBILITY);
     if \<not> there then State_Monad.return ''''
     else do {
       beyond \<leftarrow> any_active exec (List.product origin_pools BEYOND_2_2_STREAM);
       State_Monad.return (if beyond then '''' else DRIVE_COMPATIBILITY)
     }
   }"



section \<open>What ZFS does with pools\<close>

text \<open>A pool as it is imported: its id, altroot and whether it is read-only.\<close>

record pool_at =
  pa_guid :: string
  pa_altroot :: string
  pa_readonly :: bool

definition harmless :: "cmd \<Rightarrow> bool" where
  "harmless c = (case c of Line l \<Rightarrow> starts_any l
       [''zpool list '', ''zpool get '', ''zpool status '', ''zpool events '', ''zpool history '', ''zpool set cachefile'',
        ''zfs unload-key '', ''mkdir -p '', ''sync'', ''sleep '', ''udevadm settle '', ''umount '', ''rm -rf '', ''cryptsetup close '',
        ''sh -c '' @ [CHR 0x27] @ ''echo 3 > '', ''command -v '', ''journalctl '', ''dmesg '', ''lsblk '']
     | Argv _ \<Rightarrow> False)"

text \<open>
  The documented behaviour the code relies on, for the pool \<open>name\<close>: \<open>zpool list\<close> succeeds exactly for an
  imported pool, \<open>zpool get\<close> prints its properties, an import that succeeds imports it under the altroot
  and in the mode asked for, one that fails changes nothing, an export that succeeds removes it, and no
  other command or call made here changes which pools are imported.
\<close>

definition only_reads :: "'w shell \<Rightarrow> 'w outside \<Rightarrow> ('w \<Rightarrow> string \<Rightarrow> pool_at option) \<Rightarrow> bool" where
  "only_reads exec out pools =
     ((\<forall>c w. harmless c \<longrightarrow> pools (snd (exec c w)) = pools w)
      \<and> (\<forall>d w. pools (out_rmdir out d w) = pools w) \<and> (\<forall>p t w. pools (snd (out_create out p t w)) = pools w))"

definition listed_as :: "'w shell \<Rightarrow> ('w \<Rightarrow> string \<Rightarrow> pool_at option) \<Rightarrow> string \<Rightarrow> 'w \<Rightarrow> bool" where
  "listed_as exec pools name w =
     (ok (fst (exec (pool_list_cmd name) w)) = (pools w name \<noteq> None)
      \<and> (\<forall>x. pools w name = Some x \<longrightarrow>
           rr_output (fst (exec (pool_get_cmd ''altroot'' name) w)) = pa_altroot x
           \<and> (rr_output (fst (exec (pool_get_cmd ''readonly'' name) w)) = ''on'') = pa_readonly x
           \<and> (ok (fst (exec (pool_get_cmd ''guid'' name) w)) \<longrightarrow> rr_output (fst (exec (pool_get_cmd ''guid'' name) w)) = pa_guid x)))"

definition imports_as :: "'w shell \<Rightarrow> ('w \<Rightarrow> string \<Rightarrow> pool_at option) \<Rightarrow> string \<Rightarrow> cmd \<Rightarrow> string \<Rightarrow> bool \<Rightarrow> bool" where
  "imports_as exec pools name c root ro =
     (\<forall>w. pools w name = None \<longrightarrow>
        (if ok (fst (exec c w)) then \<exists>g. pools (snd (exec c w)) = (pools w)(name \<mapsto> \<lparr>pa_guid = g, pa_altroot = root, pa_readonly = ro\<rparr>)
         else pools (snd (exec c w)) = pools w))"

definition exports_as :: "'w shell \<Rightarrow> ('w \<Rightarrow> string \<Rightarrow> pool_at option) \<Rightarrow> string \<Rightarrow> cmd \<Rightarrow> bool" where
  "exports_as exec pools name c =
     (\<forall>w. pools (snd (exec c w)) = (if ok (fst (exec c w)) then (pools w)(name := None) else pools w))"

definition zfs_pools :: "'w shell \<Rightarrow> 'w outside \<Rightarrow> ('w \<Rightarrow> string \<Rightarrow> pool_at option) \<Rightarrow> string \<Rightarrow> bool" where
  "zfs_pools exec out pools name =
     (only_reads exec out pools \<and> (\<forall>w. listed_as exec pools name w)
      \<and> exports_as exec pools name (export_cmd name) \<and> exports_as exec pools name (export_force_cmd name))"


section \<open>Weakest preconditions\<close>

definition wp :: "('m, 'a) action \<Rightarrow> ('a \<Rightarrow> 'm \<Rightarrow> bool) \<Rightarrow> 'm \<Rightarrow> bool" where
  "wp act Q m = (case run_state act m of (x, m') \<Rightarrow> Q x m')"

lemma wpD: "wp act Q m \<Longrightarrow> run_state act m = (x, m') \<Longrightarrow> Q x m'"
  by (simp add: wp_def)

lemma wp_return [simp]: "wp (State_Monad.return x) Q m = Q x m"
  by (simp add: wp_def)

lemma wp_bind [simp]: "wp (State_Monad.bind act f) Q m = wp act (\<lambda>x. wp (f x) Q) m"
  by (simp add: wp_def split: prod.split)

lemma wp_run [simp]: "wp (run exec c) Q m =
    Q (fst (exec c (m_world m))) (m\<lparr>m_world := snd (exec c (m_world m)), m_issued := m_issued m @ [c]\<rparr>)"
  by (simp add: wp_def run_def split: prod.split)

lemma wp_if [simp]: "wp (if b then c else d) Q m = (if b then wp c Q m else wp d Q m)"
  by simp

lemma wp_ask [simp]: "wp (ask_path f) Q m = Q (f (m_world m)) m"
  by (simp add: wp_def ask_path_def State_Monad.get_def)

lemma wp_update [simp]: "wp (State_Monad.update f) Q m = Q () (f m)"
  by (simp add: wp_def State_Monad.update_def State_Monad.get_def State_Monad.set_def State_Monad.bind_def)

lemma wp_world [simp]: "wp (set_world f) Q m = Q () (m\<lparr>m_world := f (m_world m)\<rparr>)"
  by (simp add: set_world_def)

lemma wp_mono: "wp act R m \<Longrightarrow> (\<And>x m'. R x m' \<Longrightarrow> Q x m') \<Longrightarrow> wp act Q m"
  by (simp add: wp_def split: prod.splits)

lemma keeps_wp: "keeps I act \<Longrightarrow> I m \<Longrightarrow> (\<And>x m'. I m' \<Longrightarrow> Q x m') \<Longrightarrow> wp act Q m"
  by (fastforce simp: wp_def keeps_def split: prod.splits)



section \<open>Lemmas: imports and exports\<close>

lemma harmless_cmds [simp]: "harmless (pool_list_cmd p)" "harmless (pool_get_cmd k p)"
  by (simp_all add: harmless_def starts_any_def startswith_def pool_list_cmd_def pool_get_cmd_def)

lemmas harmless_eval = harmless_def starts_any_def startswith_def

lemma harmless_literals [simp]:
  "harmless (Line ''udevadm settle --timeout=30'')" "harmless (Line ''sync'')" "harmless (Line ''sleep 1'')" "harmless (Line ''command -v journalctl'')"
  "harmless (Line ''dmesg -T'')" "harmless (Line ''lsblk -o NAME,SIZE,MODEL,SERIAL,TRAN,TYPE,MOUNTPOINTS'')"
  by (simp_all add: harmless_def starts_any_def startswith_def)

text \<open>The pools of the world a machine is in.\<close>

abbreviation pools_in :: "('w \<Rightarrow> 'p) \<Rightarrow> 'p \<Rightarrow> ('w, 'z) machine_scheme \<Rightarrow> bool" where
  "pools_in pools ps m \<equiv> pools (m_world m) = ps"

lemma read_keeps: "only_reads exec out pools \<Longrightarrow> harmless c \<Longrightarrow> keeps (pools_in pools ps) (run exec c)"
  by (auto simp: keeps_def run_def only_reads_def split: prod.split) (metis snd_conv)

lemma run_harmless: "only_reads exec out pools \<Longrightarrow> harmless c \<Longrightarrow> pools (snd (exec c w)) = pools w"
  by (simp add: only_reads_def)

lemma rmdir_keeps: "only_reads exec out pools \<Longrightarrow> keeps (pools_in pools ps) (remove_altroot_dir out d)"
  by (simp add: keeps_def remove_altroot_dir_def set_world_def only_reads_def State_Monad.update_def State_Monad.get_def State_Monad.set_def State_Monad.bind_def)

text \<open>An export, tried as often as it is, ends with the pool gone or with nothing changed.\<close>

lemma export_tries_wp:
  assumes "zfs_pools exec out pools name"
  shows "wp (export_tries exec name n) (\<lambda>b m'. pools (m_world m') = (if b then (pools (m_world m))(name := None) else pools (m_world m))
      \<and> (b \<or> last (m_issued m') = export_force_cmd name)) m"
  using assms
proof (induction n arbitrary: m)
  case 0
  then show ?case by (simp add: zfs_pools_def exports_as_def)
next
  case (Suc n)
  have settle: "pools (snd (exec (Line ''udevadm settle --timeout=30'') w)) = pools w" for w
    using Suc.prems by (intro run_harmless [of exec out]) (simp_all add: zfs_pools_def)
  have ex: "pools (snd (exec (export_cmd name) w)) = (if ok (fst (exec (export_cmd name) w)) then (pools w)(name := None) else pools w)" for w
    using Suc.prems by (simp add: zfs_pools_def exports_as_def)
  show ?case
    by (auto simp: settle ex intro!: wp_mono [OF Suc.IH [OF Suc.prems]])
qed

lemmas export_after_udev_wp = export_tries_wp [where n = READBACK_EXPORT_TRIES, folded export_after_udev_def]


lemma pool_exists_wp:
  assumes "zfs_pools exec out pools name"
    and "\<And>m'. pools (m_world m') = pools (m_world m) \<Longrightarrow> Q (pools (m_world m) name \<noteq> None) m'"
  shows "wp (pool_exists exec name) Q m"
  using assms(1) assms(2) [of "m\<lparr>m_world := snd (exec (pool_list_cmd name) (m_world m)), m_issued := m_issued m @ [pool_list_cmd name]\<rparr>"]
  by (simp add: pool_exists_def zfs_pools_def listed_as_def run_harmless [of exec out])

lemma pool_guid_wp:
  assumes "zfs_pools exec out pools name" and "pools (m_world m) name = Some x"
    and "\<And>m' g. pools (m_world m') = pools (m_world m) \<Longrightarrow> g = pa_guid x \<or> g = '''' \<Longrightarrow> Q g m'"
  shows "wp (pool_guid exec name) Q m"
  using assms by (simp add: pool_guid_def zfs_pools_def listed_as_def run_harmless [of exec out])

lemma is_expected_wp:
  assumes "zfs_pools exec out pools name" and "guid \<noteq> ''''" and "pools (m_world m) name = Some x"
  shows "wp (is_expected exec out name guid root) (\<lambda>b m'.
    if b then pools (m_world m') = pools (m_world m) \<and> pa_guid x = guid
    else pools (m_world m') = (pools (m_world m))(name := None) \<or> last (m_issued m') = export_force_cmd name) m"
proof -
  have rm: "pools (out_rmdir out root w) = pools w" for w using assms(1) by (simp add: zfs_pools_def only_reads_def)
  show ?thesis
    unfolding is_expected_def wp_bind
    by (rule pool_guid_wp [OF assms(1,3)])
       (use assms(2) rm in \<open>auto simp: remove_altroot_dir_def intro!: wp_mono [OF export_after_udev_wp [OF assms(1)]]\<close>)
qed

text \<open>What an import of a backup pool leaves behind.\<close>

definition import_ends_well :: "('w \<Rightarrow> string \<Rightarrow> pool_at option) \<Rightarrow> string \<Rightarrow> bool \<Rightarrow> string \<Rightarrow> ('w, 'z) machine_scheme \<Rightarrow> bool
    \<Rightarrow> ('w, 'z) machine_scheme \<Rightarrow> bool" where
  "import_ends_well pools name readonly guid m b m' =
     (if b then (case pools (m_world m') name of
          Some x \<Rightarrow> pa_altroot x \<notin> {'''', ''-''} \<and> pa_readonly x = readonly \<and> (guid = '''' \<or> pa_guid x = guid) | None \<Rightarrow> False)
      else pools (m_world m') = pools (m_world m) \<or> last (m_issued m') = export_force_cmd name)"

lemma import_tries_wp:
  assumes "zfs_pools exec out pools name" and "root \<notin> {'''', ''-''}"
    and "\<And>f. imports_as exec pools name (backup_import_cmd root readonly f device name) root readonly"
    and "pools (m_world m) = pools (m_world m0)" and "pools (m_world m0) name = None"
  shows "wp (import_tries exec out name device root readonly guid fs) (import_ends_well pools name readonly guid m0) m"
  using assms(4)
proof (induction fs arbitrary: m)
  case Nil
  then show ?case by (simp add: import_ends_well_def)
next
  case (Cons f fs)
  let ?c = "backup_import_cmd root readonly f device name"
  let ?m = "m\<lparr>m_world := snd (exec ?c (m_world m)), m_issued := m_issued m @ [?c]\<rparr>"
  from Cons.prems assms(5) have none: "pools (m_world m) name = None" by simp
  show ?case
  proof (cases "ok (fst (exec ?c (m_world m)))")
    case True
    with assms(3) [of f, unfolded imports_as_def, rule_format, OF none] obtain g
      where g: "pools (m_world ?m) = (pools (m_world m))(name \<mapsto> \<lparr>pa_guid = g, pa_altroot = root, pa_readonly = readonly\<rparr>)"
      by auto
    then have x: "pools (m_world ?m) name = Some \<lparr>pa_guid = g, pa_altroot = root, pa_readonly = readonly\<rparr>" by simp
    have as_before: "(pools (m_world ?m))(name := None) = pools (m_world m0)" using g none Cons.prems assms(5) by (simp add: fun_upd_idem)
    show ?thesis
    proof (cases "guid = ''''")
      case False
      have "wp (is_expected exec out name guid root) (import_ends_well pools name readonly guid m0) ?m"
        by (rule wp_mono [OF is_expected_wp [OF assms(1) False x]])
           (use as_before x assms(2) in \<open>auto simp: import_ends_well_def split: if_splits\<close>)
      with True False show ?thesis by simp
    qed (use True x assms(2) in \<open>simp add: import_ends_well_def\<close>)
  next
    case False
    with assms(3) [of f] none have "pools (m_world ?m) = pools (m_world m)" by (simp add: imports_as_def)
    with Cons.prems have "wp (import_tries exec out name device root readonly guid fs) (import_ends_well pools name readonly guid m0) ?m"
      by (intro Cons.IH) simp
    with False show ?thesis by simp
  qed
qed


section \<open>Properties\<close>



text \<open>A machine with the one drive \<open>blue\<close>, imported read-only or not.\<close>

definition ex_pools :: "bool option \<Rightarrow> string \<Rightarrow> pool_at option" where
  "ex_pools w p = (if p = ''blue'' then map_option (\<lambda>ro. \<lparr>pa_guid = ''77'', pa_altroot = ''/run/zark/altroot/blue'', pa_readonly = ro\<rparr>) w else None)"

definition ex_result :: "bool \<Rightarrow> string \<Rightarrow> run_result" where
  "ex_result fine t = \<lparr>rr_returncode = (if fine then 0 else 1), rr_stdout = t, rr_stderr = ''''\<rparr>"

definition ex_zfs :: "bool option shell" where
  "ex_zfs c w = (case c of Argv _ \<Rightarrow> (ex_result True '''', w) | Line l \<Rightarrow>
     if startswith l ''zpool import '' then (ex_result (w = None) '''', if w = None then Some (contains l ''readonly=on'') else w)
     else if startswith l ''zpool export '' then (ex_result True '''', None)
     else if l = ''zpool list blue'' then (ex_result (w \<noteq> None) '''', w)
     else (ex_result True
             (if l = ''zpool get -H -o value guid blue'' then ''77''
              else if l = ''zpool get -H -o value altroot blue'' then ''/run/zark/altroot/blue''
              else if l = ''zpool get -H -o value readonly blue'' then (if w = Some True then ''on'' else ''off'')
              else if l = ''zpool list -H -o health blue'' then ''ONLINE''
              else ''''), w))"

definition ex_outside :: "'w outside" where
  "ex_outside = \<lparr>out_rmdir = (\<lambda>_ w. w), out_create = (\<lambda>_ _ w. (True, w)), out_usb_ids = (\<lambda>_ _. ('''', '''')), out_stamp = (\<lambda>_. '''')\<rparr>"

lemma ex_zfs_pools: "zfs_pools ex_zfs ex_outside ex_pools ''blue''"
proof -
  have "snd (ex_zfs c w) = w" if "harmless c" for c w
    using that by (cases c) (auto simp: ex_zfs_def harmless_eval prefix_def)
  then have "only_reads ex_zfs ex_outside ex_pools" by (simp add: only_reads_def ex_outside_def)
  moreover have "listed_as ex_zfs ex_pools ''blue'' w" for w
    by (cases w) (auto simp: listed_as_def ex_zfs_def ex_pools_def ex_result_def ok_def pool_list_cmd_def pool_get_cmd_def startswith_def
      rr_output_def strip_def rstrip_where_def is_space_def)
  moreover have "exports_as ex_zfs ex_pools ''blue'' (export_cmd ''blue'')" "exports_as ex_zfs ex_pools ''blue'' (export_force_cmd ''blue'')"
    by (auto simp: exports_as_def ex_zfs_def ex_pools_def ex_result_def ok_def export_cmd_def export_force_cmd_def startswith_def fun_eq_iff)
  ultimately show ?thesis by (simp add: zfs_pools_def)
qed

lemma ex_imports: "imports_as ex_zfs ex_pools ''blue'' (backup_import_cmd ''/run/zark/altroot/blue'' False force ''/dev/sdb1'' ''blue'') ''/run/zark/altroot/blue'' False"
  by (cases force) (auto simp: imports_as_def ex_zfs_def ex_pools_def ex_result_def ok_def backup_import_cmd_def startswith_def
    contains_def sublist_code fun_eq_iff)




section \<open>The read-back leaves nothing untracked\<close>

abbreviation pools_tracked :: "('w \<Rightarrow> 'p) \<Rightarrow> 'p \<Rightarrow> string list \<Rightarrow> ('w, 'z) tracker_scheme \<Rightarrow> bool" where
  "pools_tracked pools ps ts m \<equiv> pools (m_world m) = ps \<and> tk_pools m = ts"

lemma keeps_harmless: "only_reads exec out pools \<Longrightarrow> harmless c \<Longrightarrow> keeps (pools_tracked pools ps ts) (run exec c)"
  by (auto simp: keeps_def run_def split: prod.split) (metis run_harmless snd_conv)

lemma keeps_create: "only_reads exec out pools \<Longrightarrow> keeps (pools_tracked pools ps ts) (set_world (\<lambda>w. snd (out_create out p t w)))"
  unfolding set_world_def by (rule keeps_update) (simp add: only_reads_def)

lemma keeps_capture:
  assumes "only_reads exec out pools"
  shows "keeps (pools_tracked pools ps ts) (forensic_capture exec out version directory name reason)"
proof -
  note run_rule = keeps_harmless [OF assms]
  have sec: "keeps (pools_tracked pools ps ts) (forensic_section exec t c)" if "harmless (Line c)" for t c
    unfolding forensic_section_def using that by (intro keeps_rules run_rule)
  have under: "keeps (pools_tracked pools ps ts) (disks_under exec d)" for d
    unfolding disks_under_def disks_cmd_def by (intro keeps_rules run_rule) (simp add: harmless_eval)
  have ids: "keeps (pools_tracked pools ps ts) (disk_ids out p ds)" for p ds
    by (induction ds) (auto intro!: keeps_rules keeps_ask)
  have usb: "keeps (pools_tracked pools ps ts) (usb_lines exec out ls)" for ls
    by (induction ls) (auto simp: Let_def intro!: keeps_rules under ids)
  have usb_sec: "keeps (pools_tracked pools ps ts) (usb_section exec out name)"
    unfolding usb_section_def by (intro keeps_rules run_rule usb) (simp add: harmless_eval)
  show ?thesis
    unfolding forensic_capture_def Let_def
    by (intro keeps_rules keeps_ask run_rule sec usb_sec keeps_create [OF assms]) (simp_all add: harmless_eval)
qed


lemma wp_both: "wp act P m \<Longrightarrow> wp act Q m \<Longrightarrow> wp act (\<lambda>x m'. P x m' \<and> Q x m') m"
  by (auto simp: wp_def split: prod.splits)

lemma run_tracked: "keeps (\<lambda>m. tk_pools m = ts) (run exec c)"
  by (auto simp: keeps_def run_def split: prod.split)

lemma export_tracked: "keeps (\<lambda>m. tk_pools m = ts) (export_tries exec name n)"
  by (induction n) (auto intro!: keeps_rules run_tracked)

text \<open>The end of a read-back that re-imported the pool: \<open>m\<close> is the machine after the import.\<close>

lemma reexport_wp:
  assumes "zfs_pools exec out pools name" and "pools (m_world m) name \<noteq> None"
    and "\<And>m'. pools (m_world m') = (pools (m_world m))(name := None) \<Longrightarrow> tk_pools m' = tk_pools m \<Longrightarrow> Q True m'"
    and "\<And>m'. pools (m_world m') = pools (m_world m) \<Longrightarrow> tk_pools m' = tk_pools m \<Longrightarrow> Q False m'"
  shows "wp (export_after_udev exec name) Q m"
proof -
  have "wp (export_after_udev exec name) (\<lambda>_ m'. tk_pools m' = tk_pools m) m"
    unfolding export_after_udev_def by (rule keeps_wp [OF export_tracked]) auto
  from wp_both [OF export_after_udev_wp [OF assms(1)] this] show ?thesis
    by (rule wp_mono) (use assms(3,4) in \<open>auto split: if_splits\<close>)
qed

definition readback_ends_well ::
    "('w \<Rightarrow> string \<Rightarrow> pool_at option) \<Rightarrow> string \<Rightarrow> ('w, 'z) tracker_scheme \<Rightarrow> readback \<Rightarrow> ('w, 'z) tracker_scheme \<Rightarrow> bool" where
  "readback_ends_well pools name m r m' =
     (if rb_imported r \<and> \<not> rb_reexported r then pools (m_world m') name \<noteq> None \<and> name \<in> set (tk_pools m')
      else pools (m_world m') = pools (m_world m) \<and> tk_pools m' = tk_pools m)"

lemma keeps_read_health:
  assumes "only_reads exec out pools"
  shows "keeps (pools_tracked pools ps ts) (read_health exec out version directory name)"
  unfolding read_health_def pool_health_def
  by (intro keeps_rules keeps_harmless [OF assms] keeps_capture [OF assms]) (simp_all add: harmless_eval)

lemma reexport_ends_well:
  assumes "zfs_pools exec out pools name" and "pools (m_world m) name = None" and "name \<notin> set (tk_pools m)"
    and "pools_tracked pools ((pools (m_world m))(name \<mapsto> x)) (tk_pools m @ [name]) m1"
  shows "wp (reexport exec out name True h s) (readback_ends_well pools name m) m1"
  unfolding reexport_def wp_bind
proof (rule reexport_wp [OF assms(1)], goal_cases)
  case (2 m2)
  have reads: "only_reads exec out pools" using assms(1) by (simp add: zfs_pools_def)
  have rm: "pools (out_rmdir out d w) = pools w" for d w using reads by (simp add: only_reads_def)
  have "(pools (m_world m))(name := None) = pools (m_world m)" using assms(2) by (simp add: fun_upd_idem)
  then show ?case using 2 assms(3,4) rm
    by (simp add: run_harmless [OF reads] untrack_pool_def remove_altroot_dir_def remove_altroot_base_def readback_ends_well_def remove1_append)
qed (use assms in \<open>auto simp: readback_ends_well_def zfs_pools_def run_harmless [of exec out]\<close>)

text \<open>C10: the read-back never loses track of a pool. A pool that was exported is imported again and exported again, or it
  stays imported and is then among those the cleanup exports; when it could not be imported, or was
  exported again, the pools and what is tracked are as before.\<close>

theorem readback_tracked:
  assumes "zfs_pools exec out pools name"
    and "imports_as exec pools name (readback_import_cmd (backup_altroot name) device name) (backup_altroot name) True"
    and "pools (m_world m) name = None" and "name \<notin> set (tk_pools m)"
    and "run_state (verify_exported_pool_readback exec out version directory name device True) m = (r, m')"
  shows "readback_ends_well pools name m r m'"
proof -
  let ?c = "readback_import_cmd (backup_altroot name) device name"
  have reads: "only_reads exec out pools" using assms(1) by (simp add: zfs_pools_def)
  have same: "pools (snd (exec c w)) = pools w" if "harmless c" for c w using run_harmless [OF reads that] .
  have imp: "if ok (fst (exec ?c w)) then \<exists>x. pools (snd (exec ?c w)) = (pools w)(name \<mapsto> x) else pools (snd (exec ?c w)) = pools w"
    if "pools w = pools (m_world m)" for w using assms(2,3) that unfolding imports_as_def by (metis (no_types))
  have imported_or_not: "if \<not> ok (fst (exec ?c w)) then A else B" if "pools w = pools (m_world m)"
      "\<And>x. pools (snd (exec ?c w)) = (pools w)(name \<mapsto> x) \<Longrightarrow> B" "pools (snd (exec ?c w)) = pools w \<Longrightarrow> A" for w A B
    using imp [OF that(1)] that(2,3) by (auto split: if_splits)
  have failed: "wp (forensic_capture exec out version directory name why) (\<lambda>_ m2. pools_tracked pools (pools (m_world m)) (tk_pools m) m2) m1"
    if "pools_tracked pools (pools (m_world m)) (tk_pools m) m1" for m1 why
    by (rule keeps_wp [OF keeps_capture [OF reads]]) (use that in auto)
  have checked: "wp (read_health exec out version directory name) (\<lambda>seen. wp (reexport exec out name True (fst seen) (snd seen)) (readback_ends_well pools name m)) m1"
    if "pools_tracked pools ((pools (m_world m))(name \<mapsto> x)) (tk_pools m @ [name]) m1" for m1 x
    by (rule keeps_wp [OF keeps_read_health [OF reads]]) (use that reexport_ends_well [OF assms(1,3,4)] in auto)
  have "wp (verify_exported_pool_readback exec out version directory name device True) (readback_ends_well pools name m) m"
    unfolding verify_exported_pool_readback_def if_True wp_bind wp_run track_pool_def wp_update wp_if
  proof (rule imported_or_not, goal_cases)
    case (2 x)
    then show ?case using assms(4) by (intro checked [of _ x]) (simp add: same harmless_eval)
  next
    case 3
    then show ?case using assms(4)
      by (auto simp: untrack_pool_def same harmless_eval remove1_append readback_ends_well_def intro!: wp_mono [OF failed])
  qed (simp add: same harmless_eval)
  from wpD [OF this assms(5)] show ?thesis .
qed


lemma ex_reimports: "imports_as ex_zfs ex_pools ''blue'' (readback_import_cmd (backup_altroot ''blue'') ''/dev/sdb1'' ''blue'') (backup_altroot ''blue'') True"
  by (auto simp: imports_as_def ex_zfs_def ex_pools_def ex_result_def ok_def readback_import_cmd_def startswith_def backup_altroot_def
    BACKUP_ALTROOT_BASE_def contains_def sublist_code fun_eq_iff)

abbreviation ex_tracker :: "bool option tracker" where
  "ex_tracker \<equiv> \<lparr>m_world = None, m_issued = [], tk_pools = [''red'']\<rparr>"

theorem readback_tracked_witness:
  "\<exists>r m'. run_state (verify_exported_pool_readback ex_zfs ex_outside ''2.2.0'' ''/var/log'' ''blue'' ''/dev/sdb1'' True) ex_tracker = (r, m')
     \<and> readback_ok r \<and> readback_ends_well ex_pools ''blue'' ex_tracker r m'"
proof -
  let ?act = "verify_exported_pool_readback ex_zfs ex_outside ''2.2.0'' ''/var/log'' ''blue'' ''/dev/sdb1'' True"
  obtain r m' where r: "run_state ?act ex_tracker = (r, m')" by (rule prod.exhaust)
  have "readback_ok (fst (run_state ?act ex_tracker))" by code_simp
  moreover have "ex_pools (m_world ex_tracker) ''blue'' = None" "''blue'' \<notin> set (tk_pools ex_tracker)" by (simp_all add: ex_pools_def)
  ultimately show ?thesis using readback_tracked [OF ex_zfs_pools ex_reimports _ _ r] r by simp
qed

end
