(* ===== verification/Keystore.thy ===== *)
theory Keystore
  imports Pools
begin

text \<open>
  \<open>lib/keystore.py\<close>: finding the keystore zvol of a pool by its name, opening and closing the LUKS volume on it,
  loading the keys of the encryption roots and the prompts for the passphrase. The object is the record
  \<open>keystore\<close>, passed and returned; the file system is the record \<open>key_paths\<close>. A command that is given
  the passphrase on its standard input runs in the shell \<open>exec_in\<close> of that input.
\<close>

definition ZVOL_ID :: string where "ZVOL_ID = ''/usr/lib/udev/zvol_id''"

definition KEYSTORE_MOUNT :: string where "KEYSTORE_MOUNT = ''/run/keystore/rpool''"

definition SYSTEM_KEY_PATH :: string where "SYSTEM_KEY_PATH = KEYSTORE_MOUNT @ ''/system.key''"

definition MAX_PASSPHRASE_ATTEMPTS :: nat where "MAX_PASSPHRASE_ATTEMPTS = 3"

record keystore =
  ks_mapper :: string
  ks_mounted :: bool
  ks_bad_passphrase :: bool

definition Keystore :: keystore where
  "Keystore = \<lparr>ks_mapper = '''', ks_mounted = False, ks_bad_passphrase = False\<rparr>"

record 'w key_paths =
  kp_there :: "'w \<Rightarrow> string \<Rightarrow> bool"
  kp_is_mount :: "'w \<Rightarrow> string \<Rightarrow> bool"
  kp_mkdir :: "string \<Rightarrow> 'w \<Rightarrow> 'w"

definition mapper_name_for :: "string \<Rightarrow> string" where "mapper_name_for pool = ''zark_ks_'' @ pool"

definition attach_to_pool :: "'w key_paths \<Rightarrow> string \<Rightarrow> keystore \<Rightarrow> (('w, 'z) machine_scheme, keystore) action" where
  "attach_to_pool fs pool ks = do {
     there \<leftarrow> ask_path (\<lambda>w. kp_there fs w (''/dev/mapper/'' @ mapper_name_for pool));
     State_Monad.return (ks\<lparr>ks_mapper := mapper_name_for pool, ks_mounted := (there \<or> ks_mounted ks)\<rparr>)
   }"

definition WHOLE_ZD :: "string \<Rightarrow> bool" where
  "WHOLE_ZD d = (startswith d ''/dev/zd'' \<and> isdigit (drop 7 d))"

fun zvol_named :: "'w shell \<Rightarrow> string \<Rightarrow> string list \<Rightarrow> (('w, 'z) machine_scheme, string option) action" where
  "zvol_named exec want [] = State_Monad.return None"
| "zvol_named exec want (d # ds) = do {
     r \<leftarrow> run exec (Line (ZVOL_ID @ '' '' @ d));
     if ok r \<and> strip (rr_output r) = want then State_Monad.return (Some d) else zvol_named exec want ds
   }"

definition zvol_devices :: "run_result \<Rightarrow> string list" where
  "zvol_devices r = sort_key (\<lambda>d. dec_val (drop 7 d)) (filter WHOLE_ZD (map strip (ok_lines r)))"

definition zvol_link_cmd :: "string \<Rightarrow> cmd" where "zvol_link_cmd pool = Line (''readlink -f /dev/zvol/'' @ pool @ ''/keystore'')"

definition find_zvol_for_pool :: "'w shell \<Rightarrow> string \<Rightarrow> (('w, 'z) machine_scheme, string option) action" where
  "find_zvol_for_pool exec pool = do {
     r \<leftarrow> run exec (Line ''ls -1 /dev/zd* 2>/dev/null'');
     found \<leftarrow> zvol_named exec (pool @ ''/keystore'') (zvol_devices r);
     case found of
       Some d \<Rightarrow> State_Monad.return (Some d)
     | None \<Rightarrow> do {
         link \<leftarrow> run exec (zvol_link_cmd pool);
         State_Monad.return (if ok link \<and> WHOLE_ZD (strip (rr_output link)) then Some (strip (rr_output link)) else None)
       }
   }"

definition keystore_umount :: "'w shell \<Rightarrow> 'w key_paths \<Rightarrow> keystore \<Rightarrow> (('w, 'z) machine_scheme, keystore) action" where
  "keystore_umount exec fs ks =
     (if \<not> ks_mounted ks then State_Monad.return ks
      else do {
        here \<leftarrow> ask_path (\<lambda>w. kp_is_mount fs w KEYSTORE_MOUNT);
        _ \<leftarrow> (if here then do { _ \<leftarrow> run exec (Line (''umount '' @ KEYSTORE_MOUNT)); State_Monad.return () } else State_Monad.return ());
        _ \<leftarrow> (if ks_mapper ks \<noteq> '''' then do { _ \<leftarrow> run exec (Line (''cryptsetup close '' @ ks_mapper ks)); State_Monad.return () }
             else State_Monad.return ());
        State_Monad.return (ks\<lparr>ks_mounted := False\<rparr>)
      })"

definition luks_open_cmd :: "bool \<Rightarrow> string \<Rightarrow> string \<Rightarrow> cmd" where
  "luks_open_cmd readonly dev pool = Line (''cryptsetup open'' @ (if readonly then '' --readonly'' else '''') @ '' '' @ dev @ '' '' @ mapper_name_for pool)"

definition key_mount_cmd :: "bool \<Rightarrow> string \<Rightarrow> cmd" where
  "key_mount_cmd readonly pool =
     Line (''mount'' @ (if readonly then '' -o ro,noload'' else '''') @ '' /dev/mapper/'' @ mapper_name_for pool @ '' '' @ KEYSTORE_MOUNT)"

definition mount_opened ::
    "'w shell \<Rightarrow> 'w key_paths \<Rightarrow> keystore \<Rightarrow> string \<Rightarrow> bool \<Rightarrow> (('w, 'z) machine_scheme, bool \<times> keystore) action" where
  "mount_opened exec fs ks pool readonly = do {
     r \<leftarrow> run exec (key_mount_cmd readonly pool);
     if \<not> ok r then do { _ \<leftarrow> run exec (Line (''cryptsetup close '' @ mapper_name_for pool)); State_Monad.return (False, ks) }
     else do {
       there \<leftarrow> ask_path (\<lambda>w. kp_there fs w SYSTEM_KEY_PATH);
       if \<not> there then do { ks2 \<leftarrow> keystore_umount exec fs ks; State_Monad.return (False, ks2) }
       else State_Monad.return (True, ks\<lparr>ks_mounted := True\<rparr>)
     }
   }"

definition keystore_mount ::
    "'w shell \<Rightarrow> (string \<Rightarrow> 'w shell) \<Rightarrow> 'w key_paths \<Rightarrow> keystore \<Rightarrow> string \<Rightarrow> string \<Rightarrow> bool
      \<Rightarrow> (('w, 'z) machine_scheme, bool \<times> keystore) action" where
  "keystore_mount exec exec_in fs ks pool passphrase readonly = do {
     zd \<leftarrow> find_zvol_for_pool exec pool;
     case zd of
       None \<Rightarrow> State_Monad.return (False, ks)
     | Some dev \<Rightarrow> do {
         _ \<leftarrow> set_world (kp_mkdir fs KEYSTORE_MOUNT);
         r \<leftarrow> run (exec_in (passphrase @ [CHR 0x0A])) (luks_open_cmd readonly dev pool);
         let ks1 = ks\<lparr>ks_mapper := mapper_name_for pool, ks_bad_passphrase := (rr_returncode r = 2)\<rparr>;
         if \<not> ok r then State_Monad.return (False, ks1) else mount_opened exec fs ks1 pool readonly
       }
   }"

definition is_mounted :: "'w key_paths \<Rightarrow> keystore \<Rightarrow> (('w, 'z) machine_scheme, bool) action" where
  "is_mounted fs ks = do {
     there \<leftarrow> ask_path (\<lambda>w. kp_there fs w SYSTEM_KEY_PATH); State_Monad.return (ks_mounted ks \<and> there) }"

definition load_key_cmd :: "string \<Rightarrow> cmd" where
  "load_key_cmd ds = Line (''zfs load-key -L file://'' @ SYSTEM_KEY_PATH @ '' '' @ ds)"

fun load_keys :: "'w shell \<Rightarrow> string list \<Rightarrow> (('w, 'z) machine_scheme, nat) action" where
  "load_keys exec [] = State_Monad.return 0"
| "load_keys exec (d # ds) = do {
     r \<leftarrow> run exec (load_key_cmd d);
     n \<leftarrow> load_keys exec ds;
     State_Monad.return (if ok r then Suc n else n)
   }"

definition load_pool_keys :: "'w shell \<Rightarrow> 'w key_paths \<Rightarrow> keystore \<Rightarrow> string \<Rightarrow> (('w, 'z) machine_scheme, nat) action" where
  "load_pool_keys exec fs ks pool_root = do {
     fine \<leftarrow> is_mounted fs ks;
     if \<not> fine then State_Monad.return 0
     else do {
       found \<leftarrow> encryption_roots_needing_key exec pool_root False;
       load_keys exec (case found of Inr ds \<Rightarrow> ds | Inl _ \<Rightarrow> [])
     }
   }"

text \<open>\<open>open_keystore\<close>: \<open>answers\<close> is what the operator types at the prompts, in order; the model stops with
  the last answer when there are fewer than the prompts.\<close>

fun open_tries ::
    "'w shell \<Rightarrow> (string \<Rightarrow> 'w shell) \<Rightarrow> 'w key_paths \<Rightarrow> keystore \<Rightarrow> string \<Rightarrow> bool \<Rightarrow> string list
      \<Rightarrow> (('w, 'z) machine_scheme, bool \<times> keystore) action" where
  "open_tries exec exec_in fs ks pool readonly [] = State_Monad.return (False, ks)"
| "open_tries exec exec_in fs ks pool readonly (a # as) = do {
     t \<leftarrow> keystore_mount exec exec_in fs ks pool a readonly;
     if fst t then State_Monad.return t
     else if \<not> ks_bad_passphrase (snd t) then State_Monad.return t
     else open_tries exec exec_in fs (snd t) pool readonly as
   }"

definition open_keystore ::
    "'w shell \<Rightarrow> (string \<Rightarrow> 'w shell) \<Rightarrow> 'w key_paths \<Rightarrow> keystore \<Rightarrow> string \<Rightarrow> bool \<Rightarrow> string list
      \<Rightarrow> (('w, 'z) machine_scheme, bool \<times> keystore) action" where
  "open_keystore exec exec_in fs ks pool readonly answers =
     open_tries exec exec_in fs ks pool readonly (take MAX_PASSPHRASE_ATTEMPTS answers)"



section \<open>Lemmas\<close>

text \<open>The device is never guessed: it told its own name, or the link of that name leads to it.\<close>


lemma returns_run_answer: "returns (run exec c) (\<lambda>r. \<exists>w. r = fst (exec c w))"
  by (auto simp: returns_def run_def split: prod.split) (metis fst_conv)

definition told_by :: "'w shell \<Rightarrow> string \<Rightarrow> string \<Rightarrow> bool" where
  "told_by exec want d = (\<exists>w. ok (fst (exec (Line (ZVOL_ID @ '' '' @ d)) w)) \<and> strip (rr_output (fst (exec (Line (ZVOL_ID @ '' '' @ d)) w))) = want)"

lemma zvol_named_told: "returns (zvol_named exec want ds) (\<lambda>f. \<forall>d. f = Some d \<longrightarrow> told_by exec want d)"
proof (induction ds)
  case (Cons d ds)
  then show ?case
    unfolding zvol_named.simps
    by (intro returns_bind [OF returns_run_answer] returns_if returns_return) (auto simp: told_by_def)
qed (simp add: returns_return)


definition linked_to :: "'w shell \<Rightarrow> string \<Rightarrow> string \<Rightarrow> bool" where
  "linked_to exec pool d = (\<exists>w. ok (fst (exec (zvol_link_cmd pool) w)) \<and> strip (rr_output (fst (exec (zvol_link_cmd pool) w))) = d)"

lemma found_zvol:
  "returns (find_zvol_for_pool exec pool) (\<lambda>f. \<forall>d. f = Some d \<longrightarrow> told_by exec (pool @ ''/keystore'') d \<or> linked_to exec pool d)"
proof -
  have link: "returns (State_Monad.bind (run exec (zvol_link_cmd pool)) (\<lambda>link.
      State_Monad.return (if ok link \<and> WHOLE_ZD (strip (rr_output link)) then Some (strip (rr_output link)) else None)))
    (\<lambda>f. \<forall>d. f = Some d \<longrightarrow> told_by exec (pool @ ''/keystore'') d \<or> linked_to exec pool d)"
    by (rule returns_bind [OF returns_run_answer], rule returns_return) (auto simp: linked_to_def)
  show ?thesis
    unfolding find_zvol_for_pool_def
    by (rule returns_bind_any, rule returns_bind [OF zvol_named_told]) (auto split: option.split intro!: returns_return link)
qed


section \<open>Properties\<close>

text \<open>C33: a keystore without \<open>system.key\<close> is left open. When the volume opened and mounted but the key is not there, \<open>mount\<close>
  fails after the two commands that opened it: the \<open>umount\<close> it calls does nothing, because the object is
  marked as mounted only afterwards, and the object it leaves behind closes nothing later either.\<close>

theorem missing_key_left_open:
  assumes "run_state (find_zvol_for_pool exec pool) m = (Some dev, m1)" and "\<not> ks_mounted ks"
    and "exec_in (pass @ [CHR 0x0A]) (luks_open_cmd readonly dev pool) (kp_mkdir fs KEYSTORE_MOUNT (m_world m1)) = (opened, w2)" and "ok opened"
    and "exec (key_mount_cmd readonly pool) w2 = (mounted, w3)" and "ok mounted" and "\<not> kp_there fs w3 SYSTEM_KEY_PATH"
  shows "\<exists>ks' m'. run_state (keystore_mount exec exec_in fs ks pool pass readonly) m = ((False, ks'), m')
    \<and> m_issued m' = m_issued m1 @ [luks_open_cmd readonly dev pool, key_mount_cmd readonly pool]
    \<and> run_state (keystore_umount exec fs ks') m' = (ks', m')"
  using assms
  by (simp add: keystore_mount_def mount_opened_def keystore_umount_def run_def set_world_def ask_path_def State_Monad.update_def
      State_Monad.get_def State_Monad.set_def State_Monad.bind_def Let_def)

definition ex_keys :: "unit shell" where
  "ex_keys c w = (\<lparr>rr_returncode = 0, rr_stdout = (if c = zvol_link_cmd ''rpool'' then ''/dev/zd16'' else ''''), rr_stderr = ''''\<rparr>, w)"

definition ex_key_paths :: "unit key_paths" where
  "ex_key_paths = \<lparr>kp_there = (\<lambda>_ _. False), kp_is_mount = (\<lambda>_ _. True), kp_mkdir = (\<lambda>_ w. w)\<rparr>"

theorem missing_key_left_open_witness:
  "\<exists>ks' m'. run_state (keystore_mount ex_keys (\<lambda>_. ex_keys) ex_key_paths Keystore ''rpool'' ''secret'' False) (\<lparr>m_world = (), m_issued = []\<rparr> :: unit machine) = ((False, ks'), m')
    \<and> luks_open_cmd False ''/dev/zd16'' ''rpool'' \<in> set (m_issued m') \<and> run_state (keystore_umount ex_keys ex_key_paths ks') m' = (ks', m')"
proof -
  let ?m = "\<lparr>m_world = (), m_issued = []\<rparr> :: unit machine"
  obtain f m1 where f: "run_state (find_zvol_for_pool ex_keys ''rpool'') ?m = (f, m1)" by (rule prod.exhaust)
  have "fst (run_state (find_zvol_for_pool ex_keys ''rpool'') ?m) = Some ''/dev/zd16''" by code_simp
  with f have "run_state (find_zvol_for_pool ex_keys ''rpool'') ?m = (Some ''/dev/zd16'', m1)" by simp
  from missing_key_left_open [OF this, where exec_in = "\<lambda>_. ex_keys" and fs = ex_key_paths and ks = Keystore and readonly = False and pass = "''secret''"
      and opened = "fst (ex_keys (luks_open_cmd False ''/dev/zd16'' ''rpool'') ())" and mounted = "fst (ex_keys (key_mount_cmd False ''rpool'') ())"]
  show ?thesis by (auto simp: ex_keys_def ex_key_paths_def Keystore_def ok_def)
qed

end
