(* ===== verification/Cleanup.thy ===== *)
theory Cleanup
  imports Keystore
begin

text \<open>
  \<open>lib/cleanup.py\<close>: what a command tracks while it runs and undoes when it ends, the flush of a device and the eject
  prompt. The tracked things are fields of the machine, as a \<open>Cleanup\<close> object is shared by all who track
  something. An undo step is a number and \<open>act\<close> says what it does; a step that raises is only logged, so
  what it did is all that counts. The handling of signals around a run belongs to \<open>lib/signals.py\<close>.
\<close>

record 'w cleanup = "'w tracker" +
  cl_mounts :: "string list"
  cl_keystores :: "(nat \<times> keystore) list"
  cl_dirs :: "string list"
  cl_actions :: "nat list"
  cl_exported :: "string list"
  cl_disabled :: bool

definition add_once :: "'a \<Rightarrow> 'a list \<Rightarrow> 'a list" where
  "add_once x xs = (if x \<in> set xs then xs else xs @ [x])"

definition track_action :: "nat \<Rightarrow> (('w, 'z) cleanup_scheme, unit) action" where
  "track_action a = State_Monad.update (\<lambda>m. m\<lparr>cl_actions := add_once a (cl_actions m)\<rparr>)"

definition untrack_action :: "nat \<Rightarrow> (('w, 'z) cleanup_scheme, unit) action" where
  "untrack_action a = State_Monad.update (\<lambda>m. m\<lparr>cl_actions := remove1 a (cl_actions m)\<rparr>)"

definition track_mount :: "string \<Rightarrow> (('w, 'z) cleanup_scheme, unit) action" where
  "track_mount p = State_Monad.update (\<lambda>m. m\<lparr>cl_mounts := add_once p (cl_mounts m)\<rparr>)"

definition track_keystore :: "nat \<Rightarrow> keystore \<Rightarrow> (('w, 'z) cleanup_scheme, unit) action" where
  "track_keystore i ks = State_Monad.update (\<lambda>m. if i \<in> fst ` set (cl_keystores m) then m
     else m\<lparr>cl_keystores := cl_keystores m @ [(i, ks)]\<rparr>)"

definition track_dir :: "string \<Rightarrow> (('w, 'z) cleanup_scheme, unit) action" where
  "track_dir p = State_Monad.update (\<lambda>m. m\<lparr>cl_dirs := add_once p (cl_dirs m)\<rparr>)"

definition disable :: "(('w, 'z) cleanup_scheme, unit) action" where
  "disable = State_Monad.update (\<lambda>m. m\<lparr>cl_disabled := True, tk_pools := [], cl_mounts := [], cl_keystores := [], cl_dirs := [],
     cl_actions := []\<rparr>)"

definition pending :: "('w, 'z) cleanup_scheme \<Rightarrow> bool" where
  "pending m = (\<not> cl_disabled m \<and> (cl_mounts m \<noteq> [] \<or> cl_keystores m \<noteq> [] \<or> tk_pools m \<noteq> [] \<or> cl_dirs m \<noteq> [] \<or> cl_actions m \<noteq> []))"

definition flush_device_cache :: "'w shell \<Rightarrow> (('w, 'z) machine_scheme, unit) action" where
  "flush_device_cache exec = do { _ \<leftarrow> run exec (Line ''sync''); State_Monad.return () }"

definition eject_device :: "'w shell \<Rightarrow> string \<Rightarrow> (('w, 'z) machine_scheme, bool) action" where
  "eject_device exec device = do { r \<leftarrow> run exec (Line (''eject '' @ device)); State_Monad.return (ok r) }"

text \<open>\<open>prompt_eject_or_attach\<close>: \<open>answer\<close> is the operator's decision at a prompt with that default and, when the
  drive ejects by itself, a countdown; \<open>True\<close> is the banner that says the drive is safe to unplug.\<close>

definition EJECT_TIMEOUT_SECONDS :: nat where "EJECT_TIMEOUT_SECONDS = 10"

definition prompt_eject_or_attach ::
    "'w shell \<Rightarrow> (bool \<Rightarrow> nat option \<Rightarrow> bool) \<Rightarrow> string option \<Rightarrow> bool \<Rightarrow> bool \<Rightarrow> (('w, 'z) machine_scheme, bool) action" where
  "prompt_eject_or_attach exec answer device default_eject autoeject = (case device of
     None \<Rightarrow> State_Monad.return False
   | Some d \<Rightarrow>
       if (if autoeject then answer True (Some EJECT_TIMEOUT_SECONDS) else answer default_eject None)
       then do { _ \<leftarrow> eject_device exec d; State_Monad.return True } else State_Monad.return False)"


section \<open>Running a cleanup\<close>

fun run_actions :: "(nat \<Rightarrow> (('w, 'z) cleanup_scheme, unit) action) \<Rightarrow> nat list \<Rightarrow> (('w, 'z) cleanup_scheme, unit) action" where
  "run_actions act [] = State_Monad.return ()"
| "run_actions act (a # as) = do { _ \<leftarrow> act a; run_actions act as }"

fun release_mounts :: "'w shell \<Rightarrow> 'w key_paths \<Rightarrow> string list \<Rightarrow> (('w, 'z) machine_scheme, unit) action" where
  "release_mounts exec fs [] = State_Monad.return ()"
| "release_mounts exec fs (p # ps) = do {
     here \<leftarrow> ask_path (\<lambda>w. kp_is_mount fs w p);
     _ \<leftarrow> (if here then do {
            r \<leftarrow> run exec (Line (''umount '' @ p));
            if ok r then State_Monad.return () else do { _ \<leftarrow> run exec (Line (''umount -l '' @ p)); State_Monad.return () }
          } else State_Monad.return ());
     release_mounts exec fs ps
   }"

fun close_keystores :: "'w shell \<Rightarrow> 'w key_paths \<Rightarrow> keystore list \<Rightarrow> (('w, 'z) machine_scheme, unit) action" where
  "close_keystores exec fs [] = State_Monad.return ()"
| "close_keystores exec fs (k # ks) = do { _ \<leftarrow> keystore_umount exec fs k; close_keystores exec fs ks }"

definition unload_key_cmd :: "string \<Rightarrow> cmd" where "unload_key_cmd p = Line (''zfs unload-key -r '' @ p)"

definition export_one :: "'w shell \<Rightarrow> string \<Rightarrow> (('w, 'z) machine_scheme, bool) action" where
  "export_one exec pool = do {
     _ \<leftarrow> run exec (unload_key_cmd pool);
     r \<leftarrow> run exec (export_cmd pool);
     if ok r then State_Monad.return True else do { r2 \<leftarrow> run exec (export_force_cmd pool); State_Monad.return (ok r2) }
   }"

fun export_pools :: "'w shell \<Rightarrow> 'w outside \<Rightarrow> string list \<Rightarrow> (('w, 'z) cleanup_scheme, unit) action" where
  "export_pools exec out [] = State_Monad.return ()"
| "export_pools exec out (p # ps) = do {
     there \<leftarrow> pool_exists exec p;
     gone_now \<leftarrow> (if there then export_one exec p else State_Monad.return False);
     _ \<leftarrow> (if gone_now then do {
            _ \<leftarrow> remove_altroot_dir out (backup_altroot p);
            _ \<leftarrow> flush_device_cache exec;
            State_Monad.update (\<lambda>m. m\<lparr>cl_exported := cl_exported m @ [p]\<rparr>)
          } else State_Monad.return ());
     export_pools exec out ps
   }"

fun remove_dirs :: "'w shell \<Rightarrow> 'w key_paths \<Rightarrow> string list \<Rightarrow> (('w, 'z) machine_scheme, unit) action" where
  "remove_dirs exec fs [] = State_Monad.return ()"
| "remove_dirs exec fs (d # ds) = do {
     there \<leftarrow> ask_path (\<lambda>w. kp_there fs w d);
     _ \<leftarrow> (if there then do { _ \<leftarrow> run exec (Line (''rm -rf '' @ d)); State_Monad.return () } else State_Monad.return ());
     remove_dirs exec fs ds
   }"

text \<open>The steps before the pools are exported, the export of the pools, and the rest.\<close>

definition release_all :: "'w shell \<Rightarrow> 'w key_paths \<Rightarrow> (nat \<Rightarrow> (('w, 'z) cleanup_scheme, unit) action) \<Rightarrow> (('w, 'z) cleanup_scheme, unit) action" where
  "release_all exec fs act = do {
     m \<leftarrow> State_Monad.get;
     _ \<leftarrow> State_Monad.update (\<lambda>m. m\<lparr>cl_exported := [], cl_actions := []\<rparr>);
     _ \<leftarrow> run_actions act (rev (cl_actions m));
     m2 \<leftarrow> State_Monad.get;
     _ \<leftarrow> release_mounts exec fs (rev (cl_mounts m2));
     _ \<leftarrow> close_keystores exec fs (map snd (cl_keystores m2));
     State_Monad.update (\<lambda>m. m\<lparr>cl_mounts := [], cl_keystores := []\<rparr>)
   }"

definition cleanup_body ::
    "'w shell \<Rightarrow> 'w outside \<Rightarrow> 'w key_paths \<Rightarrow> (nat \<Rightarrow> (('w, 'z) cleanup_scheme, unit) action) \<Rightarrow> (('w, 'z) cleanup_scheme, unit) action" where
  "cleanup_body exec out fs act = do {
     _ \<leftarrow> release_all exec fs act;
     m \<leftarrow> State_Monad.get;
     _ \<leftarrow> export_pools exec out (tk_pools m);
     _ \<leftarrow> State_Monad.update (\<lambda>m. m\<lparr>tk_pools := []\<rparr>);
     _ \<leftarrow> remove_altroot_base out;
     m2 \<leftarrow> State_Monad.get;
     _ \<leftarrow> remove_dirs exec fs (rev (cl_dirs m2));
     State_Monad.update (\<lambda>m. m\<lparr>cl_dirs := []\<rparr>)
   }"

definition cleanup_run ::
    "'w shell \<Rightarrow> 'w outside \<Rightarrow> 'w key_paths \<Rightarrow> (nat \<Rightarrow> (('w, 'z) cleanup_scheme, unit) action) \<Rightarrow> (('w, 'z) cleanup_scheme, unit) action" where
  "cleanup_run exec out fs act = do {
     m \<leftarrow> State_Monad.get;
     if pending m then cleanup_body exec out fs act else State_Monad.return ()
   }"



section \<open>Lemmas\<close>

text \<open>What the undo steps and the releases leave alone: the pools to export and what is still to be undone.\<close>

definition tracked :: "('w, 'z) cleanup_scheme \<Rightarrow> string list \<times> nat list \<times> string list \<times> bool" where
  "tracked m = (tk_pools m, cl_actions m, cl_exported m, cl_disabled m)"

definition quiet_steps :: "(nat \<Rightarrow> (('w, 'z) cleanup_scheme, unit) action) \<Rightarrow> bool" where
  "quiet_steps act = (\<forall>a t. keeps (\<lambda>m. tracked m = t) (act a))"

lemma run_keeps_tracked: "keeps (\<lambda>m. tracked m = t) (run exec c)"
  by (auto simp: keeps_def run_def tracked_def split: prod.split)

lemma world_keeps_tracked: "keeps (\<lambda>m. tracked m = t) (set_world f)"
  unfolding set_world_def by (rule keeps_update) (simp add: tracked_def)

lemma actions_keep:
  assumes "quiet_steps act"
  shows "keeps (\<lambda>m. tracked m = t) (run_actions act as)"
proof -
  have "keeps (\<lambda>m. tracked m = t) (act a)" for a using assms unfolding quiet_steps_def by blast
  then show ?thesis by (induction as) (simp_all add: keeps_return keeps_bind)
qed

lemma mounts_keep: "keeps (\<lambda>m. tracked m = t) (release_mounts exec fs ps)"
  by (induction ps) (auto intro!: keeps_rules keeps_ask run_keeps_tracked)

lemma umount_keeps: "keeps (\<lambda>m. tracked m = t) (keystore_umount exec fs k)"
  unfolding keystore_umount_def by (intro keeps_rules keeps_ask run_keeps_tracked)

lemma keystores_keep: "keeps (\<lambda>m. tracked m = t) (close_keystores exec fs ks)"
  by (induction ks) (auto intro!: keeps_rules umount_keeps)

lemma dirs_keep: "keeps (\<lambda>m. tracked m = t) (remove_dirs exec fs ds)"
  by (induction ds) (auto intro!: keeps_rules keeps_ask run_keeps_tracked)

lemma wp_get [simp]: "wp State_Monad.get Q m = Q m m"
  by (simp add: wp_def State_Monad.get_def)

lemma wp_ext:
  "wp (State_Monad.update f) Q = (\<lambda>m. Q () (f m))" "wp (set_world g) Q = (\<lambda>m. Q () (m\<lparr>m_world := g (m_world m)\<rparr>))"
  "wp State_Monad.get R = (\<lambda>m. R m m)"
  by (simp_all add: fun_eq_iff)

lemma release_all_wp:
  assumes "quiet_steps act"
  shows "wp (release_all exec fs act) (\<lambda>_ m'. tracked m' = (tk_pools m, [], [], cl_disabled m) \<and> cl_mounts m' = [] \<and> cl_keystores m' = []) m"
proof -
  let ?t = "(tk_pools m, [], [], cl_disabled m)"
  have rest: "wp (do { _ \<leftarrow> release_mounts exec fs ps; _ \<leftarrow> close_keystores exec fs ks;
        State_Monad.update (\<lambda>m. m\<lparr>cl_mounts := [], cl_keystores := []\<rparr>) })
      (\<lambda>_ m'. tracked m' = ?t \<and> cl_mounts m' = [] \<and> cl_keystores m' = []) m1" if "tracked m1 = ?t" for m1 ps ks
    unfolding wp_bind
    by (rule keeps_wp [OF mounts_keep, where t1 = ?t], use that in simp, rule keeps_wp [OF keystores_keep, where t1 = ?t]) (simp_all add: tracked_def)
  show ?thesis
    unfolding release_all_def wp_bind wp_get wp_update
    by (rule keeps_wp [OF actions_keep [OF assms], where t1 = ?t], simp add: tracked_def, rule rest [unfolded wp_bind wp_update])
qed


lemma export_one_wp:
  assumes "zfs_pools exec out pools p"
  shows "wp (export_one exec p) (\<lambda>b m'. \<exists>w cs. m' = m\<lparr>m_world := w, m_issued := m_issued m @ cs\<rparr>
    \<and> (b \<or> export_force_cmd p \<in> set cs) \<and> pools w = (if b then (pools (m_world m))(p := None) else pools (m_world m))) m"
proof -
  let ?w = "snd (exec (unload_key_cmd p) (m_world m))"
  have "only_reads exec out pools" using assms by (simp add: zfs_pools_def)
  from run_harmless [OF this, of "unload_key_cmd p"] have w: "pools ?w = pools (m_world m)" by (simp add: unload_key_cmd_def harmless_eval)
  have ex: "pools (snd (exec (export_cmd p) w)) = (if ok (fst (exec (export_cmd p) w)) then (pools w)(p := None) else pools w)"
      "pools (snd (exec (export_force_cmd p) w)) = (if ok (fst (exec (export_force_cmd p) w)) then (pools w)(p := None) else pools w)" for w
    using assms by (simp_all add: zfs_pools_def exports_as_def)
  show ?thesis
  proof (cases "ok (fst (exec (export_cmd p) ?w))")
    case True
    then show ?thesis using ex(1) [of ?w] w
      by (auto simp: export_one_def intro!: exI [of _ "snd (exec (export_cmd p) ?w)"] exI [of _ "[unload_key_cmd p, export_cmd p]"])
  next
    case False
    let ?v = "snd (exec (export_cmd p) ?w)"
    show ?thesis using False ex(1) [of ?w] ex(2) [of ?v] w
      by (auto simp: export_one_def intro!: exI [of _ "snd (exec (export_force_cmd p) ?v)"]
        exI [of _ "[unload_key_cmd p, export_cmd p, export_force_cmd p]"])
  qed
qed

text \<open>What the export of the pools \<open>ps\<close> does between \<open>m\<close> and \<open>m'\<close>.\<close>

definition exported_well ::
    "('w \<Rightarrow> string \<Rightarrow> pool_at option) \<Rightarrow> string list \<Rightarrow> ('w, 'z) cleanup_scheme \<Rightarrow> ('w, 'z) cleanup_scheme \<Rightarrow> bool" where
  "exported_well pools ps m m' =
     ((\<forall>p\<in>set ps. pools (m_world m') p = None \<or> export_force_cmd p \<in> set (m_issued m'))
      \<and> (\<forall>q. pools (m_world m) q = None \<longrightarrow> pools (m_world m') q = None)
      \<and> (\<exists>w cs ex. m' = m\<lparr>m_world := w, m_issued := m_issued m @ cs, cl_exported := cl_exported m @ ex\<rparr>
           \<and> set ex \<subseteq> set ps \<and> (\<forall>p\<in>set ex. pools w p = None)))"

lemma exported_well_step:
  assumes "exported_well pools ps (m\<lparr>m_world := w1, m_issued := m_issued m @ cs1, cl_exported := cl_exported m @ ex1\<rparr>) m'"
    and "\<forall>q. pools (m_world m) q = None \<longrightarrow> pools w1 q = None" and "set ex1 \<subseteq> {p}" and "\<forall>q\<in>set ex1. pools w1 q = None"
    and "pools w1 p = None \<or> export_force_cmd p \<in> set cs1"
  shows "exported_well pools (p # ps) m m'"
proof -
  from assms(1) obtain w cs ex where m': "m' = m\<lparr>m_world := w, m_issued := m_issued m @ (cs1 @ cs), cl_exported := cl_exported m @ (ex1 @ ex)\<rparr>"
      and ex: "set ex \<subseteq> set ps" "\<forall>p\<in>set ex. pools w p = None"
      and mono: "\<forall>q. pools w1 q = None \<longrightarrow> pools w q = None"
      and rest: "\<forall>p\<in>set ps. pools w p = None \<or> export_force_cmd p \<in> set (m_issued m')"
    unfolding exported_well_def by (auto simp: comp_def)
  have "\<forall>q\<in>set (ex1 @ ex). pools w q = None" using ex(2) mono assms(4) by auto
  moreover have "set (ex1 @ ex) \<subseteq> set (p # ps)" using ex(1) assms(3) by auto
  moreover have "pools w p = None \<or> export_force_cmd p \<in> set (m_issued m')" using assms(5) mono m' by auto
  ultimately show ?thesis
    unfolding exported_well_def
  proof (intro conjI exI)
    show "m' = m\<lparr>m_world := w, m_issued := m_issued m @ (cs1 @ cs), cl_exported := cl_exported m @ (ex1 @ ex)\<rparr>" by (rule m')
  qed (use m' rest mono assms(2) in auto)
qed

lemma export_pools_wp:
  assumes "\<And>p. p \<in> set ps \<Longrightarrow> zfs_pools exec out pools p"
  shows "wp (export_pools exec out ps) (\<lambda>_. exported_well pools ps m) m"
  using assms
proof (induction ps arbitrary: m)
  case Nil
  have "m = m\<lparr>m_world := m_world m, m_issued := m_issued m @ [], cl_exported := cl_exported m @ []\<rparr>" by simp
  then show ?case unfolding exported_well_def by (auto intro!: exI [of _ "m_world m"] exI [of _ "[]"])
next
  case (Cons p ps)
  from Cons.prems have z: "zfs_pools exec out pools p" by simp
  have reads: "only_reads exec out pools" using z by (simp add: zfs_pools_def)
  have rm: "pools (out_rmdir out d w) = pools w" for d w using reads by (simp add: only_reads_def)
  have IH: "wp (export_pools exec out ps) (\<lambda>_. exported_well pools (p # ps) m)
        (m\<lparr>m_world := wa, m_issued := m_issued m @ cmds, cl_exported := cl_exported m @ exs\<rparr>)"
    if "\<forall>q. pools (m_world m) q = None \<longrightarrow> pools wa q = None" "set exs \<subseteq> {p}" "\<forall>q\<in>set exs. pools wa q = None"
      "pools wa p = None \<or> export_force_cmd p \<in> set cmds" for wa cmds exs
    by (rule wp_mono [OF Cons.IH]) (use Cons.prems that in \<open>auto intro: exported_well_step\<close>)
  let ?m = "m\<lparr>m_world := snd (exec (pool_list_cmd p) (m_world m)), m_issued := m_issued m @ [pool_list_cmd p]\<rparr>"
  have same: "pools (m_world ?m) = pools (m_world m)" using run_harmless [OF reads, of "pool_list_cmd p"] by simp
  have there: "ok (fst (exec (pool_list_cmd p) (m_world m))) = (pools (m_world m) p \<noteq> None)" using z by (simp add: zfs_pools_def listed_as_def)
  show ?case
  proof (cases "pools (m_world m) p")
    case None
    with IH [where wa = "m_world ?m" and cmds = "[pool_list_cmd p]" and exs = "[]"] same there show ?thesis by (simp add: pool_exists_def)
  next
    case (Some x)
    have "wp (export_one exec p) (\<lambda>gone_now. wp (do {
        _ \<leftarrow> (if gone_now then do { _ \<leftarrow> remove_altroot_dir out (backup_altroot p); _ \<leftarrow> flush_device_cache exec;
               State_Monad.update (\<lambda>m. m\<lparr>cl_exported := cl_exported m @ [p]\<rparr>) } else State_Monad.return ());
        export_pools exec out ps }) (\<lambda>_. exported_well pools (p # ps) m)) ?m"
    proof (rule wp_mono [OF export_one_wp [OF z]], elim conjE exE, goal_cases)
      case (1 b m' w cs)
      show ?case
      proof (cases b)
        case True
        have "pools (snd (exec (Line ''sync'') (out_rmdir out d w))) = (pools (m_world m))(p := None)" for d
          using 1 True same rm run_harmless [OF reads, of "Line ''sync''"] by simp
        then show ?thesis
          using True 1 IH [where wa = "snd (exec (Line ''sync'') (out_rmdir out (backup_altroot p) w))" and cmds = "pool_list_cmd p # cs @ [Line ''sync'']" and exs = "[p]"]
          by (simp add: remove_altroot_dir_def flush_device_cache_def)
      next
        case False
        with 1 same IH [where wa = w and cmds = "pool_list_cmd p # cs" and exs = "[]"] show ?thesis by simp
      qed
    qed
    with Some there show ?thesis by (simp add: pool_exists_def)
  qed
qed


text \<open>The last steps only remove directories.\<close>

definition settled_as :: "('w \<Rightarrow> 'p) \<Rightarrow> 'p \<Rightarrow> cmd set \<Rightarrow> string list \<times> nat list \<times> string list \<times> bool \<Rightarrow> ('w, 'z) cleanup_scheme \<Rightarrow> bool" where
  "settled_as pools ps cs t m = (pools (m_world m) = ps \<and> cs \<subseteq> set (m_issued m) \<and> tracked m = t \<and> cl_mounts m = [] \<and> cl_keystores m = [])"

lemma dirs_settled:
  assumes "only_reads exec out pools"
  shows "keeps (settled_as pools ps cs t) (remove_dirs exec fs ds)"
proof -
  have "keeps (settled_as pools ps cs t) (run exec (Line (''rm -rf '' @ d)))" for d
    using run_harmless [OF assms, of "Line (''rm -rf '' @ d)"]
    by (auto simp: keeps_def run_def settled_as_def tracked_def harmless_eval split: prod.split) (metis snd_conv)
  then show ?thesis by (induction ds) (auto intro!: keeps_rules keeps_ask)
qed

definition cleanup_ends_well ::
    "('w \<Rightarrow> string \<Rightarrow> pool_at option) \<Rightarrow> ('w, 'z) cleanup_scheme \<Rightarrow> ('w, 'z) cleanup_scheme \<Rightarrow> bool" where
  "cleanup_ends_well pools m m' =
     (\<not> pending m'
      \<and> list_all (\<lambda>p. pools (m_world m') p = None \<or> export_force_cmd p \<in> set (m_issued m')) (tk_pools m)
      \<and> list_all (\<lambda>p. p \<in> set (tk_pools m) \<and> pools (m_world m') p = None) (cl_exported m'))"


section \<open>Properties\<close>

text \<open>C9: a cleanup lets go of every pool. When it ends, each pool the command tracked is no longer imported, or ZFS refused
  even its forced export; the pools it reports as exported, the ones a caller may offer to unplug, are
  tracked ones that are gone; and nothing is left for a second cleanup.\<close>

theorem cleanup_lets_go:
  assumes "\<And>p. p \<in> set (tk_pools m) \<Longrightarrow> zfs_pools exec out pools p" and "only_reads exec out pools" and "quiet_steps act" and "pending m"
    and "run_state (cleanup_run exec out fs act) m = (u, m')"
  shows "cleanup_ends_well pools m m'"
proof -
  have rm: "pools (out_rmdir out d w) = pools w" for d w using assms(2) by (simp add: only_reads_def)
  have last_steps: "wp (remove_dirs exec fs ds) (\<lambda>_ m3. cleanup_ends_well pools m (m3\<lparr>cl_dirs := []\<rparr>)) m2"
    if m2: "settled_as pools ps cs ([], [], ex, d) m2" and ps: "list_all (\<lambda>p. ps p = None \<or> export_force_cmd p \<in> cs) (tk_pools m)"
      "list_all (\<lambda>p. p \<in> set (tk_pools m) \<and> ps p = None) ex" for m2 ds ps cs ex d
    by (rule keeps_wp [OF dirs_settled [OF assms(2)] m2])
       (use ps in \<open>auto simp: settled_as_def cleanup_ends_well_def pending_def tracked_def list_all_iff\<close>)
  have exports: "wp (export_pools exec out (tk_pools m1)) (\<lambda>_ m2. wp (remove_dirs exec fs (rev (cl_dirs m2)))
      (\<lambda>_ m3. cleanup_ends_well pools m (m3\<lparr>cl_dirs := []\<rparr>)) (m2\<lparr>tk_pools := [], m_world := out_rmdir out BACKUP_ALTROOT_BASE (m_world m2)\<rparr>)) m1"
    if m1: "tracked m1 = (tk_pools m, [], [], cl_disabled m)" "cl_mounts m1 = []" "cl_keystores m1 = []" for m1
  proof -
    from m1(1) have t: "tk_pools m1 = tk_pools m" "cl_actions m1 = []" "cl_exported m1 = []" by (simp_all add: tracked_def)
    show ?thesis
    proof (rule wp_mono [OF export_pools_wp])
      fix m2 assume "exported_well pools (tk_pools m1) m1 m2"
      then obtain w cs ex where m2: "m2 = m1\<lparr>m_world := w, m_issued := m_issued m1 @ cs, cl_exported := cl_exported m1 @ ex\<rparr>"
          and ex: "set ex \<subseteq> set (tk_pools m)" "\<forall>p\<in>set ex. pools w p = None"
          and gone_or: "\<forall>p\<in>set (tk_pools m). pools w p = None \<or> export_force_cmd p \<in> set (m_issued m2)"
        unfolding exported_well_def t by auto
      show "wp (remove_dirs exec fs (rev (cl_dirs m2))) (\<lambda>_ m3. cleanup_ends_well pools m (m3\<lparr>cl_dirs := []\<rparr>))
          (m2\<lparr>tk_pools := [], m_world := out_rmdir out BACKUP_ALTROOT_BASE (m_world m2)\<rparr>)"
        by (rule last_steps [where ps = "pools w" and cs = "set (m_issued m2)" and ex = ex and d = "cl_disabled m1"])
           (use m2 t m1(2,3) rm ex gone_or in \<open>auto simp: settled_as_def tracked_def list_all_iff\<close>)
    qed (use assms(1) t in simp)
  qed
  have "wp (cleanup_body exec out fs act) (\<lambda>_. cleanup_ends_well pools m) m"
    unfolding cleanup_body_def wp_bind
    by (rule wp_mono [OF release_all_wp [OF assms(3)]])
       (use exports in \<open>simp add: remove_altroot_base_def remove_altroot_dir_def wp_ext\<close>)
  then have "wp (cleanup_run exec out fs act) (\<lambda>_. cleanup_ends_well pools m) m" using assms(4) by (simp add: cleanup_run_def)
  from wpD [OF this assms(5)] show ?thesis .
qed


definition ex_cleanup :: "bool option cleanup" where
  "ex_cleanup = \<lparr>m_world = Some False, m_issued = [], tk_pools = [''blue''], cl_mounts = [''/mnt''], cl_keystores = [(0, Keystore)], cl_dirs = [''/tmp/x''],
     cl_actions = [7], cl_exported = [], cl_disabled = False\<rparr>"

definition ex_files :: "'w key_paths" where
  "ex_files = \<lparr>kp_there = (\<lambda>_ _. True), kp_is_mount = (\<lambda>_ _. True), kp_mkdir = (\<lambda>_ w. w)\<rparr>"

definition ex_undo :: "nat \<Rightarrow> (bool option cleanup, unit) action" where
  "ex_undo a = do { _ \<leftarrow> run ex_zfs (Line ''systemctl start sanoid.timer''); State_Monad.return () }"

theorem cleanup_lets_go_witness:
  "\<exists>u m'. run_state (cleanup_run ex_zfs ex_outside ex_files ex_undo) ex_cleanup = (u, m') \<and> cl_exported m' = [''blue'']
     \<and> cleanup_ends_well ex_pools ex_cleanup m'"
proof -
  let ?act = "cleanup_run ex_zfs ex_outside ex_files ex_undo"
  obtain u m' where r: "run_state ?act ex_cleanup = (u, m')" by (rule prod.exhaust)
  have "cl_exported (snd (run_state ?act ex_cleanup)) = [''blue'']" by code_simp
  moreover have "quiet_steps ex_undo" unfolding quiet_steps_def ex_undo_def by (intro allI keeps_rules run_keeps_tracked)
  moreover have "pending ex_cleanup" by (simp add: pending_def ex_cleanup_def)
  moreover have "only_reads ex_zfs ex_outside ex_pools" using ex_zfs_pools by (simp add: zfs_pools_def)
  moreover have "zfs_pools ex_zfs ex_outside ex_pools p" if "p \<in> set (tk_pools ex_cleanup)" for p
    using that ex_zfs_pools by (simp add: ex_cleanup_def)
  ultimately show ?thesis using cleanup_lets_go [OF _ _ _ _ r] r by simp
qed

end
