(* ===== verification/Drives.thy ===== *)
theory Drives
  imports Pools
begin

text \<open>
  The rest of \<open>lib/drives.py\<close>: where a registered drive is, the scan of the connected drives, the device of a drive, the
  correction of its names in the registry, what a drive still shares with origin and the record of a
  backup. The lines that depend on the age of the last backup need \<open>datetime.fromisoformat\<close> and are
  left out.
\<close>

section \<open>Where a registered drive is\<close>

datatype presence = CONNECTED | OTHER_POOL | NO_LABEL | ABSENT

record location =
  lo_presence :: presence
  lo_name :: string
  lo_partition :: string
  lo_label :: "pool_label option"

definition Absent_location :: location where
  "Absent_location = \<lparr>lo_presence = ABSENT, lo_name = '''', lo_partition = '''', lo_label = None\<rparr>"

definition usable_name :: "string \<Rightarrow> bool" where
  "usable_name name = (name \<noteq> '''' \<and> name \<noteq> ''<unknown>'' \<and> \<not> contains name ''/'')"

definition by_id_link :: "string \<Rightarrow> string" where "by_id_link name = BY_ID_DIR @ ''/'' @ name"

definition by_id_part1 :: "string \<Rightarrow> string" where "by_id_part1 name = by_id_link name @ ''-part1''"

text \<open>The label found behind a name and the partition it was read from.\<close>

definition label_behind :: "'w shell \<Rightarrow> 'w paths \<Rightarrow> string \<Rightarrow> (('w, 'z) machine_scheme, pool_label option \<times> string) action" where
  "label_behind exec ps name = do {
     part \<leftarrow> ask_path (\<lambda>w. at_there ps w (by_id_part1 name));
     l1 \<leftarrow> (if part then read_pool_label exec (by_id_part1 name) else State_Monad.return None);
     link \<leftarrow> ask_path (\<lambda>w. at_there ps w (by_id_link name));
     l2 \<leftarrow> (if l1 = None \<and> link then read_pool_label exec (by_id_link name) else State_Monad.return l1);
     part2 \<leftarrow> ask_path (\<lambda>w. at_there ps w (by_id_part1 name));
     State_Monad.return (l2, if part2 then by_id_part1 name else '''')
   }"

fun locate_names :: "'w shell \<Rightarrow> 'w paths \<Rightarrow> string \<Rightarrow> string list \<Rightarrow> location \<Rightarrow> (('w, 'z) machine_scheme, location) action" where
  "locate_names exec ps guid [] other = State_Monad.return other"
| "locate_names exec ps guid (name # names) other =
     (if \<not> usable_name name then locate_names exec ps guid names other
      else do {
        there \<leftarrow> ask_path (\<lambda>w. at_there ps w (by_id_link name) \<or> at_there ps w (by_id_part1 name));
        if \<not> there then locate_names exec ps guid names other
        else do {
          found \<leftarrow> label_behind exec ps name;
          if (case fst found of Some l \<Rightarrow> pl_guid l = guid | None \<Rightarrow> False)
          then State_Monad.return \<lparr>lo_presence = CONNECTED, lo_name = name, lo_partition = snd found, lo_label = fst found\<rparr>
          else locate_names exec ps guid names
            (if lo_presence other = ABSENT
             then \<lparr>lo_presence = (if fst found = None then NO_LABEL else OTHER_POOL), lo_name = name, lo_partition = snd found,
                   lo_label = fst found\<rparr>
             else other)
        }
      })"

definition locate_registered :: "'w shell \<Rightarrow> 'w paths \<Rightarrow> drive_info \<Rightarrow> (('w, 'z) machine_scheme, location) action" where
  "locate_registered exec ps info = locate_names exec ps (di_guid info) [di_drive_id info, di_enclosure_id info] Absent_location"

definition get_drive_id :: "'w shell \<Rightarrow> 'w paths \<Rightarrow> string \<Rightarrow> (('w, 'z) machine_scheme, string) action" where
  "get_drive_id exec ps dev = do {
     disk \<leftarrow> whole_disk exec ps dev;
     if disk = '''' then State_Monad.return ''''
     else do { names \<leftarrow> by_id_names exec disk; State_Monad.return (preferred_by_id names) }
   }"

definition get_drive_info :: "'w shell \<Rightarrow> 'w paths \<Rightarrow> string \<Rightarrow> (('w, 'z) machine_scheme, string \<times> string \<times> string) action" where
  "get_drive_info exec ps dev = do {
     disk \<leftarrow> whole_disk exec ps dev;
     if disk = '''' then State_Monad.return ('''', '''', '''')
     else do {
       model \<leftarrow> run exec (Line (''lsblk -dn -o MODEL '' @ disk));
       bytes \<leftarrow> run exec (Line (''lsblk -dn -o SIZE '' @ disk));
       tran \<leftarrow> run exec (Line (''lsblk -dn -o TRAN '' @ disk));
       State_Monad.return (strip (rr_output model), strip (rr_output bytes), strip (rr_output tran))
     }
   }"


section \<open>The connected drives\<close>

datatype drive_state = Imported | Exported

record connected_drive =
  cd_name :: string
  cd_guid :: string
  cd_drive_id :: string
  cd_dev_path :: string
  cd_known :: bool
  cd_guid_changed :: bool
  cd_renamed :: bool
  cd_state :: drive_state
  cd_facts :: "string \<times> string \<times> string"

definition status_label :: "connected_drive \<Rightarrow> string" where
  "status_label d =
     (if cd_known d \<and> \<not> cd_guid_changed d \<and> \<not> cd_renamed d then ''KNOWN''
      else if cd_guid_changed d then ''GUID CHANGED''
      else if cd_renamed d then ''RENAMED'' else ''UNKNOWN'')"

text \<open>\<open>known_by_guid\<close>: a later entry with the same id replaces an earlier one.\<close>

definition known_by_guid :: "(string, drive_info) dict \<Rightarrow> (string, drive_info) dict" where
  "known_by_guid known = foldl (\<lambda>m (_, info). dict_set (di_guid info) info m) [] known"

text \<open>How a pool of this name and id is known: whether it is, whether its id changed, whether it was
  renamed, and the id of the disk.\<close>

definition recognised :: "(string, drive_info) dict \<Rightarrow> string \<Rightarrow> string \<Rightarrow> string \<Rightarrow> bool \<times> bool \<times> bool \<times> string" where
  "recognised known name guid drive_id =
     (case map_of known name of
        Some info \<Rightarrow> (di_guid info = guid, di_guid info \<noteq> guid, False, if drive_id = '''' then di_drive_id info else drive_id)
      | None \<Rightarrow> (case map_of (known_by_guid known) guid of
          Some info \<Rightarrow> (False, False, True, if drive_id = '''' then di_drive_id info else drive_id)
        | None \<Rightarrow> (False, False, False, drive_id)))"

type_synonym scan = "string list \<times> connected_drive list"

definition drive_facts :: "'w shell \<Rightarrow> 'w paths \<Rightarrow> string \<Rightarrow> string \<Rightarrow> (('w, 'z) machine_scheme, string \<times> string \<times> string) action" where
  "drive_facts exec ps dev_path drive_id =
     (if dev_path \<noteq> '''' then get_drive_info exec ps dev_path
      else if drive_id \<noteq> '''' then do {
        there \<leftarrow> ask_path (\<lambda>w. at_there ps w (by_id_link drive_id));
        real \<leftarrow> ask_path (\<lambda>w. at_real ps w (by_id_link drive_id));
        if there then get_drive_info exec ps real else State_Monad.return ('''', '''', '''')
      } else State_Monad.return ('''', '''', ''''))"

definition add_pool ::
    "'w shell \<Rightarrow> 'w paths \<Rightarrow> (string, drive_info) dict \<Rightarrow> string \<Rightarrow> string \<Rightarrow> string \<Rightarrow> drive_state \<Rightarrow> string \<Rightarrow> scan
      \<Rightarrow> (('w, 'z) machine_scheme, scan) action" where
  "add_pool exec ps known name guid drive_id0 state dev_path sc =
     (if name \<in> set (fst sc) then State_Monad.return sc
      else (case recognised known name guid drive_id0 of (is_known, changed, renamed, drive_id) \<Rightarrow> do {
        facts \<leftarrow> drive_facts exec ps dev_path drive_id;
        State_Monad.return (fst sc @ [name], snd sc @ [\<lparr>cd_name = name, cd_guid = guid,
          cd_drive_id = (if drive_id = '''' then ''<unknown>'' else drive_id), cd_dev_path = dev_path, cd_known = is_known,
          cd_guid_changed = changed, cd_renamed = renamed, cd_state = state, cd_facts = facts\<rparr>])
      }))"

definition process_blkid_entry ::
    "'w shell \<Rightarrow> 'w paths \<Rightarrow> (string, drive_info) dict \<Rightarrow> (string, string) dict \<Rightarrow> scan \<Rightarrow> (('w, 'z) machine_scheme, scan) action" where
  "process_blkid_entry exec ps known entry sc =
     (let devname = dict_get_or entry ''devname'' ''''; guid = dict_get_or entry ''uuid'' ''''; label = dict_get_or entry ''label'' '''' in
      if label = '''' \<or> guid = '''' \<or> devname = '''' \<or> label \<in> set SYSTEM_POOLS then State_Monad.return sc
      else do {
        drive_id \<leftarrow> get_drive_id exec ps devname;
        add_pool exec ps known label guid drive_id Exported devname sc
      })"

fun process_entries ::
    "'w shell \<Rightarrow> 'w paths \<Rightarrow> (string, drive_info) dict \<Rightarrow> (string, string) dict list \<Rightarrow> scan \<Rightarrow> (('w, 'z) machine_scheme, scan) action" where
  "process_entries exec ps known [] sc = State_Monad.return sc"
| "process_entries exec ps known (e # es) sc = do { sc2 \<leftarrow> process_blkid_entry exec ps known e sc; process_entries exec ps known es sc2 }"

fun process_imported ::
    "'w shell \<Rightarrow> 'w paths \<Rightarrow> (string, drive_info) dict \<Rightarrow> string list \<Rightarrow> scan \<Rightarrow> (('w, 'z) machine_scheme, scan) action" where
  "process_imported exec ps known [] sc = State_Monad.return sc"
| "process_imported exec ps known (p # pools) sc =
     (if p \<in> set SYSTEM_POOLS \<or> p \<in> set (fst sc) then process_imported exec ps known pools sc
      else do {
        g \<leftarrow> run exec (pool_get_cmd ''guid'' p);
        sc2 \<leftarrow> add_pool exec ps known p (rr_output g) '''' Imported '''' sc;
        process_imported exec ps known pools sc2
      })"

fun process_registered ::
    "'w shell \<Rightarrow> 'w paths \<Rightarrow> (string, drive_info) dict \<Rightarrow> (string, drive_info) dict \<Rightarrow> scan \<Rightarrow> (('w, 'z) machine_scheme, scan) action" where
  "process_registered exec ps known [] sc = State_Monad.return sc"
| "process_registered exec ps known ((name, info) # rest) sc =
     (if name \<in> set (fst sc) then process_registered exec ps known rest sc
      else do {
        found \<leftarrow> locate_registered exec ps info;
        sc2 \<leftarrow> (if lo_presence found = CONNECTED
                then add_pool exec ps known name (di_guid info) (lo_name found) Exported (lo_partition found) sc
                else State_Monad.return sc);
        process_registered exec ps known rest sc2
      })"

definition scan_connected_drives ::
    "'w shell \<Rightarrow> 'w paths \<Rightarrow> (string, drive_info) dict \<Rightarrow> (('w, 'z) machine_scheme, connected_drive list) action" where
  "scan_connected_drives exec ps known = do {
     r \<leftarrow> run exec (Line ''blkid -t TYPE=zfs_member -o export'');
     sc1 \<leftarrow> process_entries exec ps known (if ok r then parse_members (rr_stdout r) else []) ([], []);
     z \<leftarrow> run exec POOLS_LIST;
     sc2 \<leftarrow> process_imported exec ps known (map strip (ok_lines z)) sc1;
     sc3 \<leftarrow> process_registered exec ps known known sc2;
     State_Monad.return (snd sc3)
   }"



section \<open>The device of a drive and its names\<close>

definition imported_vdev :: "'w shell \<Rightarrow> string \<Rightarrow> (('w, 'z) machine_scheme, string) action" where
  "imported_vdev exec pool = do {
     r \<leftarrow> run exec (Line (''zpool list -vHP '' @ pool));
     State_Monad.return (case find (\<lambda>p. startswith p ''/dev/'') (map (\<lambda>l. hd (tabs (strip l))) (tl (ok_lines r))) of Some p \<Rightarrow> p | None \<Rightarrow> '''')
   }"

fun first_there :: "'w paths \<Rightarrow> string list \<Rightarrow> string \<Rightarrow> (('w, 'z) machine_scheme, string) action" where
  "first_there ps [] dev = State_Monad.return dev"
| "first_there ps (n # ns) dev =
     (if n = '''' then first_there ps ns dev
      else do {
        there \<leftarrow> ask_path (\<lambda>w. at_there ps w (by_id_part1 n));
        if there then State_Monad.return (by_id_part1 n) else first_there ps ns dev
      })"

definition backup_device :: "'w shell \<Rightarrow> 'w paths \<Rightarrow> connected_drive \<Rightarrow> (('w, 'z) machine_scheme, string option) action" where
  "backup_device exec ps drive = do {
     dev \<leftarrow> (if cd_dev_path drive \<noteq> '''' then State_Monad.return (cd_dev_path drive)
            else if cd_state drive = Imported then imported_vdev exec (cd_name drive) else State_Monad.return '''');
     if dev = '''' then State_Monad.return None
     else do {
       disk \<leftarrow> whole_disk exec ps dev;
       ident \<leftarrow> (if disk \<noteq> '''' then names_of exec disk else State_Monad.return (DiskIdentity '''' '''' []));
       p \<leftarrow> first_there ps [disk_id ident, id_by_id ident] dev;
       State_Monad.return (Some p)
     }
   }"

fun strength :: "kind \<Rightarrow> nat" where
  "strength DISK = 3" | "strength BUS = 2" | "strength WEAK = 1" | "strength OTHER = 0"

definition STRONG :: "kind list" where "STRONG = [DISK, BUS]"

definition reconcile :: "drive_info \<Rightarrow> disk_identity \<Rightarrow> bool \<times> drive_info" where
  "reconcile info ident =
     (let found = fst (registry_names ident) in
      if found = '''' then (False, info)
      else (let drive_id = (if classify (di_drive_id info) \<in> set STRONG \<and> strength (classify found) < strength (classify (di_drive_id info))
                            then di_drive_id info else found);
                enclosure = (if classify drive_id = DISK then (if bus_id ident \<noteq> '''' then bus_id ident else di_enclosure_id info) else '''')
            in if drive_id = di_drive_id info \<and> enclosure = di_enclosure_id info then (False, info)
               else (True, info\<lparr>di_drive_id := drive_id, di_enclosure_id := enclosure\<rparr>)))"

text \<open>\<open>select_drive\<close>: \<open>answer\<close> is the operator's choice among so many; \<open>candidates[idx]\<close> of a choice that is
  none of them does not happen, \<open>ask_choice\<close> returns only offered ones.\<close>

definition select_drive :: "(nat \<Rightarrow> nat) \<Rightarrow> connected_drive list \<Rightarrow> bool \<Rightarrow> connected_drive option" where
  "select_drive answer drives known_only =
     (case (if known_only then filter cd_known drives else drives) of
        [] \<Rightarrow> None
      | [d] \<Rightarrow> Some d
      | ds \<Rightarrow> if answer (length ds) < length ds then Some (ds ! answer (length ds)) else None)"


section \<open>What a drive shares with origin\<close>

text \<open>Until when a snapshot stays: \<open>math.nan\<close>, a time, or \<open>math.inf\<close>. The lives are whole seconds.\<close>

datatype until_when = Undated | UntilTime int | Forever

definition snap_end :: "(string, int) dict option \<Rightarrow> string \<Rightarrow> int \<Rightarrow> until_when" where
  "snap_end lives name creation =
     (let kind = shared_kind name in
      if kind = ''syncoid'' then Forever
      else (case Option.bind lives (\<lambda>m. map_of m kind) of Some life \<Rightarrow> UntilTime (creation + life) | None \<Rightarrow> Undated))"

text \<open>A row of the record is \<open>[name, guid, creation]\<close>; a shorter one raises \<open>IndexError\<close>, which the check of
  the registry rules out.\<close>

definition shared_end :: "string \<Rightarrow> origin \<Rightarrow> (string, int) dict option \<Rightarrow> json \<Rightarrow> (until_when \<times> string) option" where
  "shared_end rel x lives entry = (case entry of
     JArr [n, g, JInt c] \<Rightarrow>
       if snap_by_guid x (str_json g) = None then None else Some (snap_end lives (str_json n) c, rel @ ''@'' @ str_json n)
   | _ \<Rightarrow> None)"

definition end_key :: "until_when \<times> string \<Rightarrow> (nat \<times> int) \<times> string" where
  "end_key e = (case fst e of Undated \<Rightarrow> ((0, 0), snd e) | UntilTime t \<Rightarrow> ((1, t), snd e) | Forever \<Rightarrow> ((2, 0), snd e))"

definition dataset_end :: "string \<Rightarrow> json list \<Rightarrow> origin \<Rightarrow> (string, int) dict option \<Rightarrow> (until_when \<times> string) option" where
  "dataset_end rel snaps x lives =
     (case List.map_filter (shared_end rel x lives) snaps of
        [] \<Rightarrow> None
      | e # es \<Rightarrow> (case max_by end_key (filter (\<lambda>e. fst e \<noteq> Undated) (e # es)) of
          Some d \<Rightarrow> Some d | None \<Rightarrow> Some (Undated, snd (last (e # es)))))"

datatype share_report =
    LostShares nat
  | NothingLeft
  | SharesUndated
  | SharesUntilPruned
  | SharesUntil int string

definition from_record :: "(string, json list) dict \<Rightarrow> (string, origin) dict \<Rightarrow> (string, int) dict option \<Rightarrow> share_report" where
  "from_record recs ori lives =
     (let kept = List.map_filter (\<lambda>(rel, snaps). map_option (\<lambda>x. (rel, dataset_end rel snaps x lives)) (map_of ori rel)) (sort_key fst recs);
          lost = filter (\<lambda>(rel, e). e = None) kept;
          best = List.map_filter snd kept
      in if lost \<noteq> [] then LostShares (length lost)
         else if best = [] then NothingLeft
         else if list_ex (\<lambda>b. fst b = Undated) best then SharesUndated
         else (case hd (sort_key end_key best) of
                 (UntilTime t, name) \<Rightarrow> SharesUntil t name
               | _ \<Rightarrow> SharesUntilPruned))"

definition record_backup :: "drive_info \<Rightarrow> string \<Rightarrow> (string, ref list) dict option \<Rightarrow> (string, string) dict \<Rightarrow> drive_info" where
  "record_backup info version shared meta =
     (let e1 = dict_set ''last_backup_version'' (JStr version) (di_extra info);
          fill = (\<lambda>e (key, p). if map_of e key = None \<and> dict_get_or meta p '''' \<noteq> '''' then dict_set key (JStr (dict_get_or meta p '''')) e else e);
          e2 = foldl fill e1 [(''prepared_at'', ''prepared-at''), (''prepared_version'', ''prepared-version'')];
          e3 = (case shared of None \<Rightarrow> e2 | Some sh \<Rightarrow> dict_set SHARED_KEY
                  (JObj (map (\<lambda>(rel, refs). (rel, JArr (map (\<lambda>r. JArr [JStr (r_name r), JStr (r_guid r), JInt (r_creation r)]) refs))) (sort_key fst sh))) e2)
      in info\<lparr>di_extra := e3\<rparr>)"


section \<open>Lemmas\<close>

lemma located_by_label:
  "returns (locate_names exec ps guid names other) (\<lambda>l. lo_presence l = CONNECTED \<longrightarrow> lo_presence other \<noteq> CONNECTED \<longrightarrow>
     lo_name l \<in> set names \<and> usable_name (lo_name l) \<and> (\<exists>x. lo_label l = Some x \<and> pl_guid x = guid))"
proof (induction names arbitrary: other)
  case (Cons n names)
  show ?case
    unfolding locate_names.simps
    by (intro returns_if returns_bind_any returns_return returns_post [OF Cons.IH]) (auto split: option.splits if_splits)
qed (simp add: returns_return)

lemma reconcile_parts:
  "reconcile info ident = (b, info') \<Longrightarrow> \<not> b \<longrightarrow> info' = info"
  "reconcile info ident = (b, info') \<Longrightarrow> info' = info\<lparr>di_drive_id := di_drive_id info', di_enclosure_id := di_enclosure_id info'\<rparr>"
  by (auto simp: reconcile_def Let_def split: if_splits)


lemma reconcile_names:
  assumes "fst (registry_names ident) \<noteq> ''''"
    and "d = (if classify (di_drive_id info) \<in> set STRONG \<and> strength (classify (fst (registry_names ident))) < strength (classify (di_drive_id info))
      then di_drive_id info else fst (registry_names ident))"
    and "e = (if classify d = DISK then (if bus_id ident \<noteq> '''' then bus_id ident else di_enclosure_id info) else '''')"
  shows "reconcile info ident = (\<not> (d = di_drive_id info \<and> e = di_enclosure_id info), info\<lparr>di_drive_id := d, di_enclosure_id := e\<rparr>)"
proof -
  have "reconcile info ident = (if d = di_drive_id info \<and> e = di_enclosure_id info then (False, info) else (True, info\<lparr>di_drive_id := d, di_enclosure_id := e\<rparr>))"
    using assms(1) unfolding reconcile_def Let_def assms(2,3) by (simp only: if_False)
  moreover have "info\<lparr>di_drive_id := d, di_enclosure_id := e\<rparr> = info" if "d = di_drive_id info" "e = di_enclosure_id info" using that by simp
  ultimately show ?thesis by (cases "d = di_drive_id info \<and> e = di_enclosure_id info") simp_all
qed

text \<open>A scan so far: the names seen are those of the drives found, each once, and a drive counts as known only
  for the id it is registered with.\<close>

definition known_rightly :: "(string, drive_info) dict \<Rightarrow> connected_drive \<Rightarrow> bool" where
  "known_rightly known d =
     (cd_known d = (case map_of known (cd_name d) of Some info \<Rightarrow> di_guid info = cd_guid d | None \<Rightarrow> False)
      \<and> cd_guid_changed d = (case map_of known (cd_name d) of Some info \<Rightarrow> di_guid info \<noteq> cd_guid d | None \<Rightarrow> False)
      \<and> \<not> (cd_known d \<and> cd_renamed d))"

definition scan_ok :: "(string, drive_info) dict \<Rightarrow> scan \<Rightarrow> bool" where
  "scan_ok known sc = (fst sc = map cd_name (snd sc) \<and> distinct (fst sc) \<and> list_all (known_rightly known) (snd sc))"

lemma add_pool_ok: "scan_ok known sc \<Longrightarrow> returns (add_pool exec ps known name guid did st dev sc) (scan_ok known)"
  unfolding add_pool_def
  by (auto intro!: returns_if returns_bind_any returns_return split: prod.split
      simp: scan_ok_def known_rightly_def recognised_def split: option.splits)

lemma process_entries_ok: "scan_ok known sc \<Longrightarrow> returns (process_entries exec ps known es sc) (scan_ok known)"
proof (induction es arbitrary: sc)
  case (Cons e es)
  have "returns (process_blkid_entry exec ps known e sc) (scan_ok known)"
    unfolding process_blkid_entry_def Let_def using Cons.prems by (intro returns_if returns_return returns_bind_any add_pool_ok)
  then show ?case by (auto intro: returns_bind Cons.IH)
qed (simp add: returns_return)

lemma process_imported_ok: "scan_ok known sc \<Longrightarrow> returns (process_imported exec ps known pools sc) (scan_ok known)"
proof (induction pools arbitrary: sc)
  case (Cons p pools)
  then show ?case
    unfolding process_imported.simps by (intro returns_if returns_bind_any returns_bind [OF add_pool_ok] Cons.IH)
qed (simp add: returns_return)

lemma process_registered_ok: "scan_ok known sc \<Longrightarrow> returns (process_registered exec ps known rest sc) (scan_ok known)"
proof (induction rest arbitrary: sc)
  case (Cons r rest)
  obtain name info where r: "r = (name, info)" by (rule prod.exhaust)
  have "returns (if lo_presence found = CONNECTED then add_pool exec ps known name (di_guid info) (lo_name found) Exported (lo_partition found) sc
      else State_Monad.return sc) (scan_ok known)" for found
    using Cons.prems by (intro returns_if add_pool_ok returns_return)
  note step = returns_bind [OF this Cons.IH]
  show ?case
    unfolding r process_registered.simps using Cons.prems by (intro returns_if returns_bind_any Cons.IH step)
qed (simp add: returns_return)

lemma scan_rightly: "returns (scan_connected_drives exec ps known) (\<lambda>ds. distinct (map cd_name ds) \<and> list_all (known_rightly known) ds)"
proof -
  have start: "scan_ok known ([], [])" by (simp add: scan_ok_def)
  show ?thesis
    unfolding scan_connected_drives_def
    by (rule returns_bind_any, rule returns_bind [OF process_entries_ok [OF start]], rule returns_bind_any,
        rule returns_bind [OF process_imported_ok], assumption, rule returns_bind [OF process_registered_ok], assumption, rule returns_return)
       (auto simp: scan_ok_def)
qed


section \<open>Properties\<close>

text \<open>The registry follows the disk and never gets worse. The correction of a drive's names changes nothing but the two
  names, never replaces a disk's or a bus's name by one of a weaker kind, and once made is not made again
  for the same disk.\<close>

lemma reconcile_settles:
  assumes "reconcile info ident = (changed, info')"
  shows "reconcile info' ident = (False, info') \<and> info' = info\<lparr>di_drive_id := di_drive_id info', di_enclosure_id := di_enclosure_id info'\<rparr>
    \<and> (classify (di_drive_id info) \<in> set STRONG \<longrightarrow> strength (classify (di_drive_id info)) \<le> strength (classify (di_drive_id info')))"
proof (cases "fst (registry_names ident) = ''''")
  case True
  with assms show ?thesis by (simp add: reconcile_def)
next
  case False
  let ?f = "fst (registry_names ident)"
  define d where "d = (if classify (di_drive_id info) \<in> set STRONG \<and> strength (classify ?f) < strength (classify (di_drive_id info)) then di_drive_id info else ?f)"
  define e where "e = (if classify d = DISK then (if bus_id ident \<noteq> '''' then bus_id ident else di_enclosure_id info) else '''')"
  from reconcile_names [OF False d_def e_def] assms have i: "info' = info\<lparr>di_drive_id := d, di_enclosure_id := e\<rparr>" by simp
  have d: "d = (if classify (di_drive_id info') \<in> set STRONG \<and> strength (classify ?f) < strength (classify (di_drive_id info')) then di_drive_id info' else ?f)"
    unfolding i by (auto simp: d_def)
  have e: "e = (if classify d = DISK then (if bus_id ident \<noteq> '''' then bus_id ident else di_enclosure_id info') else '''')"
    unfolding i by (auto simp: e_def)
  have "reconcile info' ident = (False, info')" using reconcile_names [OF False d e] by (simp add: i)
  moreover have "strength (classify (di_drive_id info)) \<le> strength (classify d)" if "classify (di_drive_id info) \<in> set STRONG"
    using that by (simp add: d_def)
  ultimately show ?thesis by (simp add: i)
qed

definition ex_drive :: drive_info where
  "ex_drive = \<lparr>di_name = ''blue'', di_guid = ''77'', di_drive_id = ''usb-Bridge'', di_last_backup_at = None, di_autoeject = False, di_extra = [],
     di_enclosure_id = ''''\<rparr>"


definition ex_scan :: "unit shell" where
  "ex_scan c w = (\<lparr>rr_returncode = 0, rr_stdout = (if c = POOLS_LIST then ''rpool'' @ [CHR 0x0A] @ ''blue''
     else if c = pool_get_cmd ''guid'' ''blue'' then ''78'' else ''''), rr_stderr = ''''\<rparr>, w)"


end
