(* ===== verification/Boot_Rewrite.thy ===== *)
theory Boot_Rewrite
  imports Identity
begin

text \<open>
  \<open>lib/boot_rewrite.py\<close> and the \<open>grub.cfg\<close> helper of \<open>lib/zfs.py\<close>: the rewrites recover makes in a restored system, text
  to text. A regular expression is the function that finds its leftmost match as \<open>re\<close> does; the UUIDs that
  are substituted hold no backslash, so a replacement stands for itself.
\<close>

section \<open>Lines and fields\<close>

text \<open>\<open>splitlines(keepends=True)\<close>.\<close>

fun keep_lines :: "string \<Rightarrow> string list" where
  "keep_lines [] = []"
| "keep_lines (c # cs) =
     (if c = CHR 0x0D \<and> cs \<noteq> [] \<and> hd cs = CHR 0x0A then [c, CHR 0x0A] # keep_lines (tl cs)
      else if is_linebreak c then [c] # keep_lines cs
      else (case keep_lines cs of [] \<Rightarrow> [[c]] | l # ls \<Rightarrow> (c # l) # ls))"

lemma concat_keep_lines [simp]: "concat (keep_lines s) = s"
proof (induction s rule: keep_lines.induct)
  case (2 c cs)
  show ?case
  proof (cases "c = CHR 0x0D \<and> cs \<noteq> [] \<and> hd cs = CHR 0x0A")
    case True
    then show ?thesis using 2(1) by (cases cs) simp_all
  qed (use 2(2,3) in \<open>auto split: list.split\<close>)
qed simp

definition line_fields :: "string \<Rightarrow> string list" where
  "line_fields line = (let s = strip line in if s = '''' \<or> startswith s ''#'' then [] else words_of s)"

text \<open>\<open>re.sub(re.escape(old), new, line, flags=re.IGNORECASE)\<close>.\<close>

function sub_ci :: "string \<Rightarrow> string \<Rightarrow> string \<Rightarrow> string" where
  "sub_ci old new s =
     (if old = [] then concat (map (\<lambda>c. new @ [c]) s) @ new
      else if s = [] then []
      else if startswith (lower s) (lower old) then new @ sub_ci old new (drop (length old) s)
      else hd s # sub_ci old new (tl s))"
  by pat_completeness auto
termination by (relation "measure (\<lambda>(old, new, s). length s)") (auto simp: neq_Nil_conv)

declare sub_ci.simps [simp del]

definition names_ci :: "string \<Rightarrow> string \<Rightarrow> bool" where
  "names_ci text uuid = contains (lower text) (lower uuid)"

text \<open>A rewrite goes over the lines, changes some and counts those that are different afterwards.\<close>

definition rewrite_lines :: "(string \<Rightarrow> string) \<Rightarrow> string \<Rightarrow> string \<times> nat" where
  "rewrite_lines f text = (concat (map f (keep_lines text)), length (filter (\<lambda>l. f l \<noteq> l) (keep_lines text)))"

definition fstab_line :: "string \<Rightarrow> string \<Rightarrow> string \<Rightarrow> string" where
  "fstab_line old new line = (case line_fields line of
     a # b # _ \<Rightarrow> if b = ''/boot'' \<and> names_ci a old then sub_ci old new line else line | _ \<Rightarrow> line)"

definition rewrite_fstab :: "string \<Rightarrow> string \<Rightarrow> string \<Rightarrow> string \<times> nat" where
  "rewrite_fstab text old new = rewrite_lines (fstab_line old new) text"

text \<open>\<open>line.replace(a, b, 1)\<close>.\<close>

fun replace_first :: "string \<Rightarrow> string \<Rightarrow> string \<Rightarrow> string" where
  "replace_first a b [] = (if a = [] then b else [])"
| "replace_first a b (c # cs) = (if startswith (c # cs) a then b @ drop (length a) (c # cs) else c # replace_first a b cs)"

definition crypttab_line :: "string \<Rightarrow> string \<Rightarrow> string" where
  "crypttab_line new line = (case line_fields line of
     _ # b # _ # d # _ \<Rightarrow>
       if ''swap'' \<in> set (split_on CHR '','' d) \<and> startswith b ''PARTUUID='' then replace_first b (''PARTUUID='' @ new) line else line
   | _ \<Rightarrow> line)"

definition rewrite_crypttab :: "string \<Rightarrow> string \<Rightarrow> string \<times> nat" where
  "rewrite_crypttab text new = rewrite_lines (crypttab_line new) text"

text \<open>An 8-4-4-4-12 UUID at the start of a text.\<close>

definition is_hex_char :: "char \<Rightarrow> bool" where
  "is_hex_char c = (c \<in> set ''0123456789abcdefABCDEF'')"

definition uuid_shape :: "string \<Rightarrow> bool" where
  "uuid_shape u = (length u = 36 \<and> list_all (\<lambda>(i, c). if i \<in> {8, 13, 18, 23} then c = CHR ''-'' else is_hex_char c) (enumerate 0 u))"

function uuids_from :: "string \<Rightarrow> string list" where
  "uuids_from s =
     (if s = [] then []
      else if uuid_shape (take 36 s) then take 36 s # uuids_from (drop 36 s)
      else uuids_from (tl s))"
  by pat_completeness auto
termination by (relation "measure length") (auto simp: neq_Nil_conv)

declare uuids_from.simps [simp del]

definition uuids_in :: "string \<Rightarrow> string list" where
  "uuids_in text = map lower (uuids_from text)"

definition is_search :: "string \<Rightarrow> bool" where
  "is_search line = (case words_of line of [] \<Rightarrow> False | w # _ \<Rightarrow> w = ''search'' \<or> startswith w ''search.'')"

definition grub_line :: "string \<Rightarrow> string \<Rightarrow> string \<Rightarrow> string" where
  "grub_line old new line = (if is_search line \<and> names_ci line old then sub_ci old new line else line)"

definition rewrite_grub_uuid :: "string \<Rightarrow> string \<Rightarrow> string \<Rightarrow> string \<times> nat" where
  "rewrite_grub_uuid text old new = rewrite_lines (grub_line old new) text"

definition grub_uuid_problems :: "string \<Rightarrow> string \<Rightarrow> string \<Rightarrow> string \<Rightarrow> string \<Rightarrow> string list" where
  "grub_uuid_problems grub_cfg esp_cfg fstab old_uuid new_uuid =
     (let old = lower old_uuid; new = lower new_uuid; esp = ''the ESP'' @ [CHR 0x27] @ ''s EFI/ubuntu/grub.cfg'';
          boots = ''/boot'' @ [CHR 0x27] @ ''s'' in
      map (\<lambda>(name, text). name @ '' still names '' @ boots @ '' old UUID '' @ old_uuid)
        (filter (\<lambda>(name, text). old \<in> set (uuids_in text)) [(''/boot/grub/grub.cfg'', grub_cfg), (esp, esp_cfg), (''/etc/fstab'', fstab)])
      @ (if new \<notin> set (uuids_in esp_cfg) then [esp @ '' does not name '' @ boots @ '' UUID '' @ new_uuid] else [])
      @ (if \<not> list_ex (\<lambda>ln. is_search ln \<and> new \<in> set (uuids_in ln)) (split_lines grub_cfg)
         then [''no search line of /boot/grub/grub.cfg names '' @ boots @ '' UUID '' @ new_uuid] else []))"

text \<open>\<open>^\s*linux\s+"?/vmlinuz-(\S+?)"?\s\<close> in each line: the shortest version that is followed by white space,
  with a quote or without.\<close>

fun version_at :: "string \<Rightarrow> string option" where
  "version_at (c # d # cs) =
     (if is_space c then None
      else if is_space d \<or> (d = QUOTE \<and> cs \<noteq> [] \<and> is_space (hd cs)) then Some [c]
      else map_option ((#) c) (version_at (d # cs)))"
| "version_at s = None"

definition linux_version :: "string \<Rightarrow> string option" where
  "linux_version line =
     (let s = dropWhile is_space line in
      if \<not> startswith s ''linux'' \<or> drop 5 s = '''' \<or> \<not> is_space (hd (drop 5 s)) then None
      else (let t = dropWhile is_space (drop 5 s); u = (if startswith t [QUOTE] then tl t else t)
            in if startswith u ''/vmlinuz-'' then version_at (drop 9 u) else None))"

definition newline_ended :: "string \<Rightarrow> string list" where
  "newline_ended text = (let ls = split_on CHR 0x0A text in map (\<lambda>l. l @ [CHR 0x0A]) (butlast ls) @ [last ls])"

definition kernels_without_entry :: "string \<Rightarrow> string list \<Rightarrow> string list" where
  "kernels_without_entry grub_cfg kernels =
     (let booted = List.map_filter linux_version (newline_ended grub_cfg) in filter (\<lambda>v. v \<notin> set booted) kernels)"

definition BY_UUID :: string where "BY_UUID = ''/dev/disk/by-uuid/''"

definition fstab_uuid :: "string \<Rightarrow> (string \<times> string) option" where
  "fstab_uuid line = (case line_fields line of
     spec # b # t # _ \<Rightarrow>
       if b \<noteq> ''/boot'' then None
       else (let uuid = (if startswith spec ''UUID='' then drop 5 spec else if startswith spec BY_UUID then drop (length BY_UUID) spec else spec)
             in if uuid \<noteq> spec \<and> uuid_shape uuid then Some (lower uuid, t) else None)
   | _ \<Rightarrow> None)"

definition fstab_boot :: "string \<Rightarrow> string \<times> string" where
  "fstab_boot text = (case List.map_filter fstab_uuid (split_lines text) of [] \<Rightarrow> ('''', '''') | x # _ \<Rightarrow> x)"


section \<open>The boot pool in grub.cfg\<close>

definition is_low_hex :: "char \<Rightarrow> bool" where
  "is_low_hex c = (c \<in> set ''0123456789abcdef'')"

text \<open>\<open>\s+([a-f0-9]{16})\b\<close> at the start of a text: the white space, the id and what follows.\<close>

definition id_after_space :: "string \<Rightarrow> (string \<times> string \<times> string) option" where
  "id_after_space s =
     (let sp = takeWhile is_space s; t = dropWhile is_space s in
      if sp \<noteq> [] \<and> length (take 16 t) = 16 \<and> list_all is_low_hex (take 16 t) \<and> (drop 16 t = [] \<or> \<not> is_word (hd (drop 16 t)))
      then Some (sp, take 16 t, drop 16 t) else None)"

text \<open>\<open>[^\n]*?\<close> before it: the first place on the line where it matches.\<close>

fun id_on_line :: "string \<Rightarrow> (string \<times> string \<times> string) option" where
  "id_on_line [] = None"
| "id_on_line (c # cs) = (case id_after_space (c # cs) of
     Some x \<Rightarrow> Some x
   | None \<Rightarrow> if c = CHR 0x0A then None else map_option (\<lambda>(p, h, r). (c # p, h, r)) (id_on_line cs))"

definition FS_UUID :: string where "FS_UUID = ''--fs-uuid''"

lemma id_after_parts:
  "id_after_space s = Some (p, h, r) \<Longrightarrow> s = p @ h @ r \<and> length h = 16 \<and> list_all is_low_hex h \<and> p \<noteq> [] \<and> is_space (last p)"
  unfolding id_after_space_def Let_def
  by (auto split: if_splits dest: set_takeWhileD [OF last_in_set])

lemma id_on_line_parts:
  "id_on_line s = Some (p, h, r) \<Longrightarrow> s = p @ h @ r \<and> length h = 16 \<and> list_all is_low_hex h \<and> p \<noteq> [] \<and> is_space (last p)"
proof (induction s arbitrary: p)
  case (Cons c cs)
  show ?case
  proof (cases "id_after_space (c # cs)")
    case None
    with Cons.prems obtain q where "p = c # q" "id_on_line cs = Some (q, h, r)" by (auto split: if_splits)
    with Cons.IH [of q] show ?thesis by simp
  qed (use Cons.prems id_after_parts in auto)
qed simp

definition fs_uuid_match :: "string \<Rightarrow> (string \<times> string \<times> string) option" where
  "fs_uuid_match s = (if startswith s FS_UUID then id_on_line (drop (length FS_UUID) s) else None)"

lemma fs_uuid_parts:
  assumes "fs_uuid_match s = Some (p, h, r)"
  shows "s = FS_UUID @ p @ h @ r \<and> length h = 16 \<and> list_all is_low_hex h \<and> p \<noteq> [] \<and> is_space (last p)"
proof -
  from assms have "startswith s FS_UUID" and m: "id_on_line (drop (length FS_UUID) s) = Some (p, h, r)" by (auto simp: fs_uuid_match_def split: if_splits)
  then obtain t where "s = FS_UUID @ t" by (auto simp: startswith_def prefix_def)
  with id_on_line_parts [OF m] show ?thesis by simp
qed

text \<open>\<open>re.findall\<close> and \<open>re.sub\<close>: after a match the search goes on behind it.\<close>

function grub_ids :: "string \<Rightarrow> string list" where
  "grub_ids s =
     (if s = [] then []
      else (case fs_uuid_match s of
              Some (p, h, r) \<Rightarrow> h # grub_ids r
            | None \<Rightarrow> grub_ids (tl s)))"
  by pat_completeness auto
termination by (relation "measure length") (auto simp: neq_Nil_conv dest!: fs_uuid_parts)

function grub_sub :: "string \<Rightarrow> string \<Rightarrow> string" where
  "grub_sub new s =
     (if s = [] then []
      else (case fs_uuid_match s of
              Some (p, h, r) \<Rightarrow> FS_UUID @ p @ new @ grub_sub new r
            | None \<Rightarrow> hd s # grub_sub new (tl s)))"
  by pat_completeness auto
termination by (relation "measure (length \<circ> snd)") (auto simp: neq_Nil_conv dest!: fs_uuid_parts)

declare grub_ids.simps [simp del] grub_sub.simps [simp del]

lemma fs_uuid_match_nil [simp]: "fs_uuid_match [] = None"
  by (simp add: fs_uuid_match_def startswith_def FS_UUID_def)

lemma grub_sub_steps:
  "grub_sub new [] = []" "fs_uuid_match (c # s) = None \<Longrightarrow> grub_sub new (c # s) = c # grub_sub new s"
  "fs_uuid_match u = Some (p, h, r) \<Longrightarrow> grub_sub new u = FS_UUID @ p @ new @ grub_sub new r"
  by (subst grub_sub.simps, use fs_uuid_parts [of u p h r] in \<open>auto simp: FS_UUID_def\<close>)+

lemma grub_ids_steps:
  "grub_ids [] = []" "fs_uuid_match (c # s) = None \<Longrightarrow> grub_ids (c # s) = grub_ids s"
  "fs_uuid_match u = Some (p, h, r) \<Longrightarrow> grub_ids u = h # grub_ids r"
  by (subst grub_ids.simps, use fs_uuid_parts [of u p h r] in \<open>auto simp: FS_UUID_def\<close>)+

text \<open>\<open>fix_grub_bpool_uuid\<close>: whether the file was there, and what it holds afterwards.\<close>

definition fix_grub_bpool_uuid :: "string option \<Rightarrow> string \<Rightarrow> bool \<times> string option" where
  "fix_grub_bpool_uuid grub_cfg new = (case grub_cfg of
     None \<Rightarrow> (False, None)
   | Some content \<Rightarrow>
       if filter (\<lambda>h. h \<noteq> new) (grub_ids content) = [] then (True, Some content) else (True, Some (grub_sub new content)))"



section \<open>Lemmas: substituting ids\<close>

text \<open>A text and the same text with ids replaced, each behind white space.\<close>

inductive swapped :: "string \<Rightarrow> string \<Rightarrow> string \<Rightarrow> bool" for new :: string where
  swapped_nil: "swapped new [] []"
| swapped_same: "swapped new s t \<Longrightarrow> swapped new (c # s) (c # t)"
| swapped_id: "is_space c \<Longrightarrow> length h = 16 \<Longrightarrow> list_all is_low_hex h \<Longrightarrow> swapped new s t \<Longrightarrow> swapped new (c # h @ s) (c # new @ t)"

lemma swapped_behind: "swapped new s t \<Longrightarrow> swapped new (xs @ s) (xs @ t)"
  by (induction xs) (simp_all add: swapped_same)

lemma swapped_sub: "swapped new s (grub_sub new s)"
proof (induction new s rule: grub_sub.induct)
  case (1 new s)
  show ?case
  proof (cases "fs_uuid_match s")
    case None
    then show ?thesis using 1(1) by (cases s) (simp_all add: grub_sub_steps swapped_nil swapped_same)
  next
    case (Some x)
    obtain p h r where x: "x = (p, h, r)" by (cases x)
    from fs_uuid_parts [of s p h r] Some x have s: "s = FS_UUID @ p @ h @ r" "length h = 16" "list_all is_low_hex h" "p \<noteq> []" "is_space (last p)" by simp_all
    then obtain q c where p: "p = q @ [c]" "is_space c" by (metis append_butlast_last_id)
    have ne: "s \<noteq> []" using s by simp
    have "swapped new r (grub_sub new r)" using 1(2) [OF ne Some] x by simp
    from swapped_behind [OF swapped_id [OF p(2) s(2,3) this], of "FS_UUID @ q"] show ?thesis
      using Some x s(1) p by (simp add: grub_sub_steps(3))
  qed
qed

definition same_class :: "char \<Rightarrow> char \<Rightarrow> bool" where
  "same_class a b = (is_space a = is_space b \<and> is_low_hex a = is_low_hex b \<and> is_word a = is_word b \<and> (a = CHR 0x0A) = (b = CHR 0x0A))"

lemma hex_same_class: "is_low_hex a \<Longrightarrow> is_low_hex b \<Longrightarrow> same_class a b"
proof -
  have "\<not> is_space c \<and> is_word c \<and> c \<noteq> CHR 0x0A" if "is_low_hex c" for c
    using that by (auto simp: is_low_hex_def is_space_def is_word_def is_digit_def)
  then show "is_low_hex a \<Longrightarrow> is_low_hex b \<Longrightarrow> same_class a b" by (simp add: same_class_def)
qed

lemma swapped_class:
  assumes "length new = 16" and "list_all is_low_hex new"
  shows "swapped new s t \<Longrightarrow> list_all2 same_class s t"
proof (induction rule: swapped.induct)
  case (swapped_id c h s t)
  have "list_all2 same_class h new" using swapped_id(2,3) assms hex_same_class by (auto simp: list_all2_conv_all_nth list_all_length)
  moreover have "same_class c c" by (simp add: same_class_def)
  ultimately show ?case using swapped_id.IH by (simp add: list_all2_appendI)
qed (simp_all add: same_class_def)

lemma swapped_prefix: "swapped new s t \<Longrightarrow> list_all (\<lambda>c. \<not> is_space c) p \<Longrightarrow> startswith s p = startswith t p"
proof (induction arbitrary: p rule: swapped.induct)
  case (swapped_same s t c)
  then show ?case by (cases p) (auto simp: startswith_def)
next
  case (swapped_id c h s t)
  then show ?case by (cases p) (auto simp: startswith_def)
qed simp

lemma class_all: "list_all2 same_class s t \<Longrightarrow> list_all is_low_hex s = list_all is_low_hex t"
  by (induction rule: list_all2_induct) (auto simp: same_class_def)

lemma class_space: "list_all2 same_class s t \<Longrightarrow> length (takeWhile is_space s) = length (takeWhile is_space t)"
  by (induction rule: list_all2_induct) (auto simp: same_class_def)

lemma class_word: "list_all2 same_class s t \<Longrightarrow> (s = [] \<or> \<not> is_word (hd s)) = (t = [] \<or> \<not> is_word (hd t))"
  by (induction rule: list_all2_induct) (auto simp: same_class_def)

definition cut_as :: "string \<times> string \<times> string \<Rightarrow> string \<Rightarrow> string \<times> string \<times> string" where
  "cut_as x t = (let n = length (fst x) in (take n t, take 16 (drop n t), drop 16 (drop n t)))"

lemma id_after_cut: "id_after_space s = (let n = length (takeWhile is_space s); t = drop n s in
    if n \<noteq> 0 \<and> 16 \<le> length t \<and> list_all is_low_hex (take 16 t) \<and> (drop 16 t = [] \<or> \<not> is_word (hd (drop 16 t)))
    then Some (take n s, take 16 t, drop 16 t) else None)"
  by (simp add: id_after_space_def Let_def dropWhile_eq_drop takeWhile_eq_take [symmetric] min_def)

lemma id_after_class:
  assumes "list_all2 same_class s t"
  shows "id_after_space t = map_option (\<lambda>x. cut_as x t) (id_after_space s)"
proof -
  define n where "n = length (takeWhile is_space s)"
  have n: "length (takeWhile is_space t) = n" "n \<le> length s" using class_space [OF assms] length_takeWhile_le [of is_space s] by (simp_all add: n_def)
  have d: "list_all2 same_class (drop k s) (drop k t)" for k using assms by (simp add: list_all2_dropI)
  have len: "length (drop n s) = length (drop n t)" using list_all2_lengthD [OF d] .
  have h: "list_all is_low_hex (take 16 (drop n s)) = list_all is_low_hex (take 16 (drop n t))"
    by (rule class_all) (simp add: d list_all2_takeI)
  have "list_all2 same_class (drop 16 (drop n s)) (drop 16 (drop n t))" by (simp only: drop_drop d)
  note w = class_word [OF this]
  have c: "map_option (\<lambda>x. cut_as x t) (if b then Some (take n s, y) else None) = (if b then Some (take n t, take 16 (drop n t), drop 16 (drop n t)) else None)" for b y
    using n(2) by (simp add: cut_as_def min_def)
  show ?thesis
    unfolding id_after_cut Let_def n(1) n_def [symmetric] c len h w ..
qed

lemma id_on_line_class: "list_all2 same_class s t \<Longrightarrow> id_on_line t = map_option (\<lambda>x. cut_as x t) (id_on_line s)"
proof (induction s arbitrary: t)
  case (Cons c cs)
  then obtain d ds where t: "t = d # ds" "same_class c d" "list_all2 same_class cs ds" by (auto simp: list_all2_Cons1)
  from t(2) have nl: "(c = CHR 0x0A) = (d = CHR 0x0A)" by (simp add: same_class_def)
  have step: "cut_as (c # p, h, r) (d # ds) = (case cut_as (p, h, r) ds of (p', h', r') \<Rightarrow> (d # p', h', r'))" for p h r
    by (simp add: cut_as_def Let_def del: drop_drop)
  show ?case
    using Cons.IH [OF t(3)] id_after_class [OF Cons.prems] nl step unfolding t(1)
    by (cases "id_after_space (c # cs)"; cases "id_on_line cs") auto
qed simp

text \<open>After the rewrite every id found is the new one.\<close>

lemma grub_ids_sub:
  assumes "length new = 16" and "list_all is_low_hex new"
  shows "set (grub_ids (grub_sub new s)) \<subseteq> {new}"
  using assms
proof (induction new s rule: grub_sub.induct)
  case (1 new s)
  let ?t = "grub_sub new s"
  have sw: "list_all2 same_class s ?t" by (rule swapped_class [OF 1(3,4) swapped_sub])
  show ?case
  proof (cases "fs_uuid_match s")
    case None
    have "list_all (\<lambda>c. \<not> is_space c) FS_UUID" by (simp add: FS_UUID_def is_space_def)
    from swapped_prefix [OF swapped_sub this] have "startswith ?t FS_UUID = startswith s FS_UUID" ..
    moreover have "id_on_line (drop (length FS_UUID) ?t) = map_option (\<lambda>x. cut_as x (drop (length FS_UUID) ?t)) (id_on_line (drop (length FS_UUID) s))"
      by (rule id_on_line_class) (simp add: list_all2_dropI sw)
    ultimately have "fs_uuid_match ?t = None" using None by (auto simp: fs_uuid_match_def split: if_splits)
    then show ?thesis using 1(1) [OF _ None 1(3,4)] None by (cases s) (simp_all add: grub_sub_steps grub_ids_steps)
  next
    case (Some x)
    obtain p h r where x: "x = (p, h, r)" by (cases x)
    from fs_uuid_parts [of s p h r] Some x have s: "s = FS_UUID @ p @ h @ r" "length h = 16" by simp_all
    then have ne: "s \<noteq> []" by (simp add: FS_UUID_def)
    let ?r = "grub_sub new r"
    have t: "?t = FS_UUID @ p @ new @ ?r" using Some x by (simp add: grub_sub_steps(3))
    have "list_all2 same_class (drop (length FS_UUID) s) (drop (length FS_UUID) ?t)" by (rule list_all2_dropI [OF sw])
    moreover have "drop (length FS_UUID) s = p @ h @ r" "drop (length FS_UUID) ?t = p @ new @ ?r" unfolding t by (simp_all add: s(1))
    ultimately have "list_all2 same_class (p @ h @ r) (p @ new @ ?r)" by simp
    from id_on_line_class [OF this] Some x s 1(3) have "id_on_line (p @ new @ ?r) = Some (p, new, ?r)"
      by (simp add: fs_uuid_match_def startswith_def cut_as_def Let_def split: if_splits)
    then have "fs_uuid_match ?t = Some (p, new, ?r)" unfolding t by (simp add: fs_uuid_match_def startswith_def)
    then show ?thesis using 1(2) [OF ne Some x [symmetric] refl 1(3,4)] by (simp add: grub_ids_steps(3))
  qed
qed

lemma swapped_refl: "swapped new s s"
  by (induction s) (simp_all add: swapped_nil swapped_same)


section \<open>Properties\<close>


definition ex_grub :: string where
  "ex_grub = ''search --fs-uuid --set=root --hint-bios=hd0 0123456789abcdef'' @ [CHR 0x0A] @ ''search --fs-uuid --set=root fedcba9876543210 x''"


end
