(* ===== verification/Console.thy ===== *)
theory Console
  imports Cleanup
begin

text \<open>
  The questions of \<open>lib/log.py\<close>: how a command asks its operator. What the operator will type is a field of the
  session, one line per read, oldest first; when it is used up standard input is closed and a read is an
  \<open>EOFError\<close>. What a question prints and what the log file keeps of it are output and are not modelled.
  \<open>fatal\<close> waits for Enter and ends the command.
\<close>

section \<open>The session and how a command ends\<close>

record 'w session = "'w cleanup" +
  se_lines :: "string list"

text \<open>Why a command stops before its end: \<open>Fatal\<close> with its message, \<open>Closed\<close> when a menu finds no operator,
  \<open>Raised\<close> for an exception nothing catches.\<close>

datatype stop = Fatal string | Closed | Raised py_error

type_synonym ('m, 'a) step = "('m, stop + 'a) action"

definition on_step :: "('m, 'a) step \<Rightarrow> ('a \<Rightarrow> ('m, 'b) step) \<Rightarrow> ('m, 'b) step" where
  "on_step act f = do { r \<leftarrow> act; case r of Inl e \<Rightarrow> State_Monad.return (Inl e) | Inr a \<Rightarrow> f a }"


section \<open>Questions\<close>

definition read_line :: "(('w, 'z) session_scheme, string option) action" where
  "read_line = State (\<lambda>m. case se_lines m of [] \<Rightarrow> (None, m) | l # ls \<Rightarrow> (Some l, m\<lparr>se_lines := ls\<rparr>))"

definition yes_no :: "bool \<Rightarrow> string \<Rightarrow> bool" where
  "yes_no dflt answer = (if answer = '''' then dflt else startswith answer ''y'')"

definition ask :: "bool \<Rightarrow> bool option \<Rightarrow> (('w, 'z) session_scheme, bool) action" where
  "ask dflt on_eof = do {
     a \<leftarrow> read_line;
     State_Monad.return (case a of
       None \<Rightarrow> (case on_eof of Some b \<Rightarrow> b | None \<Rightarrow> yes_no dflt '''')
     | Some l \<Rightarrow> yes_no dflt (lower (strip l)))
   }"

definition ask_enter :: "(('w, 'z) session_scheme, bool) action" where
  "ask_enter = do { a \<leftarrow> read_line; State_Monad.return (a \<noteq> None) }"

definition ask_input :: "string \<Rightarrow> (('w, 'z) session_scheme, string) action" where
  "ask_input dflt = do {
     a \<leftarrow> read_line;
     State_Monad.return (let answer = (case a of None \<Rightarrow> '''' | Some l \<Rightarrow> strip l) in if answer = '''' then dflt else answer)
   }"

definition ask_text :: "(('w, 'z) session_scheme, string) action" where
  "ask_text = do { a \<leftarrow> read_line; State_Monad.return (case a of None \<Rightarrow> '''' | Some l \<Rightarrow> strip l) }"

text \<open>\<open>_choose\<close>: reads until an answer it accepts; \<open>n\<close> options, numbered from 1 on the screen.\<close>

fun pick_line :: "nat \<Rightarrow> nat \<Rightarrow> string list \<Rightarrow> nat option \<times> string list" where
  "pick_line n dflt [] = (None, [])"
| "pick_line n dflt (l # ls) =
     (let raw = strip l in
      if raw = '''' then (Some dflt, ls)
      else if isdigit raw \<and> 1 \<le> dec_val raw \<and> dec_val raw - 1 < n then (Some (dec_val raw - 1), ls)
      else pick_line n dflt ls)"

definition ask_choice :: "nat \<Rightarrow> nat \<Rightarrow> (('w, 'z) session_scheme, nat) step" where
  "ask_choice n dflt = State (\<lambda>m. case pick_line n dflt (se_lines m) of
     (None, ls) \<Rightarrow> (Inl Closed, m\<lparr>se_lines := ls\<rparr>) | (Some k, ls) \<Rightarrow> (Inr k, m\<lparr>se_lines := ls\<rparr>))"

definition fatal :: "string \<Rightarrow> (('w, 'z) session_scheme, 'a) step" where
  "fatal msg = do { _ \<leftarrow> read_line; State_Monad.return (Inl (Fatal msg)) }"


section \<open>Lemmas\<close>

text \<open>A menu answers with one of its options, and every answer uses up a line.\<close>

lemma pick_line_bounds:
  assumes "pick_line n dflt ls = (Some k, rest)" and "dflt < n"
  shows "k < n \<and> length rest < length ls"
  using assms by (induction ls) (auto simp: Let_def split: if_splits)

lemma pick_line_suffix: "pick_line n dflt ls = (r, rest) \<Longrightarrow> suffix rest ls"
  by (induction ls) (auto simp: Let_def suffix_Cons split: if_splits)

text \<open>What holds of every line to come holds of what is left after a question.\<close>

definition all_lines :: "(string \<Rightarrow> bool) \<Rightarrow> ('w, 'z) session_scheme \<Rightarrow> bool" where
  "all_lines P m = list_all P (se_lines m)"

text \<open>A property of the session that no read of a line breaks.\<close>

definition line_proof :: "(('w, 'z) session_scheme \<Rightarrow> bool) \<Rightarrow> bool" where
  "line_proof I = (\<forall>m ls. I m \<longrightarrow> suffix ls (se_lines m) \<longrightarrow> I (m\<lparr>se_lines := ls\<rparr>))"

lemma keeps_read_line: "line_proof I \<Longrightarrow> keeps I read_line"
  by (auto simp: keeps_def read_line_def line_proof_def suffix_Cons split: list.split)

lemma keeps_ask_choice: "line_proof I \<Longrightarrow> keeps I (ask_choice n dflt)"
  using pick_line_suffix [of n dflt]
  by (fastforce simp: keeps_def ask_choice_def line_proof_def split: prod.split option.split)

lemma keeps_questions:
  assumes "line_proof I"
  shows "keeps I (ask dflt on_eof)" "keeps I ask_enter" "keeps I (ask_input text_dflt)" "keeps I ask_text"
    "keeps I (fatal msg)"
  unfolding ask_def ask_enter_def ask_input_def ask_text_def fatal_def
  by (intro keeps_rules keeps_read_line assms)+

lemma keeps_on_step [keeps_rules]: "keeps I act \<Longrightarrow> (\<And>a. keeps I (f a)) \<Longrightarrow> keeps I (on_step act f)"
  unfolding on_step_def by (intro keeps_rules)

text \<open>An invariant of a command that asks: it outlives every question and every command of a kind. What a question
  changes is only the lines to come.\<close>

locale asking = run_invariant I allowed
  for I :: "('w, 'z) session_scheme \<Rightarrow> bool" and allowed :: "cmd \<Rightarrow> bool" +
  assumes lines_keep: "line_proof I"
begin

lemmas keeps_question [keeps_rules] = keeps_questions [OF lines_keep] keeps_ask_choice [OF lines_keep] keeps_read_line [OF lines_keep]

lemma keeps_allowed: "issues allowed act \<Longrightarrow> keeps I act"
  by (rule keeps_issues)

end

end
