(* ===== verification/Drive_Contents.thy ===== *)
theory Drive_Contents
  imports Pools Drive_Marks Json
begin

text \<open>
  \<open>lib/drive_contents.py\<close>: what a backup drive holds, for its entry in the status file. The pass reads the
  drive, counts and measures, and destroys nothing: what a removal would free comes from dry runs, within a
  deadline. \<open>tick\<close> is \<open>time.monotonic\<close> in nanoseconds, a reading of the world; a figure that was not
  measured is \<open>None\<close>.
\<close>

section \<open>What is measured\<close>

definition HORIZON_DAYS :: int where "HORIZON_DAYS = 7"

record point_entry =
  pe_name :: string
  pe_created_at :: string
  pe_complete :: bool
  pe_whole :: bool
  pe_datasets :: nat
  pe_used_bytes :: int

record kind_total =
  kt_count :: nat
  kt_used_bytes :: int

record next_entry =
  ne_horizon_days :: int
  ne_points :: "string list"
  ne_snapshots :: nat
  ne_datasets_whole :: nat
  ne_reclaim_bytes :: "int option"

record age_entry =
  ae_before :: string
  ae_points :: nat
  ae_last_point :: string
  ae_reclaim_bytes :: "int option"

record contents =
  dc_datasets :: "dataset_usage list option"
  dc_points :: "point_entry list option"
  dc_non_point_snapshots :: "(string, kind_total) dict option"
  dc_retention_next :: "next_entry option"
  dc_reclaim_by_age :: "age_entry list option"

definition DriveContents :: "dataset_usage list option \<Rightarrow> contents" where
  "DriveContents ds = \<lparr>dc_datasets = ds, dc_points = None, dc_non_point_snapshots = None, dc_retention_next = None,
     dc_reclaim_by_age = None\<rparr>"

text \<open>\<open>to_json\<close> and the objects it is made of; a field that was not measured is left out.\<close>

definition or_null :: "int option \<Rightarrow> json" where
  "or_null n = (case n of None \<Rightarrow> JNull | Some i \<Rightarrow> JInt i)"

definition usage_json :: "dataset_usage \<Rightarrow> json" where
  "usage_json d = JObj [(''name'', JStr (du_name d)), (''type'', JStr (du_type d)), (''used_bytes'', JInt (int (du_used d))),
     (''usedbydataset_bytes'', JInt (int (du_usedbydataset d))), (''usedbysnapshots_bytes'', JInt (int (du_usedbysnapshots d))),
     (''usedbychildren_bytes'', JInt (int (du_usedbychildren d))),
     (''usedbyrefreservation_bytes'', JInt (int (du_usedbyrefreservation d)))]"

definition point_json :: "point_entry \<Rightarrow> json" where
  "point_json p = JObj [(''name'', JStr (pe_name p)), (''created_at'', JStr (pe_created_at p)),
     (''complete'', JBool (pe_complete p)), (''whole'', JBool (pe_whole p)), (''datasets'', JInt (int (pe_datasets p))),
     (''used_bytes'', JInt (pe_used_bytes p))]"

definition kinds_json :: "(string, kind_total) dict \<Rightarrow> json" where
  "kinds_json ks = JObj (map (\<lambda>(k, t). (k, JObj [(''count'', JInt (int (kt_count t))), (''used_bytes'', JInt (kt_used_bytes t))])) ks)"

definition next_json :: "next_entry \<Rightarrow> json" where
  "next_json n = JObj [(''horizon_days'', JInt (ne_horizon_days n)), (''points'', JArr (map JStr (ne_points n))),
     (''snapshots'', JInt (int (ne_snapshots n))), (''datasets_whole'', JInt (int (ne_datasets_whole n))),
     (''reclaim_bytes'', or_null (ne_reclaim_bytes n))]"

definition age_json :: "age_entry \<Rightarrow> json" where
  "age_json a = JObj [(''before'', JStr (ae_before a)), (''points'', JInt (int (ae_points a))),
     (''last_point'', JStr (ae_last_point a)), (''reclaim_bytes'', or_null (ae_reclaim_bytes a))]"

definition contents_json :: "contents \<Rightarrow> (string, json) dict" where
  "contents_json c = List.map_filter (\<lambda>(k, v). map_option (\<lambda>j. (k, j)) v)
     [(''datasets'', map_option (\<lambda>ds. JArr (map usage_json ds)) (dc_datasets c)),
      (''points'', map_option (\<lambda>ps. JArr (map point_json ps)) (dc_points c)),
      (''non_point_snapshots'', map_option kinds_json (dc_non_point_snapshots c)),
      (''retention_next'', map_option next_json (dc_retention_next c)),
      (''reclaim_by_age'', map_option (\<lambda>as. JArr (map age_json as)) (dc_reclaim_by_age c))]"


section \<open>The figures\<close>

definition iso_text :: "int \<Rightarrow> string" where
  "iso_text ts = (let t = from_timestamp ts in
     pad4 (nat (dt_year t)) @ ''-'' @ pad2 (dt_month t) @ ''-'' @ pad2 (dt_day t) @ ''T''
       @ pad2 (dt_hour t) @ '':'' @ pad2 (dt_minute t) @ '':'' @ pad2 (dt_second t) @ ''Z'')"

definition month_after :: "int \<Rightarrow> string" where
  "month_after ts = (let t = from_timestamp ts in
     pad4 (nat (dt_year t + int (dt_month t div 12))) @ ''-'' @ pad2 (dt_month t mod 12 + 1))"

text \<open>The loops over every snapshot of the drive, dataset by dataset.\<close>

definition snap_rows :: "(string, dest) dict \<Rightarrow> (string \<times> ref) list" where
  "snap_rows dst = concat (map (\<lambda>(rel, d). map (\<lambda>s. (rel, s)) (d_snaps d)) dst)"

text \<open>The datasets that hold each point, in the order of the listing.\<close>

definition holders :: "(string, dest) dict \<Rightarrow> (string, string list) dict" where
  "holders dst = foldl (\<lambda>m (rel, s). if POINT_RE (r_name s) then dict_push (r_name s) rel m else m) []
     (snap_rows dst)"

fun point_entries ::
    "(string, string list) dict \<Rightarrow> (string, int) dict \<Rightarrow> string list \<Rightarrow> string list \<Rightarrow> (string, int) dict
      \<Rightarrow> string list \<Rightarrow> point_entry list option" where
  "point_entries hs tms runs wh used [] = Some []"
| "point_entries hs tms runs wh used (name # names) =
     (let keys = map (\<lambda>rel. rel @ ''@'' @ name) (dict_get_or hs name []) in
      if list_ex (\<lambda>k. map_of used k = None) keys then None
      else map_option ((#) \<lparr>pe_name = name, pe_created_at = iso_text (dict_get_or tms name 0),
          pe_complete = (name \<in> set runs), pe_whole = (name \<in> set runs \<and> name \<in> set wh),
          pe_datasets = length keys, pe_used_bytes = sum_list (map (\<lambda>k. dict_get_or used k 0) keys)\<rparr>)
        (point_entries hs tms runs wh used names))"

definition points_of ::
    "(string, dest) dict \<Rightarrow> (string, int) dict \<Rightarrow> string list \<Rightarrow> string list \<Rightarrow> (string, int) dict
      \<Rightarrow> point_entry list option" where
  "points_of dst tms runs wh used =
     point_entries (holders dst) tms runs wh used (sort_key (\<lambda>n. (dict_get_or tms n 0, n)) (dict_keys tms))"

definition count_kind :: "kind_total \<Rightarrow> int \<Rightarrow> kind_total" where
  "count_kind t n = \<lparr>kt_count = kt_count t + 1, kt_used_bytes = kt_used_bytes t + n\<rparr>"

definition no_snaps :: kind_total where "no_snaps = \<lparr>kt_count = 0, kt_used_bytes = 0\<rparr>"

fun count_non_points ::
    "(string, int) dict \<Rightarrow> (string \<times> ref) list \<Rightarrow> (string, kind_total) dict \<Rightarrow> (string, kind_total) dict option" where
  "count_non_points used [] out = Some out"
| "count_non_points used ((rel, s) # rows) out =
     (let kind = snapshot_kind (r_name s) in
      if kind = ''point'' then count_non_points used rows out
      else (case map_of used (rel @ ''@'' @ r_name s) of
         None \<Rightarrow> None
       | Some n \<Rightarrow> count_non_points used rows (dict_set kind (count_kind (dict_get_or out kind no_snaps) n) out)))"

definition non_points :: "(string, dest) dict \<Rightarrow> (string, int) dict \<Rightarrow> (string, kind_total) dict option" where
  "non_points dst used = count_non_points used (snap_rows dst)
     [(''intermediate'', no_snaps), (''other'', no_snaps)]"


section \<open>What removals would free\<close>

text \<open>\<open>_Pass\<close>: the dry runs of one measurement.\<close>

record dry_pass =
  dp_pool :: string
  dp_deadline :: "int option"
  dp_tally :: nat
  dp_unmeasured :: nat

definition late :: "('w \<Rightarrow> int) \<Rightarrow> dry_pass \<Rightarrow> 'w \<Rightarrow> bool" where
  "late tick dry w = (case dp_deadline dry of None \<Rightarrow> False | Some d \<Rightarrow> d \<le> tick w)"

definition pass_measure ::
    "'w shell \<Rightarrow> ('w \<Rightarrow> int) \<Rightarrow> dry_pass \<Rightarrow> removal list \<Rightarrow> string list
      \<Rightarrow> (('w, 'z) machine_scheme, int option \<times> dry_pass) action" where
  "pass_measure exec tick dry removals tops = do {
     (got, n) \<leftarrow> measure_removals exec (late tick dry) (dp_pool dry) removals tops;
     State_Monad.return (got, dry\<lparr>dp_tally := dp_tally dry + n,
       dp_unmeasured := dp_unmeasured dry + (if got = None then 1 else 0)\<rparr>)
   }"

text \<open>The arguments of \<open>plan_prune\<close> the pass is made with (the \<open>plan\<close> dictionary).\<close>

record prune_args =
  pa_complete :: "string list"
  pa_policy :: policy
  pa_now :: int
  pa_whole :: "string list"
  pa_pinned :: "(string, string) dict"
  pa_first :: string

definition plan_with :: "(string, dest) dict \<Rightarrow> prune_args \<Rightarrow> py_error + prune" where
  "plan_with dst a = plan_prune dst (pa_complete a) (pa_policy a) (pa_now a) (Some (pa_whole a)) (pa_pinned a) [] (pa_first a)"

definition retention_next ::
    "'w shell \<Rightarrow> ('w \<Rightarrow> int) \<Rightarrow> dry_pass \<Rightarrow> (string, dest) dict \<Rightarrow> (string, int) dict \<Rightarrow> prune_args
      \<Rightarrow> (('w, 'z) machine_scheme, py_error + next_entry \<times> dry_pass) action" where
  "retention_next exec tick dry dst tms a =
     (case plan_with dst (a\<lparr>pa_now := pa_now a + HORIZON_DAYS * DAY\<rparr>) of
        Inl e \<Rightarrow> State_Monad.return (Inl e)
      | Inr p \<Rightarrow> do {
          (freed, dry) \<leftarrow> (if prune_empty p then State_Monad.return (Some 0, dry)
                           else pass_measure exec tick dry (pr_snapshots p) (map fst (pr_datasets p)));
          State_Monad.return (Inr (\<lparr>ne_horizon_days = HORIZON_DAYS,
            ne_points = sort_key (\<lambda>n. (dict_get_or tms n 0, n))
              (remdups (filter POINT_RE (map rm_name (pr_snapshots p)))),
            ne_snapshots = length (pr_snapshots p), ne_datasets_whole = length (pr_datasets p),
            ne_reclaim_bytes = freed\<rparr>, dry))
        })"

text \<open>The candidates \<open>zark prune\<close> offers beyond the policy: those some snapshot of which can go.\<close>

definition offered ::
    "(string, dest) dict \<Rightarrow> string list \<Rightarrow> policy \<Rightarrow> int \<Rightarrow> prune \<Rightarrow> string list \<Rightarrow> (string, string) dict \<Rightarrow> string list" where
  "offered dst complete pol now p wh pins =
     filter (\<lambda>name. point_removals dst name pins [] \<noteq> []) (space_candidates dst complete pol now p (Some wh))"

fun age_entries ::
    "'w shell \<Rightarrow> ('w \<Rightarrow> int) \<Rightarrow> (string, dest) dict \<Rightarrow> (string, int) dict \<Rightarrow> (string, string) dict \<Rightarrow> nat \<Rightarrow> string list
      \<Rightarrow> removal list \<Rightarrow> bool \<Rightarrow> dry_pass \<Rightarrow> (('w, 'z) machine_scheme, age_entry list \<times> dry_pass) action" where
  "age_entries exec tick dst tms pins k [] removals stopped dry = State_Monad.return ([], dry)"
| "age_entries exec tick dst tms pins k (name # names) removals stopped dry =
     (let more = removals @ point_removals dst name pins [] in do {
        (freed, dry) \<leftarrow> (if \<not> stopped then pass_measure exec tick dry more (map fst (whole_datasets dst more))
                         else State_Monad.return (None, dry\<lparr>dp_unmeasured := dp_unmeasured dry + 1\<rparr>));
        (rest, dry) \<leftarrow> age_entries exec tick dst tms pins (Suc k) names more (stopped \<or> freed = None) dry;
        State_Monad.return (\<lparr>ae_before = month_after (dict_get_or tms name 0), ae_points = k, ae_last_point = name,
          ae_reclaim_bytes = freed\<rparr> # rest, dry)
      })"

definition reclaim_by_age ::
    "'w shell \<Rightarrow> ('w \<Rightarrow> int) \<Rightarrow> dry_pass \<Rightarrow> (string, dest) dict \<Rightarrow> (string, int) dict \<Rightarrow> prune_args \<Rightarrow> (string, string) dict
      \<Rightarrow> (('w, 'z) machine_scheme, py_error + age_entry list \<times> dry_pass) action" where
  "reclaim_by_age exec tick dry dst tms a pins = (case plan_with dst a of
     Inl e \<Rightarrow> State_Monad.return (Inl e)
   | Inr p \<Rightarrow> do {
       out \<leftarrow> age_entries exec tick dst tms pins 1
                (offered dst (pa_complete a) (pa_policy a) (pa_now a) p (pa_whole a) pins) [] False dry;
       State_Monad.return (Inr out)
     })"

text \<open>\<open>measure\<close>: \<open>clock\<close> is \<open>time.time\<close>; a strict read that fails leaves only the datasets.\<close>

definition measured ::
    "'w shell \<Rightarrow> ('w \<Rightarrow> int) \<Rightarrow> string \<Rightarrow> policy \<Rightarrow> int \<Rightarrow> int option \<Rightarrow> dataset_usage list option
      \<Rightarrow> (string, dest) dict \<Rightarrow> complete_set \<Rightarrow> (string, string) dict \<Rightarrow> (string, int) dict
      \<Rightarrow> (('w, 'z) machine_scheme, py_error + contents) action" where
  "measured exec tick pool pol now budget datasets dst complete pins used =
     (let tms = point_times dst;
          a = \<lparr>pa_complete = cs_run complete, pa_policy = pol, pa_now = now, pa_whole = cs_whole complete, pa_pinned = pins,
               pa_first = cs_first complete\<rparr> in do {
        m \<leftarrow> State_Monad.get;
        nxt \<leftarrow> retention_next exec tick \<lparr>dp_pool = pool, dp_deadline = map_option (\<lambda>b. tick (m_world m) + b) budget,
                 dp_tally = 0, dp_unmeasured = 0\<rparr> dst tms a;
        case nxt of Inl e \<Rightarrow> State_Monad.return (Inl e)
        | Inr (n, dry) \<Rightarrow> do {
            age \<leftarrow> reclaim_by_age exec tick dry dst tms a pins;
            case age of Inl e \<Rightarrow> State_Monad.return (Inl e)
            | Inr (ages, dry) \<Rightarrow> State_Monad.return (Inr \<lparr>dc_datasets = datasets,
                dc_points = points_of dst tms (cs_run complete) (cs_whole complete) used,
                dc_non_point_snapshots = non_points dst used, dc_retention_next = Some n, dc_reclaim_by_age = Some ages\<rparr>)
          }
      })"

definition contents_measure ::
    "'w shell \<Rightarrow> ('w \<Rightarrow> int) \<Rightarrow> ('w \<Rightarrow> int) \<Rightarrow> string \<Rightarrow> policy \<Rightarrow> int option \<Rightarrow> int option
      \<Rightarrow> (('w, 'z) machine_scheme, py_error + contents) action" where
  "contents_measure exec clock tick pool pol now budget = do {
     datasets \<leftarrow> read_datasets exec pool;
     got \<leftarrow> on_read (read_dest exec pool True) (\<lambda>dst.
             on_read (drive_complete exec pool) (\<lambda>complete.
             on_read (drive_pins exec pool True) (\<lambda>pins.
             on_read (read_dest_used exec pool) (\<lambda>used.
               State_Monad.return (Inr (dst, complete, pins, used))))));
     case got of
       Inl e \<Rightarrow> State_Monad.return (Inr (DriveContents datasets))
     | Inr (dst, complete, pins, used) \<Rightarrow> do {
         m \<leftarrow> State_Monad.get;
         measured exec tick pool pol (case now of None \<Rightarrow> clock (m_world m) | Some t \<Rightarrow> t) budget datasets dst complete pins used
       }
   }"


section \<open>Lemmas: every snapshot is counted once\<close>

lemma sum_by_key:
  fixes f :: "'a \<Rightarrow> 'b::comm_monoid_add"
  assumes "distinct ns"
  shows "sum_list (map (\<lambda>n. sum_list (map f (filter (\<lambda>x. key x = n) xs))) ns)
    = sum_list (map f (filter (\<lambda>x. key x \<in> set ns) xs))"
  using assms
proof (induction ns)
  case (Cons n ns)
  have "sum_list (map f (filter (\<lambda>x. key x = n) ys)) + sum_list (map f (filter (\<lambda>x. key x \<in> set ns) ys))
    = sum_list (map f (filter (\<lambda>x. key x \<in> set (n # ns)) ys))" for ys
    using Cons.prems by (induction ys) (auto simp: ac_simps)
  with Cons show ?case by simp
qed simp

lemma sum_partition:
  fixes f :: "'a \<Rightarrow> 'b::comm_monoid_add"
  shows "sum_list (map f (filter P xs)) + sum_list (map f (filter (\<lambda>x. \<not> P x) xs)) = sum_list (map f xs)"
  by (induction xs) (auto simp: ac_simps)

lemma snap_rows_snaps: "map snd (snap_rows dst) = drive_snaps dst"
  by (simp add: snap_rows_def drive_snaps_def dict_values_def map_concat comp_def split_def)

lemma holders_of:
  "POINT_RE name \<Longrightarrow> dict_get_or (holders dst) name [] = map fst (filter (\<lambda>(rel, s). r_name s = name) (snap_rows dst))"
proof -
  assume "POINT_RE name"
  have "dict_get_or (foldl (\<lambda>m (rel, s). if POINT_RE (r_name s) then dict_push (r_name s) rel m else m) m rows) name []
    = dict_get_or m name [] @ map fst (filter (\<lambda>(rel, s). r_name s = name) rows)" for m and rows :: "(string \<times> ref) list"
    using \<open>POINT_RE name\<close> by (induction rows arbitrary: m) (auto simp: dict_get_or_def map_of_dict_push)
  from this [of "[]" "snap_rows dst"] show ?thesis by (simp add: holders_def dict_get_or_def)
qed

text \<open>The \<open>used\<close> of one snapshot, as the drive's listing gives it.\<close>

definition used_of :: "(string, int) dict \<Rightarrow> string \<times> ref \<Rightarrow> int" where
  "used_of used row = dict_get_or used (fst row @ ''@'' @ r_name (snd row)) 0"

definition named :: "string \<Rightarrow> string \<times> ref \<Rightarrow> bool" where
  "named name row = (r_name (snd row) = name)"

lemma used_of_rows:
  "map (\<lambda>k. dict_get_or used k 0) (map (\<lambda>rel. rel @ ''@'' @ n) (map fst (filter (named n) rows)))
    = map (used_of used) (filter (named n) rows)"
  by (induction rows) (auto simp: named_def used_of_def)

lemma point_entries_sums:
  assumes "point_entries (holders dst) tms runs wh used names = Some ps" and "\<forall>n \<in> set names. POINT_RE n"
  shows "map pe_name ps = names
    \<and> map pe_datasets ps = map (\<lambda>n. length (filter (named n) (snap_rows dst))) names
    \<and> map pe_used_bytes ps = map (\<lambda>n. sum_list (map (used_of used) (filter (named n) (snap_rows dst)))) names"
  using assms
proof (induction names arbitrary: ps)
  case (Cons n names)
  have h: "dict_get_or (holders dst) n [] = map fst (filter (named n) (snap_rows dst))"
    using Cons.prems(2) by (simp add: holders_of named_def [abs_def] split_def)
  from Cons.prems(1) obtain qs where qs: "point_entries (holders dst) tms runs wh used names = Some qs"
    "pe_name (hd ps) = n" "tl ps = qs" "ps \<noteq> []" "pe_datasets (hd ps) = length (filter (named n) (snap_rows dst))"
    "pe_used_bytes (hd ps) = sum_list (map (used_of used) (filter (named n) (snap_rows dst)))"
    unfolding point_entries.simps Let_def h used_of_rows by (auto split: if_splits)
  with Cons.IH [OF qs(1)] Cons.prems(2) show ?case by (cases ps) auto
qed simp

definition point_row :: "string \<times> ref \<Rightarrow> bool" where
  "point_row row = POINT_RE (r_name (snd row))"

lemma snapshot_kind_cases:
  "snapshot_kind name = ''point'' \<longleftrightarrow> POINT_RE name"
  "\<not> POINT_RE name \<Longrightarrow> snapshot_kind name = ''intermediate'' \<or> snapshot_kind name = ''other''"
  by (simp_all add: snapshot_kind_def)

lemma point_entries_there:
  "list_all (\<lambda>n. list_all (\<lambda>rel. map_of used (rel @ ''@'' @ n) \<noteq> None) (dict_get_or hs n [])) names
    \<Longrightarrow> point_entries hs tms runs wh used names \<noteq> None"
  by (induction names) (auto simp: Let_def list_all_iff list_ex_iff)

text \<open>The two kinds and what each counts.\<close>

definition two_kinds :: "kind_total \<Rightarrow> kind_total \<Rightarrow> (string, kind_total) dict" where
  "two_kinds a b = [(''intermediate'', a), (''other'', b)]"

lemma two_kinds_set:
  "dict_set ''intermediate'' v (two_kinds a b) = two_kinds v b" "dict_set ''other'' v (two_kinds a b) = two_kinds a v"
  "dict_get_or (two_kinds a b) ''intermediate'' z = a" "dict_get_or (two_kinds a b) ''other'' z = b"
  by (simp_all add: two_kinds_def dict_set_def dict_get_or_def)

lemma count_non_points_sums:
  assumes "count_non_points used rows (two_kinds a b) = Some np"
  shows "\<exists>a' b'. np = two_kinds a' b'
    \<and> kt_count a' + kt_count b' = kt_count a + kt_count b + length (filter (\<lambda>r. \<not> point_row r) rows)
    \<and> kt_used_bytes a' + kt_used_bytes b' = kt_used_bytes a + kt_used_bytes b
        + sum_list (map (used_of used) (filter (\<lambda>r. \<not> point_row r) rows))"
  using assms
proof (induction rows arbitrary: a b)
  case (Cons row rows)
  obtain rel s where row: "row = (rel, s)" by fastforce
  show ?case
  proof (cases "POINT_RE (r_name s)")
    case True
    with Cons show ?thesis by (simp add: row point_row_def)
  next
    case False
    with Cons.prems obtain n where n: "map_of used (rel @ ''@'' @ r_name s) = Some n"
      by (auto simp: row snapshot_kind_cases(1) Let_def split: option.splits)
    then have u: "used_of used row = n" by (simp add: row used_of_def dict_get_or_def)
    from snapshot_kind_cases(2) [OF False] show ?thesis
    proof
      assume k: "snapshot_kind (r_name s) = ''intermediate''"
      with Cons.prems n have "count_non_points used rows (two_kinds (count_kind a n) b) = Some np"
        by (simp add: row two_kinds_set)
      from Cons.IH [OF this] u False obtain a' b' where
        "np = two_kinds a' b'" "kt_count a' + kt_count b' = kt_count a + kt_count b + length (filter (\<lambda>r. \<not> point_row r) (row # rows))"
        "kt_used_bytes a' + kt_used_bytes b' = kt_used_bytes a + kt_used_bytes b
          + sum_list (map (used_of used) (filter (\<lambda>r. \<not> point_row r) (row # rows)))"
        by (auto simp: row point_row_def count_kind_def)
      then show ?thesis by blast
    next
      assume k: "snapshot_kind (r_name s) = ''other''"
      with Cons.prems n have "count_non_points used rows (two_kinds a (count_kind b n)) = Some np"
        by (simp add: row two_kinds_set)
      from Cons.IH [OF this] u False obtain a' b' where
        "np = two_kinds a' b'" "kt_count a' + kt_count b' = kt_count a + kt_count b + length (filter (\<lambda>r. \<not> point_row r) (row # rows))"
        "kt_used_bytes a' + kt_used_bytes b' = kt_used_bytes a + kt_used_bytes b
          + sum_list (map (used_of used) (filter (\<lambda>r. \<not> point_row r) (row # rows)))"
        by (auto simp: row point_row_def count_kind_def)
      then show ?thesis by blast
    qed
  qed
qed (auto intro: exI)

text \<open>The names listed are those of the drive's points, each once.\<close>

lemma point_names:
  defines "names dst \<equiv> sort_key (\<lambda>n. (dict_get_or (point_times dst) n 0, n)) (dict_keys (point_times dst))"
  shows "distinct (names dst)" and "\<forall>n \<in> set (names dst). POINT_RE n"
    and "row \<in> set (snap_rows dst) \<Longrightarrow> r_name (snd row) \<in> set (names dst) \<longleftrightarrow> point_row row"
proof -
  show "distinct (names dst)" using wf_point_times [of dst] by (simp add: names_def wf_dict_def)
  show re: "\<forall>n \<in> set (names dst). POINT_RE n" using point_times_Some(1) by (auto simp: names_def)
  show "r_name (snd row) \<in> set (names dst) \<longleftrightarrow> point_row row" if row: "row \<in> set (snap_rows dst)"
  proof -
    from row have "snd row \<in> set (drive_snaps dst)" unfolding snap_rows_snaps [symmetric] by simp
    with point_times_exists [of "snd row" dst] re show ?thesis
      by (force simp: names_def point_row_def)
  qed
qed


definition ex_used :: "(string, int) dict" where
  "ex_used = map (\<lambda>row. (fst row @ ''@'' @ r_name (snd row), 5)) (snap_rows ex_drive)"



section \<open>Lemmas: the pass only looks\<close>

definition is_dry_run :: "cmd \<Rightarrow> bool" where
  "is_dry_run c = (case c of Line l \<Rightarrow> startswith l ''zfs destroy -nvp '' | _ \<Rightarrow> False)"

definition looks :: "cmd \<Rightarrow> bool" where
  "looks c = (is_read c \<or> is_dry_run c)"

lemma looks_read: "issues is_read act \<Longrightarrow> issues looks act"
  by (erule issues_mono) (simp add: looks_def)

lemma looks_dry_run [simp]: "looks (dry_run_command ds snaps)"
  by (simp add: looks_def is_dry_run_def dry_run_command_def startswith_def)

lemma looks_used: "issues looks (used_bytes exec name)"
  unfolding used_bytes_def by (intro issues_rules) (simp add: looks_def is_read_def startswith_def)

lemma looks_dry [issues_rules]: "issues looks (dry_run exec ds snaps)"
  unfolding dry_run_def by (intro issues_rules) simp

lemma looks_measure_rows: "issues looks (measure_rows exec lt rows tot tally)"
proof (induction rows arbitrary: tot tally)
  case (Cons row rows)
  then show ?case by (cases row) (auto intro!: issues_rules)
qed (auto intro: issues_rules)

lemma looks_measure_used: "issues looks (measure_used exec pool tops tot)"
  by (induction tops arbitrary: tot) (auto intro!: issues_rules looks_used)

lemma looks_pass_measure: "issues looks (pass_measure exec tick dry removals tops)"
  unfolding pass_measure_def measure_removals_def
  by (intro issues_rules looks_measure_rows looks_measure_used)

lemma looks_age_entries: "issues looks (age_entries exec tick dst tms pins k names removals stopped dry)"
proof (induction names arbitrary: k removals stopped dry)
  case (Cons name names)
  show ?case unfolding age_entries.simps by (intro issues_rules looks_pass_measure Cons.IH)
qed (auto intro: issues_rules)

lemma looks_measured: "issues looks (measured exec tick pool pol now budget datasets dst complete pins used)"
  unfolding measured_def retention_next_def reclaim_by_age_def
  by (intro issues_rules looks_pass_measure looks_age_entries)

lemma issues_snapshot_marks: "issues is_read (snapshot_marks exec root strict prop)"
  unfolding snapshot_marks_def by (intro issues_rules) (simp_all add: is_read_def startswith_def)

lemma issues_root_snapshots: "issues is_read (root_snapshots exec pool strict root)"
  unfolding root_snapshots_def by (intro issues_rules issues_snapshot_marks) simp_all

lemma issues_drive_snapshots: "issues is_read (drive_snapshots exec pool strict)"
proof -
  have "issues is_read (roots_snapshots exec pool strict rs out)" for rs out
    by (induction rs arbitrary: out)
      (auto simp: is_read_def startswith_def intro!: issues_rules issues_root_snapshots)
  then show ?thesis by (simp add: drive_snapshots_def)
qed

lemma issues_drive_complete: "issues is_read (drive_complete exec pool)"
  unfolding drive_complete_def by (intro issues_rules issues_read_metadata issues_drive_snapshots)

lemma issues_drive_pins: "issues is_read (drive_pins exec pool strict)"
proof -
  have "issues is_read (roots_pins exec pool strict rs out)" for rs out
    by (induction rs arbitrary: out) (auto simp: Let_def is_read_def startswith_def intro!: issues_rules)
  then show ?thesis by (simp add: drive_pins_def)
qed

lemma issues_read_dest_used: "issues is_read (read_dest_used exec pool)"
proof -
  have "issues is_read (read_used exec pool cs rs out)" for cs rs out
    by (induction rs arbitrary: out) (auto simp: is_read_def startswith_def intro!: issues_rules)
  then show ?thesis unfolding read_dest_used_def by (auto intro!: issues_rules)
qed

lemma issues_read_datasets: "issues is_read (read_datasets exec pool)"
  unfolding read_datasets_def by (intro issues_rules) (simp add: is_read_def startswith_def)

lemma looks_contents_measure: "issues looks (contents_measure exec clock tick pool pol now budget)"
  unfolding contents_measure_def
  by (intro issues_rules looks_measured looks_read [OF issues_read_dest] looks_read [OF issues_drive_complete]
      looks_read [OF issues_drive_pins] looks_read [OF issues_read_dest_used] looks_read [OF issues_read_datasets])

end
