(* ===== verification/Prune_Command.thy ===== *)
theory Prune_Command
  imports Console Drive_Contents Origin_Prune Exclusions Drives Anchors
begin

text \<open>
  \<open>commands/prune.py\<close>: \<open>zark prune\<close>, the menu that removes snapshots from origin and the pass over a
  connected drive. Every question takes a line of the session; every removal goes through \<open>lib/reclaim.py\<close>,
  \<open>lib/anchors.py\<close> and \<open>lib/exclusions.py\<close> as modelled there. The lines printed on the way, and the wait for a
  pool to finish freeing before its fill level is printed, are output.
\<close>

section \<open>The host and the session\<close>

text \<open>What the command takes from outside: the shell, the calls of the pool and keystore modules, \<open>time.time\<close>,
  \<open>time.monotonic\<close> and the machine id.\<close>

record 'w host =
  h_exec :: "'w shell"
  h_out :: "'w outside"
  h_fs :: "'w key_paths"
  h_paths :: "'w paths"
  h_clock :: "'w \<Rightarrow> int"
  h_tick :: "'w \<Rightarrow> int"
  h_machine_id :: string

text \<open>Whether progress is being recorded, and what was recorded for each drive (\<open>progress.record\<close>).\<close>

record 'w prune_session = "'w session" +
  pg_active :: bool
  pg_updates :: "(string, space \<times> contents) dict"

definition now_of :: "'w host \<Rightarrow> (('w, 'z) machine_scheme, int) action" where
  "now_of h = do { m \<leftarrow> State_Monad.get; State_Monad.return (h_clock h (m_world m)) }"

definition record_update :: "string \<Rightarrow> space \<times> contents \<Rightarrow> (('w, 'z) prune_session_scheme, unit) action" where
  "record_update guid up = State_Monad.update (\<lambda>m. if pg_active m then m\<lparr>pg_updates := dict_set guid up (pg_updates m)\<rparr> else m)"

definition WORD :: string where "WORD = ''PRUNE''"

definition typed :: "(('w, 'z) session_scheme, bool) action" where
  "typed = do { a \<leftarrow> ask_text; State_Monad.return (a = WORD) }"


section \<open>Origin\<close>

fun pool_levels :: "'w shell \<Rightarrow> string list \<Rightarrow> (('w, 'z) machine_scheme, unit) action" where
  "pool_levels exec [] = State_Monad.return ()"
| "pool_levels exec (p # ps) = do {
     _ \<leftarrow> run exec (Line (''zpool list -Hp -o name,capacity,size,free '' @ p));
     pool_levels exec ps
   }"

definition capacity :: "'w shell \<Rightarrow> (('w, 'z) machine_scheme, unit) action" where
  "capacity exec = do { pools \<leftarrow> source_pools exec; pool_levels exec pools }"

text \<open>What each kind of snapshot would free; a kind with none is not asked about.\<close>

fun free_all :: "'w shell \<Rightarrow> item list list \<Rightarrow> (('w, 'z) machine_scheme, unit) action" where
  "free_all exec [] = State_Monad.return ()"
| "free_all exec (items # kinds) = do {
     _ \<leftarrow> (if items = [] then State_Monad.return 0 else reclaim_names exec (map it_target items));
     free_all exec kinds
   }"

definition summary :: "'w shell \<Rightarrow> inventory \<Rightarrow> (('w, 'z) machine_scheme, unit) action" where
  "summary exec iv = free_all exec
     (map (\<lambda>kind. dict_get_or (iv_autosnaps iv) kind [])
        [''frequently'', ''hourly'', ''daily'', ''weekly'', ''monthly'', ''yearly'']
      @ [iv_residues iv, iv_points iv] @ map snd (sort_key fst (iv_anchors iv)))"

definition remove_items :: "'w shell \<Rightarrow> item list \<Rightarrow> string \<Rightarrow> (('w, 'z) machine_scheme, unit) action" where
  "remove_items exec items why = do {
     _ \<leftarrow> destroy_snapshots exec (map (\<lambda>i. (it_target i, if it_reason i = '''' then why else it_reason i)) items);
     State_Monad.return ()
   }"

definition by_age :: "'w host \<Rightarrow> inventory \<Rightarrow> (('w, 'z) session_scheme, unit) action" where
  "by_age h iv = do {
     raw \<leftarrow> ask_input ''30'';
     if \<not> isdigit raw then State_Monad.return ()
     else do {
       now \<leftarrow> now_of h;
       let items = older_than iv (now - int (dec_val raw) * DAY);
       if items = [] then State_Monad.return ()
       else do {
         _ \<leftarrow> reclaim_names (h_exec h) (map it_target items);
         sure \<leftarrow> typed;
         if sure then remove_items (h_exec h) items (''sanoid snapshot older than '' @ raw @ '' days'')
         else State_Monad.return ()
       }
     }
   }"

definition residues :: "'w host \<Rightarrow> inventory \<Rightarrow> (('w, 'z) session_scheme, unit) action" where
  "residues h iv = do {
     _ \<leftarrow> reclaim_names (h_exec h) (map it_target (iv_residues iv));
     sure \<leftarrow> ask False None;
     if sure then remove_items (h_exec h) (iv_residues iv) ''legacy residue'' else State_Monad.return ()
   }"

fun release_points :: "'w shell \<Rightarrow> (string, string) dict \<Rightarrow> item list \<Rightarrow> (('w, 'z) machine_scheme, nat) action" where
  "release_points exec owners [] = State_Monad.return 0"
| "release_points exec owners (i # is) = do {
     gone \<leftarrow> release_point exec (it_target i) (dict_get_or owners (it_target i) '''');
     n \<leftarrow> release_points exec owners is;
     State_Monad.return (if gone then Suc n else n)
   }"

definition points_left :: "'w host \<Rightarrow> inventory \<Rightarrow> (('w, 'z) session_scheme, unit) action" where
  "points_left h iv = do {
     pools \<leftarrow> source_pools (h_exec h);
     own \<leftarrow> point_owners (h_exec h) pools;
     let owners = (case own of Inl e \<Rightarrow> [] | Inr d \<Rightarrow> d);
     sure \<leftarrow> typed;
     if sure then do {
       _ \<leftarrow> release_points (h_exec h) owners (filter (\<lambda>i. dict_get_or owners (it_target i) '''' \<noteq> '''') (iv_points iv));
       let others = filter (\<lambda>i. dict_get_or owners (it_target i) '''' = '''') (iv_points iv);
       if others \<noteq> [] then remove_items (h_exec h) others ''backup point left in origin'' else State_Monad.return ()
     }
     else State_Monad.return ()
   }"

definition drop_drive_anchors ::
    "'w host \<Rightarrow> inventory \<Rightarrow> (string, string) dict \<Rightarrow> (('w, 'z) session_scheme, unit) step" where
  "drop_drive_anchors h iv drives =
     (let guids = sort (dict_keys (iv_anchors iv)) in
      on_step (ask_choice (Suc (length guids)) 0) (\<lambda>pick.
        if pick = 0 then State_Monad.return (Inr ())
        else (let guid = guids ! (pick - 1); items = dict_get_or (iv_anchors iv) guid []; name = dict_get_or drives guid guid in do {
          _ \<leftarrow> reclaim_names (h_exec h) (map it_target items);
          sure \<leftarrow> typed;
          _ \<leftarrow> (if sure then remove_items (h_exec h) items (''bpool anchor of drive '' @ name) else State_Monad.return ());
          State_Monad.return (Inr ())
        })))"

text \<open>The menu: \<open>done\<close> first, then the kinds that have something.\<close>

datatype menu = Done | ByAge | Residues | PointsLeft | DriveAnchors

definition menu_of :: "inventory \<Rightarrow> menu list" where
  "menu_of iv = Done # (if iv_autosnaps iv \<noteq> [] then [ByAge] else []) @ (if iv_residues iv \<noteq> [] then [Residues] else [])
     @ (if iv_points iv \<noteq> [] then [PointsLeft] else []) @ (if iv_anchors iv \<noteq> [] then [DriveAnchors] else [])"

definition as_step :: "('m, 'a) action \<Rightarrow> ('m, 'a) step" where
  "as_step act = do { a \<leftarrow> act; State_Monad.return (Inr a) }"

definition menu_act ::
    "'w host \<Rightarrow> inventory \<Rightarrow> (string, string) dict \<Rightarrow> menu \<Rightarrow> (('w, 'z) session_scheme, unit) step" where
  "menu_act h iv drives item = (case item of
     Done \<Rightarrow> State_Monad.return (Inr ())
   | ByAge \<Rightarrow> as_step (by_age h iv)
   | Residues \<Rightarrow> as_step (residues h iv)
   | PointsLeft \<Rightarrow> as_step (points_left h iv)
   | DriveAnchors \<Rightarrow> drop_drive_anchors h iv drives)"

text \<open>The loop runs until \<open>done\<close>; \<open>None\<close> is out of fuel, and \<open>prune_origin\<close> starts it with one turn more than the
  operator has lines.\<close>

fun origin_menu :: "nat \<Rightarrow> 'w host \<Rightarrow> (string, string) dict \<Rightarrow> (('w, 'z) session_scheme, (stop + unit) option) action" where
  "origin_menu 0 h drives = State_Monad.return None"
| "origin_menu (Suc n) h drives = do {
     _ \<leftarrow> capacity (h_exec h);
     pools \<leftarrow> source_pools (h_exec h);
     ori \<leftarrow> read_origin (h_exec h) pools True;
     case ori of
       Inl e \<Rightarrow> do { r \<leftarrow> fatal (''Cannot read origin: '' @ e); State_Monad.return (Some r) }
     | Inr os \<Rightarrow> (let iv = inventory_of os drives [] in do {
         _ \<leftarrow> summary (h_exec h) iv;
         pick \<leftarrow> ask_choice (length (menu_of iv)) 0;
         case pick of
           Inl e \<Rightarrow> State_Monad.return (Some (Inl e))
         | Inr k \<Rightarrow>
             if menu_of iv ! k = Done then State_Monad.return (Some (Inr ()))
             else do {
               r \<leftarrow> menu_act h iv drives (menu_of iv ! k);
               case r of Inl e \<Rightarrow> State_Monad.return (Some (Inl e)) | Inr _ \<Rightarrow> origin_menu n h drives
             }
       })
   }"

definition names_by_guid :: "config \<Rightarrow> (string, string) dict" where
  "names_by_guid c = foldl (\<lambda>m (name, info). dict_set (di_guid info) name m) [] (cf_known_drives c)"

definition prune_origin :: "'w host \<Rightarrow> config \<Rightarrow> (('w, 'z) session_scheme, (stop + unit) option) action" where
  "prune_origin h c = do {
     m \<leftarrow> State_Monad.get;
     origin_menu (Suc (length (se_lines m))) h (names_by_guid c)
   }"


section \<open>A drive\<close>

definition HISTORY_WHY :: string where "HISTORY_WHY = ''older than the drive's first backup point, removed by hand''"

definition LEGACY_NAME :: "string \<Rightarrow> bool" where
  "LEGACY_NAME name = (startswith name ''autosnap_'' \<or> startswith name ''syncoid_'')"

text \<open>What \<open>_legacy_history\<close> takes of one dataset; \<open>start\<close> is the time of the drive's first point, if any.\<close>

definition legacy_of :: "(string, string) dict \<Rightarrow> int option \<Rightarrow> string \<times> dest \<Rightarrow> removal list" where
  "legacy_of pins start row = (case row of (rel, d) \<Rightarrow>
     (let newest_s = (if is_live rel d then newest d else None) in
      map (\<lambda>s. \<lparr>rm_rel = rel, rm_name = r_name s, rm_reason = HISTORY_WHY\<rparr>)
        (filter (\<lambda>s. LEGACY_NAME (r_name s) \<and> \<not> (newest_s \<noteq> None \<and> r_guid s = r_guid (the newest_s))
                   \<and> map_of pins (rel @ ''@'' @ r_name s) = None
                   \<and> (case start of None \<Rightarrow> True | Some t \<Rightarrow> r_creation s < t)) (d_snaps d))))"

definition prune_of :: "(string, dest) dict \<Rightarrow> removal list \<Rightarrow> prune" where
  "prune_of dst rs = \<lparr>pr_snapshots = rs, pr_datasets = whole_datasets dst rs, pr_kept = []\<rparr>"

definition legacy_history :: "(string, dest) dict \<Rightarrow> (string, string) dict \<Rightarrow> string \<Rightarrow> py_error + prune" where
  "legacy_history dst pins first = (case first_point_time (point_times dst) first of
     Inl e \<Rightarrow> Inl e
   | Inr start \<Rightarrow> Inr (prune_of dst (concat (map (legacy_of pins start) (sort_key fst dst)))))"

definition or_fatal :: "string \<Rightarrow> (('w, 'z) session_scheme, 'a) reading \<Rightarrow> (('w, 'z) session_scheme, 'a) step" where
  "or_fatal pool act = do {
     r \<leftarrow> act;
     case r of Inl e \<Rightarrow> fatal (''Cannot read '' @ pool @ '': '' @ e) | Inr a \<Rightarrow> State_Monad.return (Inr a)
   }"

definition reread :: "'w host \<Rightarrow> string \<Rightarrow> (('w, 'z) session_scheme, (string, dest) dict) step" where
  "reread h pool = or_fatal pool (read_dest (h_exec h) pool True)"

text \<open>The points offered beyond the policy, each with what it and the ones above it free.\<close>

fun offer_points ::
    "'w shell \<Rightarrow> string \<Rightarrow> (string, dest) dict \<Rightarrow> (string, string) dict \<Rightarrow> string list \<Rightarrow> removal list
      \<Rightarrow> (('w, 'z) machine_scheme, unit) action" where
  "offer_points exec pool dst pins [] rs = State_Monad.return ()"
| "offer_points exec pool dst pins (name # names) rs =
     (let rs = rs @ point_removals dst name pins [] in do {
        _ \<leftarrow> reclaim exec pool rs (map fst (whole_datasets dst rs));
        offer_points exec pool dst pins names rs
      })"

text \<open>The plan for the \<open>n\<close> oldest of them.\<close>

definition oldest_plan :: "(string, dest) dict \<Rightarrow> (string, string) dict \<Rightarrow> string list \<Rightarrow> nat \<Rightarrow> prune" where
  "oldest_plan dst pins names n = prune_of dst (concat (map (\<lambda>name. point_removals dst name pins []) (take n names)))"

definition beyond_points ::
    "'w host \<Rightarrow> string \<Rightarrow> (string, dest) dict \<Rightarrow> (string, string) dict \<Rightarrow> string list
      \<Rightarrow> (('w, 'z) session_scheme, (string, dest) dict) step" where
  "beyond_points h pool dst pins names =
     (if names = [] then State_Monad.return (Inr dst)
      else do {
        _ \<leftarrow> offer_points (h_exec h) pool dst pins names [];
        raw \<leftarrow> ask_input ''0'';
        let n = (if isdigit raw then min (dec_val raw) (length names) else 0);
        let plan = oldest_plan dst pins names n;
        sure \<leftarrow> (if pr_snapshots plan \<noteq> [] then typed else State_Monad.return False);
        if sure then do { _ \<leftarrow> apply_prune (h_exec h) pool plan; reread h pool }
        else State_Monad.return (Inr dst)
      })"

definition beyond_history ::
    "'w host \<Rightarrow> string \<Rightarrow> (string, dest) dict \<Rightarrow> (string, string) dict \<Rightarrow> string \<Rightarrow> (('w, 'z) session_scheme, unit) step" where
  "beyond_history h pool dst pins first = (case legacy_history dst pins first of
     Inl e \<Rightarrow> State_Monad.return (Inl (Raised e))
   | Inr legacy \<Rightarrow>
       if prune_empty legacy then State_Monad.return (Inr ())
       else do {
         _ \<leftarrow> reclaim (h_exec h) pool (pr_snapshots legacy) (map fst (pr_datasets legacy));
         sure \<leftarrow> typed;
         _ \<leftarrow> (if sure then apply_prune (h_exec h) pool legacy else State_Monad.return (0, []));
         State_Monad.return (Inr ())
       })"

definition beyond ::
    "'w host \<Rightarrow> string \<Rightarrow> (string, dest) dict \<Rightarrow> complete_set \<Rightarrow> (string, string) dict \<Rightarrow> policy \<Rightarrow> int \<Rightarrow> prune
      \<Rightarrow> (('w, 'z) session_scheme, unit) step" where
  "beyond h pool dst complete pins pol now p =
     on_step (beyond_points h pool dst pins (offered dst (cs_run complete) pol now p (cs_whole complete) pins))
       (\<lambda>dst. beyond_history h pool dst pins (cs_first complete))"

text \<open>\<open>_excluded_held\<close>: each subtree excluded from backups that the drive still holds.\<close>

fun offer_held ::
    "'w host \<Rightarrow> string \<Rightarrow> string \<Rightarrow> (string, origin) dict \<Rightarrow> declared \<Rightarrow> (string, dest) dict \<Rightarrow> string list
      \<Rightarrow> (('w, 'z) session_scheme, unit) step" where
  "offer_held h pool guid ori dc dst [] = State_Monad.return (Inr ())"
| "offer_held h pool guid ori dc dst (t # ts) =
     (let deps = destroy_plan dst t in
      if \<not> plan_ok deps then offer_held h pool guid ori dc dst ts
      else do {
        sure \<leftarrow> typed;
        r \<leftarrow> (if sure then destroy_held (h_exec h) pool t (flags_of dc t) guid ori deps else State_Monad.return (Inr True));
        case r of Inl e \<Rightarrow> State_Monad.return (Inl (Raised e)) | Inr _ \<Rightarrow> offer_held h pool guid ori dc dst ts
      })"

definition excluded_held :: "'w host \<Rightarrow> string \<Rightarrow> string \<Rightarrow> (('w, 'z) session_scheme, unit) step" where
  "excluded_held h pool guid = do {
     pools \<leftarrow> source_pools (h_exec h);
     if ''rpool'' \<notin> set pools then State_Monad.return (Inr ())
     else do {
       got \<leftarrow> on_read (read_origin (h_exec h) pools True) (\<lambda>ori.
               on_read (read_exclusions (h_exec h) pools ori True) (\<lambda>dc.
               on_read (read_dest (h_exec h) pool True) (\<lambda>dst. State_Monad.return (Inr (ori, dc, dst)))));
       case got of
         Inl e \<Rightarrow> State_Monad.return (Inr ())
       | Inr (ori, dc, dst) \<Rightarrow>
           offer_held h pool guid ori dc dst (filter (\<lambda>t. map_of dst t \<noteq> None) (sort (no_backup dc)))
     }
   }"

text \<open>\<open>_record_contents\<close>: an exception of the pass leaves the contents empty.\<close>

definition record_contents :: "'w host \<Rightarrow> string \<Rightarrow> string \<Rightarrow> policy \<Rightarrow> (('w, 'z) prune_session_scheme, unit) action" where
  "record_contents h pool guid pol = do {
     now \<leftarrow> now_of h;
     sp \<leftarrow> read_space (h_exec h) (iso_text now) pool;
     case sp of None \<Rightarrow> State_Monad.return ()
     | Some s \<Rightarrow> do {
         c \<leftarrow> contents_measure (h_exec h) (h_clock h) (h_tick h) pool pol None None;
         record_update guid (s, case c of Inl e \<Rightarrow> DriveContents None | Inr c \<Rightarrow> c)
       }
   }"

text \<open>The policy's removals, on a yes; the listing and the plan to go on with.\<close>

definition apply_retention ::
    "'w host \<Rightarrow> string \<Rightarrow> (string, dest) dict \<Rightarrow> prune \<Rightarrow> (('w, 'z) session_scheme, (string, dest) dict \<times> prune) step" where
  "apply_retention h pool dst p =
     (if prune_empty p then State_Monad.return (Inr (dst, p))
      else do {
        _ \<leftarrow> reclaim (h_exec h) pool (pr_snapshots p) (map fst (pr_datasets p));
        sure \<leftarrow> ask False None;
        if sure then do {
          _ \<leftarrow> apply_prune (h_exec h) pool p;
          on_step (reread h pool) (\<lambda>dst. State_Monad.return (Inr (dst, \<lparr>pr_snapshots = [], pr_datasets = [], pr_kept = []\<rparr>)))
        }
        else State_Monad.return (Inr (dst, p))
      })"

text \<open>The body between the import of the drive and its cleanup.\<close>

definition prune_held ::
    "'w host \<Rightarrow> config \<Rightarrow> string \<Rightarrow> string \<Rightarrow> (('w, 'z) prune_session_scheme, unit) step" where
  "prune_held h c pool guid = (let pol = drive_policy c pool; exec = h_exec h in do {
     now \<leftarrow> now_of h;
     on_step (or_fatal pool (on_read (read_dest exec pool True) (\<lambda>dst.
         on_read (drive_complete exec pool) (\<lambda>complete.
         on_read (drive_pins exec pool True) (\<lambda>pins. State_Monad.return (Inr (dst, complete, pins)))))))
       (\<lambda>(dst, complete, pins).
         case plan_prune dst (cs_run complete) pol now (Some (cs_whole complete)) pins [] (cs_first complete) of
           Inl e \<Rightarrow> State_Monad.return (Inl (Raised e))
         | Inr p \<Rightarrow>
             on_step (apply_retention h pool dst p)
               (\<lambda>(dst, p).
                 on_step (beyond h pool dst complete pins pol now p) (\<lambda>_.
                 on_step (excluded_held h pool guid) (\<lambda>_.
                 as_step (record_contents h pool guid pol)))))
   })"

definition prune_drive ::
    "'w host \<Rightarrow> config \<Rightarrow> connected_drive \<Rightarrow> (('w, 'z) prune_session_scheme, unit) step" where
  "prune_drive h c drive = (let exec = h_exec h; pool = cd_name drive in do {
     device \<leftarrow> backup_device exec (h_paths h) drive;
     there \<leftarrow> import_backup_pool exec (h_out h) pool (case device of None \<Rightarrow> '''' | Some d \<Rightarrow> d) '''' False (cd_guid drive);
     if \<not> there then fatal (''Cannot import pool '' @ pool)
     else do {
       _ \<leftarrow> track_pool pool;
       mine \<leftarrow> check_drive_owner exec (h_machine_id h) pool;
       if \<not> mine then fatal (pool @ '' is not a backup of this system'')
       else on_step (prune_held h c pool (cd_guid drive)) (\<lambda>_. do {
         _ \<leftarrow> cleanup_run exec (h_out h) (h_fs h) (\<lambda>_. State_Monad.return ());
         yes \<leftarrow> (case device of None \<Rightarrow> State_Monad.return False | Some _ \<Rightarrow> ask False None);
         _ \<leftarrow> prompt_eject_or_attach exec (\<lambda>_ _. yes) device False False;
         State_Monad.return (Inr ())
       })
     }
   })"


section \<open>The command\<close>

text \<open>\<open>run\<close>, and the \<open>Cleanup\<close> that runs at exit whatever ended it.\<close>

definition prune_body :: "'w host \<Rightarrow> found \<Rightarrow> (('w, 'z) prune_session_scheme, (stop + unit) option) action" where
  "prune_body h f = (case config_load f of
     Inl e \<Rightarrow> State_Monad.return (Some (Inl (Raised e)))
   | Inr c \<Rightarrow>
       if cf_load_error c \<noteq> None
       then do { r \<leftarrow> fatal ''known_drives.json is malformed - refusing to continue''; State_Monad.return (Some r) }
       else do {
         found_drives \<leftarrow> scan_connected_drives (h_exec h) (h_paths h) (cf_known_drives c);
         let drives = filter cd_known found_drives;
         pools \<leftarrow> source_pools (h_exec h);
         let at_origin = (if ''rpool'' \<in> set pools then 1 else 0);
         if at_origin + length drives = 0
         then do { r \<leftarrow> fatal ''Nothing to prune here''; State_Monad.return (Some r) }
         else do {
           pick \<leftarrow> ask_choice (at_origin + length drives) 0;
           case pick of Inl e \<Rightarrow> State_Monad.return (Some (Inl e))
           | Inr k \<Rightarrow> if k < at_origin then prune_origin h c
               else do { r \<leftarrow> prune_drive h c (drives ! (k - at_origin)); State_Monad.return (Some r) }
         }
       })"

definition prune_command :: "'w host \<Rightarrow> found \<Rightarrow> (('w, 'z) prune_session_scheme, (stop + unit) option) action" where
  "prune_command h f = do {
     r \<leftarrow> prune_body h f;
     _ \<leftarrow> cleanup_run (h_exec h) (h_out h) (h_fs h) (\<lambda>_. State_Monad.return ());
     State_Monad.return r
   }"

end
