(* ===== verification/Prune_Safe.thy ===== *)
theory Prune_Safe
  imports Prune_Command
begin

text \<open>
  What \<open>zark prune\<close> may do: the commands it issues without a confirmation, what the plans it offers on a drive
  can remove, and that its menu ends.
\<close>

section \<open>Lemmas: what is issued without a confirmation\<close>

text \<open>A command that leaves every dataset, snapshot and bookmark as it is: none of the subcommands that change them,
  but for the dry run of a destroy.\<close>

definition spares :: "cmd \<Rightarrow> bool" where
  "spares c = (case c of
     Line l \<Rightarrow> startswith l ''zfs destroy -nvp '' \<or> \<not> starts_any l [''zfs destroy '', ''zfs rename '', ''zfs bookmark '',
       ''zfs set '', ''zfs inherit '', ''zfs rollback '', ''zfs receive '', ''zfs snapshot '', ''zfs create '', ''zfs promote '',
       ''zpool destroy '', ''zpool create '']
   | Argv ws \<Rightarrow> take 1 ws \<noteq> [''zfs''] \<and> take 1 ws \<noteq> [''zpool''])"

lemma spares_looks: "looks c \<Longrightarrow> spares c"
  by (auto simp: looks_def is_read_def is_dry_run_def spares_def starts_any_def startswith_def prefix_def split: cmd.splits)

lemma spares_Line: "spares (Line l) \<longleftrightarrow> startswith l ''zfs destroy -nvp '' \<or> \<not> starts_any l [''zfs destroy '', ''zfs rename '',
    ''zfs bookmark '', ''zfs set '', ''zfs inherit '', ''zfs rollback '', ''zfs receive '', ''zfs snapshot '', ''zfs create '',
    ''zfs promote '', ''zpool destroy '', ''zpool create '']"
  by (simp add: spares_def)

lemmas spares_line = spares_Line starts_any_def startswith_def

lemma spares_look: "issues looks act \<Longrightarrow> issues spares act"
  by (erule issues_mono) (rule spares_looks)

lemma spares_read: "issues is_read act \<Longrightarrow> issues spares act"
  by (rule spares_look [OF looks_read])

lemma issues_ask_path [issues_rules]: "issues P (ask_path f)"
  unfolding ask_path_def by (intro issues_rules)

lemma issues_set_world [issues_rules]: "issues P (set_world f)"
  unfolding issues_def set_world_def
proof
  fix m :: "('a, 'b) machine_scheme"
  show "\<exists>w cs. list_all P cs \<and> snd (run_state (State_Monad.update (\<lambda>m. m\<lparr>m_world := f (m_world m)\<rparr>)) m)
      = m\<lparr>m_world := w, m_issued := m_issued m @ cs\<rparr>"
    by (intro exI [of _ "f (m_world m)"] exI [of _ "[]"])
       (simp add: State_Monad.update_def State_Monad.get_def State_Monad.set_def)
qed

named_theorems spares_rules "actions that issue only commands that spare the data"

lemma spares_source_pools [spares_rules]: "issues spares (source_pools exec)"
  by (rule spares_read [OF issues_source_pools])

lemma spares_read_origin [spares_rules]: "issues spares (read_origin exec pools strict)"
  by (rule spares_read [OF issues_read_origin])

lemma spares_read_dest [spares_rules]: "issues spares (read_dest exec pool strict)"
  by (rule spares_read [OF issues_read_dest])

lemma spares_complete [spares_rules]: "issues spares (drive_complete exec pool)"
  by (rule spares_read [OF issues_drive_complete])

lemma spares_pins [spares_rules]: "issues spares (drive_pins exec pool strict)"
  by (rule spares_read [OF issues_drive_pins])

lemma spares_contents [spares_rules]: "issues spares (contents_measure exec clock tick pool pol now budget)"
  by (rule spares_look [OF looks_contents_measure])

lemma spares_owner [spares_rules]: "issues spares (check_drive_owner exec mine pool)"
  by (rule spares_read [OF issues_check_drive_owner])

lemma spares_reclaim_names [spares_rules]: "issues spares (reclaim_names exec names)"
proof -
  have "issues looks (sum_dry_runs exec rows tot)" for rows tot
  proof (induction rows arbitrary: tot)
    case (Cons row rows)
    then show ?case by (cases row) (auto intro!: issues_rules)
  qed (auto intro: issues_rules)
  then show ?thesis unfolding reclaim_names_def by (rule spares_look)
qed

lemma spares_reclaim [spares_rules]: "issues spares (reclaim exec pool rs tops)"
proof -
  have "issues looks (sum_used exec pool ts tot)" for ts tot
    by (induction ts arbitrary: tot) (auto intro!: issues_rules looks_used)
  then show ?thesis unfolding reclaim_def by (intro issues_rules spares_reclaim_names spares_look)
qed

lemma spares_point_owners [spares_rules]: "issues spares (point_owners exec pools)"
proof -
  have "issues is_read (owners_of exec ps out)" for ps out
    by (induction ps arbitrary: out) (auto intro!: issues_rules issues_snapshot_marks)
  then show ?thesis unfolding point_owners_def by (rule spares_read)
qed

lemma spares_read_exclusions [spares_rules]: "issues spares (read_exclusions exec pools ori strict)"
proof -
  have "issues is_read (exclusion_lines exec strict ps out)" for ps out
    by (induction ps arbitrary: out) (auto simp: is_read_def startswith_def exclusions_list_def intro!: issues_rules)
  then show ?thesis unfolding read_exclusions_def by (intro issues_rules spares_read)
qed

lemma spares_space [spares_rules]: "issues spares (read_space exec at pool)"
  unfolding read_space_def by (intro issues_rules) (simp_all add: spares_line)

lemma spares_capacity [spares_rules]: "issues spares (capacity exec)"
proof -
  have "issues spares (pool_levels exec ps)" for ps
    by (induction ps) (auto simp: spares_line intro!: issues_rules)
  then show ?thesis unfolding capacity_def by (intro issues_rules spares_source_pools)
qed

lemma spares_summary [spares_rules]: "issues spares (summary exec iv)"
proof -
  have "issues spares (free_all exec kinds)" for kinds
    by (induction kinds) (auto intro!: issues_rules spares_reclaim_names)
  then show ?thesis unfolding summary_def .
qed

lemma spares_offer [spares_rules]: "issues spares (offer_points exec pool dst pins names rs)"
  by (induction names arbitrary: rs) (auto simp: Let_def intro!: issues_rules spares_reclaim)

lemma spares_now [spares_rules]: "issues spares (now_of h)"
  unfolding now_of_def by (intro issues_rules)

lemma spares_label [spares_rules]: "issues spares (read_pool_label exec dev)"
  unfolding read_pool_label_def by (intro issues_rules) (simp_all add: spares_line)

lemma spares_lsblk [spares_rules]: "issues spares (lsblk_fields exec node)"
  unfolding lsblk_fields_def by (intro issues_rules) (simp_all add: spares_line)

lemma spares_by_id [spares_rules]: "issues spares (by_id_names exec disk)"
  unfolding by_id_names_def by (intro issues_rules) (simp_all add: spares_line)

lemma spares_whole_disk [spares_rules]: "issues spares (whole_disk exec ps dev)"
  unfolding whole_disk_def by (intro issues_rules spares_lsblk)

lemma spares_names_of [spares_rules]: "issues spares (names_of exec disk)"
  unfolding names_of_def by (intro issues_rules spares_by_id spares_lsblk)

lemma spares_locate [spares_rules]: "issues spares (locate_registered exec ps info)"
proof -
  have "issues spares (locate_names exec ps guid names other)" for guid names other
    unfolding label_behind_def by (induction names arbitrary: other)
      (auto simp: label_behind_def intro!: issues_rules spares_label)
  then show ?thesis unfolding locate_registered_def .
qed

lemma spares_drive_id [spares_rules]: "issues spares (get_drive_id exec ps dev)"
  unfolding get_drive_id_def by (intro issues_rules spares_whole_disk spares_by_id)

lemma spares_drive_info [spares_rules]: "issues spares (get_drive_info exec ps dev)"
  unfolding get_drive_info_def by (intro issues_rules spares_whole_disk) (simp_all add: spares_line)

lemma spares_add_pool [spares_rules]: "issues spares (add_pool exec ps known name guid did st dev sc)"
  unfolding add_pool_def drive_facts_def by (intro issues_rules spares_drive_info)

lemma spares_scan [spares_rules]: "issues spares (scan_connected_drives exec ps known)"
proof -
  have e: "issues spares (process_entries exec ps known es sc)" for es sc
    by (induction es arbitrary: sc)
      (auto simp: process_blkid_entry_def Let_def intro!: issues_rules spares_drive_id spares_add_pool)
  have i: "issues spares (process_imported exec ps known pools sc)" for pools sc
    by (induction pools arbitrary: sc) (auto simp: pool_get_cmd_def spares_line intro!: issues_rules spares_add_pool)
  have r: "issues spares (process_registered exec ps known rest sc)" for rest sc
  proof (induction rest arbitrary: sc)
    case (Cons row rest)
    then show ?case by (cases row) (auto intro!: issues_rules spares_locate spares_add_pool)
  qed (auto intro: issues_rules)
  show ?thesis unfolding scan_connected_drives_def
    by (intro issues_rules e i r) (simp_all add: POOLS_LIST_def spares_line)
qed

lemma spares_first_there [spares_rules]: "issues spares (first_there ps ns dev)"
  by (induction ns) (auto intro!: issues_rules)

lemma spares_device [spares_rules]: "issues spares (backup_device exec ps drive)"
  unfolding backup_device_def imported_vdev_def
  by (intro issues_rules spares_whole_disk spares_names_of spares_first_there) (simp_all add: spares_line)

lemma spares_exists [spares_rules]: "issues spares (pool_exists exec p)"
  unfolding pool_exists_def by (intro issues_rules) (simp_all add: pool_list_cmd_def spares_line)

lemma spares_guid [spares_rules]: "issues spares (pool_guid exec p)"
  unfolding pool_guid_def by (intro issues_rules) (simp_all add: pool_get_cmd_def spares_line)

lemma spares_altroot [spares_rules]: "issues spares (remove_altroot_dir out d)" "issues spares (remove_altroot_base out)"
  unfolding remove_altroot_dir_def remove_altroot_base_def by (intro issues_rules)+

lemma spares_export_tries [spares_rules]: "issues spares (export_after_udev exec name)"
proof -
  have "issues spares (export_tries exec name n)" for n
    by (induction n) (auto simp: export_cmd_def export_force_cmd_def spares_line intro!: issues_rules)
  then show ?thesis unfolding export_after_udev_def .
qed

lemma spares_import [spares_rules]: "issues spares (import_backup_pool exec out name device altroot ro guid)"
proof -
  have t: "issues spares (import_tries exec out name device root ro guid fs)" for root fs
    by (induction fs) (auto simp: is_expected_def backup_import_cmd_def spares_line
        intro!: issues_rules spares_guid spares_export_tries spares_altroot)
  show ?thesis unfolding import_backup_pool_def
    by (intro issues_rules spares_exists spares_guid t) (simp_all add: pool_get_cmd_def spares_line)
qed

lemma spares_mounts [spares_rules]: "issues spares (release_mounts exec fs ps)"
  by (induction ps) (auto simp: spares_line intro!: issues_rules)

lemma spares_keystores [spares_rules]: "issues spares (close_keystores exec fs ks)"
  by (induction ks) (auto simp: keystore_umount_def spares_line intro!: issues_rules)

lemma spares_dirs [spares_rules]: "issues spares (remove_dirs exec fs ds)"
  by (induction ds) (auto simp: spares_line intro!: issues_rules)

lemma spares_export_one [spares_rules]: "issues spares (export_one exec p)"
  unfolding export_one_def
  by (intro issues_rules) (simp_all add: unload_key_cmd_def export_cmd_def export_force_cmd_def spares_line)

lemma spares_flush [spares_rules]: "issues spares (flush_device_cache exec)" "issues spares (eject_device exec d)"
  unfolding flush_device_cache_def eject_device_def by (intro issues_rules; simp add: spares_line)+

lemma spares_eject [spares_rules]: "issues spares (prompt_eject_or_attach exec answer device de ae)"
  unfolding prompt_eject_or_attach_def by (intro issues_rules spares_flush)


section \<open>Lemmas: nothing goes without a confirmation\<close>

text \<open>The lines that confirm something: the word, or a yes.\<close>

definition consents :: "string \<Rightarrow> bool" where
  "consents l = (strip l = WORD \<or> startswith (lower (strip l)) ''y'')"

definition unasked :: "cmd list \<Rightarrow> ('w, 'z) session_scheme \<Rightarrow> bool" where
  "unasked before m = (all_lines (\<lambda>l. \<not> consents l) m \<and> (\<exists>cs. m_issued m = before @ cs \<and> list_all spares cs))"

interpretation un: asking "unasked before :: ('w, 'z) session_scheme \<Rightarrow> bool" spares for before
proof
  fix m :: "('w, 'z) session_scheme" and cs w
  assume "unasked before m" "list_all spares cs"
  then obtain ds where "m_issued m = before @ ds" "list_all spares ds" "all_lines (\<lambda>l. \<not> consents l) m"
    unfolding unasked_def by blast
  with \<open>list_all spares cs\<close> show "unasked before (m\<lparr>m_world := w, m_issued := m_issued m @ cs\<rparr>)"
    unfolding unasked_def by (intro conjI exI [of _ "ds @ cs"]) (simp_all add: all_lines_def)
next
  show "line_proof (unasked before :: ('w, 'z) session_scheme \<Rightarrow> bool)"
    by (auto simp: line_proof_def unasked_def all_lines_def list_all_iff suffix_def)
qed

lemma keeps_typed:
  assumes "keeps (unasked before) (f False)"
  shows "keeps (unasked before) (State_Monad.bind typed f)"
proof -
  have no: "strip l \<noteq> WORD" if "\<not> consents l" for l using that by (simp add: consents_def)
  have "keeps (unasked before) read_line" by (rule un.keeps_question)
  then have "unasked before (snd (run_state typed m)) \<and> \<not> fst (run_state typed m)" if "unasked before m" for m :: "('a, 'b) session_scheme"
    using that no by (cases "se_lines m")
      (auto simp: keeps_def typed_def ask_text_def read_line_def unasked_def all_lines_def WORD_def)
  with assms show ?thesis by (auto simp: keeps_def split: prod.split) (metis fst_conv snd_conv)
qed

lemma keeps_ask_no:
  assumes "keeps (unasked before) (f False)"
  shows "keeps (unasked before) (State_Monad.bind (ask False None) f)"
proof -
  have no: "\<not> yes_no False (lower (strip l))" if "\<not> consents l" for l
    using that by (simp add: consents_def yes_no_def)
  have "keeps (unasked before) read_line" by (rule un.keeps_question)
  then have "unasked before (snd (run_state (ask False None) m)) \<and> \<not> fst (run_state (ask False None) m)"
    if "unasked before m" for m :: "('a, 'b) session_scheme"
    using that no by (cases "se_lines m")
      (auto simp: keeps_def ask_def read_line_def unasked_def all_lines_def yes_no_def)
  with assms show ?thesis by (auto simp: keeps_def split: prod.split) (metis fst_conv snd_conv)
qed

lemmas un_acts = spares_rules [THEN un.keeps_allowed]

lemma keeps_by_age: "keeps (unasked before) (by_age h iv)"
  unfolding by_age_def Let_def
  by (rule keeps_bind, rule un.keeps_question, rule keeps_if, rule keeps_return, rule keeps_bind, rule un_acts,
      rule keeps_if, rule keeps_return, rule keeps_bind, rule un_acts, rule keeps_typed) (simp add: keeps_return)

lemma keeps_residues: "keeps (unasked before) (residues h iv)"
  unfolding residues_def by (rule keeps_bind, rule un_acts, rule keeps_ask_no) (simp add: keeps_return)

lemma keeps_points_left: "keeps (unasked before) (points_left h iv)"
  unfolding points_left_def Let_def
  by (rule keeps_bind, rule un_acts, rule keeps_bind, rule un_acts, rule keeps_typed) (simp add: keeps_return)

lemma keeps_drop_anchors: "keeps (unasked before) (drop_drive_anchors h iv drives)"
  unfolding drop_drive_anchors_def Let_def
  by (rule keeps_on_step, rule un.keeps_question, rule keeps_if, rule keeps_return, rule keeps_bind, rule un_acts, rule keeps_typed)
     (simp add: keeps_return)

lemma keeps_as_step: "keeps I act \<Longrightarrow> keeps I (as_step act)"
  unfolding as_step_def by (intro keeps_rules)

lemma keeps_menu_act: "keeps (unasked before) (menu_act h iv drives item)"
  unfolding menu_act_def by (cases item)
    (simp_all add: keeps_return keeps_as_step keeps_by_age keeps_residues keeps_points_left keeps_drop_anchors)

lemma keeps_origin_menu: "keeps (unasked before) (origin_menu n h drives)"
proof (induction n)
  case (Suc n)
  show ?case unfolding origin_menu.simps Let_def
    by (intro keeps_rules un_acts un.keeps_question keeps_menu_act Suc)
qed (simp add: keeps_return)

lemma keeps_get: "keeps I State_Monad.get"
  by (simp add: keeps_def State_Monad.get_def)

lemma keeps_prune_origin: "keeps (unasked before) (prune_origin h c)"
  unfolding prune_origin_def by (intro keeps_rules keeps_get keeps_origin_menu)

lemma keeps_beyond: "keeps (unasked before) (beyond h pool dst complete pins pol now p)"
proof -
  have r: "keeps (unasked before) (reread h pool)"
    unfolding reread_def or_fatal_def by (intro keeps_rules un_acts un.keeps_question)
  have p: "keeps (unasked before) (beyond_points h pool dst pins names)" for names
    unfolding beyond_points_def Let_def
    by (rule keeps_if, rule keeps_return, rule keeps_bind, rule un_acts, rule keeps_bind, rule un.keeps_question)
       (simp add: keeps_return keeps_typed)
  have l: "keeps (unasked before) (beyond_history h pool dst pins first)" for dst first
    unfolding beyond_history_def
    by (rule keeps_case_sum, rule keeps_return, rule keeps_if, rule keeps_return, rule keeps_bind, rule un_acts, rule keeps_typed)
       (simp add: keeps_return)
  show ?thesis unfolding beyond_def by (intro keeps_rules p l)
qed

lemma keeps_offer_held: "keeps (unasked before) (offer_held h pool guid ori dc dst ts)"
proof (induction ts)
  case (Cons t ts)
  show ?case unfolding offer_held.simps Let_def
    by (rule keeps_if, rule Cons, rule keeps_typed) (simp add: Cons)
qed (simp add: keeps_return)

lemma keeps_then_read: "keeps I act \<Longrightarrow> (\<And>a. keeps I (f a)) \<Longrightarrow> keeps I (on_read act f)"
  unfolding on_read_def by (intro keeps_rules)

lemma keeps_excluded_held: "keeps (unasked before) (excluded_held h pool guid)"
  unfolding excluded_held_def by (intro keeps_rules keeps_then_read un_acts keeps_offer_held)

lemma keeps_record_contents: "keeps (unasked before) (record_contents h pool guid pol)"
  unfolding record_contents_def record_update_def
  by (intro keeps_rules un_acts) (simp add: unasked_def all_lines_def)

lemma keeps_apply_retention: "keeps (unasked before) (apply_retention h pool dst p)"
  unfolding apply_retention_def
  by (rule keeps_if, rule keeps_return, rule keeps_bind, rule un_acts, rule keeps_ask_no) (simp add: keeps_return)

lemma keeps_prune_held: "keeps (unasked before) (prune_held h c pool guid)"
  unfolding prune_held_def Let_def or_fatal_def
  by (intro keeps_rules keeps_then_read un_acts un.keeps_question keeps_apply_retention keeps_beyond keeps_excluded_held
      keeps_as_step keeps_record_contents)

lemma keeps_cleanup: "keeps (unasked before) (cleanup_run exec out fs (\<lambda>_. State_Monad.return ()))"
proof -
  have a: "keeps (unasked before) (run_actions (\<lambda>_. State_Monad.return ()) as)" for as
    by (induction as) (auto intro!: keeps_rules)
  have e: "keeps (unasked before) (export_pools exec out ps)" for ps
  proof (induction ps)
    case (Cons p ps)
    show ?case unfolding export_pools.simps by (intro keeps_rules un_acts Cons) (simp add: unasked_def all_lines_def)
  qed (simp add: keeps_return)
  show ?thesis unfolding cleanup_run_def cleanup_body_def release_all_def
    by (intro keeps_rules keeps_get a e un_acts) (simp_all add: unasked_def all_lines_def)
qed

lemma keeps_prune_drive: "keeps (unasked before) (prune_drive h c drive)"
proof -
  have t: "keeps (unasked before) (track_pool pool)" for pool
    unfolding track_pool_def by (intro keeps_rules) (simp add: unasked_def all_lines_def)
  show ?thesis unfolding prune_drive_def Let_def
    by (intro keeps_rules un_acts un.keeps_question t keeps_prune_held keeps_cleanup)
qed

lemma keeps_prune_command: "keeps (unasked before) (prune_command h f)"
  unfolding prune_command_def prune_body_def Let_def
  by (intro keeps_rules un_acts un.keeps_question keeps_prune_origin keeps_prune_drive keeps_cleanup)

text \<open>C11: \<open>zark prune\<close> removes nothing that was not confirmed. When no line the operator types is the word \<open>PRUNE\<close>
  or a yes, every command the whole run issues, on origin and on a drive, leaves every dataset, snapshot and
  bookmark as it is, whatever the menus pick and whatever the system answers, and however the run ends.\<close>

theorem prune_asks_first:
  assumes "\<forall>l \<in> set (se_lines m). \<not> consents l" and "run_state (prune_command h f) m = (r, m')"
  shows "\<exists>cs. m_issued m' = m_issued m @ cs \<and> list_all spares cs"
proof -
  have "unasked (m_issued m) m" using assms(1) by (simp add: unasked_def all_lines_def list_all_iff)
  then have "unasked (m_issued m) m'" by (rule keepsD [OF keeps_prune_command _ assms(2)])
  then show ?thesis by (simp add: unasked_def)
qed

definition ex_host :: "unit host" where
  "ex_host = \<lparr>h_exec = (\<lambda>c w. (\<lparr>rr_returncode = 0, rr_stdout = ''rpool'', rr_stderr = ''''\<rparr>, w)),
     h_out = \<lparr>out_rmdir = (\<lambda>_ w. w), out_create = (\<lambda>_ _ w. (True, w)), out_usb_ids = (\<lambda>_ _. ('''', '''')), out_stamp = (\<lambda>_. '''')\<rparr>,
     h_fs = \<lparr>kp_there = (\<lambda>_ _. False), kp_is_mount = (\<lambda>_ _. False), kp_mkdir = (\<lambda>_ w. w)\<rparr>,
     h_paths = \<lparr>at_real = (\<lambda>_ p. p), at_there = (\<lambda>_ _. False), at_block = (\<lambda>_ _. False), at_sectors = (\<lambda>_ _. None)\<rparr>,
     h_clock = (\<lambda>_. 1775779200), h_tick = (\<lambda>_. 0), h_machine_id = ''m''\<rparr>"

definition ex_lines :: "string list" where "ex_lines = [''1'', ''2'', ''30'', ''no'', ''1'']"

definition ex_session :: "unit prune_session" where
  "ex_session = \<lparr>m_world = (), m_issued = [], tk_pools = [], cl_mounts = [], cl_keystores = [], cl_dirs = [], cl_actions = [],
     cl_exported = [], cl_disabled = False, se_lines = ex_lines, pg_active = True, pg_updates = []\<rparr>"

theorem prune_asks_first_witness:
  "list_all (\<lambda>l. \<not> consents l) ex_lines
   \<and> (\<exists>r m' cs. run_state (prune_command ex_host Absent) ex_session = (r, m') \<and> m_issued m' = cs \<and> list_all spares cs)"
proof -
  have lines: "list_all (\<lambda>l. \<not> consents l) ex_lines" by code_simp
  obtain r m' where r: "run_state (prune_command ex_host Absent) ex_session = (r, m')" by fastforce
  have "\<forall>l \<in> set (se_lines ex_session). \<not> consents l" using lines by (simp add: ex_session_def list_all_iff)
  from prune_asks_first [OF this r] lines r show ?thesis by (auto simp: ex_session_def)
qed


section \<open>Lemmas: what the offers on a drive can remove\<close>

text \<open>A list of removals of a drive: each names one of its snapshots, and no snapshot is named twice.\<close>

definition spot :: "removal \<Rightarrow> string \<times> string" where
  "spot r = (rm_rel r, rm_name r)"

definition removals_in :: "(string, dest) dict \<Rightarrow> removal list \<Rightarrow> bool" where
  "removals_in dst rs = (distinct (map spot rs)
     \<and> (\<forall>r \<in> set rs. \<exists>d s. (rm_rel r, d) \<in> set dst \<and> s \<in> set (d_snaps d) \<and> r_name s = rm_name r))"

text \<open>ZFS gives the snapshots of a dataset distinct names.\<close>

definition names_apart :: "(string, dest) dict \<Rightarrow> bool" where
  "names_apart dst = (\<forall>(rel, d) \<in> set dst. distinct (map r_name (d_snaps d)))"

text \<open>So a dataset of which as many snapshots go as it has loses all of them.\<close>

lemma emptied_loses_all:
  assumes "wf_dict dst" and "names_apart dst" and "removals_in dst rs" and "(rel, d) \<in> set dst" and "rel \<in> set (emptied dst rs)"
    and "s \<in> set (d_snaps d)"
  shows "\<exists>r \<in> set rs. rm_rel r = rel \<and> rm_name r = r_name s"
proof -
  let ?mine = "filter (\<lambda>r. rm_rel r = rel) rs"
  have uniq: "d' = d" if "(rel, d') \<in> set dst" for d' using that assms(1,4) by (metis option.inject wf_dict_map_of)
  have "distinct (map spot ?mine)" using assms(3) by (auto simp: removals_in_def distinct_map intro: inj_on_subset)
  then have "distinct (map rm_name ?mine)" by (auto simp: distinct_map inj_on_def spot_def)
  moreover have "set (map rm_name ?mine) \<subseteq> set (map r_name (d_snaps d))"
    using assms(3) uniq by (force simp: removals_in_def)
  moreover have "length ?mine = length (d_snaps d)" using assms(5) uniq by (auto simp: emptied_def going_def)
  moreover have "distinct (map r_name (d_snaps d))" using assms(2,4) by (auto simp: names_apart_def)
  ultimately have "set (map rm_name ?mine) = set (map r_name (d_snaps d))"
    by (metis card_subset_eq distinct_card length_map List.finite_set)
  with assms(6) have "r_name s \<in> set (map rm_name ?mine)" by simp
  then show ?thesis by auto
qed

lemma whole_offers:
  assumes "wf_dict dst" and "names_apart dst" and "removals_in dst rs" and "(t, why) \<in> set (pr_datasets (prune_of dst rs))"
  shows "\<exists>d. (t, d) \<in> set dst \<and> \<not> is_live t d"
    and "(rel, d) \<in> set dst \<Longrightarrow> under rel t \<Longrightarrow> s \<in> set (d_snaps d) \<Longrightarrow> \<exists>r \<in> set rs. rm_rel r = rel \<and> rm_name r = r_name s"
proof -
  have ok: "tops_ok dst (emptied dst rs) (whole_datasets dst rs)" by (rule whole_datasets_ok [OF assms(1)])
  have t: "(t, why) \<in> set (whole_datasets dst rs)" using assms(4) by (simp add: prune_of_def)
  with ok show "\<exists>d. (t, d) \<in> set dst \<and> \<not> is_live t d" by (fastforce simp: tops_ok_def emptied_def)
  show "\<exists>r \<in> set rs. rm_rel r = rel \<and> rm_name r = r_name s"
    if "(rel, d) \<in> set dst" "under rel t" "s \<in> set (d_snaps d)"
  proof -
    from ok t that have "rel \<in> set (emptied dst rs)" by (fastforce simp: tops_ok_def)
    from emptied_loses_all [OF assms(1-3) that(1) this that(3)] show ?thesis .
  qed
qed

text \<open>Lists of removals joined row by row, or name by name, name no snapshot twice.\<close>

lemma distinct_spots:
  assumes "distinct (map key xs)"
    and "\<And>x. x \<in> set xs \<Longrightarrow> distinct (map spot (f x))"
    and "\<And>x r. x \<in> set xs \<Longrightarrow> r \<in> set (f x) \<Longrightarrow> part (spot r) = key x"
  shows "distinct (map spot (concat (map f xs)))"
  using assms
proof (induction xs)
  case (Cons x xs)
  have "set (map spot (f x)) \<inter> set (map spot (concat (map f xs))) = {}"
  proof (rule ccontr)
    assume "set (map spot (f x)) \<inter> set (map spot (concat (map f xs))) \<noteq> {}"
    then obtain r y q where "r \<in> set (f x)" "y \<in> set xs" "q \<in> set (f y)" "spot r = spot q" by (auto, metis)
    then have "key x = key y" using Cons.prems(3) [of x r] Cons.prems(3) [of y q] by simp
    with \<open>y \<in> set xs\<close> Cons.prems(1) show False by auto
  qed
  with Cons show ?case by simp
qed simp

lemma distinct_named: "distinct (map r_name ss) \<Longrightarrow> distinct (map (\<lambda>s. (rel :: string, r_name s)) (filter P ss))"
  by (induction ss) auto

lemma point_removals_in:
  assumes "wf_dict dst" and "names_apart dst"
  shows "removals_in dst (point_removals dst name pins prot)"
proof -
  have d: "distinct (map fst (sort_key fst dst))" using assms(1) by (simp add: wf_dict_def dict_keys_def distinct_map)
  have "distinct (map spot (point_removals dst name pins prot))"
    unfolding point_removals_def
    by (rule distinct_spots [OF d, where part = fst], insert assms(2))
      (auto simp: names_apart_def Let_def spot_def comp_def intro!: distinct_named)
  moreover have "\<exists>d s. (rm_rel r, d) \<in> set dst \<and> s \<in> set (d_snaps d) \<and> r_name s = rm_name r"
    if "r \<in> set (point_removals dst name pins prot)" for r
    using space_plan_bounds_parts(3) [OF that] by blast
  ultimately show ?thesis by (simp add: removals_in_def)
qed

lemma legacy_mem:
  assumes "r \<in> set (concat (map (legacy_of pins start) (sort_key fst dst)))"
  shows "\<exists>d s. (rm_rel r, d) \<in> set dst \<and> s \<in> set (d_snaps d) \<and> r_name s = rm_name r \<and> LEGACY_NAME (rm_name r)
    \<and> \<not> (is_live (rm_rel r) d \<and> (\<exists>n. newest d = Some n \<and> r_guid s = r_guid n)) \<and> map_of pins (target r) = None
    \<and> (case start of None \<Rightarrow> True | Some t \<Rightarrow> r_creation s < t)"
proof -
  from assms obtain rel d s where *: "(rel, d) \<in> set dst" "s \<in> set (d_snaps d)" "LEGACY_NAME (r_name s)"
    "\<not> ((if is_live rel d then newest d else None) \<noteq> None \<and> r_guid s = r_guid (the (if is_live rel d then newest d else None)))"
    "map_of pins (rel @ ''@'' @ r_name s) = None" "case start of None \<Rightarrow> True | Some t \<Rightarrow> r_creation s < t"
    "rm_rel r = rel" "rm_name r = r_name s"
    unfolding legacy_of_def Let_def by auto
  then have "\<not> (is_live (rm_rel r) d \<and> (\<exists>n. newest d = Some n \<and> r_guid s = r_guid n))" by auto
  with * show ?thesis by (intro exI [of _ d] exI [of _ s]) (simp add: target_def)
qed

lemma legacy_removals_in:
  assumes "wf_dict dst" and "names_apart dst"
  shows "removals_in dst (concat (map (legacy_of pins start) (sort_key fst dst)))"
proof -
  have d: "distinct (map fst (sort_key fst dst))" using assms(1) by (simp add: wf_dict_def dict_keys_def distinct_map)
  have "distinct (map spot (concat (map (legacy_of pins start) (sort_key fst dst))))"
    by (rule distinct_spots [OF d, where part = fst], insert assms(2))
      (auto simp: names_apart_def legacy_of_def Let_def spot_def comp_def intro!: distinct_named)
  then show ?thesis using legacy_mem unfolding removals_in_def by blast
qed

text \<open>A point has one month, so no point is the best of two.\<close>

lemma distinct_monthly: "distinct (monthly_points (point_times dst) complete wh)"
proof -
  let ?w = "whole_or complete wh"
  let ?mb = "month_best complete ?w (point_times dst)"
  have spec: "wf_dict ?mb" "\<And>month. month_ok complete ?w (point_times dst) month (map_of ?mb month)"
    using month_best_spec [OF point_times_pos] by blast+
  have month: "\<exists>ts. map_of (point_times dst) (snd (snd b)) = Some ts \<and> month_of ts = month" if "(month, b) \<in> set ?mb" for month b
  proof -
    from that spec(1) have "map_of ?mb month = Some b" by (simp add: wf_dict_map_of)
    with spec(2) [of month] have "month_ok complete ?w (point_times dst) month (Some b)" by simp
    from month_ok_Some(1) [OF this] obtain mt where mt: "mt \<in> set (point_times dst)" "month_of (snd mt) = month" "b = cand ?w mt" by blast
    then have "map_of (point_times dst) (fst mt) = Some (snd mt)" using wf_dict_map_of [OF wf_point_times, of "fst mt" "snd mt" dst] by simp
    with mt show ?thesis by (simp add: cand_def)
  qed
  have "distinct ?mb" using spec(1) by (simp add: wf_dict_def dict_keys_def distinct_map)
  moreover have "inj_on (\<lambda>kb. snd (snd (snd kb))) (set ?mb)"
  proof (rule inj_onI)
    fix x y assume xy: "x \<in> set ?mb" "y \<in> set ?mb" "snd (snd (snd x)) = snd (snd (snd y))"
    obtain k b where x: "x = (k, b)" by (rule prod.exhaust)
    obtain k' b' where y: "y = (k', b')" by (rule prod.exhaust)
    note p = x y
    from month [of k b] month [of k' b'] xy p have "k = k'" by auto
    with xy(1,2) p spec(1) show "x = y" by (metis option.inject wf_dict_map_of)
  qed
  ultimately have "distinct (map (\<lambda>kb. snd (snd (snd kb))) ?mb)" by (simp add: distinct_map)
  then show ?thesis by (simp add: monthly_points_eq dict_values_def split_def comp_def)
qed

lemma oldest_removals_in:
  assumes "wf_dict dst" and "names_apart dst" and "distinct names"
  shows "removals_in dst (concat (map (\<lambda>name. point_removals dst name pins []) names))"
proof -
  have one: "removals_in dst (point_removals dst name pins [])" for name by (rule point_removals_in [OF assms(1,2)])
  have "distinct (map spot (concat (map (\<lambda>name. point_removals dst name pins []) names)))"
  proof (rule distinct_spots [where key = id and part = snd])
    show "distinct (map id names)" using assms(3) by simp
    show "distinct (map spot (point_removals dst name pins []))" for name using one by (simp add: removals_in_def)
    show "snd (spot r) = id name" if "r \<in> set (point_removals dst name pins [])" for r name
      using space_plan_bounds_parts(3) [OF that] by (auto simp: spot_def)
  qed
  then show ?thesis using one by (simp add: removals_in_def)
qed

lemma distinct_offered: "distinct (offered dst complete pol now p wh pins)"
  using distinct_monthly [of dst complete "Some wh"] by (simp add: offered_def space_candidates_def Let_def)

text \<open>The newest complete point has the name of a point, which no snapshot of sanoid or syncoid has.\<close>

lemma legacy_not_newest: "LEGACY_NAME name \<Longrightarrow> name \<noteq> newest_complete (point_times dst) complete wh"
proof
  assume l: "LEGACY_NAME name" and n: "name = newest_complete (point_times dst) complete wh"
  from l have ne: "name \<noteq> ''''" "\<not> POINT_RE name"
    by (auto simp: LEGACY_NAME_def startswith_def prefix_def POINT_RE_def ends_matching_def matches_def lit_def POINT_PREFIX_def
        chop_newline_def)
  let ?cands = "map (\<lambda>(name, ts). (name \<in> set (whole_or complete wh), ts, name)) (filter (\<lambda>(name, ts). name \<in> set complete) (point_times dst))"
  from n ne(1) obtain b where "max_by (\<lambda>t. t) ?cands = Some b" "snd (snd b) = name"
    by (auto simp: newest_complete_def Let_def split: option.splits)
  with max_by_Some(1) have "\<exists>ts. (name, ts) \<in> set (point_times dst)" by fastforce
  then have "POINT_RE name" using point_times_Some(1) wf_dict_map_of [OF wf_point_times] by blast
  with ne(2) show False ..
qed

text \<open>What a plan offered on a drive must leave alone.\<close>

definition keeps_safe :: "(string, dest) dict \<Rightarrow> string list \<Rightarrow> string list \<Rightarrow> (string, string) dict \<Rightarrow> removal \<Rightarrow> bool" where
  "keeps_safe dst complete wh pins r \<longleftrightarrow>
     map_of pins (target r) = None \<and> rm_name r \<noteq> newest_complete (point_times dst) complete (Some wh)
     \<and> (\<exists>d s. (rm_rel r, d) \<in> set dst \<and> s \<in> set (d_snaps d) \<and> r_name s = rm_name r
          \<and> \<not> (is_live (rm_rel r) d \<and> (\<exists>n. newest d = Some n \<and> r_guid s = r_guid n)))"

lemma offers_cases:
  assumes "wf_dict dst" and "names_apart dst"
    and "pl = oldest_plan dst pins (offered dst complete pol now p wh pins) n \<or> legacy_history dst pins first = Inr pl"
  obtains rs where "pl = prune_of dst rs" "removals_in dst rs" "\<And>r. r \<in> set rs \<Longrightarrow> keeps_safe dst complete wh pins r"
  using assms(3)
proof
  let ?names = "take n (offered dst complete pol now p wh pins)"
  let ?rs = "concat (map (\<lambda>name. point_removals dst name pins []) ?names)"
  assume "pl = oldest_plan dst pins (offered dst complete pol now p wh pins) n"
  then have pl: "pl = prune_of dst ?rs" by (simp add: oldest_plan_def)
  have "keeps_safe dst complete wh pins r" if "r \<in> set ?rs" for r
  proof -
    from that obtain name where name: "name \<in> set (offered dst complete pol now p wh pins)"
      "r \<in> set (point_removals dst name pins [])" by (auto dest: in_set_takeD)
    then have "name \<in> set (space_candidates dst complete pol now p (Some wh))" by (simp add: offered_def)
    from space_plan_bounds_parts(1) [OF this] space_plan_bounds_parts(3) [OF name(2)] show ?thesis
      by (auto simp: keeps_safe_def)
  qed
  with that pl oldest_removals_in [OF assms(1,2)] distinct_offered show thesis by (metis distinct_take)
next
  assume "legacy_history dst pins first = Inr pl"
  then obtain start where pl: "pl = prune_of dst (concat (map (legacy_of pins start) (sort_key fst dst)))"
    by (auto simp: legacy_history_def split: sum.splits)
  have "keeps_safe dst complete wh pins r" if "r \<in> set (concat (map (legacy_of pins start) (sort_key fst dst)))" for r
    using legacy_mem [OF that] legacy_not_newest unfolding keeps_safe_def by blast
  with that pl legacy_removals_in [OF assms(1,2)] show thesis by blast
qed

text \<open>C12: what \<open>zark prune\<close> offers on a drive beyond its policy. Whatever number of oldest points is chosen, and
  for the history from before the first point, the plan never holds a pinned snapshot, a snapshot of the newest
  complete point or the newest snapshot of a live dataset; a dataset goes whole only when it is not live and
  every snapshot at or below it is among the removals.\<close>

theorem prune_offers_keep:
  assumes "wf_dict dst" and "names_apart dst"
    and "pl = oldest_plan dst pins (offered dst complete pol now p wh pins) n \<or> legacy_history dst pins first = Inr pl"
  shows "(\<forall>r \<in> set (pr_snapshots pl). keeps_safe dst complete wh pins r)
    \<and> (\<forall>(t, why) \<in> set (pr_datasets pl). (\<exists>d. (t, d) \<in> set dst \<and> \<not> is_live t d)
        \<and> (\<forall>(rel, d) \<in> set dst. under rel t \<longrightarrow> (\<forall>s \<in> set (d_snaps d).
             \<exists>r \<in> set (pr_snapshots pl). rm_rel r = rel \<and> rm_name r = r_name s)))"
proof -
  from offers_cases [OF assms] obtain rs where rs: "pl = prune_of dst rs" "removals_in dst rs"
    "\<And>r. r \<in> set rs \<Longrightarrow> keeps_safe dst complete wh pins r" by blast
  have "pr_snapshots pl = rs" by (simp add: rs(1) prune_of_def)
  with rs whole_offers [OF assms(1,2) rs(2)] show ?thesis by (auto 0 4)
qed

theorem prune_offers_keep_witness:
  "wf_dict Retention.ex_drive \<and> names_apart Retention.ex_drive
   \<and> list_all (keeps_safe Retention.ex_drive ex_complete ex_complete [])
       (pr_snapshots (oldest_plan Retention.ex_drive [] (offered Retention.ex_drive ex_complete ex_policy 1775779200 ex_prune ex_complete []) 1))"
proof -
  have a: "wf_dict Retention.ex_drive" by (simp add: Retention.ex_drive_def wf_dict_def dict_keys_def)
  have b: "names_apart Retention.ex_drive" by (simp add: names_apart_def Retention.ex_drive_def ex_dest_def ex_pt_def)
  from a b prune_offers_keep [OF a b, of "oldest_plan Retention.ex_drive [] (offered Retention.ex_drive ex_complete ex_policy 1775779200 ex_prune ex_complete []) 1"
      "[]" ex_complete ex_policy 1775779200 ex_prune ex_complete 1 "''''"]
  show ?thesis by (simp add: list_all_iff)
qed


section \<open>Lemmas: the menu ends\<close>

definition lines_left :: "nat \<Rightarrow> ('w, 'z) session_scheme \<Rightarrow> bool" where
  "lines_left k m = (length (se_lines m) \<le> k)"

interpretation fewer: asking "lines_left k :: ('w, 'z) session_scheme \<Rightarrow> bool" "\<lambda>_. True" for k
  by unfold_locales (auto simp: lines_left_def line_proof_def suffix_length_le dest: suffix_length_le)

lemma issues_any: "issues P act \<Longrightarrow> issues (\<lambda>_. True) act"
  by (erule issues_mono) simp

lemmas fewer_acts = spares_rules [THEN issues_any, THEN fewer.keeps_allowed]

lemma keeps_destroys: "keeps (lines_left k) (destroy_snapshots exec targets)"
proof -
  have c: "issues (\<lambda>_. True) (destroy_chunks exec ds cs n singles)" for ds cs n singles
    by (induction cs arbitrary: n singles) (auto intro!: issues_rules)
  have g: "issues (\<lambda>_. True) (destroy_groups exec gs n singles)" for gs n singles
  proof (induction gs arbitrary: n singles)
    case (Cons g gs)
    then show ?case by (cases g) (auto intro!: issues_rules c)
  qed (auto intro: issues_rules)
  have s: "issues (\<lambda>_. True) (destroy_singles exec ts n failed)" for ts n failed
  proof (induction ts arbitrary: n failed)
    case (Cons t ts)
    then show ?case by (cases t) (auto intro!: issues_rules)
  qed (auto intro: issues_rules)
  show ?thesis unfolding destroy_snapshots_def by (intro fewer.keeps_allowed issues_rules g s)
qed

lemma keeps_release: "keeps (lines_left k) (release_points exec owners is)"
proof (rule fewer.keeps_allowed)
  have "issues (\<lambda>_. True) (release_point exec t own)" for t own
    unfolding release_point_def anchor_point_def Let_def by (intro issues_rules TrueI)
  then show "issues (\<lambda>_. True) (release_points exec owners is)" by (induction "is") (auto intro!: issues_rules)
qed

lemma fewer_typed: "keeps (lines_left k) typed"
  unfolding typed_def by (intro keeps_rules fewer.keeps_question)

lemma fewer_menu_act: "keeps (lines_left k) (menu_act h iv drives item)"
  unfolding menu_act_def by_age_def residues_def points_left_def drop_drive_anchors_def remove_items_def Let_def
  by (cases item) (auto intro!: keeps_rules keeps_as_step fewer.keeps_question fewer_acts keeps_destroys keeps_release fewer_typed)

lemma ask_choice_uses_line:
  "0 < n \<Longrightarrow> ensures (lines_left k) (ask_choice n 0) (\<lambda>r m. case r of Inl _ \<Rightarrow> True | Inr _ \<Rightarrow> 0 < k \<and> lines_left (k - 1) m)"
  using pick_line_bounds [of n 0] by (fastforce simp: ensures_def ask_choice_def lines_left_def split: prod.split option.split)

lemma ensures_case_sum:
  "(\<And>e. ensures (I (Inl e)) (f e) Q) \<Longrightarrow> (\<And>a. ensures (I (Inr a)) (g a) Q) \<Longrightarrow> ensures (I x) (case x of Inl e \<Rightarrow> f e | Inr a \<Rightarrow> g a) Q"
  by (cases x) simp_all

definition returned :: "'a option \<Rightarrow> bool" where
  "returned r = (r \<noteq> None)"

lemma returned_Some [simp]: "returned (Some x)"
  by (simp add: returned_def)

text \<open>One turn of the menu ends the command or leaves the next turn a line less.\<close>

lemma origin_turn:
  fixes h :: "'w host"
  assumes "0 < k \<Longrightarrow> ensures (lines_left (k - 1) :: ('w, 'z) session_scheme \<Rightarrow> bool) (origin_menu n h drives) (\<lambda>r _. returned r)"
  shows "ensures (lines_left k :: ('w, 'z) session_scheme \<Rightarrow> bool) (origin_menu (Suc n) h drives) (\<lambda>r _. returned r)"
proof -
  have act: "ensures (\<lambda>m :: ('w, 'z) session_scheme. 0 < k \<and> lines_left (k - 1) m)
      (do { r \<leftarrow> menu_act h iv drives item;
            case r of Inl e \<Rightarrow> State_Monad.return (Some (Inl e)) | Inr _ \<Rightarrow> origin_menu n h drives }) (\<lambda>r _. returned r)" for iv item
  proof (cases "0 < k")
    case True
    have "ensures (lines_left (k - 1) :: ('w, 'z) session_scheme \<Rightarrow> bool) (case r of Inl e \<Rightarrow> State_Monad.return (Some (Inl e)) | Inr _ \<Rightarrow> origin_menu n h drives)
        (\<lambda>r _. returned r)" for r
      using assms [OF True] by (cases r) (simp_all add: ensures_return)
    from ensures_bind [OF ensures_keeps [OF fewer_menu_act] this] show ?thesis by (rule ensures_pre) simp
  qed (simp add: ensures_def)
  have pick: "ensures (lines_left k :: ('w, 'z) session_scheme \<Rightarrow> bool) (do { pick \<leftarrow> ask_choice (length (menu_of iv)) 0;
      case pick of Inl e \<Rightarrow> State_Monad.return (Some (Inl e))
      | Inr j \<Rightarrow> if menu_of iv ! j = Done then State_Monad.return (Some (Inr ()))
          else do { r \<leftarrow> menu_act h iv drives (menu_of iv ! j);
                    case r of Inl e \<Rightarrow> State_Monad.return (Some (Inl e)) | Inr _ \<Rightarrow> origin_menu n h drives } })
      (\<lambda>r _. returned r)" for iv
    by (rule ensures_bind [OF ask_choice_uses_line], simp add: menu_of_def)
       (auto split: sum.split intro!: ensures_return ensures_if act simp del: One_nat_def)
  have stopped: "ensures (lines_left k :: ('w, 'z) session_scheme \<Rightarrow> bool) (do { r \<leftarrow> fatal e; State_Monad.return (Some r) }) (\<lambda>r _. returned r)" for e
    by (rule ensures_bind [OF ensures_keeps [OF fewer.keeps_question(5)]]) (simp add: ensures_return)
  show ?thesis unfolding origin_menu.simps Let_def
  proof (intro ensures_bind [OF ensures_keeps] fewer_acts)
    fix ori
    show "ensures (lines_left k :: ('w, 'z) session_scheme \<Rightarrow> bool) (case ori of
       Inl e \<Rightarrow> do { r \<leftarrow> fatal (''Cannot read origin: '' @ e); State_Monad.return (Some r) }
     | Inr os \<Rightarrow> do {
         _ \<leftarrow> summary (h_exec h) (inventory_of os drives []);
         pick \<leftarrow> ask_choice (length (menu_of (inventory_of os drives []))) 0;
         case pick of
           Inl e \<Rightarrow> State_Monad.return (Some (Inl e))
         | Inr j \<Rightarrow>
             if menu_of (inventory_of os drives []) ! j = Done then State_Monad.return (Some (Inr ()))
             else do {
               r \<leftarrow> menu_act h (inventory_of os drives []) drives (menu_of (inventory_of os drives []) ! j);
               case r of Inl e \<Rightarrow> State_Monad.return (Some (Inl e)) | Inr _ \<Rightarrow> origin_menu n h drives
             }
       }) (\<lambda>r _. returned r)"
    proof (cases ori)
      case (Inl e)
      then show ?thesis using stopped by (simp only: sum.case)
    next
      case (Inr os)
      note looked = ensures_keeps [OF spares_summary [THEN issues_any, THEN fewer.keeps_allowed]]
      show ?thesis unfolding Inr sum.case by (rule ensures_bind [OF looked pick])
    qed
  qed
qed

lemma origin_menu_ends: "ensures (lines_left n) (origin_menu (Suc n) h drives) (\<lambda>r _. returned r)"
proof (induction n)
  case 0
  show ?case by (rule origin_turn) simp
next
  case (Suc n)
  show ?case by (rule origin_turn) (use Suc in \<open>simp del: origin_menu.simps\<close>)
qed

text \<open>C40: the menu of \<open>zark prune\<close> ends. Whatever the operator types and the system answers, the loop over origin
  returns: with \<open>done\<close>, with a fatal error, or because no line is left to read.\<close>

theorem prune_menu_ends: "\<exists>end_of_run m'. run_state (prune_origin h c) m = (Some end_of_run, m')"
proof -
  have "lines_left (length (se_lines m)) m" by (simp add: lines_left_def)
  with origin_menu_ends [of "length (se_lines m)" h "names_by_guid c"]
  have "fst (run_state (prune_origin h c) m) \<noteq> None"
    by (auto simp: ensures_def returned_def prune_origin_def State_Monad.get_def)
  then show ?thesis by (cases "run_state (prune_origin h c) m") auto
qed

end
