(* ===== verification/Live_Pools.thy ===== *)
theory Live_Pools
  imports Drive_Contents
begin

text \<open>
  \<open>lib/live_pools.py\<close>: the live figures of \<open>zark monitor\<close>, read with two listings and no other command. Starting a
  process is the parameter \<open>spawn\<close>: it ended with a status and its output, or the call raised. The machine keeps
  what was started. \<open>split_lines\<close> leaves an empty last line where \<open>splitlines\<close> does not; both parsers skip it.
\<close>

section \<open>The two listings\<close>

definition SOURCE_POOLS :: "string list" where "SOURCE_POOLS = [''rpool'', ''bpool'']"

definition TIMEOUT_S :: nat where "TIMEOUT_S = 30"

definition ZPOOL_FIELDS :: "string list" where
  "ZPOOL_FIELDS = [''name'', ''guid'', ''size'', ''alloc'', ''free'', ''capacity'', ''health'']"

definition ZFS_FIELDS :: "string list" where
  "ZFS_FIELDS = [''name'', ''type'', ''used'', ''avail'', ''usedbydataset'', ''usedbysnapshots'', ''usedbychildren'',
     ''usedbyrefreservation'']"

definition zfs_head :: "string list" where
  "zfs_head = [''zfs'', ''list'', ''-Hp'', ''-t'', ''filesystem,volume'', ''-r'', ''-o'', join_on '','' ZFS_FIELDS]"

definition zpool_argv :: "string list" where
  "zpool_argv = [''zpool'', ''list'', ''-Hp'', ''-o'', join_on '','' ZPOOL_FIELDS]"

definition zfs_argv :: "string list \<Rightarrow> py_error + string list" where
  "zfs_argv pools = (if pools = [] \<or> \<not> distinct pools \<or> list_ex (\<lambda>p. p \<notin> set SOURCE_POOLS) pools then Inl ValueError
     else Inr (zfs_head @ pools))"

definition allowed :: "string list \<Rightarrow> bool" where
  "allowed argv = (argv = zpool_argv
     \<or> take (length zfs_head) argv = zfs_head \<and> zfs_argv (drop (length zfs_head) argv) = Inr argv)"

text \<open>What starting a process can come to, and what \<open>run_command\<close> makes of it.\<close>

datatype spawned = Ended int string string | NotFound | TimedOut | OSFailed string

type_synonym 'w spawn = "string list \<Rightarrow> nat \<Rightarrow> 'w \<Rightarrow> spawned \<times> 'w"

definition spawn_outcome :: "string list \<Rightarrow> nat \<Rightarrow> spawned \<Rightarrow> int \<times> string \<times> string" where
  "spawn_outcome argv timeout r = (case r of
     Ended rc out err \<Rightarrow> (rc, out, err)
   | NotFound \<Rightarrow> (127, '''', hd argv @ '': command not found'')
   | TimedOut \<Rightarrow> (124, '''', hd argv @ '' list did not answer within '' @ dec_of_nat timeout @ '' s'')
   | OSFailed why \<Rightarrow> (126, '''', hd argv @ '': '' @ why))"

definition run_command ::
    "'w spawn \<Rightarrow> string list \<Rightarrow> nat \<Rightarrow> (('w, 'z) machine_scheme, py_error + int \<times> string \<times> string) action" where
  "run_command spawn argv timeout =
     (if \<not> allowed argv then State_Monad.return (Inl ValueError)
      else State (\<lambda>m. case spawn argv timeout (m_world m) of
        (r, w) \<Rightarrow> (Inr (spawn_outcome argv timeout r), m\<lparr>m_world := w, m_issued := m_issued m @ [Argv argv]\<rparr>)))"


section \<open>Reading them\<close>

definition number :: "string \<Rightarrow> nat option" where
  "number t = (if isdigit t then Some (dec_val t) else None)"

record live_pool =
  lp_name :: string
  lp_guid :: string
  lp_health :: string
  lp_size :: "nat option"
  lp_alloc :: "nat option"
  lp_free :: "nat option"
  lp_capacity :: "nat option"

definition zpool_row :: "(string, live_pool) dict \<Rightarrow> string \<Rightarrow> (string, live_pool) dict" where
  "zpool_row out line = (case tabs line of
     [name, guid, size_t, alloc, free, cap, health] \<Rightarrow>
       if name = '''' then out
       else dict_set name \<lparr>lp_name = name, lp_guid = guid, lp_health = health, lp_size = number size_t, lp_alloc = number alloc,
         lp_free = number free, lp_capacity = number cap\<rparr> out
   | _ \<Rightarrow> out)"

definition parse_zpool :: "string \<Rightarrow> (string, live_pool) dict" where
  "parse_zpool t = foldl zpool_row [] (split_lines t)"

record live_dataset =
  ld_name :: string
  ld_type :: string
  ld_used :: nat
  ld_available :: nat
  ld_usedbydataset :: nat
  ld_usedbysnapshots :: nat
  ld_usedbychildren :: nat
  ld_usedbyrefreservation :: nat

definition zfs_row :: "string \<Rightarrow> live_dataset option" where
  "zfs_row line = (case tabs line of
     [name, kind, u, a, d, s, c, r] \<Rightarrow>
       if name = '''' then None
       else (case map number [u, a, d, s, c, r] of
          [Some u, Some a, Some d, Some s, Some c, Some r] \<Rightarrow>
            Some \<lparr>ld_name = name, ld_type = kind, ld_used = u, ld_available = a, ld_usedbydataset = d, ld_usedbysnapshots = s,
              ld_usedbychildren = c, ld_usedbyrefreservation = r\<rparr>
        | _ \<Rightarrow> None)
   | _ \<Rightarrow> None)"

definition parse_zfs :: "string \<Rightarrow> live_dataset list" where
  "parse_zfs t = sort_key ld_name (List.map_filter zfs_row (split_lines t))"

definition err_line :: "int \<Rightarrow> string \<Rightarrow> string \<Rightarrow> string" where
  "err_line rc err what = (case filter (\<lambda>l. l \<noteq> '''') (map strip (split_lines err)) of
     l # _ \<Rightarrow> l | [] \<Rightarrow> what @ '' ended with status '' @ py_str rc)"

text \<open>A Space object; \<open>datasets\<close> leave out their \<open>available_bytes\<close>, which \<open>usage_of\<close> does.\<close>

definition usage_of :: "live_dataset \<Rightarrow> dataset_usage" where
  "usage_of d = \<lparr>du_name = ld_name d, du_type = ld_type d, du_used = ld_used d, du_usedbydataset = ld_usedbydataset d,
     du_usedbysnapshots = ld_usedbysnapshots d, du_usedbychildren = ld_usedbychildren d,
     du_usedbyrefreservation = ld_usedbyrefreservation d\<rparr>"

record live_figures =
  lf_pools :: "(string, live_pool) dict"
  lf_spaces :: "(string, space) dict"
  lf_datasets :: "(string, dataset_usage list) dict"
  lf_error :: string

definition LiveFigures :: live_figures where
  "LiveFigures = \<lparr>lf_pools = [], lf_spaces = [], lf_datasets = [], lf_error = ''''\<rparr>"

definition of_pool :: "string \<Rightarrow> live_dataset list \<Rightarrow> live_dataset list" where
  "of_pool pool rows = filter (\<lambda>d. under (ld_name d) pool) rows"

definition add_source :: "string \<Rightarrow> live_dataset list \<Rightarrow> live_figures \<Rightarrow> string \<Rightarrow> live_figures" where
  "add_source stamp rows live pool =
     (case (find (\<lambda>d. ld_name d = pool) (of_pool pool rows), map_of (lf_pools live) pool) of
        (Some root, Some zp) \<Rightarrow>
          (case (lp_size zp, lp_alloc zp, lp_free zp, lp_capacity zp) of
             (Some sz, Some al, Some fr, Some cap) \<Rightarrow>
               live\<lparr>lf_spaces := dict_set pool \<lparr>sp_used_bytes = ld_used root, sp_available_bytes = ld_available root,
                        sp_pool_size_bytes = sz, sp_pool_alloc_bytes = al, sp_pool_free_bytes = fr, sp_capacity_pct = cap,
                        sp_measured_at = stamp\<rparr> (lf_spaces live),
                    lf_datasets := dict_set pool (map usage_of (of_pool pool rows)) (lf_datasets live)\<rparr>
           | _ \<Rightarrow> live)
      | _ \<Rightarrow> live)"

text \<open>\<open>read_live\<close> with the module's own runner; \<open>stamp\<close> is \<open>measured_at\<close>.\<close>

definition read_live :: "'w spawn \<Rightarrow> string \<Rightarrow> (('w, 'z) machine_scheme, py_error + live_figures) action" where
  "read_live spawn stamp = do {
     a \<leftarrow> run_command spawn zpool_argv TIMEOUT_S;
     case a of Inl e \<Rightarrow> State_Monad.return (Inl e)
     | Inr (rc, out, err) \<Rightarrow>
         if rc \<noteq> 0 then State_Monad.return (Inr (LiveFigures\<lparr>lf_error := err_line rc err ''zpool list''\<rparr>))
         else (let live = LiveFigures\<lparr>lf_pools := parse_zpool out\<rparr>;
                   sources = filter (\<lambda>p. map_of (lf_pools live) p \<noteq> None) SOURCE_POOLS in
           if sources = [] then State_Monad.return (Inr live)
           else (case zfs_argv sources of
              Inl e \<Rightarrow> State_Monad.return (Inl e)
            | Inr argv \<Rightarrow> do {
                b \<leftarrow> run_command spawn argv TIMEOUT_S;
                case b of Inl e \<Rightarrow> State_Monad.return (Inl e)
                | Inr (rc2, out2, err2) \<Rightarrow>
                    if rc2 \<noteq> 0 then State_Monad.return (Inr (live\<lparr>lf_error := err_line rc2 err2 ''zfs list''\<rparr>))
                    else State_Monad.return (Inr (foldl (add_source stamp (parse_zfs out2)) live sources))
              }))
   }"


section \<open>Lemmas: nothing but the listings\<close>

text \<open>The command lines the guard lets through.\<close>

definition listings :: "string list set" where
  "listings = insert zpool_argv {zfs_head @ pools | pools. pools \<noteq> [] \<and> distinct pools \<and> set pools \<subseteq> set SOURCE_POOLS}"

lemma zfs_argv_Inr: "zfs_argv pools = Inr argv \<longleftrightarrow> argv = zfs_head @ pools \<and> pools \<noteq> [] \<and> distinct pools \<and> set pools \<subseteq> set SOURCE_POOLS"
  by (auto simp: zfs_argv_def list_ex_iff)

lemma allowed_iff: "allowed argv \<longleftrightarrow> argv \<in> listings"
proof -
  have "take (length zfs_head) argv = zfs_head \<longleftrightarrow> argv = zfs_head @ drop (length zfs_head) argv"
    by (metis append_eq_conv_conj append_take_drop_id)
  then show ?thesis by (auto simp: allowed_def listings_def zfs_argv_Inr)
qed

lemma issues_run_command:
  fixes spawn :: "'w spawn"
  shows "issues (\<lambda>c. \<exists>argv \<in> listings. c = Argv argv) (run_command spawn argv timeout)"
proof (cases "allowed argv")
  case True
  show ?thesis unfolding issues_def
  proof
    fix m :: "('w, 'z) machine_scheme"
    obtain r w where "spawn argv timeout (m_world m) = (r, w)" by fastforce
    with True show "\<exists>w cs. list_all (\<lambda>c. \<exists>argv \<in> listings. c = Argv argv) cs
        \<and> snd (run_state (run_command spawn argv timeout) m) = m\<lparr>m_world := w, m_issued := m_issued m @ cs\<rparr>"
      by (intro exI [of _ w] exI [of _ "[Argv argv]"]) (simp add: run_command_def allowed_iff)
  qed
qed (simp add: run_command_def issues_return)

text \<open>What is reported of a source pool.\<close>

definition figures_ok :: "live_figures \<Rightarrow> bool" where
  "figures_ok live \<longleftrightarrow> dict_keys (lf_spaces live) = dict_keys (lf_datasets live)
     \<and> (\<forall>(pool, ds) \<in> set (lf_datasets live). pool \<in> set SOURCE_POOLS \<and> map_of (lf_pools live) pool \<noteq> None
          \<and> sorted (map du_name ds) \<and> pool \<in> du_name ` set ds \<and> (\<forall>d \<in> set ds. under (du_name d) pool))"

lemma set_dict_set_sub: "set (dict_set k v m) \<subseteq> insert (k, v) (set m)"
  by (induction m) (auto simp: dict_set_def)

lemma add_source_cases:
  "add_source stamp rows live pool = live
   \<or> (\<exists>root zp sp. find (\<lambda>d. ld_name d = pool) (of_pool pool rows) = Some root \<and> map_of (lf_pools live) pool = Some zp
       \<and> add_source stamp rows live pool = live\<lparr>lf_spaces := dict_set pool sp (lf_spaces live),
           lf_datasets := dict_set pool (map usage_of (of_pool pool rows)) (lf_datasets live)\<rparr>)"
  unfolding add_source_def by (auto split: option.split)

lemma add_source_ok:
  assumes "figures_ok live" and "sorted (map ld_name rows)" and "pool \<in> set SOURCE_POOLS"
  shows "figures_ok (add_source stamp rows live pool)"
  using add_source_cases [of stamp rows live pool]
proof
  assume "add_source stamp rows live pool = live"
  with assms(1) show ?thesis by simp
next
  assume "\<exists>root zp sp. find (\<lambda>d. ld_name d = pool) (of_pool pool rows) = Some root \<and> map_of (lf_pools live) pool = Some zp
       \<and> add_source stamp rows live pool = live\<lparr>lf_spaces := dict_set pool sp (lf_spaces live),
           lf_datasets := dict_set pool (map usage_of (of_pool pool rows)) (lf_datasets live)\<rparr>"
  then obtain root zp sp where 2: "find (\<lambda>d. ld_name d = pool) (of_pool pool rows) = Some root" "map_of (lf_pools live) pool = Some zp"
    "add_source stamp rows live pool = live\<lparr>lf_spaces := dict_set pool sp (lf_spaces live),
       lf_datasets := dict_set pool (map usage_of (of_pool pool rows)) (lf_datasets live)\<rparr>" by blast
  let ?ds = "map usage_of (of_pool pool rows)"
  have "sorted (map du_name ?ds)" using assms(2) by (simp add: of_pool_def usage_of_def comp_def sorted_filter)
  moreover have "\<forall>d \<in> set ?ds. under (du_name d) pool" by (auto simp: of_pool_def usage_of_def)
  moreover have "pool \<in> du_name ` set ?ds" using find_SomeD [OF 2(1)] by (force simp: usage_of_def)
  ultimately have all: "\<forall>(q, ds) \<in> insert (pool, ?ds) (set (lf_datasets live)). q \<in> set SOURCE_POOLS \<and> map_of (lf_pools live) q \<noteq> None
      \<and> sorted (map du_name ds) \<and> q \<in> du_name ` set ds \<and> (\<forall>d \<in> set ds. under (du_name d) q)"
    using assms(1,3) 2(2) unfolding figures_ok_def by simp
  have keys: "dict_keys (lf_spaces live) = dict_keys (lf_datasets live)" using assms(1) by (simp add: figures_ok_def)
  from all have "\<forall>(q, ds) \<in> set (dict_set pool ?ds (lf_datasets live)). q \<in> set SOURCE_POOLS \<and> map_of (lf_pools live) q \<noteq> None
      \<and> sorted (map du_name ds) \<and> q \<in> du_name ` set ds \<and> (\<forall>d \<in> set ds. under (du_name d) q)"
    using set_dict_set_sub [of pool ?ds "lf_datasets live"] by blast
  with keys show ?thesis unfolding 2(3) figures_ok_def by (simp add: dict_keys_set)
qed

lemma add_sources_ok:
  assumes "figures_ok live" and "sorted (map ld_name rows)" and "set sources \<subseteq> set SOURCE_POOLS"
  shows "figures_ok (foldl (add_source stamp rows) live sources)"
  using assms by (induction sources arbitrary: live) (simp_all add: add_source_ok)

lemma parse_zfs_sorted: "sorted (map ld_name (parse_zfs t))"
  by (simp add: parse_zfs_def)

lemma run_command_listing: "argv \<in> listings \<Longrightarrow> returns (run_command spawn argv timeout) (\<lambda>r. \<exists>x. r = Inr x)"
proof -
  assume "argv \<in> listings"
  then have "fst (run_state (run_command spawn argv timeout) m) = Inr (spawn_outcome argv timeout (fst (spawn argv timeout (m_world m))))" for m
    by (simp add: run_command_def allowed_iff split: prod.split)
  then show ?thesis unfolding returns_def by blast
qed

lemma read_live_returns: "returns (read_live spawn stamp) (\<lambda>r. \<exists>live. r = Inr live \<and> figures_ok live)"
proof -
  have z: "zpool_argv \<in> listings" by (simp add: listings_def)
  have empty: "figures_ok (LiveFigures\<lparr>lf_pools := ps\<rparr>)" "figures_ok (LiveFigures\<lparr>lf_pools := ps, lf_error := e\<rparr>)"
    "figures_ok (LiveFigures\<lparr>lf_error := e\<rparr>)" for ps e
    by (simp_all add: figures_ok_def LiveFigures_def dict_keys_def)
  have src: "zfs_argv (filter P SOURCE_POOLS) = Inr (zfs_head @ filter P SOURCE_POOLS)"
    "zfs_head @ filter P SOURCE_POOLS \<in> listings" if "filter P SOURCE_POOLS \<noteq> []" for P
    using that by (auto simp: zfs_argv_Inr listings_def SOURCE_POOLS_def)
  show ?thesis unfolding read_live_def
    by (rule returns_bind [OF run_command_listing [OF z]])
       (auto simp: Let_def src empty add_sources_ok parse_zfs_sorted
         intro!: returns_if returns_return returns_bind [OF run_command_listing [OF src(2)]])
qed

text \<open>C38: \<open>zark monitor\<close> can only list. Whatever the system answers, a pass starts nothing but its two listings, the
  second over source pools the first one found, and never fails; a pool is reported with a Space exactly when it
  is reported with datasets, and those are its own, its root among them, in the order of their names.\<close>

theorem monitor_only_lists:
  "issues (\<lambda>c. \<exists>argv \<in> listings. c = Argv argv) (read_live spawn stamp)
   \<and> (\<exists>live m'. run_state (read_live spawn stamp) m = (Inr live, m') \<and> figures_ok live)"
proof
  show "issues (\<lambda>c. \<exists>argv \<in> listings. c = Argv argv) (read_live spawn stamp)"
    unfolding read_live_def Let_def by (intro issues_rules issues_run_command)
  show "\<exists>live m'. run_state (read_live spawn stamp) m = (Inr live, m') \<and> figures_ok live"
    using read_live_returns [of spawn stamp] unfolding returns_def by (metis prod.collapse)
qed

end
