(* ===== verification/Run_Lock.thy ===== *)
theory Run_Lock
  imports Shell
begin

text \<open>
  \<open>lib/lock.py\<close>: one lock for every command that changes state. The kernel's part is the parameter-free fact the
  module relies on: an exclusive \<open>flock\<close> is granted when no open descriptor holds it, and it goes with the
  descriptor, which any end of the process closes. The processes of a system take the lock and end in any order: a
  step relation. The words \<open>cli_spec\<close> declares are the words themselves.
\<close>

section \<open>Which commands need it\<close>

definition READ_ONLY :: "string list" where "READ_ONLY = [''status'', ''explore'', ''monitor'']"

definition selftest_subcommand :: "string list \<Rightarrow> string" where
  "selftest_subcommand args = (case args of a # _ \<Rightarrow> if startswith a ''-'' then ''run'' else a | [] \<Rightarrow> ''run'')"

definition needs_lock :: "string \<Rightarrow> string list \<Rightarrow> bool" where
  "needs_lock command args =
     (if command \<in> set READ_ONLY then False
      else if command \<in> {''registry'', ''exclude''} then args \<noteq> [] \<and> hd args \<noteq> ''list''
      else if command = ''setup'' \<and> args = [''--remove''] then False
      else if command = ''selftest'' then selftest_subcommand args \<notin> {''status'', ''report'', ''certificate''}
      else True)"


section \<open>Taking it\<close>

definition EX_TEMPFAIL :: int where "EX_TEMPFAIL = 75"

datatype refusal = LockHeld string | OSError

text \<open>A process and what it was started with; \<open>lf_holder\<close> is the process whose descriptor the kernel gave the lock,
  \<open>lf_fds\<close> the processes that keep such a descriptor (\<open>_STATE\<close>), \<open>lf_text\<close> what the file says.\<close>

record proc =
  pc_pid :: nat
  pc_command :: string
  pc_args :: "string list"

record locks =
  lf_holder :: "nat option"
  lf_fds :: "nat list"
  lf_text :: string
  lf_running :: "proc list"

definition holder_text :: "proc \<Rightarrow> string \<Rightarrow> string" where
  "holder_text p stamp = ''zark '' @ pc_command p @ '' (pid '' @ dec_of_nat (pc_pid p) @ '', since '' @ stamp @ '')'' @ [CHR 0x0A]"

text \<open>\<open>acquire\<close>: \<open>opens\<close> says whether the directory and the file could be made and opened; the first 512 characters
  of the file name who holds it.\<close>

definition acquire :: "proc \<Rightarrow> string \<Rightarrow> bool \<Rightarrow> locks \<Rightarrow> (refusal + unit) \<times> locks" where
  "acquire p stamp opens s =
     (if pc_pid p \<in> set (lf_fds s) then (Inr (), s)
      else if \<not> opens then (Inl OSError, s)
      else case lf_holder s of
        Some q \<Rightarrow> (let holder = strip (take 512 (lf_text s)) in
          (Inl (LockHeld (if holder = '''' then ''another zark command'' else holder)), s))
      | None \<Rightarrow> (Inr (), s\<lparr>lf_holder := Some (pc_pid p), lf_fds := pc_pid p # lf_fds s, lf_text := holder_text p stamp\<rparr>))"

text \<open>\<open>guard\<close>: a refusal ends the process with status 75.\<close>

definition guard :: "proc \<Rightarrow> string \<Rightarrow> bool \<Rightarrow> locks \<Rightarrow> (int + unit) \<times> locks" where
  "guard p stamp opens s =
     (if \<not> needs_lock (pc_command p) (pc_args p) then (Inr (), s)
      else (case acquire p stamp opens s of (Inl _, t) \<Rightarrow> (Inl EX_TEMPFAIL, t) | (Inr _, t) \<Rightarrow> (Inr (), t)))"

text \<open>The end of a process, however it comes: its descriptors close.\<close>

definition proc_ends :: "nat \<Rightarrow> locks \<Rightarrow> locks" where
  "proc_ends pid s = s\<lparr>lf_holder := (if lf_holder s = Some pid then None else lf_holder s), lf_fds := removeAll pid (lf_fds s),
     lf_running := filter (\<lambda>p. pc_pid p \<noteq> pid) (lf_running s)\<rparr>"

definition no_locks :: locks where
  "no_locks = \<lparr>lf_holder = None, lf_fds = [], lf_text = '''', lf_running = []\<rparr>"

text \<open>The runs of a system: a command starts under a process id no running one has, and passes the guard or is
  refused; a process ends.\<close>

inductive lock_step :: "locks \<Rightarrow> locks \<Rightarrow> bool" where
  starts: "pc_pid p \<notin> pc_pid ` set (lf_running s) \<Longrightarrow> guard p stamp opens s = (Inr (), t)
    \<Longrightarrow> lock_step s (t\<lparr>lf_running := p # lf_running t\<rparr>)"
| refused: "pc_pid p \<notin> pc_pid ` set (lf_running s) \<Longrightarrow> guard p stamp opens s = (Inl rc, t) \<Longrightarrow> lock_step s t"
| ends: "lock_step s (proc_ends pid s)"

inductive lock_reached :: "locks \<Rightarrow> bool" where
  first: "lock_reached no_locks"
| step: "lock_reached s \<Longrightarrow> lock_step s t \<Longrightarrow> lock_reached t"

inductive_cases lock_stepE: "lock_step s t"


section \<open>Lemmas: the lock is exclusive\<close>

definition writer :: "proc \<Rightarrow> bool" where
  "writer p = needs_lock (pc_command p) (pc_args p)"

text \<open>The processes with a descriptor are the running commands that change state, and only the kernel's holder has one.\<close>

definition lock_inv :: "locks \<Rightarrow> bool" where
  "lock_inv s \<longleftrightarrow> set (lf_fds s) = set_option (lf_holder s) \<and> set (lf_fds s) = pc_pid ` {p \<in> set (lf_running s). writer p}
     \<and> distinct (map pc_pid (lf_running s))"

lemma guard_cases:
  assumes "guard p stamp opens s = (r, t)" and "pc_pid p \<notin> set (lf_fds s)"
  shows "(\<exists>rc. r = Inl rc \<and> t = s) \<or> (r = Inr () \<and> t = s \<and> \<not> writer p)
    \<or> (r = Inr () \<and> writer p \<and> lf_holder s = None
       \<and> t = s\<lparr>lf_holder := Some (pc_pid p), lf_fds := pc_pid p # lf_fds s, lf_text := holder_text p stamp\<rparr>)"
  using assms by (auto simp: guard_def acquire_def writer_def Let_def split: if_splits option.splits)

lemma started_inv:
  assumes "lock_inv s" and "pc_pid p \<notin> pc_pid ` set (lf_running s)" and "guard p stamp opens s = (Inr (), t)"
  shows "lock_inv (t\<lparr>lf_running := p # lf_running t\<rparr>)"
proof -
  have "pc_pid p \<notin> set (lf_fds s)" using assms(1,2) by (auto simp: lock_inv_def)
  from guard_cases [OF assms(3) this] consider "t = s" "\<not> writer p"
    | "writer p" "lf_holder s = None"
      "t = s\<lparr>lf_holder := Some (pc_pid p), lf_fds := pc_pid p # lf_fds s, lf_text := holder_text p stamp\<rparr>" by auto
  then show ?thesis
  proof cases
    case 1
    then have "{q \<in> set (p # lf_running s). writer q} = {q \<in> set (lf_running s). writer q}" by auto
    with 1 assms(1,2) show ?thesis unfolding lock_inv_def by auto
  next
    case 2
    then have "{q \<in> set (p # lf_running s). writer q} = insert p {q \<in> set (lf_running s). writer q}" by auto
    with 2 assms(1,2) show ?thesis unfolding lock_inv_def by auto
  qed
qed

lemma ended_inv: "lock_inv s \<Longrightarrow> lock_inv (proc_ends pid s)"
proof -
  assume inv: "lock_inv s"
  have "pc_pid ` {p \<in> set (filter (\<lambda>p. pc_pid p \<noteq> pid) (lf_running s)). writer p}
      = pc_pid ` {p \<in> set (lf_running s). writer p} - {pid}" by auto
  with inv show ?thesis by (auto simp: lock_inv_def proc_ends_def distinct_map intro: inj_on_subset)
qed

lemma lock_step_inv:
  assumes "lock_step s t" and "lock_inv s"
  shows "lock_inv t"
  using assms(1)
proof (rule lock_stepE)
  fix p stamp opens t'
  assume "t = t'\<lparr>lf_running := p # lf_running t'\<rparr>" "pc_pid p \<notin> pc_pid ` set (lf_running s)" "guard p stamp opens s = (Inr (), t')"
  with started_inv [OF assms(2)] show ?thesis by simp
next
  fix p stamp opens rc
  assume g: "pc_pid p \<notin> pc_pid ` set (lf_running s)" "guard p stamp opens s = (Inl rc, t)"
  then have "pc_pid p \<notin> set (lf_fds s)" using assms(2) by (auto simp: lock_inv_def)
  from guard_cases [OF g(2) this] assms(2) show ?thesis by auto
next
  fix pid
  assume "t = proc_ends pid s"
  with ended_inv [OF assms(2)] show ?thesis by simp
qed

lemma lock_reached_inv: "lock_reached s \<Longrightarrow> lock_inv s"
proof (induction rule: lock_reached.induct)
  case first
  show ?case by (simp add: lock_inv_def no_locks_def)
qed (rule lock_step_inv)


definition ex_proc :: proc where
  "ex_proc = \<lparr>pc_pid = 5, pc_command = ''backup'', pc_args = []\<rparr>"

definition ex_locks :: locks where
  "ex_locks = (snd (guard ex_proc ''now'' True no_locks))\<lparr>lf_running := [ex_proc]\<rparr>"

lemma ex_lock_reached: "lock_reached ex_locks"
proof -
  have g: "guard ex_proc ''now'' True no_locks = (Inr (), snd (guard ex_proc ''now'' True no_locks))"
    "lf_running (snd (guard ex_proc ''now'' True no_locks)) = []"
    by (simp_all add: guard_def acquire_def ex_proc_def no_locks_def needs_lock_def READ_ONLY_def)
  have "lock_step no_locks ex_locks"
    using lock_step.starts [OF _ g(1)] g(2) by (simp add: ex_locks_def no_locks_def)
  with lock_reached.first show ?thesis by (rule lock_reached.step)
qed


end
