(* ===== verification/Spec2Isabelle.thy ===== *)
theory Spec2Isabelle
  imports Engine_Steps Exclusion_Records Restore_Plan_Safe Pool_Record Origin_Prune Cleanup Drives Boot_Rewrite Prune_Safe
    Live_Pools Run_Lock
begin

text \<open>
  \<^bold>\<open>zark\<close> backs up a ZFS root system (its pools \<open>rpool\<close> and \<open>bpool\<close>, ``origin'') to removable drives and
  recovers a machine from one of them. This development models the parts of \<open>src/lib\<close> that decide
  what is sent, kept, destroyed and restored, and the command \<open>zark prune\<close>, and proves what makes them safe.

  \<^bold>\<open>Parts and how they interact.\<close> A run (\<open>lib/engine.py\<close>) surveys origin and the drive
  (\<open>lib/survey.py\<close>), asks the planner (\<open>lib/replication.py\<close>) what each dataset needs to reach the new
  backup point, transfers in up to three rounds, surveys again, anchors the point in origin
  (\<open>lib/anchors.py\<close>), marks it on the drive (\<open>lib/drive_marks.py\<close>) and removes from origin what its
  verdicts allow. The datasets a user left out come from \<open>lib/exclusions.py\<close>, which also records
  them on the point. What a drive keeps is decided by \<open>lib/retention.py\<close> over the points of
  \<open>lib/restore_points.py\<close> and carried out by \<open>lib/reclaim.py\<close> in the order \<open>lib/dependents.py\<close> gives.
  \<open>recover\<close> picks a point, reads the drive (\<open>lib/backup_layout.py\<close>) and makes the plan of
  \<open>lib/restore_plan.py\<close> with the mount properties of \<open>lib/mount_props.py\<close>; the pools and the \<open>/boot\<close> it
  creates come from the record a run left on the point (\<open>lib/pool_record.py\<close>, checked by
  \<open>lib/recover_checks.py\<close> against the features of \<open>lib/zfs_features.py\<close>). The registered drives are kept
  by \<open>lib/registry.py\<close> and \<open>lib/config.py\<close>; \<open>lib/identity.py\<close> and \<open>lib/drives.py\<close> say which disk is
  which and which must not be touched. \<open>lib/origin_prune.py\<close> sorts what origin still holds. Pools are
  imported, exported and read back by \<open>lib/zfs.py\<close>, which captures a damaged one with
  \<open>lib/forensics.py\<close>; \<open>lib/keystore.py\<close> opens the keys, \<open>lib/cleanup.py\<close> undoes at the end what a command
  tracked, and \<open>lib/boot_rewrite.py\<close> adapts the boot files of a recovered system. \<open>commands/prune.py\<close> asks (with
  the questions of \<open>lib/log.py\<close>) what to remove from a drive or from origin and has \<open>lib/reclaim.py\<close> remove it;
  \<open>lib/drive_contents.py\<close> says what a drive holds, \<open>lib/live_pools.py\<close> watches the connected drives without
  touching them, and \<open>lib/lock.py\<close> lets one zark at a time run.

  \<^bold>\<open>Theories.\<close>
    \<^item> \<open>Zark_Prelude\<close>: Python dictionaries as association lists (locale \<open>py_dict\<close>), dataset trees
      (locale \<open>forest\<close>), sorting and maxima. \<open>Py_Text\<close>, \<open>Civil_Time\<close>, \<open>Json\<close>, \<open>Sha256\<close>: what the sources
      use of \<open>str\<close>, \<open>int\<close>, \<open>re\<close>, \<open>datetime\<close>, \<open>json\<close> and \<open>hashlib\<close>.
    \<^item> \<open>Shell\<close>: \<open>lib/sh.py\<close>. A command is run by a parameter \<open>exec\<close> that maps a command and a world to a
      result and a world; an action is a state monad over the machine, which keeps the commands issued.
      Locale \<open>run_invariant\<close> carries an invariant through actions by the commands they issue.
    \<^item> \<open>Replication\<close>, \<open>Retention\<close>, \<open>Restore_Points\<close>, \<open>Dependents\<close>, \<open>Reclaim\<close>, \<open>Survey\<close>, \<open>Drive_Marks\<close>,
      \<open>Anchors\<close>, \<open>Mount_Props\<close>, \<open>Exclusions\<close>, \<open>Restore_Plan\<close>: the module of the same name. \<open>Backup_Layout\<close>:
      \<open>lib/backup_layout.py\<close> and the decisions of \<open>lib/boot_layout.py\<close>.
    \<^item> \<open>Engine\<close>: \<open>lib/engine.py\<close>; \<open>Engine_Drop\<close>, \<open>Engine_Run\<close>, \<open>Engine_Steps\<close>: what it guarantees.
    \<^item> \<open>Exclusion_Records\<close>, \<open>Restore_Plan_Safe\<close>: what the records and the restore plans guarantee.
    \<^item> \<open>Registry\<close>: \<open>lib/registry.py\<close> and the drives of \<open>lib/config.py\<close>; a directory with inodes, of which a crash
      keeps what was synced, stands for the file system under a write. \<open>Zfs_Features\<close>, \<open>Origin_Prune\<close>: the
      module of the same name. \<open>Pool_Record\<close>: \<open>lib/pool_record.py\<close> and \<open>lib/recover_checks.py\<close>.
      \<open>Identity\<close>: \<open>lib/identity.py\<close> and the check of a disk in \<open>lib/drives.py\<close>; what the kernel says of a
      path is the record \<open>paths\<close>. \<open>Drives\<close>: the rest of \<open>lib/drives.py\<close>.
    \<^item> \<open>Pools\<close>: \<open>lib/zfs.py\<close> and \<open>lib/forensics.py\<close>, with weakest preconditions of actions and what ZFS does with
      pools as the predicate \<open>zfs_pools\<close>. \<open>Keystore\<close>, \<open>Cleanup\<close>: the module of the same name; a cleanup is a
      part of the machine. \<open>Boot_Rewrite\<close>: \<open>lib/boot_rewrite.py\<close> and the \<open>grub.cfg\<close> helper of \<open>lib/zfs.py\<close>.
    \<^item> \<open>Console\<close>: the questions of \<open>lib/log.py\<close>. A session is a machine with the lines the user will type and the
      commands issued; locale \<open>asking\<close> carries a relation between sessions through questions and actions.
      \<open>Prune_Command\<close>: \<open>commands/prune.py\<close>; \<open>Prune_Safe\<close>: what it guarantees. \<open>Drive_Contents\<close>, \<open>Live_Pools\<close>:
      the module of the same name. \<open>Run_Lock\<close>: \<open>lib/lock.py\<close>, with any number of processes as a step relation.

  \<^bold>\<open>Correspondence.\<close> A Python class is a record or a datatype with its constructors, a function or method
  is a definition of its name, a loop is a recursion or a fold over what the loop carries, a raised
  error the left side of a sum (or \<open>None\<close>), \<open>log.fatal\<close> an outcome without a result. Unbounded
  integers are \<open>int\<close> or \<open>nat\<close>; the digest works on 32-bit words. Log lines, progress and the wording
  of tables are output and left out, unless a function returns the text.

  \<^bold>\<open>What is shown.\<close> Planner: an incremental starts from the newest common snapshot, a modified or
  diverged copy is never sent onto, every expected dataset has a row. Run: success means every
  dataset holds the point by guid; what is dropped from origin leaves the next run a base; an
  unverified run settles nothing; a stopped timer is started again; an interrupted run undoes only its
  own point. Retention and destroys: what is kept, and that what is destroyed is exactly what is
  reported. Points: they partition the snapshots and never resolve to the future. Exclusions: the
  protected datasets, equivalence with a reference, the record read back and its size. Recovery: the plan is
  safe, its mountpoints are those ZFS gives, and what a run recorded of the pools is read back and
  accepted. Registry: what is saved is what is loaded, and a crash leaves the old or the new file.
  Disks: one that is accepted holds nothing in use; a drive is known by its id; its names in the
  registry settle. Pools: a backup pool is imported only as asked for, a read-back never loses track of it,
  a cleanup lets go of every pool. Boot: a recovered \<open>grub.cfg\<close> names the new pool. Keystore: one without
  its key is left open, which the code does not mean to. Origin: a residue offered is no drive's base.
  \<open>zark prune\<close>: it destroys nothing before a typed confirmation, never offers a snapshot that must stay, and its
  menu ends. Lock: two processes never hold it at once. Monitor: it only lists. Drive contents: every
  snapshot of the drive is counted once.

  \<^bold>\<open>Bounds.\<close> The wait for sanoid makes 120 rounds of 5 s (\<open>SANOID_WAIT_SECONDS\<close> is 600), a run
  makes \<open>MAX_ROUNDS\<close> = 3 rounds of transfers, as the sources do. The search for an archive name has as
  much fuel as the drive has names, plus one, which is proved to be enough; the menu of \<open>zark prune\<close> as much as lines are left, plus one, proved enough
  too. The JSON reader has fuel
  \<open>2 * length + 1\<close>, and more fuel gives the same result. A record of exclusions has at most 64 parts of at most
  8191 bytes.

  \<^bold>\<open>Assumed of the outside.\<close> Of ZFS, only where a theorem says so as a hypothesis: that a property
  set is the one read back, that the text it prints is graphic, that recorded mountpoints are
  paths ZFS prints, that \<open>zpool list\<close>, \<open>get\<close>, \<open>import\<close> and \<open>export\<close> do what they document. Every such theorem
  has a witness on a concrete shell.

  \<^bold>\<open>Not modelled.\<close> The interactive commands of \<open>src/commands\<close> but \<open>prune\<close> (they ask, print and call the modules
  above), partitioning, LUKS, GRUB and initramfs work, mounts and chroots, SMART and surface tests,
  the self-test bench, the status files, the monitor's screen and the terminal output: their effect is that of
  programs outside the sources, or text. The forecasts of \<open>lib/sanoid_retention.py\<close> and
  \<open>lib/transfer_eta.py\<close> are floating-point estimates that decide nothing.
\<close>

end
